(* ===== verification/Prelude.thy ===== *)
theory Prelude
  imports Main "HOL-Library.Word"
begin

text \<open>
  Shared vocabulary of the development: the integer types of \<^verbatim>\<open>include/type.h\<close>, the ways in which
  a piece of kernel code can fail to return normally, sequencing of computations that may
  fail, and the generic lemmas on words that the components use.
\<close>

unbundle bit_operations_syntax

section \<open>Machine types\<close>

text \<open>The integer types of \<^verbatim>\<open>include/type.h\<close>; a pointer of the i386 target is a 32-bit word.\<close>

type_synonym u8 = "8 word"
type_synonym u16 = "16 word"
type_synonym u32 = "32 word"
type_synonym u64 = "64 word"

section \<open>Failures and sequencing\<close>

text \<open>
  A computation of the kernel that does not return normally ends in a \<open>fault\<close>:
  \<^item> \<open>Assertion f l\<close>: the \<open>assert\<close> at line \<open>l\<close> of file \<open>f\<close> failed; \<open>assertion_failure\<close> prints
    and then spins in \<open>while(1)\<close>, whatever process is running;
  \<^item> \<open>Halted msg\<close>: \<open>panic\<close> was called on behalf of a task, and \<open>sys_printx\<close> halts the machine;
  \<^item> \<open>Wild what\<close>: a pointer or index outside of its array is dereferenced (undefined behaviour);
  \<^item> \<open>Spin\<close>: a loop that never ends;
  \<^item> \<open>Blocked what\<close>: a process waits for a message or an interrupt that never comes.
\<close>

datatype fault = Assertion string nat | Halted "u8 list" | Wild string | Spin | Blocked string

definition ebind :: "fault + 'a \<Rightarrow> ('a \<Rightarrow> fault + 'b) \<Rightarrow> fault + 'b" where
  "ebind r f = (case r of Inl e \<Rightarrow> Inl e | Inr x \<Rightarrow> f x)"

text \<open>A block of consecutive assertions, each with its line: the first that fails is the fault.\<close>

fun asserts :: "string \<Rightarrow> (nat \<times> bool) list \<Rightarrow> fault + unit" where
  "asserts src [] = Inr ()"
| "asserts src ((line, ok) # rest) = (if ok then asserts src rest else Inl (Assertion src line))"

text \<open>A loop that may not end is \<open>None\<close> in its own model and the fault \<open>Spin\<close> in its caller's.\<close>

definition or_spin :: "'a option \<Rightarrow> fault + 'a" where
  "or_spin r = (case r of None \<Rightarrow> Inl Spin | Some x \<Rightarrow> Inr x)"

named_theorems res_simps \<open>evaluation of computations that may fail\<close>

lemma ebind_simps [simp, res_simps]:
  "ebind (Inl e) f = Inl e"
  "ebind (Inr x) f = f x"
  by (simp_all add: ebind_def)

lemma ebind_if [res_simps]: "ebind (if c then a else b) f = (if c then ebind a f else ebind b f)"
  by simp

lemma ebind_Inr_iff: "ebind r f = Inr y \<longleftrightarrow> (\<exists>x. r = Inr x \<and> f x = Inr y)"
  by (cases r) simp_all

lemma ebind_Inl_iff: "ebind r f = Inl e \<longleftrightarrow> r = Inl e \<or> (\<exists>x. r = Inr x \<and> f x = Inl e)"
  by (cases r) simp_all

lemma ebind_assoc: "ebind (ebind r f) g = ebind r (\<lambda>x. ebind (f x) g)"
  by (cases r) simp_all

lemma ebindE [elim]:
  assumes "ebind r f = Inr y"
  obtains x where "r = Inr x" and "f x = Inr y"
  using assms by (auto simp: ebind_Inr_iff)

lemma asserts_ok_iff: "asserts src cs = Inr () \<longleftrightarrow> (\<forall>(l, c) \<in> set cs. c)"
  by (induction src cs rule: asserts.induct) auto

lemma asserts_Inr_iff: "asserts src cs = Inr u \<longleftrightarrow> (\<forall>(l, c) \<in> set cs. c)"
  using asserts_ok_iff [of src cs] by (cases u) simp

lemma asserts_Inl_is_Assertion:
  "asserts src cs = Inl e \<Longrightarrow> \<exists>l. (l, False) \<in> set cs \<and> e = Assertion src l"
  by (induction src cs rule: asserts.induct) (auto split: if_splits)

lemma or_spin_simps [simp, res_simps]:
  "or_spin None = Inl Spin"
  "or_spin (Some x) = Inr x"
  by (simp_all add: or_spin_def)

lemma or_spin_Inr_iff [simp]: "or_spin r = Inr x \<longleftrightarrow> r = Some x"
  by (cases r) simp_all

section \<open>Words\<close>

lemma unat_of_nat_small [simp]:
  "n < 2 ^ LENGTH('a) \<Longrightarrow> unat (of_nat n :: 'a::len word) = n"
  by (simp add: unat_of_nat take_bit_nat_eq_self_iff)

text \<open>
  The distance from \<open>d\<close> up to an address \<open>x\<close>, modulo the address space: \<open>x\<close> lies in the
  \<open>n\<close> bytes from \<open>d\<close> exactly when \<open>unat (x - d) < n\<close>.
\<close>

lemma unat_add_sub_distance:
  fixes d :: "'a::len word"
  assumes "n < 2 ^ LENGTH('a)"
  shows "unat (d + of_nat n - d) = n"
  using assms by simp

lemma unat_minus_Suc:
  fixes x :: "'a::len word"
  assumes "x \<noteq> 0"
  shows "unat (x - 1) = unat x - 1"
  using assms by (simp add: unat_minus_one)

lemma word_and_mask_mod:
  fixes x :: "'a::len word"
  shows "x AND mask n = word_of_nat (unat x mod 2 ^ n)"
  by (simp flip: take_bit_eq_mask take_bit_eq_mod add: unsigned_take_bit_eq [symmetric])

lemma unat_drop_bit_div:
  fixes x :: "'a::len word"
  shows "unat (drop_bit n x) = unat x div 2 ^ n"
  by (metis unat_drop_bit_eq drop_bit_eq_div)

lemma unat_lt_u32: "unat (x :: u32) < 2 ^ 32"
  using unsigned_less [of x, where ?'a = nat] by simp

end
