(* ===== verification/Ring.thy ===== *)
theory Ring
  imports Prelude
begin

text \<open>
  Bounded first-in first-out buffers. The keyboard driver and the terminals keep their input in an
  array with a head and a tail pointer that wrap and a count; the locale \<open>bounded_fifo\<close> is the
  contract that their readers and writers rely on, and the lemmas about \<open>ring_items\<close> discharge
  it for an array of any capacity.
\<close>

section \<open>The contract\<close>

text \<open>\<open>n\<close> reads, one after the other.\<close>

primrec reads :: "('b \<Rightarrow> 'a \<times> 'b) \<Rightarrow> nat \<Rightarrow> 'b \<Rightarrow> 'a list \<times> 'b" where
  "reads get 0 b = ([], b)"
| "reads get (Suc n) b = (let (x, b1) = get b; (xs, b2) = reads get n b1 in (x # xs, b2))"

locale bounded_fifo =
  fixes cap :: nat
    and put :: "'a \<Rightarrow> 'b \<Rightarrow> 'b"
    and get :: "'b \<Rightarrow> 'a \<times> 'b"
    and items :: "'b \<Rightarrow> 'a list"
    and ok :: "'b \<Rightarrow> bool"
  assumes bounded: "ok b \<Longrightarrow> length (items b) \<le> cap"
    and put_ok: "ok b \<Longrightarrow> ok (put x b)"
    and put_items: "ok b \<Longrightarrow> items (put x b) = (if length (items b) < cap then items b @ [x] else items b)"
    and get_ok: "ok b \<Longrightarrow> items b \<noteq> [] \<Longrightarrow> ok (snd (get b))"
    and get_items: "ok b \<Longrightarrow> items b \<noteq> [] \<Longrightarrow> items b = fst (get b) # items (snd (get b))"
begin

lemma puts_ok: "ok b \<Longrightarrow> ok (fold put xs b)"
  by (induction xs arbitrary: b) (simp_all add: put_ok)

text \<open>What arrives while the buffer is full is dropped; nothing that was accepted is lost or reordered.\<close>

lemma puts_items: "ok b \<Longrightarrow> items (fold put xs b) = take cap (items b @ xs)"
proof (induction xs arbitrary: b)
  case Nil
  then show ?case using bounded by simp
next
  case (Cons x xs)
  have "items (fold put (x # xs) b) = take cap (items (put x b) @ xs)"
    using Cons by (simp add: put_ok)
  also have "\<dots> = take cap (items b @ x # xs)"
    using bounded [OF Cons.prems]
    by (cases "length (items b) < cap") (simp_all add: put_items [OF Cons.prems] take_Cons' Suc_diff_Suc)
  finally show ?case .
qed

lemma puts_fit: "ok b \<Longrightarrow> length (items b) + length xs \<le> cap \<Longrightarrow> items (fold put xs b) = items b @ xs"
  by (simp add: puts_items)

lemma reads_items:
  assumes "ok b" "n \<le> length (items b)"
  shows "fst (reads get n b) = take n (items b) \<and> items (snd (reads get n b)) = drop n (items b) \<and> ok (snd (reads get n b))"
  using assms
proof (induction n arbitrary: b)
  case (Suc n)
  then have ne: "items b \<noteq> []" by auto
  obtain x b1 where g: "get b = (x, b1)" by fastforce
  have b1: "ok b1" "items b = x # items b1"
    using get_ok [OF Suc.prems(1) ne] get_items [OF Suc.prems(1) ne] by (simp_all add: g)
  with Suc.IH [of b1] Suc.prems(2) show ?case by (auto simp: g split: prod.splits)
qed simp

text \<open>Bytes that fit come out as they went in.\<close>

lemma puts_reads:
  assumes "ok b" "items b = []" "length xs \<le> cap"
  shows "fst (reads get (length xs) (fold put xs b)) = xs"
  using reads_items [OF puts_ok [OF assms(1)], of "length xs" xs] assms by (simp add: puts_fit)

end

section \<open>Arrays that wrap\<close>

definition ring_next :: "nat \<Rightarrow> nat \<Rightarrow> nat" where
  "ring_next cap i = (if i + 1 = cap then 0 else i + 1)"

definition ring_items :: "nat \<Rightarrow> (nat \<Rightarrow> 'a) \<Rightarrow> nat \<Rightarrow> nat \<Rightarrow> 'a list" where
  "ring_items cap buf tail n = map (\<lambda>i. buf ((tail + i) mod cap)) [0..<n]"

definition ring_ok :: "nat \<Rightarrow> nat \<Rightarrow> nat \<Rightarrow> nat \<Rightarrow> bool" where
  "ring_ok cap head tail n \<longleftrightarrow> tail < cap \<and> n \<le> cap \<and> head = (tail + n) mod cap"

lemma length_ring_items [simp]: "length (ring_items cap buf tail n) = n"
  by (simp add: ring_items_def)

lemma ring_next_mod: "i < cap \<Longrightarrow> ring_next cap i = (i + 1) mod cap"
  by (auto simp: ring_next_def)

lemma ring_ok_put: "ring_ok cap head tail n \<Longrightarrow> n < cap \<Longrightarrow> ring_ok cap (ring_next cap head) tail (n + 1)"
  by (auto simp: ring_ok_def ring_next_mod mod_Suc_eq)

lemma ring_items_put:
  assumes "ring_ok cap head tail n" "n < cap"
  shows "ring_items cap (buf(head := x)) tail (n + 1) = ring_items cap buf tail n @ [x]"
proof -
  have "(tail + i) mod cap \<noteq> (tail + n) mod cap" if "i < n" for i
  proof
    assume "(tail + i) mod cap = (tail + n) mod cap"
    with that have "cap dvd tail + n - (tail + i)"
      by (metis mod_eq_dvd_iff_nat add_le_cancel_left less_imp_le)
    with that have "cap \<le> n - i" by (auto dest!: dvd_imp_le)
    then show False using that assms(2) by simp
  qed
  with assms(1) show ?thesis by (auto simp: ring_items_def ring_ok_def)
qed

lemma ring_ok_get: "ring_ok cap head tail n \<Longrightarrow> 0 < n \<Longrightarrow> ring_ok cap head (ring_next cap tail) (n - 1)"
proof -
  assume a: "ring_ok cap head tail n" "0 < n"
  then obtain k where k: "n = Suc k" using gr0_implies_Suc by blast
  have "(Suc tail mod cap + k) mod cap = (tail + n) mod cap" by (simp add: mod_add_left_eq k)
  with a k show ?thesis by (auto simp: ring_ok_def ring_next_mod)
qed

lemma ring_items_get:
  assumes "ring_ok cap head tail n" "0 < n"
  shows "ring_items cap buf tail n = buf tail # ring_items cap buf (ring_next cap tail) (n - 1)"
proof -
  from assms have t: "tail < cap" by (simp add: ring_ok_def)
  have "[0..<n] = 0 # map Suc [0..<n - 1]" using assms(2) by (simp add: upt_conv_Cons map_Suc_upt)
  with t show ?thesis by (simp add: ring_items_def ring_next_mod mod_simps)
qed

end
