(* ===== verification/Memory.thy ===== *)
theory Memory
  imports Prelude
begin

text \<open>
  Byte-addressed memory and the block operations of \<^verbatim>\<open>lib/memory.asm\<close>, which every C file calls.
  Memory is a total function on 32-bit addresses; address arithmetic wraps as on the machine.
  \<open>kmemcpy\<close> moves whole double words, so it rounds the length up to a multiple of four; the
  \<open>loop\<close> instruction decrements before it tests, so a count of zero runs \<open>2^32\<close> times.
\<close>

type_synonym mem = "u32 \<Rightarrow> u8"

section \<open>Little-endian double words\<close>

definition load32 :: "mem \<Rightarrow> u32 \<Rightarrow> u32" where
  "load32 m a = ucast (m a) OR push_bit 8 (ucast (m (a + 1)))
     OR push_bit 16 (ucast (m (a + 2))) OR push_bit 24 (ucast (m (a + 3)))"

definition store32 :: "u32 \<Rightarrow> u32 \<Rightarrow> mem \<Rightarrow> mem" where
  "store32 a v m = m(a := ucast v, a + 1 := ucast (drop_bit 8 v),
     a + 2 := ucast (drop_bit 16 v), a + 3 := ucast (drop_bit 24 v))"

lemma not_bit_u8: "8 \<le> n \<Longrightarrow> \<not> bit (w :: u8) n"
  using bit_imp_le_length [of w n] by auto

lemma bit_load32: "bit (load32 m a) n \<longleftrightarrow>
    (if n < 8 then bit (m a) n else if n < 16 then bit (m (a + 1)) (n - 8)
     else if n < 24 then bit (m (a + 2)) (n - 16) else n < 32 \<and> bit (m (a + 3)) (n - 24))"
  by (auto simp: load32_def bit_simps not_bit_u8)

lemma load32_bytes:
  "ucast (load32 m a) = m a"
  "ucast (drop_bit 8 (load32 m a)) = m (a + 1)"
  "ucast (drop_bit 16 (load32 m a)) = m (a + 2)"
  "ucast (drop_bit 24 (load32 m a)) = m (a + 3)"
  by (auto simp: load32_def bit_simps not_bit_u8 intro!: bit_word_eqI)

lemma four_offsets_distinct:
  fixes a :: u32
  shows "a + 1 \<noteq> a" "a + 2 \<noteq> a" "a + 3 \<noteq> a" "a + 2 \<noteq> a + 1" "a + 3 \<noteq> a + 1" "a + 3 \<noteq> a + 2"
    "a \<noteq> a + 1" "a \<noteq> a + 2" "a \<noteq> a + 3" "a + 1 \<noteq> a + 2" "a + 1 \<noteq> a + 3" "a + 2 \<noteq> a + 3"
  by simp_all

lemma load32_store32 [simp]: "load32 (store32 a v m) a = v"
  by (rule bit_word_eqI) (auto simp: bit_load32 store32_def bit_simps four_offsets_distinct)

lemma store32_load32: "store32 d (load32 m s) m =
    m(d := m s, d + 1 := m (s + 1), d + 2 := m (s + 2), d + 3 := m (s + 3))"
  by (simp only: store32_def load32_bytes)

lemma store32_other:
  assumes "4 \<le> unat (x - a)"
  shows "store32 a v m x = m x"
  using assms by (auto simp: store32_def)

text \<open>The four bytes at \<open>a\<close> are \<open>a + i\<close> for \<open>i < 4\<close>; \<open>x\<close> is one of them when \<open>unat (x - a) < 4\<close>.\<close>

lemma within4_cases:
  fixes x a :: u32
  assumes "unat (x - a) < 4"
  obtains "x = a" | "x = a + 1" | "x = a + 2" | "x = a + 3"
proof -
  have "x = a + of_nat (unat (x - a))" by simp
  moreover from assms have "unat (x - a) = 0 \<or> unat (x - a) = 1 \<or> unat (x - a) = 2 \<or> unat (x - a) = 3"
    by linarith
  ultimately show ?thesis
    using that by (metis Num.of_nat_simps(1,2) add.right_neutral of_nat_numeral)
qed

section \<open>Bulk stores\<close>

text \<open>Consecutive bytes written from \<open>a\<close> on, as a loop \<open>*p++ = b\<close> does.\<close>

fun store_bytes :: "u32 \<Rightarrow> u8 list \<Rightarrow> mem \<Rightarrow> mem" where
  "store_bytes a [] m = m"
| "store_bytes a (b # bs) m = store_bytes (a + 1) bs (m(a := b))"

fun load_bytes :: "mem \<Rightarrow> u32 \<Rightarrow> nat \<Rightarrow> u8 list" where
  "load_bytes m a 0 = []"
| "load_bytes m a (Suc n) = m a # load_bytes m (a + 1) n"

lemma length_load_bytes [simp]: "length (load_bytes m a n) = n"
  by (induction m a n rule: load_bytes.induct) simp_all

lemma nth_load_bytes: "i < n \<Longrightarrow> load_bytes m a n ! i = m (a + of_nat i)"
proof (induction m a n arbitrary: i rule: load_bytes.induct)
  case (2 m a n)
  then show ?case by (cases i) (simp_all add: algebra_simps)
qed simp

lemma distance_pred:
  fixes x a :: u32
  assumes "x \<noteq> a"
  shows "unat (x - (a + 1)) = unat (x - a) - 1"
proof -
  from assms have "x - a \<noteq> 0" by simp
  then have "unat (x - a - 1) = unat (x - a) - 1" by (rule unat_minus_one)
  then show ?thesis by (simp add: algebra_simps)
qed

lemma store_bytes_apply:
  assumes "length bs \<le> 2 ^ 32"
  shows "store_bytes a bs m x =
    (if unat (x - a) < length bs then bs ! unat (x - a) else m x)"
  using assms
proof (induction bs arbitrary: a m)
  case (Cons b bs)
  show ?case
  proof (cases "x = a")
    case True
    have "unat (a - (a + 1)) = 2 ^ 32 - 1" by (simp add: unsigned_minus_1_eq_mask mask_eq_exp_minus_1)
    with Cons.prems have "\<not> unat (a - (a + 1)) < length bs" by simp
    with Cons.prems True have "store_bytes (a + 1) bs (m(a := b)) x = b"
      by (intro Cons.IH [THEN trans]) simp_all
    with True show ?thesis by simp
  next
    case False
    then have pos: "unat (x - a) \<noteq> 0" by (simp add: unat_eq_zero)
    with False Cons distance_pred [OF False] show ?thesis
      by (auto simp: nth_Cons')
  qed
qed simp

lemma store_bytes_outside:
  "length bs \<le> 2 ^ 32 \<Longrightarrow> length bs \<le> unat (x - a) \<Longrightarrow> store_bytes a bs m x = m x"
  by (simp add: store_bytes_apply)

section \<open>kmemcpy\<close>

fun copy_dwords :: "nat \<Rightarrow> u32 \<Rightarrow> u32 \<Rightarrow> mem \<Rightarrow> mem" where
  "copy_dwords 0 esi edi m = m"
| "copy_dwords (Suc ecx) esi edi m =
     copy_dwords ecx (esi + 4) (edi + 4) (store32 edi (load32 m esi) m)"

definition loop_count :: "u32 \<Rightarrow> nat" where
  "loop_count ecx = (if ecx = 0 then 2 ^ 32 else unat ecx)"

definition kmemcpy_dwords :: "u32 \<Rightarrow> nat" where
  "kmemcpy_dwords n =
     loop_count (if n AND 3 = 0 then drop_bit 2 n else drop_bit 2 n + 1)"

definition kmemcpy :: "u32 \<Rightarrow> u32 \<Rightarrow> u32 \<Rightarrow> mem \<Rightarrow> mem" where
  "kmemcpy src dest n m = copy_dwords (kmemcpy_dwords n) src dest m"

lemma kmemcpy_dwords_pos:
  assumes "n \<noteq> 0"
  shows "kmemcpy_dwords n = (unat n + 3) div 4"
proof -
  have and3: "n AND 3 = word_of_nat (unat n mod 4)"
    using word_and_mask_mod [of n 2] by (simp add: mask_eq_exp_minus_1)
  have "unat n mod 4 < 2 ^ LENGTH(32)" by (simp add: less_trans [of _ 4])
  then have u: "unat (n AND 3) = unat n mod 4" by (simp only: and3 unat_of_nat_small)
  have dvd: "n AND 3 = 0 \<longleftrightarrow> unat n mod 4 = 0"
    by (simp flip: unat_eq_0 add: u)
  have drop: "unat (drop_bit 2 n) = unat n div 4"
    by (simp add: drop_bit_eq_div unat_div)
  have lt: "unat n < 2 ^ 32" using unsigned_less [of n, where ?'a = nat] by simp
  have drop1: "unat (drop_bit 2 n + 1) = unat n div 4 + 1"
    using lt drop by (subst unat_plus_simple [THEN iffD1]) (auto simp: word_le_nat_alt unat_word_ariths)
  show ?thesis
  proof (cases "unat n mod 4 = 0")
    case True
    with assms have "unat n div 4 \<noteq> 0"
      by (metis div_mult_mod_eq mult_0 add_0 unat_eq_0)
    with True drop dvd have "kmemcpy_dwords n = unat n div 4"
      by (auto simp: kmemcpy_dwords_def loop_count_def unat_eq_0 [symmetric])
    with True show ?thesis by presburger
  next
    case False
    then have "drop_bit 2 n + 1 \<noteq> 0"
      using drop1 by (metis Suc_eq_plus1 nat.distinct(2) unat_0)
    with False drop1 dvd have "kmemcpy_dwords n = unat n div 4 + 1"
      by (simp add: kmemcpy_dwords_def loop_count_def)
    with False show ?thesis by presburger
  qed
qed

lemma kmemcpy_dwords_0 [simp]: "kmemcpy_dwords 0 = 2 ^ 32"
  by (simp add: kmemcpy_dwords_def loop_count_def)

text \<open>
  The copy of \<open>n\<close> double words between ranges that do not overlap. Two ranges of \<open>k\<close> bytes at
  \<open>s\<close> and \<open>d\<close> are disjoint when each starts at least \<open>k\<close> bytes after the other, modulo \<open>2^32\<close>.
\<close>

definition disjoint_ranges :: "u32 \<Rightarrow> u32 \<Rightarrow> nat \<Rightarrow> bool" where
  "disjoint_ranges s d k \<longleftrightarrow> k \<le> unat (s - d) \<and> k \<le> unat (d - s)"

lemma unat_diff_swap:
  fixes s d :: u32
  assumes "s \<noteq> d"
  shows "unat (d - s) = 2 ^ 32 - unat (s - d)"
proof -
  from assms have "unat s \<noteq> unat d" by (simp flip: word_unat_eq_iff)
  then show ?thesis
    using unsigned_less [of s, where ?'a = nat] unsigned_less [of d, where ?'a = nat]
    by (auto simp: unat_sub_if' word_size)
qed

lemma disjoint_ranges_sum:
  assumes "disjoint_ranges s d k" "unat v < k"
  shows "unat (s + v - d) = unat (s - d) + unat v"
proof -
  from assms have ne: "s \<noteq> d" by (auto simp: disjoint_ranges_def)
  with assms have "unat (s - d) + unat v < 2 ^ 32"
    using unat_diff_swap [OF ne] by (auto simp: disjoint_ranges_def)
  moreover have "s + v - d = (s - d) + v" by simp
  ultimately show ?thesis by (simp only: unat_word_ariths) simp
qed

lemma distance_minus4:
  fixes x d :: u32
  shows "unat (x - (d + 4)) =
    (if 4 \<le> unat (x - d) then unat (x - d) - 4 else 2 ^ 32 - 4 + unat (x - d))"
proof -
  have eq: "x - (d + 4) = (x - d) - 4" by simp
  have lt: "unat (x - d) < 2 ^ 32" using unsigned_less [of "x - d", where ?'a = nat] by simp
  show ?thesis
    unfolding eq using lt by (auto simp: unat_sub_if' word_le_nat_alt)
qed

lemma copy_dwords_apply:
  assumes "4 * n \<le> 2 ^ 32" "disjoint_ranges s d (4 * n)"
  shows "copy_dwords n s d m x =
    (if unat (x - d) < 4 * n then m (s + (x - d)) else m x)"
  using assms
proof (induction n arbitrary: s d m)
  case (Suc n)
  let ?m = "store32 d (load32 m s) m"
  from Suc.prems have pre: "4 * n \<le> 2 ^ 32" "disjoint_ranges (s + 4) (d + 4) (4 * n)"
    by (auto simp: disjoint_ranges_def)
  have IH: "copy_dwords (Suc n) s d m x =
      (if unat (x - (d + 4)) < 4 * n then ?m (s + (x - d)) else ?m x)"
    using Suc.IH [OF pre, of ?m] by simp
  show ?case
  proof (cases "4 \<le> unat (x - d)")
    case True
    then have x: "?m x = m x" by (rule store32_other)
    have "?m (s + (x - d)) = m (s + (x - d))" if "unat (x - d) < 4 * Suc n"
    proof (rule store32_other)
      show "4 \<le> unat (s + (x - d) - d)"
        using disjoint_ranges_sum [OF Suc.prems(2) that] True by simp
    qed
    with IH x True show ?thesis by (auto simp: distance_minus4)
  next
    case False
    then have "x = d \<or> x = d + 1 \<or> x = d + 2 \<or> x = d + 3"
      using within4_cases [of x d] by auto
    then have "?m x = m (s + (x - d))" by (auto simp: store32_load32)
    with IH False Suc.prems(1) show ?thesis by (simp add: distance_minus4)
  qed
qed simp

text \<open>
  The bytes that \<open>kmemcpy\<close> writes: \<open>n\<close> rounded up to a multiple of four, never fewer than
  asked for and up to three more.
\<close>

definition copied_bytes :: "u32 \<Rightarrow> nat" where
  "copied_bytes n = 4 * ((unat n + 3) div 4)"

lemma copied_bytes_bounds: "unat n \<le> copied_bytes n \<and> copied_bytes n < unat n + 4"
  unfolding copied_bytes_def by presburger

lemma copied_bytes_exact: "unat n mod 4 = 0 \<Longrightarrow> copied_bytes n = unat n"
  unfolding copied_bytes_def by presburger

lemma copied_bytes_le: "copied_bytes n \<le> 2 ^ 32"
proof -
  have "unat n < 2 ^ 32" using unsigned_less [of n, where ?'a = nat] by simp
  then have "(unat n + 3) div 4 \<le> (2 ^ 32 + 3) div 4" by (intro div_le_mono) simp
  then show ?thesis by (simp add: copied_bytes_def)
qed

lemma kmemcpy_apply:
  assumes "n \<noteq> 0" "disjoint_ranges s d (copied_bytes n)"
  shows "kmemcpy s d n m x =
    (if unat (x - d) < copied_bytes n then m (s + (x - d)) else m x)"
  using assms copied_bytes_le [of n]
  by (simp add: kmemcpy_def kmemcpy_dwords_pos copied_bytes_def copy_dwords_apply)

lemma kmemcpy_nth:
  assumes "n \<noteq> 0" "disjoint_ranges s d (copied_bytes n)" "i < copied_bytes n"
  shows "kmemcpy s d n m (d + of_nat i) = m (s + of_nat i)"
proof -
  from assms(3) copied_bytes_le [of n] assms(2) have "i < 2 ^ 32"
    using unat_lt_u32 [of "s - d"] by (simp add: disjoint_ranges_def)
  then show ?thesis using assms by (simp add: kmemcpy_apply)
qed

lemma load32_cong:
  assumes "\<And>i. i < 4 \<Longrightarrow> m (a + of_nat i) = m' (b + of_nat i)"
  shows "load32 m a = load32 m' b"
  using assms [of 0] assms [of 1] assms [of 2] assms [of 3] by (simp add: load32_def)

lemma load32_kmemcpy:
  assumes "disjoint_ranges s d (copied_bytes n)" "n \<noteq> 0" "4 \<le> copied_bytes n"
  shows "load32 (kmemcpy s d n m) d = load32 m s"
  using assms by (intro load32_cong kmemcpy_nth) auto

lemma load32_other:
  assumes "\<And>i. i < 4 \<Longrightarrow> 4 \<le> unat (a + of_nat i - b)"
  shows "load32 (store32 b v m) a = load32 m a"
  using assms by (intro load32_cong store32_other) auto

text \<open>A word stored outside of a range does not show in the range.\<close>

lemma store32_disjoint:
  assumes "disjoint_ranges s d k" "4 \<le> k" "i < k"
  shows "store32 s v m (d + of_nat i) = m (d + of_nat i)"
proof (rule store32_other)
  have d': "disjoint_ranges d s k" using assms(1) by (auto simp: disjoint_ranges_def)
  have "k < 2 ^ 32" using assms(1) unat_lt_u32 [of "s - d"] by (simp add: disjoint_ranges_def)
  then have "unat (of_nat i :: u32) = i" using assms(3) by simp
  with disjoint_ranges_sum [OF d', of "of_nat i"] assms
  show "4 \<le> unat (d + of_nat i - s)" by (auto simp: disjoint_ranges_def)
qed

section \<open>kmemset and kmemcmp\<close>

fun set_bytes :: "nat \<Rightarrow> u32 \<Rightarrow> u8 \<Rightarrow> mem \<Rightarrow> mem" where
  "set_bytes 0 edi al m = m"
| "set_bytes (Suc ecx) edi al m = set_bytes ecx (edi + 1) al (m(edi := al))"

definition kmemset :: "u32 \<Rightarrow> u8 \<Rightarrow> u32 \<Rightarrow> mem \<Rightarrow> mem" where
  "kmemset dest v n m = set_bytes (loop_count n) dest v m"

lemma set_bytes_store_bytes: "set_bytes n a v m = store_bytes a (replicate n v) m"
  by (induction n arbitrary: a m) simp_all

lemma loop_count_le: "loop_count n \<le> 2 ^ 32"
  using unsigned_less [of n, where ?'a = nat] by (simp add: loop_count_def)

lemma kmemset_apply:
  "kmemset d v n m x = (if unat (x - d) < loop_count n then v else m x)"
  using loop_count_le [of n]
  by (simp add: kmemset_def set_bytes_store_bytes store_bytes_apply)

text \<open>
  \<open>kmemcmp\<close> compares like \<open>strncmp\<close>: it stops at a difference (result 1), at a common zero byte
  or when the count is used up (result 0). The count is tested after it is decremented.
\<close>

fun compare_bytes :: "nat \<Rightarrow> mem \<Rightarrow> u32 \<Rightarrow> u32 \<Rightarrow> u32" where
  "compare_bytes 0 m esi edi = 0"
| "compare_bytes (Suc ecx) m esi edi =
     (if m esi \<noteq> m edi then 1 else if m esi = 0 then 0
      else compare_bytes ecx m (esi + 1) (edi + 1))"

definition kmemcmp :: "u32 \<Rightarrow> u32 \<Rightarrow> u32 \<Rightarrow> mem \<Rightarrow> u32" where
  "kmemcmp src dest max_chars m = compare_bytes (loop_count max_chars) m src dest"

lemma compare_bytes_eq_0_iff:
  "compare_bytes n m s d = 0 \<longleftrightarrow>
    takeWhile (\<lambda>b. b \<noteq> 0) (load_bytes m s n) = takeWhile (\<lambda>b. b \<noteq> 0) (load_bytes m d n)"
  by (induction n m s d rule: compare_bytes.induct) auto

lemma compare_bytes_range: "compare_bytes n m s d \<in> {0, 1}"
  by (induction n m s d rule: compare_bytes.induct) auto

end
