(* ===== verification/Protect.thy ===== *)
theory Protect
  imports Memory
begin

text \<open>
  Segment descriptors and interrupt gates: \<^verbatim>\<open>include/protect.h\<close>, \<^verbatim>\<open>kernel/protect.c\<close>, the
  base-address readers of \<^verbatim>\<open>lib/page.c\<close> and the programming of the 8259A in \<^verbatim>\<open>kernel/i8259A.c\<close>.
  The entry points of the interrupt handlers are assembly symbols whose addresses the linker
  chooses: they are the parameter \<open>symaddr\<close>.
\<close>

section \<open>Descriptors\<close>

record descriptor =
  limit_low :: u16
  base_low :: u16
  base_mid :: u8
  attr1 :: u8
  limit_high_attr2 :: u8
  base_high :: u8

record gate =
  offset_low :: u16
  selector :: u16
  dcount :: u8
  attr :: u8
  offset_high :: u16

definition DA_PRESENT :: u16 where "DA_PRESENT = 0x80"
definition DA_CATEGORY_SG :: u16 where "DA_CATEGORY_SG = 0"
definition DA_LDT :: u16 where "DA_LDT = DA_PRESENT OR DA_CATEGORY_SG OR 2"
definition DA_386TSS :: u16 where "DA_386TSS = DA_PRESENT OR DA_CATEGORY_SG OR 9"
definition DA_386INT_GATE :: u16 where "DA_386INT_GATE = DA_PRESENT OR DA_CATEGORY_SG OR 0x0E"

definition SELECTOR_KERNEL_CS :: u16 where "SELECTOR_KERNEL_CS = 0x8"
definition SELECTOR_KERNEL_DS :: u16 where "SELECTOR_KERNEL_DS = 0x10"
definition SELECTOR_VIDEO :: u16 where "SELECTOR_VIDEO = 0x18 OR 0x3"
definition SELECTOR_TSS :: u16 where "SELECTOR_TSS = 0x20"
definition SELECTOR_LDT :: u16 where "SELECTOR_LDT = 0x28"

definition init_descriptor :: "u32 \<Rightarrow> u32 \<Rightarrow> u16 \<Rightarrow> descriptor \<Rightarrow> descriptor" where
  "init_descriptor base limit attribute d = d\<lparr>
     limit_low := ucast (limit AND 0x0FFFF),
     base_low := ucast (base AND 0x0FFFF),
     base_mid := ucast (drop_bit 16 base AND 0x0FF),
     attr1 := ucast (attribute AND 0xFF),
     limit_high_attr2 := ucast ((drop_bit 16 limit AND 0x0F) OR ucast (drop_bit 8 attribute AND 0xF0)),
     base_high := ucast (drop_bit 24 base AND 0x0FF)\<rparr>"

text \<open>The base of a descriptor as \<open>selector2base\<close> and \<open>ldt_proc_id2base\<close> assemble it.\<close>

definition selector2base :: "(nat \<Rightarrow> descriptor) \<Rightarrow> u16 \<Rightarrow> u32" where
  "selector2base gdt seg = (let p = gdt (unat (drop_bit 3 seg)) in
     push_bit 24 (ucast (base_high p)) OR push_bit 16 (ucast (base_mid p)) OR ucast (base_low p))"

definition ldt_desc_base :: "descriptor \<Rightarrow> u32" where
  "ldt_desc_base d =
     push_bit 24 (ucast (base_high d)) + push_bit 16 (ucast (base_mid d)) + ucast (base_low d)"

text \<open>What the processor reads: the 20-bit limit and the twelve attribute bits.\<close>

definition desc_limit :: "descriptor \<Rightarrow> u32" where
  "desc_limit d = ucast (limit_low d) OR push_bit 16 (ucast (limit_high_attr2 d AND 0x0F))"

definition desc_attr :: "descriptor \<Rightarrow> u16" where
  "desc_attr d = ucast (attr1 d) OR push_bit 8 (ucast (limit_high_attr2 d AND 0xF0))"

text \<open>The byte and half-word masks of the code, as \<open>mask\<close>, whose bits the simplifier knows.\<close>

lemma mask_consts:
  "(0x0F :: 'a::len word) = mask 4"
  "(0xFF :: 'a::len word) = mask 8"
  "(0xFFFF :: 'a::len word) = mask 16"
  "(0xF0 :: 'a::len word) = push_bit 4 (mask 4)"
  "(0xF0FF :: 'a::len word) = push_bit 12 (mask 4) OR mask 8"
  by (simp_all add: push_bit_eq_mult mask_eq_exp_minus_1)

lemma not_bit_offset: "\<not> bit w (k + (n - k)) \<Longrightarrow> bit w n \<Longrightarrow> n < k"
  by (cases "n < k") auto

lemma ldt_desc_base_eq_or:
  "ldt_desc_base d =
     push_bit 24 (ucast (base_high d)) OR push_bit 16 (ucast (base_mid d)) OR ucast (base_low d)"
proof -
  have 1: "(push_bit 24 (ucast (base_high d)) :: u32) AND push_bit 16 (ucast (base_mid d)) = 0"
    by (rule bit_word_eqI) (auto simp: bit_simps not_bit_u8)
  have 2: "(push_bit 24 (ucast (base_high d)) OR push_bit 16 (ucast (base_mid d)) :: u32)
      AND ucast (base_low d) = 0"
    by (rule bit_word_eqI) (auto simp: bit_simps dest: bit_imp_le_length)
  show ?thesis
    unfolding ldt_desc_base_def by (simp only: disjunctive_add_eq_or [OF 1] disjunctive_add_eq_or [OF 2] or.assoc)
qed

lemma init_descriptor_fields:
  "ldt_desc_base (init_descriptor base limit a d) = base"
  "desc_limit (init_descriptor base limit a d) = take_bit 20 limit"
  "desc_attr (init_descriptor base limit a d) = a AND 0xF0FF"
proof -
  let ?d = "init_descriptor base limit a d"
  note defs = init_descriptor_def desc_limit_def desc_attr_def ldt_desc_base_eq_or
  show "ldt_desc_base ?d = base"
    unfolding defs mask_consts by (rule bit_word_eqI) (auto simp: bit_simps dest: not_bit_offset)
  show "desc_limit ?d = take_bit 20 limit"
    unfolding defs mask_consts by (rule bit_word_eqI) (auto simp: bit_simps)
  show "desc_attr ?d = a AND 0xF0FF"
    unfolding defs mask_consts by (rule bit_word_eqI) (auto simp: bit_simps)
qed

text \<open>
  C39: a descriptor built by \<open>init_descriptor\<close> reads back as it was asked for: both base readers
  return the 32-bit base, the processor's limit is the low 20 bits of the requested limit and
  its attributes are the requested type, privilege and granularity bits.
\<close>

theorem init_descriptor_roundtrip:
  "selector2base (g(unat (drop_bit 3 sel) := init_descriptor base limit a d)) sel = base
   \<and> ldt_desc_base (init_descriptor base limit a d) = base
   \<and> desc_limit (init_descriptor base limit a d) = take_bit 20 limit
   \<and> desc_attr (init_descriptor base limit a d) = a AND 0xF0FF"
  using init_descriptor_fields(1) [of base limit a d]
  by (simp add: selector2base_def Let_def ldt_desc_base_eq_or init_descriptor_fields(2,3))

section \<open>Interrupt gates\<close>

definition init_idt_descriptor ::
    "u8 \<Rightarrow> u8 \<Rightarrow> u32 \<Rightarrow> u8 \<Rightarrow> (u8 \<Rightarrow> gate) \<Rightarrow> (u8 \<Rightarrow> gate)" where
  "init_idt_descriptor vector desc_type handler privilege idt =
     idt(vector := \<lparr>
       offset_low = ucast (handler AND 0xFFFF),
       selector = SELECTOR_KERNEL_CS,
       dcount = 0,
       attr = desc_type OR push_bit 5 privilege,
       offset_high = ucast (drop_bit 16 handler AND 0xFFFF)\<rparr>)"

definition gate_offset :: "gate \<Rightarrow> u32" where
  "gate_offset g = ucast (offset_low g) OR push_bit 16 (ucast (offset_high g))"

definition gate_dpl :: "gate \<Rightarrow> u8" where
  "gate_dpl g = drop_bit 5 (attr g) AND 3"

definition PRIVILEGE_KERNEL :: u8 where "PRIVILEGE_KERNEL = 0"
definition PRIVILEGE_USER :: u8 where "PRIVILEGE_USER = 3"
definition INT_VECTOR_IRQ0 :: u8 where "INT_VECTOR_IRQ0 = 0x20"
definition INT_VECTOR_IRQ8 :: u8 where "INT_VECTOR_IRQ8 = 0x28"
definition INT_VECTOR_SYS_CALL :: u8 where "INT_VECTOR_SYS_CALL = 0x70"

text \<open>The calls of \<open>init_protect_mode_interrupt_mechanism\<close>, in order: vector, handler, privilege.\<close>

definition idt_entries :: "(u8 \<times> string \<times> u8) list" where
  "idt_entries =
    [(0, ''divide_error'', PRIVILEGE_KERNEL), (1, ''single_step_exception'', PRIVILEGE_KERNEL),
     (2, ''nmi'', PRIVILEGE_KERNEL), (3, ''breakpoint_exception'', PRIVILEGE_USER),
     (4, ''overflow'', PRIVILEGE_USER), (5, ''bounds_check'', PRIVILEGE_KERNEL),
     (6, ''inval_opcode'', PRIVILEGE_KERNEL), (7, ''copr_not_available'', PRIVILEGE_KERNEL),
     (8, ''double_fault'', PRIVILEGE_KERNEL), (9, ''copr_seg_overrun'', PRIVILEGE_KERNEL),
     (10, ''inval_tss'', PRIVILEGE_KERNEL), (11, ''segment_not_present'', PRIVILEGE_KERNEL),
     (12, ''stack_exception'', PRIVILEGE_KERNEL), (13, ''general_protection'', PRIVILEGE_KERNEL),
     (14, ''page_fault'', PRIVILEGE_KERNEL), (15, ''copr_error'', PRIVILEGE_KERNEL),
     (INT_VECTOR_IRQ0 + 0, ''hwint00'', PRIVILEGE_KERNEL), (INT_VECTOR_IRQ0 + 1, ''hwint01'', PRIVILEGE_KERNEL),
     (INT_VECTOR_IRQ0 + 2, ''hwint02'', PRIVILEGE_KERNEL), (INT_VECTOR_IRQ0 + 3, ''hwint03'', PRIVILEGE_KERNEL),
     (INT_VECTOR_IRQ0 + 4, ''hwint04'', PRIVILEGE_KERNEL), (INT_VECTOR_IRQ0 + 5, ''hwint05'', PRIVILEGE_KERNEL),
     (INT_VECTOR_IRQ0 + 6, ''hwint06'', PRIVILEGE_KERNEL), (INT_VECTOR_IRQ0 + 7, ''hwint07'', PRIVILEGE_KERNEL),
     (INT_VECTOR_IRQ8 + 0, ''hwint08'', PRIVILEGE_KERNEL), (INT_VECTOR_IRQ8 + 1, ''hwint09'', PRIVILEGE_KERNEL),
     (INT_VECTOR_IRQ8 + 2, ''hwint10'', PRIVILEGE_KERNEL), (INT_VECTOR_IRQ8 + 3, ''hwint11'', PRIVILEGE_KERNEL),
     (INT_VECTOR_IRQ8 + 4, ''hwint12'', PRIVILEGE_KERNEL), (INT_VECTOR_IRQ8 + 5, ''hwint13'', PRIVILEGE_KERNEL),
     (INT_VECTOR_IRQ8 + 6, ''hwint14'', PRIVILEGE_KERNEL), (INT_VECTOR_IRQ8 + 7, ''hwint15'', PRIVILEGE_KERNEL),
     (INT_VECTOR_SYS_CALL, ''sys_call'', PRIVILEGE_USER)]"

text \<open>Port writes are recorded as a list of port and value, in the order in which they happen.\<close>

type_synonym port_writes = "(u32 \<times> u32) list"

definition init_8259A :: port_writes where
  "init_8259A =
    [(0x20, 0x11), (0xA0, 0x11), (0x21, ucast INT_VECTOR_IRQ0), (0xA1, ucast INT_VECTOR_IRQ8),
     (0x21, 0x4), (0xA1, 0x2), (0x21, 0x1), (0xA1, 0x1), (0x21, 0xFE), (0xA1, 0xFF)]"

fun install_gates :: "(string \<Rightarrow> u32) \<Rightarrow> (u8 \<times> string \<times> u8) list \<Rightarrow> (u8 \<Rightarrow> gate) \<Rightarrow> (u8 \<Rightarrow> gate)" where
  "install_gates symaddr [] idt = idt"
| "install_gates symaddr ((v, h, dpl) # es) idt =
     install_gates symaddr es (init_idt_descriptor v (ucast DA_386INT_GATE) (symaddr h) dpl idt)"

definition init_protect_mode_interrupt_mechanism ::
    "(string \<Rightarrow> u32) \<Rightarrow> (u8 \<Rightarrow> gate) \<Rightarrow> port_writes \<times> (u8 \<Rightarrow> gate)" where
  "init_protect_mode_interrupt_mechanism symaddr idt = (init_8259A, install_gates symaddr idt_entries idt)"

lemma install_gates_other:
  "v \<notin> set (map fst es) \<Longrightarrow> install_gates symaddr es idt v = idt v"
  by (induction symaddr es idt rule: install_gates.induct) (auto simp: init_idt_descriptor_def)

lemma init_idt_descriptor_same:
  "init_idt_descriptor v t h p idt v = init_idt_descriptor v t h p idt' v"
  by (simp add: init_idt_descriptor_def)

lemma init_idt_descriptor_other:
  "v \<noteq> v' \<Longrightarrow> init_idt_descriptor v' t h p idt v = idt v"
  by (simp add: init_idt_descriptor_def)

lemma install_gates_entry:
  assumes "distinct (map fst es)" "(v, h, dpl) \<in> set es"
  shows "install_gates symaddr es idt v =
    init_idt_descriptor v (ucast DA_386INT_GATE) (symaddr h) dpl idt' v"
  using assms
proof (induction symaddr es idt rule: install_gates.induct)
  case (2 symaddr v' h' dpl' es idt)
  show ?case
  proof (cases "(v, h, dpl) \<in> set es")
    case True
    with "2" show ?thesis by simp
  next
    case False
    with "2.prems" show ?thesis
      by (simp add: install_gates_other init_idt_descriptor_same [of _ _ _ _ idt idt'])
  qed
qed simp

lemma gate_offset_init:
  "gate_offset (init_idt_descriptor v t h p idt v) = h"
  unfolding gate_offset_def init_idt_descriptor_def mask_consts
  by (rule bit_word_eqI) (auto simp: bit_simps)

lemma idt_entries_distinct: "distinct (map fst idt_entries)"
  by (simp add: idt_entries_def INT_VECTOR_IRQ0_def INT_VECTOR_IRQ8_def INT_VECTOR_SYS_CALL_def)

lemma idt_gate:
  assumes "(v, h, dpl) \<in> set idt_entries"
  shows "snd (init_protect_mode_interrupt_mechanism symaddr idt) v =
    init_idt_descriptor v (ucast DA_386INT_GATE) (symaddr h) dpl idt v"
  using install_gates_entry [OF idt_entries_distinct assms]
  by (simp add: init_protect_mode_interrupt_mechanism_def)

lemma int_gate_attr:
  assumes "(v, h, dpl) \<in> set idt_entries"
  shows "attr (init_idt_descriptor v (ucast DA_386INT_GATE) a dpl idt v) AND 0x9F = 0x8E
    \<and> gate_dpl (init_idt_descriptor v (ucast DA_386INT_GATE) a dpl idt v) = dpl"
proof -
  have "dpl = PRIVILEGE_KERNEL \<or> dpl = PRIVILEGE_USER"
    using assms by (auto simp: idt_entries_def)
  then show ?thesis
    by (auto simp: init_idt_descriptor_def gate_dpl_def DA_386INT_GATE_def DA_PRESENT_def
        DA_CATEGORY_SG_def PRIVILEGE_KERNEL_def PRIVILEGE_USER_def)
qed

text \<open>
  After the interrupt table is set up every vector of the table is a present 386 interrupt
  gate into the kernel code segment whose offset is the intended handler.
\<close>

theorem idt_handlers:
  assumes "(v, h, dpl) \<in> set idt_entries"
    and "snd (init_protect_mode_interrupt_mechanism symaddr idt) = idt'"
  shows "gate_offset (idt' v) = symaddr h \<and> selector (idt' v) = SELECTOR_KERNEL_CS
    \<and> attr (idt' v) AND 0x9F = 0x8E \<and> gate_dpl (idt' v) = dpl"
  unfolding assms(2) [symmetric] idt_gate [OF assms(1)]
  using int_gate_attr [OF assms(1)] by (simp add: gate_offset_init) (simp add: init_idt_descriptor_def)

theorem idt_handlers_witness:
  "gate_dpl (snd (init_protect_mode_interrupt_mechanism (\<lambda>s. of_nat (length s))
     (\<lambda>_. \<lparr>offset_low = 0, selector = 0, dcount = 0, attr = 0, offset_high = 0\<rparr>)) 0x70) = 3"
proof -
  have e: "(INT_VECTOR_SYS_CALL, ''sys_call'', PRIVILEGE_USER) \<in> set idt_entries"
    unfolding idt_entries_def list.set by (intro insertI2 insertI1)
  show ?thesis
    by (rule idt_handlers [OF e refl, unfolded INT_VECTOR_SYS_CALL_def PRIVILEGE_USER_def,
          THEN conjunct2, THEN conjunct2, THEN conjunct2])
qed

text \<open>
  Ring 3 code can raise exactly the breakpoint, overflow and system call vectors: on a table
  that held no user gate before, no other vector has privilege level 3 afterwards.
\<close>

theorem idt_user_vectors:
  assumes "\<forall>v. gate_dpl (idt v) \<noteq> PRIVILEGE_USER"
  shows "{v. gate_dpl (snd (init_protect_mode_interrupt_mechanism symaddr idt) v) = PRIVILEGE_USER} =
    {3, 4, INT_VECTOR_SYS_CALL}"
proof -
  let ?idt = "snd (init_protect_mode_interrupt_mechanism symaddr idt)"
  have "gate_dpl (?idt v) = PRIVILEGE_USER \<longleftrightarrow> (\<exists>h. (v, h, PRIVILEGE_USER) \<in> set idt_entries)" for v
  proof (cases "v \<in> set (map fst idt_entries)")
    case True
    then obtain h dpl where e: "(v, h, dpl) \<in> set idt_entries" by force
    then have "gate_dpl (?idt v) = dpl" by (simp add: idt_gate [OF e] int_gate_attr)
    moreover have "dpl = dpl'" if "(v, h', dpl') \<in> set idt_entries" for h' dpl'
      using eq_key_imp_eq_value [OF idt_entries_distinct e that] by simp
    ultimately show ?thesis using e by metis
  next
    case False
    then have "?idt v = idt v"
      by (simp add: init_protect_mode_interrupt_mechanism_def install_gates_other)
    with False assms show ?thesis by force
  qed
  then show ?thesis
    by (auto simp: idt_entries_def PRIVILEGE_KERNEL_def PRIVILEGE_USER_def)
qed

theorem idt_user_vectors_witness:
  "{v. gate_dpl (snd (init_protect_mode_interrupt_mechanism (\<lambda>s. of_nat (length s))
      (\<lambda>_. \<lparr>offset_low = 0, selector = 0, dcount = 0, attr = 0, offset_high = 0\<rparr>)) v) = PRIVILEGE_USER} =
    {3, 4, INT_VECTOR_SYS_CALL}"
  by (rule idt_user_vectors) (simp add: gate_dpl_def PRIVILEGE_USER_def)

end
