(* ===== verification/Keyboard.thy ===== *)
theory Keyboard
  imports Ring Protect
begin

text \<open>
  The keyboard driver: the key names of \<^verbatim>\<open>include/keyboard.h\<close>, the table of \<^verbatim>\<open>include/keymap.h\<close>, the
  interrupt handler with its ring buffer of scan codes, and the translation of a scan code to a key
  (\<^verbatim>\<open>kernel/keyboard.c\<close>). What the keyboard controller answers on its ports is a parameter: \<open>kb_answers\<close>
  is the sequence of bytes that the polling loops will read. \<open>None\<close> is a loop that does not end:
  a controller that never becomes ready, or a reader that waits for a scan code that never comes.
\<close>

section \<open>Keys\<close>

abbreviation (input) ESC :: u32 where "ESC \<equiv> 0x101"
abbreviation (input) TAB :: u32 where "TAB \<equiv> 0x102"
abbreviation (input) ENTER :: u32 where "ENTER \<equiv> 0x103"
abbreviation (input) BACKSPACE :: u32 where "BACKSPACE \<equiv> 0x104"
abbreviation (input) GUI_L :: u32 where "GUI_L \<equiv> 0x105"
abbreviation (input) GUI_R :: u32 where "GUI_R \<equiv> 0x106"
abbreviation (input) APPS :: u32 where "APPS \<equiv> 0x107"
abbreviation (input) SHIFT_L :: u32 where "SHIFT_L \<equiv> 0x108"
abbreviation (input) SHIFT_R :: u32 where "SHIFT_R \<equiv> 0x109"
abbreviation (input) CTRL_L :: u32 where "CTRL_L \<equiv> 0x10A"
abbreviation (input) CTRL_R :: u32 where "CTRL_R \<equiv> 0x10B"
abbreviation (input) ALT_L :: u32 where "ALT_L \<equiv> 0x10C"
abbreviation (input) ALT_R :: u32 where "ALT_R \<equiv> 0x10D"
abbreviation (input) CAPS_LOCK :: u32 where "CAPS_LOCK \<equiv> 0x10E"
abbreviation (input) NUM_LOCK :: u32 where "NUM_LOCK \<equiv> 0x10F"
abbreviation (input) SCROLL_LOCK :: u32 where "SCROLL_LOCK \<equiv> 0x110"
abbreviation (input) F1 :: u32 where "F1 \<equiv> 0x111"
abbreviation (input) F2 :: u32 where "F2 \<equiv> 0x112"
abbreviation (input) F3 :: u32 where "F3 \<equiv> 0x113"
abbreviation (input) F4 :: u32 where "F4 \<equiv> 0x114"
abbreviation (input) F5 :: u32 where "F5 \<equiv> 0x115"
abbreviation (input) F6 :: u32 where "F6 \<equiv> 0x116"
abbreviation (input) F7 :: u32 where "F7 \<equiv> 0x117"
abbreviation (input) F8 :: u32 where "F8 \<equiv> 0x118"
abbreviation (input) F9 :: u32 where "F9 \<equiv> 0x119"
abbreviation (input) F10 :: u32 where "F10 \<equiv> 0x11A"
abbreviation (input) F11 :: u32 where "F11 \<equiv> 0x11B"
abbreviation (input) F12 :: u32 where "F12 \<equiv> 0x11C"
abbreviation (input) PRINTSCREEN :: u32 where "PRINTSCREEN \<equiv> 0x11D"
abbreviation (input) PAUSEBREAK :: u32 where "PAUSEBREAK \<equiv> 0x11E"
abbreviation (input) INSERT :: u32 where "INSERT \<equiv> 0x11F"
abbreviation (input) DELETE :: u32 where "DELETE \<equiv> 0x120"
abbreviation (input) HOME :: u32 where "HOME \<equiv> 0x121"
abbreviation (input) END :: u32 where "END \<equiv> 0x122"
abbreviation (input) PAGEUP :: u32 where "PAGEUP \<equiv> 0x123"
abbreviation (input) PAGEDOWN :: u32 where "PAGEDOWN \<equiv> 0x124"
abbreviation (input) UP :: u32 where "UP \<equiv> 0x125"
abbreviation (input) DOWN :: u32 where "DOWN \<equiv> 0x126"
abbreviation (input) LEFT :: u32 where "LEFT \<equiv> 0x127"
abbreviation (input) RIGHT :: u32 where "RIGHT \<equiv> 0x128"
abbreviation (input) POWER :: u32 where "POWER \<equiv> 0x129"
abbreviation (input) SLEEP :: u32 where "SLEEP \<equiv> 0x12A"
abbreviation (input) WAKE :: u32 where "WAKE \<equiv> 0x12B"
abbreviation (input) PAD_SLASH :: u32 where "PAD_SLASH \<equiv> 0x12C"
abbreviation (input) PAD_STAR :: u32 where "PAD_STAR \<equiv> 0x12D"
abbreviation (input) PAD_MINUS :: u32 where "PAD_MINUS \<equiv> 0x12E"
abbreviation (input) PAD_PLUS :: u32 where "PAD_PLUS \<equiv> 0x12F"
abbreviation (input) PAD_ENTER :: u32 where "PAD_ENTER \<equiv> 0x130"
abbreviation (input) PAD_DOT :: u32 where "PAD_DOT \<equiv> 0x131"
abbreviation (input) PAD_0 :: u32 where "PAD_0 \<equiv> 0x132"
abbreviation (input) PAD_1 :: u32 where "PAD_1 \<equiv> 0x133"
abbreviation (input) PAD_2 :: u32 where "PAD_2 \<equiv> 0x134"
abbreviation (input) PAD_3 :: u32 where "PAD_3 \<equiv> 0x135"
abbreviation (input) PAD_4 :: u32 where "PAD_4 \<equiv> 0x136"
abbreviation (input) PAD_5 :: u32 where "PAD_5 \<equiv> 0x137"
abbreviation (input) PAD_6 :: u32 where "PAD_6 \<equiv> 0x138"
abbreviation (input) PAD_7 :: u32 where "PAD_7 \<equiv> 0x139"
abbreviation (input) PAD_8 :: u32 where "PAD_8 \<equiv> 0x13A"
abbreviation (input) PAD_9 :: u32 where "PAD_9 \<equiv> 0x13B"
abbreviation (input) PAD_UP :: u32 where "PAD_UP \<equiv> PAD_8"
abbreviation (input) PAD_DOWN :: u32 where "PAD_DOWN \<equiv> PAD_2"
abbreviation (input) PAD_LEFT :: u32 where "PAD_LEFT \<equiv> PAD_4"
abbreviation (input) PAD_RIGHT :: u32 where "PAD_RIGHT \<equiv> PAD_6"
abbreviation (input) PAD_HOME :: u32 where "PAD_HOME \<equiv> PAD_7"
abbreviation (input) PAD_END :: u32 where "PAD_END \<equiv> PAD_1"
abbreviation (input) PAD_PAGEUP :: u32 where "PAD_PAGEUP \<equiv> PAD_9"
abbreviation (input) PAD_PAGEDOWN :: u32 where "PAD_PAGEDOWN \<equiv> PAD_3"
abbreviation (input) PAD_INS :: u32 where "PAD_INS \<equiv> PAD_0"
abbreviation (input) PAD_MID :: u32 where "PAD_MID \<equiv> PAD_5"
abbreviation (input) PAD_DEL :: u32 where "PAD_DEL \<equiv> PAD_DOT"

definition FLAG_BREAK :: u8 where "FLAG_BREAK = 0x80"
definition FLAG_EXT :: u32 where "FLAG_EXT = 0x100"
definition FLAG_SHIFT_L :: u32 where "FLAG_SHIFT_L = 0x200"
definition FLAG_SHIFT_R :: u32 where "FLAG_SHIFT_R = 0x400"
definition FLAG_CTRL_L :: u32 where "FLAG_CTRL_L = 0x800"
definition FLAG_CTRL_R :: u32 where "FLAG_CTRL_R = 0x1000"
definition FLAG_ALT_L :: u32 where "FLAG_ALT_L = 0x2000"
definition FLAG_ALT_R :: u32 where "FLAG_ALT_R = 0x4000"
definition FLAG_PAD :: u32 where "FLAG_PAD = 0x8000"
definition MASK_RAW :: u32 where "MASK_RAW = 0x1FF"
definition KB_IN_BYTES :: nat where "KB_IN_BYTES = 32"

lemmas flag_defs = FLAG_EXT_def FLAG_SHIFT_L_def FLAG_SHIFT_R_def FLAG_CTRL_L_def FLAG_CTRL_R_def
  FLAG_ALT_L_def FLAG_ALT_R_def FLAG_PAD_def MASK_RAW_def

text \<open>A row for each scan code: plain, with shift, after the prefix \<open>0xE0\<close>.\<close>

definition keymap :: "(u32 \<times> u32 \<times> u32) list" where
  "keymap =
    [(0, 0, 0), (ESC, ESC, 0), (0x31, 0x21, 0), (0x32, 0x40, 0), (0x33, 0x23, 0), (0x34, 0x24, 0),
     (0x35, 0x25, 0), (0x36, 0x5e, 0), (0x37, 0x26, 0), (0x38, 0x2a, 0), (0x39, 0x28, 0),
     (0x30, 0x29, 0), (0x2d, 0x5f, 0), (0x3d, 0x2b, 0), (BACKSPACE, BACKSPACE, 0), (TAB, TAB, 0),
     (0x71, 0x51, 0), (0x77, 0x57, 0), (0x65, 0x45, 0), (0x72, 0x52, 0), (0x74, 0x54, 0),
     (0x79, 0x59, 0), (0x75, 0x55, 0), (0x69, 0x49, 0), (0x6f, 0x4f, 0), (0x70, 0x50, 0),
     (0x5b, 0x7b, 0), (0x5d, 0x7d, 0), (ENTER, ENTER, PAD_ENTER), (CTRL_L, CTRL_L, CTRL_R),
     (0x61, 0x41, 0), (0x73, 0x53, 0), (0x64, 0x44, 0), (0x66, 0x46, 0), (0x67, 0x47, 0),
     (0x68, 0x48, 0), (0x6a, 0x4a, 0), (0x6b, 0x4b, 0), (0x6c, 0x4c, 0), (0x3b, 0x3a, 0),
     (0x27, 0x22, 0), (0x60, 0x7e, 0), (SHIFT_L, SHIFT_L, 0), (0x5c, 0x7c, 0), (0x7a, 0x5a, 0),
     (0x78, 0x58, 0), (0x63, 0x43, 0), (0x76, 0x56, 0), (0x62, 0x42, 0), (0x6e, 0x4e, 0),
     (0x6d, 0x4d, 0), (0x2c, 0x3c, 0), (0x2e, 0x3e, 0), (0x2f, 0x3f, PAD_SLASH),
     (SHIFT_R, SHIFT_R, 0), (0x2a, 0x2a, 0), (ALT_L, ALT_L, ALT_R), (0x20, 0x20, 0),
     (CAPS_LOCK, CAPS_LOCK, 0), (F1, F1, 0), (F2, F2, 0), (F3, F3, 0), (F4, F4, 0), (F5, F5, 0),
     (F6, F6, 0), (F7, F7, 0), (F8, F8, 0), (F9, F9, 0), (F10, F10, 0), (NUM_LOCK, NUM_LOCK, 0),
     (SCROLL_LOCK, SCROLL_LOCK, 0), (PAD_HOME, 0x37, HOME), (PAD_UP, 0x38, UP),
     (PAD_PAGEUP, 0x39, PAGEUP), (PAD_MINUS, 0x2d, 0), (PAD_LEFT, 0x34, LEFT), (PAD_MID, 0x35, 0),
     (PAD_RIGHT, 0x36, RIGHT), (PAD_PLUS, 0x2b, 0), (PAD_END, 0x31, END), (PAD_DOWN, 0x32, DOWN),
     (PAD_PAGEDOWN, 0x33, PAGEDOWN), (PAD_INS, 0x30, INSERT), (PAD_DOT, 0x2e, DELETE), (0, 0, 0),
     (0, 0, 0), (0, 0, 0), (F11, F11, 0), (F12, F12, 0), (0, 0, 0), (0, 0, 0), (0, 0, GUI_L),
     (0, 0, GUI_R), (0, 0, APPS), (0, 0, 0), (0, 0, 0), (0, 0, 0), (0, 0, 0), (0, 0, 0), (0, 0, 0),
     (0, 0, 0), (0, 0, 0), (0, 0, 0), (0, 0, 0), (0, 0, 0), (0, 0, 0), (0, 0, 0), (0, 0, 0),
     (0, 0, 0), (0, 0, 0), (0, 0, 0), (0, 0, 0), (0, 0, 0), (0, 0, 0), (0, 0, 0), (0, 0, 0),
     (0, 0, 0), (0, 0, 0), (0, 0, 0), (0, 0, 0), (0, 0, 0), (0, 0, 0), (0, 0, 0), (0, 0, 0),
     (0, 0, 0), (0, 0, 0), (0, 0, 0), (0, 0, 0)]"

section \<open>State\<close>

record keyboard =
  kb_buf :: "nat \<Rightarrow> u8"
  kb_head :: nat
  kb_tail :: nat
  kb_count :: nat
  code_with_E0 :: bool
  shift_l :: bool
  shift_r :: bool
  alt_l :: bool
  alt_r :: bool
  ctrl_l :: bool
  ctrl_r :: bool
  caps_lock :: bool
  num_lock :: bool
  scroll_lock :: bool
  kb_answers :: "nat \<Rightarrow> u8"
  kb_pos :: nat
  kb_out :: port_writes

section \<open>The ring buffer of scan codes\<close>

text \<open>The interrupt handler, with the byte it reads from port \<open>0x60\<close>.\<close>

definition keyboard_handler :: "u8 \<Rightarrow> keyboard \<Rightarrow> keyboard" where
  "keyboard_handler scan_code k =
     (if kb_count k < KB_IN_BYTES
      then k\<lparr>kb_buf := (kb_buf k)(kb_head k := scan_code), kb_head := ring_next KB_IN_BYTES (kb_head k),
             kb_count := kb_count k + 1\<rparr>
      else k)"

text \<open>The body of \<open>get_byte_from_kbuf\<close> after its waiting loop, and the whole function.\<close>

definition take_byte :: "keyboard \<Rightarrow> u8 \<times> keyboard" where
  "take_byte k = (kb_buf k (kb_tail k),
     k\<lparr>kb_tail := ring_next KB_IN_BYTES (kb_tail k), kb_count := kb_count k - 1\<rparr>)"

definition get_byte_from_kbuf :: "keyboard \<Rightarrow> (u8 \<times> keyboard) option" where
  "get_byte_from_kbuf k = (if kb_count k \<le> 0 then None else Some (take_byte k))"

definition kb_items :: "keyboard \<Rightarrow> u8 list" where
  "kb_items k = ring_items KB_IN_BYTES (kb_buf k) (kb_tail k) (kb_count k)"

definition kb_ring_ok :: "keyboard \<Rightarrow> bool" where
  "kb_ring_ok k \<longleftrightarrow> ring_ok KB_IN_BYTES (kb_head k) (kb_tail k) (kb_count k)"

interpretation kb: bounded_fifo KB_IN_BYTES keyboard_handler take_byte kb_items kb_ring_ok
proof
  fix k :: keyboard and x :: u8
  assume ok: "kb_ring_ok k"
  then show "length (kb_items k) \<le> KB_IN_BYTES" by (simp add: kb_items_def kb_ring_ok_def ring_ok_def)
  show "kb_ring_ok (keyboard_handler x k)"
    using ok ring_ok_put by (auto simp: kb_ring_ok_def keyboard_handler_def)
  show "kb_items (keyboard_handler x k) = (if length (kb_items k) < KB_IN_BYTES then kb_items k @ [x] else kb_items k)"
    using ok ring_items_put by (auto simp: kb_ring_ok_def keyboard_handler_def kb_items_def)
  assume "kb_items k \<noteq> []"
  then have n: "0 < kb_count k" by (cases "kb_count k") (simp_all add: kb_items_def ring_items_def)
  with ok show "kb_ring_ok (snd (take_byte k))"
    using ring_ok_get by (auto simp: kb_ring_ok_def take_byte_def)
  from ok n show "kb_items k = fst (take_byte k) # kb_items (snd (take_byte k))"
    using ring_items_get by (auto simp: kb_ring_ok_def take_byte_def kb_items_def)
qed

text \<open>
  C25: scan codes that the interrupt handler accepts are read in the order in which they arrived: from an
  empty buffer, the reader gets the first 32 bytes of any burst, and the rest is dropped.
\<close>

theorem keyboard_buffer_fifo:
  assumes "kb_ring_ok k" "kb_count k = 0"
  shows "fst (reads take_byte (min 32 (length codes)) (fold keyboard_handler codes k)) = take 32 codes"
proof -
  have "kb_items k = []" using assms(2) by (simp add: kb_items_def ring_items_def)
  then have "kb_items (fold keyboard_handler codes k) = take 32 codes"
    using kb.puts_items [OF assms(1)] by (simp add: KB_IN_BYTES_def)
  then show ?thesis
    using kb.reads_items [OF kb.puts_ok [OF assms(1)], of "min 32 (length codes)" codes]
    by (simp add: min_def split: if_splits)
qed

theorem keyboard_buffer_fifo_witness:
  "\<exists>k. fst (reads take_byte 2 (fold keyboard_handler [0x1E, 0x9E] k)) = [0x1E, 0x9E]"
proof -
  define k :: keyboard where "k = \<lparr>kb_buf = (\<lambda>_. 0), kb_head = 0, kb_tail = 0, kb_count = 0, code_with_E0 = False,
    shift_l = False, shift_r = False, alt_l = False, alt_r = False, ctrl_l = False, ctrl_r = False,
    caps_lock = False, num_lock = True, scroll_lock = False, kb_answers = (\<lambda>_. 0), kb_pos = 0, kb_out = []\<rparr>"
  have "kb_ring_ok k" "kb_count k = 0" by (simp_all add: k_def kb_ring_ok_def ring_ok_def KB_IN_BYTES_def)
  from keyboard_buffer_fifo [OF this, of "[0x1E, 0x9E]"] show ?thesis by (intro exI [of _ k]) (simp add: numeral_2_eq_2)
qed

section \<open>The controller\<close>

definition KB_ACK :: u8 where "KB_ACK = 0xFA"

partial_function (option) kb_wait :: "(nat \<Rightarrow> u8) \<Rightarrow> nat \<Rightarrow> nat option" where
  "kb_wait answers i = (if answers i AND 2 \<noteq> 0 then kb_wait answers (i + 1) else Some (i + 1))"

partial_function (option) kb_ack :: "(nat \<Rightarrow> u8) \<Rightarrow> nat \<Rightarrow> nat option" where
  "kb_ack answers i = (if answers i \<noteq> KB_ACK then kb_ack answers (i + 1) else Some (i + 1))"

definition leds :: "keyboard \<Rightarrow> u32" where
  "leds k = push_bit 2 (of_bool (caps_lock k)) OR push_bit 1 (of_bool (num_lock k)) OR of_bool (scroll_lock k)"

definition set_leds :: "keyboard \<Rightarrow> keyboard option" where
  "set_leds k =
     Option.bind (kb_wait (kb_answers k) (kb_pos k)) (\<lambda>i.
     Option.bind (kb_ack (kb_answers k) i) (\<lambda>i.
     Option.bind (kb_wait (kb_answers k) i) (\<lambda>i.
     Option.bind (kb_ack (kb_answers k) i) (\<lambda>i.
       Some (k\<lparr>kb_pos := i, kb_out := kb_out k @ [(0x60, 0xED), (0x60, leds k)]\<rparr>)))))"

definition init_keyboard :: "keyboard \<Rightarrow> keyboard option" where
  "init_keyboard k = set_leds (k\<lparr>kb_count := 0, kb_head := 0, kb_tail := 0, code_with_E0 := False,
     shift_l := False, shift_r := False, alt_l := False, alt_r := False, ctrl_l := False, ctrl_r := False,
     caps_lock := False, scroll_lock := False, num_lock := True\<rparr>)"

section \<open>From scan codes to keys\<close>

definition make_code :: "u8 \<Rightarrow> bool" where
  "make_code scan_code \<longleftrightarrow> scan_code AND FLAG_BREAK = 0"

text \<open>The column of the row: caps lock inverts shift for letters only, the prefix overrides both.\<close>

definition key_column :: "keyboard \<Rightarrow> u32 \<times> u32 \<times> u32 \<Rightarrow> nat" where
  "key_column k keyrow =
     (let caps = shift_l k \<or> shift_r k;
          caps = (if caps_lock k \<and> 0x61 \<le> fst keyrow \<and> fst keyrow \<le> 0x7A then \<not> caps else caps)
      in if code_with_E0 k then 2 else if caps then 1 else 0)"

definition lookup_key :: "keyboard \<Rightarrow> u8 \<Rightarrow> u32" where
  "lookup_key k scan_code =
     (let keyrow = keymap ! unat (scan_code AND 0x7F); column = key_column k keyrow
      in if column = 0 then fst keyrow else if column = 1 then fst (snd keyrow) else snd (snd keyrow))"

text \<open>The \<open>switch\<close> on the modifier and lock keys.\<close>

definition modifier :: "u32 \<Rightarrow> bool \<Rightarrow> keyboard \<Rightarrow> keyboard option" where
  "modifier key mk k =
     (if key = SHIFT_L then Some (k\<lparr>shift_l := mk\<rparr>)
      else if key = SHIFT_R then Some (k\<lparr>shift_r := mk\<rparr>)
      else if key = CTRL_L then Some (k\<lparr>ctrl_l := mk\<rparr>)
      else if key = CTRL_R then Some (k\<lparr>ctrl_r := mk\<rparr>)
      else if key = ALT_L then Some (k\<lparr>alt_l := mk\<rparr>)
      else if key = ALT_R then Some (k\<lparr>alt_r := mk\<rparr>)
      else if key = CAPS_LOCK \<and> mk then set_leds (k\<lparr>caps_lock := \<not> caps_lock k\<rparr>)
      else if key = NUM_LOCK \<and> mk then set_leds (k\<lparr>num_lock := \<not> num_lock k\<rparr>)
      else if key = SCROLL_LOCK \<and> mk then set_leds (k\<lparr>scroll_lock := \<not> scroll_lock k\<rparr>)
      else Some k)"

text \<open>The keys of the number pad.\<close>

definition pad_key :: "bool \<Rightarrow> u32 \<Rightarrow> u32" where
  "pad_key num key =
     (if key = PAD_SLASH then 0x2F else if key = PAD_STAR then 0x2A else if key = PAD_MINUS then 0x2D
      else if key = PAD_PLUS then 0x2B else if key = PAD_ENTER then ENTER
      else if num \<and> PAD_0 \<le> key \<and> key \<le> PAD_9 then key - PAD_0 + 0x30
      else if num \<and> key = PAD_DOT then 0x2E
      else if key = PAD_HOME then HOME else if key = PAD_END then END
      else if key = PAD_PAGEUP then PAGEUP else if key = PAD_PAGEDOWN then PAGEDOWN
      else if key = PAD_INS then INSERT else if key = PAD_UP then UP else if key = PAD_DOWN then DOWN
      else if key = PAD_LEFT then LEFT else if key = PAD_RIGHT then RIGHT
      else if key = PAD_DOT then DELETE else key)"

definition key_flags :: "keyboard \<Rightarrow> bool \<Rightarrow> u32 \<Rightarrow> u32" where
  "key_flags k pad key = key
     OR (if shift_l k then FLAG_SHIFT_L else 0) OR (if shift_r k then FLAG_SHIFT_R else 0)
     OR (if ctrl_l k then FLAG_CTRL_L else 0) OR (if ctrl_r k then FLAG_CTRL_R else 0)
     OR (if alt_l k then FLAG_ALT_L else 0) OR (if alt_r k then FLAG_ALT_R else 0)
     OR (if pad then FLAG_PAD else 0)"

text \<open>The whole translation of a scan code: the new state and, for a make code, the key for the terminal.\<close>

definition translate :: "u8 \<Rightarrow> keyboard \<Rightarrow> (u32 option \<times> keyboard) option" where
  "translate scan_code k =
     (let mk = make_code scan_code; key = lookup_key k scan_code; k = k\<lparr>code_with_E0 := False\<rparr> in
      Option.bind (modifier key mk k) (\<lambda>k.
        if mk then
          let pad = PAD_SLASH \<le> key \<and> key \<le> PAD_9;
              key = (if pad then pad_key (num_lock k) key else key)
          in Some (Some (key_flags k pad key), k)
        else Some (None, k)))"

section \<open>Letters\<close>

definition letter_key :: "u32 \<Rightarrow> bool" where
  "letter_key c \<longleftrightarrow> 0x61 \<le> c \<and> c \<le> 0x7A"

lemma length_keymap: "length keymap = 128"
  by (simp add: keymap_def)

text \<open>The shift column of a letter row is the upper-case letter.\<close>

lemma letter_rows: "row \<in> set keymap \<Longrightarrow> letter_key (fst row) \<Longrightarrow> fst (snd row) = fst row - 0x20"
  unfolding keymap_def list.set letter_key_def by (elim insertE emptyE; hypsubst; simp)

lemma letter_not_special:
  assumes "letter_key c"
  shows "modifier c mk k = Some k" "\<not> (PAD_SLASH \<le> c \<and> c \<le> PAD_9)"
    "modifier (c - 0x20) mk k = Some k" "\<not> (PAD_SLASH \<le> c - 0x20 \<and> c - 0x20 \<le> PAD_9)"
    "c < 0x100" "c - 0x20 < 0x100" "(ucast (c - 0x20) :: u8) = ucast c - 0x20"
proof -
  have u: "unat c \<le> 0x7A" "0x61 \<le> unat c" using assms by (simp_all add: letter_key_def word_le_nat_alt)
  then have d: "unat (c - 0x20) = unat c - 0x20" by (subst unat_sub) (simp_all add: word_le_nat_alt)
  with u show "c < 0x100" "c - 0x20 < 0x100" by (simp_all add: word_less_nat_alt)
  have uc: "unat (ucast c :: u8) = unat c" using u by (simp add: unsigned_ucast_eq take_bit_nat_eq_self)
  then have "unat (ucast c - 0x20 :: u8) = unat c - 0x20"
    using u by (subst unat_sub) (simp_all add: word_le_nat_alt)
  then show "(ucast (c - 0x20) :: u8) = ucast c - 0x20"
    using u d by (simp add: word_unat_eq_iff unsigned_ucast_eq take_bit_nat_eq_self)
  have "c < 0x100" "c - 0x20 < 0x100" using u d by (simp_all add: word_less_nat_alt)
  then have "c \<noteq> v" "c - 0x20 \<noteq> v" "\<not> v \<le> c" "\<not> v \<le> c - 0x20" if "0x100 \<le> v" for v
    using that by (auto dest: le_less_trans less_le_trans)
  then show "modifier c mk k = Some k" "\<not> (PAD_SLASH \<le> c \<and> c \<le> PAD_9)"
    "modifier (c - 0x20) mk k = Some k" "\<not> (PAD_SLASH \<le> c - 0x20 \<and> c - 0x20 \<le> PAD_9)"
    by (simp_all add: modifier_def)
qed

text \<open>The modifier bits lie above the nine bits of a key.\<close>

lemma flags_exp: "FLAG_SHIFT_L = 2 ^ 9" "FLAG_SHIFT_R = 2 ^ 10" "FLAG_CTRL_L = 2 ^ 11" "FLAG_CTRL_R = 2 ^ 12"
  "FLAG_ALT_L = 2 ^ 13" "FLAG_ALT_R = 2 ^ 14" "FLAG_PAD = 2 ^ 15"
  by (simp_all add: flag_defs)

lemma key_flags_low: "n < 9 \<Longrightarrow> bit (key_flags k pad key) n \<longleftrightarrow> bit key n"
  by (auto simp: key_flags_def flags_exp bit_simps simp del: power_numeral)

lemma key_flags_char: "(ucast (key_flags k pad key) :: u8) = ucast key"
  by (rule bit_word_eqI) (auto simp: bit_simps key_flags_low)

lemma key_flags_ext: "key_flags k pad key AND FLAG_EXT = key AND FLAG_EXT"
proof -
  have "FLAG_EXT = 2 ^ 8" by (simp add: FLAG_EXT_def)
  then show ?thesis
    unfolding \<open>FLAG_EXT = 2 ^ 8\<close> by (intro bit_word_eqI) (auto simp: bit_simps key_flags_low simp del: power_numeral)
qed

lemma small_and_mask:
  fixes x :: "'a::len word"
  assumes "unat x < 2 ^ n" "n < LENGTH('a)"
  shows "x AND mask n = x"
  using assms by (simp add: word_and_mask_mod)

lemma make_code_small:
  assumes "scan_code < 0x80"
  shows "scan_code AND 0x7F = scan_code" "make_code scan_code"
proof -
  have "unat scan_code < 2 ^ 7" using assms by (simp add: word_less_nat_alt)
  from small_and_mask [OF this] show m: "scan_code AND 0x7F = scan_code" by (simp add: mask_eq_exp_minus_1)
  have "scan_code AND FLAG_BREAK = (scan_code AND 0x7F) AND FLAG_BREAK" by (simp only: m)
  then show "make_code scan_code" by (simp add: make_code_def FLAG_BREAK_def and.assoc)
qed

lemma small_not_ext:
  assumes "key < 0x100"
  shows "key AND FLAG_EXT = 0"
proof -
  have "unat key < 2 ^ 8" using assms by (simp add: word_less_nat_alt)
  from small_and_mask [OF this] have "key AND 0xFF = key" by (simp add: mask_eq_exp_minus_1)
  then have "key AND FLAG_EXT = (key AND 0xFF) AND FLAG_EXT" by simp
  then show ?thesis by (simp add: FLAG_EXT_def and.assoc)
qed

text \<open>
  A letter key gives the lower-case letter, and the upper-case one exactly when one of shift and
  caps lock is in effect but not both; the modifier state is not changed, and the modifier bits of
  the key never disturb the character that the terminal prints.
\<close>

theorem letter_case:
  assumes "letter_key (fst (keymap ! unat scan_code))" "scan_code < 0x80" "\<not> code_with_E0 k"
  shows "\<exists>key. translate scan_code k = Some (Some key, k) \<and> key AND FLAG_EXT = 0
    \<and> (ucast key :: u8) = (let c = ucast (fst (keymap ! unat scan_code)) in
         if (shift_l k \<or> shift_r k) \<noteq> caps_lock k then c - 0x20 else c)"
proof -
  let ?row = "keymap ! unat scan_code"
  note code = make_code_small [OF assms(2)]
  have "?row \<in> set keymap" using assms(2) by (intro nth_mem) (simp add: length_keymap word_less_nat_alt)
  note up = letter_rows [OF this assms(1)] and special = letter_not_special [OF assms(1)]
  define key where "key = (if (shift_l k \<or> shift_r k) \<noteq> caps_lock k then fst ?row - 0x20 else fst ?row)"
  have "lookup_key k scan_code = key"
    using assms(1,3) up by (auto simp: lookup_key_def key_column_def code key_def Let_def letter_key_def)
  moreover have "k\<lparr>code_with_E0 := False\<rparr> = k" using assms(3) by simp
  moreover have "modifier key True k = Some k" "(PAD_SLASH \<le> key \<and> key \<le> PAD_9) = False"
    using special by (simp_all add: key_def)
  ultimately have "translate scan_code k = Some (Some (key_flags k False key), k)"
    using code unfolding translate_def Let_def by (simp only: bind.bind_lunit if_True if_False)
  moreover have "key < 0x100" using special by (simp add: key_def)
  ultimately show ?thesis
    using small_not_ext [of key] special(7) by (auto simp: key_flags_char key_flags_ext key_def Let_def)
qed

definition sample_keyboard :: keyboard where
  "sample_keyboard = \<lparr>kb_buf = (\<lambda>_. 0), kb_head = 0, kb_tail = 0, kb_count = 0, code_with_E0 = False,
    shift_l = True, shift_r = False, alt_l = False, alt_r = False, ctrl_l = False, ctrl_r = False,
    caps_lock = False, num_lock = True, scroll_lock = False, kb_answers = (\<lambda>_. 0), kb_pos = 0, kb_out = []\<rparr>"

theorem letter_case_witness:
  "\<exists>key. translate 0x1E sample_keyboard = Some (Some key, sample_keyboard) \<and> (ucast key :: u8) = 0x41"
  using letter_case [of "0x1E" sample_keyboard]
  by (auto simp: keymap_def letter_key_def sample_keyboard_def Let_def)

end
