(* ===== verification/Console.thy ===== *)
theory Console
  imports Protect
begin

text \<open>
  The consoles of \<^verbatim>\<open>kernel/console.c\<close>. The text-mode video memory is divided among the consoles; each
  has a region of cells, a window of 25 lines that the video controller shows, and a cursor.
  Pointers into \<open>console_table\<close> are indices. Writes to the ports of the video controller are
  recorded in order. The loop of \<open>out_char\<close> has no bound: \<open>None\<close> would be "never returns".
\<close>

section \<open>State\<close>

record console =
  current_start_addr :: u32
  original_addr :: u32
  v_mem_limit :: u32
  cursor :: u32

record display =
  console_table :: "nat \<Rightarrow> console"
  current_console :: int
  cursor_pos :: u32
  vmem :: mem
  ports :: port_writes

definition NR_CONSOLES :: nat where "NR_CONSOLES = 3"
definition SCREEN_SIZE :: u32 where "SCREEN_SIZE = 80 * 25"
definition SCREEN_WIDTH :: u32 where "SCREEN_WIDTH = 80"
definition V_MEM_BASE :: u32 where "V_MEM_BASE = 0xB8000"
definition V_MEM_SIZE :: u32 where "V_MEM_SIZE = 0x8000"
definition DEFAULT_CHAR_COLOR :: u8 where "DEFAULT_CHAR_COLOR = 0x0F"

datatype direction = SCR_UP | SCR_DOWN

lemmas screen_consts = SCREEN_SIZE_def SCREEN_WIDTH_def

definition upd_con :: "nat \<Rightarrow> (console \<Rightarrow> console) \<Rightarrow> display \<Rightarrow> display" where
  "upd_con n f d = d\<lparr>console_table := (console_table d)(n := f (console_table d n))\<rparr>"

lemma upd_con_simps [simp]:
  "console_table (upd_con n f d) = (console_table d)(n := f (console_table d n))"
  "current_console (upd_con n f d) = current_console d"
  "vmem (upd_con n f d) = vmem d"
  "ports (upd_con n f d) = ports d"
  "cursor_pos (upd_con n f d) = cursor_pos d"
  by (simp_all add: upd_con_def)

definition out_bytes :: "port_writes \<Rightarrow> display \<Rightarrow> display" where
  "out_bytes ws d = d\<lparr>ports := ports d @ ws\<rparr>"

lemma out_bytes_simps [simp]:
  "console_table (out_bytes ws d) = console_table d"
  "current_console (out_bytes ws d) = current_console d"
  "vmem (out_bytes ws d) = vmem d"
  "ports (out_bytes ws d) = ports d @ ws"
  "cursor_pos (out_bytes ws d) = cursor_pos d"
  by (simp_all add: out_bytes_def)

section \<open>Operations\<close>

definition is_current_console :: "nat \<Rightarrow> display \<Rightarrow> bool" where
  "is_current_console n d \<longleftrightarrow> int n = current_console d"

definition set_cursor :: "u32 \<Rightarrow> display \<Rightarrow> display" where
  "set_cursor pos = out_bytes
     [(0x3D4, 0xE), (0x3D5, drop_bit 8 pos AND 0xFF), (0x3D4, 0xF), (0x3D5, pos AND 0xFF)]"

definition set_video_start_addr :: "u32 \<Rightarrow> display \<Rightarrow> display" where
  "set_video_start_addr addr = out_bytes
     [(0x3D4, 0xC), (0x3D5, drop_bit 8 addr AND 0xFF), (0x3D4, 0xD), (0x3D5, addr AND 0xFF)]"

definition flush :: "nat \<Rightarrow> display \<Rightarrow> display" where
  "flush n d = (if is_current_console n d
     then set_video_start_addr (current_start_addr (console_table d n)) (set_cursor (cursor (console_table d n)) d)
     else d)"

definition scroll_screen :: "nat \<Rightarrow> direction \<Rightarrow> display \<Rightarrow> display" where
  "scroll_screen n dir d =
     (let c = console_table d n;
          d = (case dir of
              SCR_UP \<Rightarrow> if current_start_addr c > original_addr c
                then upd_con n (\<lambda>c. c\<lparr>current_start_addr := current_start_addr c - SCREEN_WIDTH\<rparr>) d else d
            | SCR_DOWN \<Rightarrow> if current_start_addr c + SCREEN_SIZE < original_addr c + v_mem_limit c
                then upd_con n (\<lambda>c. c\<lparr>current_start_addr := current_start_addr c + SCREEN_WIDTH\<rparr>) d else d)
      in flush n d)"

definition select_console :: "int \<Rightarrow> display \<Rightarrow> display" where
  "select_console nr d =
     (if nr < 0 \<or> nr \<ge> int NR_CONSOLES then d
      else let d = d\<lparr>current_console := nr\<rparr>;
               d = set_cursor (cursor (console_table d (nat nr))) d
           in set_video_start_addr (current_start_addr (console_table d (nat nr))) d)"

text \<open>\<open>while (cursor >= current_start_addr + SCREEN_SIZE) scroll_screen(p_console, SCR_DOWN)\<close>\<close>

partial_function (option) scroll_loop :: "nat \<Rightarrow> display \<Rightarrow> display option" where
  "scroll_loop n d =
     (if cursor (console_table d n) \<ge> current_start_addr (console_table d n) + SCREEN_SIZE
      then scroll_loop n (scroll_screen n SCR_DOWN d) else Some d)"

definition put_cell :: "u32 \<Rightarrow> u8 \<Rightarrow> display \<Rightarrow> display" where
  "put_cell p ch d = d\<lparr>vmem := (vmem d)(p := ch, p + 1 := DEFAULT_CHAR_COLOR)\<rparr>"

lemma put_cell_simps [simp]:
  "console_table (put_cell p ch d) = console_table d" "current_console (put_cell p ch d) = current_console d"
  "vmem (put_cell p ch d) = (vmem d)(p := ch, p + 1 := DEFAULT_CHAR_COLOR)"
  by (simp_all add: put_cell_def)

definition print_char :: "nat \<Rightarrow> u8 \<Rightarrow> display \<Rightarrow> display" where
  "print_char n ch d =
     (let c = console_table d n; p_vmem = V_MEM_BASE + cursor c * 2 in
      if ch = 10 then
        if cursor c < original_addr c + v_mem_limit c - SCREEN_WIDTH
        then upd_con n (\<lambda>c. c\<lparr>cursor := original_addr c
               + SCREEN_WIDTH * (1 + (cursor c - original_addr c) div SCREEN_WIDTH)\<rparr>) d
        else d
      else if ch = 8 then
        if cursor c > original_addr c
        then put_cell (p_vmem - 2) 0x20 (upd_con n (\<lambda>c. c\<lparr>cursor := cursor c - 1\<rparr>) d)
        else d
      else if cursor c < original_addr c + v_mem_limit c - 1
        then upd_con n (\<lambda>c. c\<lparr>cursor := cursor c + 1\<rparr>) (put_cell p_vmem ch d)
        else d)"

definition out_char :: "nat \<Rightarrow> u8 \<Rightarrow> display \<Rightarrow> display option" where
  "out_char n ch d = Option.bind (scroll_loop n (print_char n ch d)) (\<lambda>d. Some (flush n d))"

text \<open>\<open>init_screen\<close>: console \<open>n\<close> gets the \<open>n\<close>-th third of the cells.\<close>

definition con_v_mem_size :: u32 where
  "con_v_mem_size = drop_bit 1 V_MEM_SIZE div of_nat NR_CONSOLES"

definition init_screen :: "nat \<Rightarrow> display \<Rightarrow> display" where
  "init_screen n d =
     (let d = upd_con n (\<lambda>c. c\<lparr>original_addr := of_nat n * con_v_mem_size, v_mem_limit := con_v_mem_size,
                current_start_addr := of_nat n * con_v_mem_size, cursor := of_nat n * con_v_mem_size\<rparr>) d;
          d = (if n = 0 then (upd_con n (\<lambda>c. c\<lparr>cursor := cursor_pos d div 2\<rparr>) d)\<lparr>cursor_pos := 0\<rparr> else d)
      in set_cursor (cursor (console_table d n)) d)"

section \<open>Consoles in cells\<close>

text \<open>
  Console \<open>n\<close> has 5461 cells from cell \<open>5461 * n\<close> on. In \<open>con_at n k t d\<close> its cursor is in cell \<open>k\<close> and its
  window starts at line \<open>t\<close>, both counted from the start of its region.
\<close>

definition cells :: nat where "cells = 5461"

definition con_at :: "nat \<Rightarrow> nat \<Rightarrow> nat \<Rightarrow> display \<Rightarrow> bool" where
  "con_at n k t d \<longleftrightarrow> console_table d n = \<lparr>current_start_addr = of_nat (n * cells + 80 * t),
     original_addr = of_nat (n * cells), v_mem_limit = of_nat cells, cursor = of_nat (n * cells + k)\<rparr>"

definition con_ok :: "nat \<Rightarrow> display \<Rightarrow> bool" where
  "con_ok n d \<longleftrightarrow> (\<exists>k t. con_at n k t d \<and> k < cells \<and> t \<le> 44)"

text \<open>The address of a cell, and what an operation on console \<open>n\<close> leaves alone.\<close>

definition cell_addr :: "nat \<Rightarrow> nat \<Rightarrow> u32" where
  "cell_addr n k = V_MEM_BASE + of_nat (2 * (n * cells + k))"

definition others_same :: "nat \<Rightarrow> display \<Rightarrow> display \<Rightarrow> bool" where
  "others_same n d d' \<longleftrightarrow> current_console d' = current_console d \<and> (\<forall>m. m \<noteq> n \<longrightarrow> console_table d' m = console_table d m)"

lemma others_same_refl [simp]: "others_same n d d"
  by (simp add: others_same_def)

lemma others_same_trans: "others_same n d e \<Longrightarrow> others_same n e f \<Longrightarrow> others_same n d f"
  by (simp add: others_same_def)

lemma of_nat_u32_less: "a < 2 ^ 32 \<Longrightarrow> b < 2 ^ 32 \<Longrightarrow> (of_nat a :: u32) < of_nat b \<longleftrightarrow> a < b"
  by (simp add: word_less_nat_alt)

lemma of_nat_u32_le: "a < 2 ^ 32 \<Longrightarrow> b < 2 ^ 32 \<Longrightarrow> (of_nat a :: u32) \<le> of_nat b \<longleftrightarrow> a \<le> b"
  by (simp add: word_le_nat_alt)

lemma screen_of_nat: "SCREEN_SIZE = of_nat 2000" "SCREEN_WIDTH = of_nat 80" "con_v_mem_size = of_nat cells"
  by (simp_all add: screen_consts con_v_mem_size_def V_MEM_SIZE_def NR_CONSOLES_def cells_def drop_bit_eq_div)

lemma con_index: "n < NR_CONSOLES \<Longrightarrow> n * cells \<le> 10922"
  by (simp add: NR_CONSOLES_def cells_def)

lemma flush_simps [simp]:
  "console_table (flush n d) = console_table d" "vmem (flush n d) = vmem d"
  "current_console (flush n d) = current_console d" "con_at m k t (flush n d) = con_at m k t d"
  by (simp_all add: flush_def set_cursor_def set_video_start_addr_def con_at_def)

lemma scroll_down_at:
  assumes "con_at n k t d" "n < NR_CONSOLES" "t \<le> 44"
  shows "con_at n k (if 80 * t + 2000 < cells then t + 1 else t) (scroll_screen n SCR_DOWN d)"
    and "others_same n d (scroll_screen n SCR_DOWN d)" and "vmem (scroll_screen n SCR_DOWN d) = vmem d"
proof -
  let ?c = "console_table d n"
  have c: "current_start_addr ?c + SCREEN_SIZE = of_nat (n * cells + 80 * t + 2000)"
    "original_addr ?c + v_mem_limit ?c = of_nat (n * cells + cells)"
    using assms(1) by (simp_all add: con_at_def screen_of_nat)
  have "current_start_addr ?c + SCREEN_SIZE < original_addr ?c + v_mem_limit ?c \<longleftrightarrow> 80 * t + 2000 < cells"
    unfolding c using con_index [OF assms(2)] assms(3) by (subst of_nat_u32_less) (auto simp: cells_def)
  then show "con_at n k (if 80 * t + 2000 < cells then t + 1 else t) (scroll_screen n SCR_DOWN d)"
    using assms(1) by (auto simp: scroll_screen_def Let_def con_at_def screen_of_nat algebra_simps)
qed (auto simp: scroll_screen_def Let_def others_same_def)

lemma scroll_loop_at:
  assumes "con_at n k t d" "n < NR_CONSOLES" "t \<le> 44" "k < cells"
  shows "\<exists>d' t'. scroll_loop n d = Some d' \<and> con_at n k t' d' \<and> t \<le> t' \<and> t' \<le> 44 \<and> k < 80 * t' + 2000
    \<and> (t' = t \<or> 80 * t' + 1920 \<le> k) \<and> others_same n d d' \<and> vmem d' = vmem d"
  using assms(1,3)
proof (induction "44 - t" arbitrary: t d)
  case (0 t d)
  then have "t = 44" by simp
  with "0" have "\<not> cursor (console_table d n) \<ge> current_start_addr (console_table d n) + SCREEN_SIZE"
    using con_index [OF assms(2)] assms(4) of_nat_u32_le [of "n * cells + 80 * t + 2000" "n * cells + k"]
    by (simp add: con_at_def screen_of_nat cells_def algebra_simps)
  with "0" show ?case
    using \<open>t = 44\<close> assms(4) by (subst scroll_loop.simps) (auto simp: cells_def)
next
  case (Suc i t d)
  have cond: "cursor (console_table d n) \<ge> current_start_addr (console_table d n) + SCREEN_SIZE \<longleftrightarrow> 80 * t + 2000 \<le> k"
    using Suc.prems con_index [OF assms(2)] assms(4) of_nat_u32_le [of "n * cells + 80 * t + 2000" "n * cells + k"]
    by (simp add: con_at_def screen_of_nat cells_def algebra_simps)
  show ?case
  proof (cases "80 * t + 2000 \<le> k")
    case True
    let ?d = "scroll_screen n SCR_DOWN d"
    have "con_at n k (t + 1) ?d"
      using scroll_down_at(1) [OF Suc.prems(1) assms(2) Suc.prems(2)] True assms(4) by simp
    moreover have "i = 44 - (t + 1)" "t + 1 \<le> 44" using Suc.hyps(2) by simp_all
    ultimately obtain d' t' where
      "scroll_loop n ?d = Some d'" "con_at n k t' d'" "t + 1 \<le> t'" "t' \<le> 44" "k < 80 * t' + 2000"
      "t' = t + 1 \<or> 80 * t' + 1920 \<le> k" "others_same n ?d d'" "vmem d' = vmem ?d"
      using Suc.hyps(1) by blast
    with True cond scroll_down_at(2,3) [OF Suc.prems(1) assms(2) Suc.prems(2)] show ?thesis
      by (subst scroll_loop.simps) (auto intro: others_same_trans)
  next
    case False
    with Suc.prems cond show ?thesis by (subst scroll_loop.simps) auto
  qed
qed

section \<open>What a character does\<close>

text \<open>The abstract console: the cursor cell, and the contents of the cells.\<close>

definition next_cell :: "u8 \<Rightarrow> nat \<Rightarrow> nat" where
  "next_cell ch k =
     (if ch = 10 then (if k + 80 < cells then 80 * (1 + k div 80) else k)
      else if ch = 8 then k - 1
      else if k + 1 < cells then k + 1 else k)"

definition write_cell :: "nat \<Rightarrow> u8 \<Rightarrow> nat \<Rightarrow> mem \<Rightarrow> mem" where
  "write_cell n ch k m =
     (if ch = 10 then m
      else if ch = 8 then (if 0 < k then m(cell_addr n (k - 1) := 0x20, cell_addr n (k - 1) + 1 := DEFAULT_CHAR_COLOR) else m)
      else if k + 1 < cells then m(cell_addr n k := ch, cell_addr n k + 1 := DEFAULT_CHAR_COLOR) else m)"

lemma next_cell_bound: "k < cells \<Longrightarrow> next_cell ch k < cells"
  by (auto simp: next_cell_def cells_def)

lemma newline_cell:
  assumes "n < NR_CONSOLES" "k < cells"
  shows "(of_nat (n * cells) :: u32) + SCREEN_WIDTH * (1 + (of_nat (n * cells + k) - of_nat (n * cells)) div SCREEN_WIDTH)
    = of_nat (n * cells + 80 * (1 + k div 80))"
proof -
  have "(of_nat (n * cells + k) - of_nat (n * cells)) div SCREEN_WIDTH = (of_nat (k div 80) :: u32)"
    using assms(2) by (simp add: screen_of_nat word_unat_eq_iff unat_div cells_def)
  then show ?thesis by (simp add: screen_of_nat algebra_simps)
qed

lemma cell_addr_cursor:
  "V_MEM_BASE + of_nat (n * cells + k) * 2 = cell_addr n k"
  "0 < k \<Longrightarrow> cell_addr n k - 2 = cell_addr n (k - 1)"
  by (simp_all add: cell_addr_def of_nat_diff algebra_simps)

lemma print_char_at:
  assumes "con_at n k t d" "n < NR_CONSOLES" "k < cells"
  shows "con_at n (next_cell ch k) t (print_char n ch d)" "others_same n d (print_char n ch d)"
    "vmem (print_char n ch d) = write_cell n ch k (vmem d)"
proof -
  let ?c = "console_table d n"
  have lim: "cursor ?c < original_addr ?c + v_mem_limit ?c - SCREEN_WIDTH \<longleftrightarrow> k + 80 < cells"
    "cursor ?c > original_addr ?c \<longleftrightarrow> 0 < k"
    "cursor ?c < original_addr ?c + v_mem_limit ?c - 1 \<longleftrightarrow> k + 1 < cells"
  proof -
    have e: "original_addr ?c + v_mem_limit ?c - SCREEN_WIDTH = of_nat (n * cells + cells - 80)"
      "original_addr ?c + v_mem_limit ?c - 1 = of_nat (n * cells + cells - 1)"
      using assms(1) by (simp_all add: con_at_def screen_of_nat of_nat_diff cells_def)
    show "cursor ?c < original_addr ?c + v_mem_limit ?c - SCREEN_WIDTH \<longleftrightarrow> k + 80 < cells"
      unfolding e using assms con_index [OF assms(2)]
      by (simp add: con_at_def of_nat_u32_less cells_def del: of_nat_add of_nat_mult)
    show "cursor ?c < original_addr ?c + v_mem_limit ?c - 1 \<longleftrightarrow> k + 1 < cells"
      unfolding e using assms con_index [OF assms(2)]
      by (simp add: con_at_def of_nat_u32_less cells_def del: of_nat_add of_nat_mult)
    show "cursor ?c > original_addr ?c \<longleftrightarrow> 0 < k"
      using assms con_index [OF assms(2)]
      by (simp add: con_at_def of_nat_u32_less cells_def del: of_nat_add of_nat_mult)
  qed
  have cur: "cursor ?c = of_nat (n * cells + k)" "original_addr ?c = of_nat (n * cells)"
    using assms(1) by (simp_all add: con_at_def)
  have bs: "0 < k \<Longrightarrow> cursor ?c - 1 = of_nat (n * cells + (k - 1))"
    unfolding cur by (simp add: of_nat_diff)
  show "con_at n (next_cell ch k) t (print_char n ch d)"
    using assms(1) bs newline_cell [OF assms(2,3)] unfolding print_char_def Let_def lim
    by (auto simp: con_at_def next_cell_def add.assoc)
  show "others_same n d (print_char n ch d)"
    by (simp add: print_char_def others_same_def Let_def)
  show "vmem (print_char n ch d) = write_cell n ch k (vmem d)"
    unfolding print_char_def Let_def lim unfolding cur cell_addr_cursor(1)
    by (simp add: write_cell_def cell_addr_cursor(2))
qed

lemma out_char_at:
  assumes "con_at n k t d" "n < NR_CONSOLES" "t \<le> 44" "k < cells"
  shows "\<exists>d' t'. out_char n ch d = Some d' \<and> con_at n (next_cell ch k) t' d' \<and> t \<le> t' \<and> t' \<le> 44
    \<and> next_cell ch k < 80 * t' + 2000 \<and> others_same n d d' \<and> vmem d' = write_cell n ch k (vmem d)"
proof -
  note pr = print_char_at [OF assms(1,2,4), of ch]
  from scroll_loop_at [OF pr(1) assms(2,3) next_cell_bound [OF assms(4)]] obtain d' t' where
    "scroll_loop n (print_char n ch d) = Some d'" "con_at n (next_cell ch k) t' d'" "t \<le> t'" "t' \<le> 44"
    "next_cell ch k < 80 * t' + 2000" "others_same n (print_char n ch d) d'" "vmem d' = vmem (print_char n ch d)"
    by blast
  with pr show ?thesis
    by (intro exI [of _ "flush n d'"] exI [of _ t'])
      (auto simp: out_char_def others_same_def)
qed

text \<open>The bytes of video memory that belong to console \<open>n\<close>.\<close>

definition region :: "nat \<Rightarrow> u32 set" where
  "region n = {x. 2 * (n * cells) \<le> unat (x - V_MEM_BASE) \<and> unat (x - V_MEM_BASE) < 2 * (n * cells + cells)}"

lemma region_disjoint: "m \<noteq> n \<Longrightarrow> region m \<inter> region n = {}"
proof (induction m n rule: linorder_wlog)
  case (le m n)
  then have "m + 1 \<le> n" by simp
  then have "m * cells + cells \<le> n * cells" using mult_le_mono1 [of "m + 1" n cells] by simp
  then show ?case by (auto simp: region_def)
qed blast

lemma cell_addr_region:
  assumes "n < NR_CONSOLES" "k < cells"
  shows "cell_addr n k \<in> region n" "cell_addr n k + 1 \<in> region n"
proof -
  have "cell_addr n k - V_MEM_BASE = of_nat (2 * (n * cells + k))"
    "cell_addr n k + 1 - V_MEM_BASE = of_nat (2 * (n * cells + k) + 1)"
    by (simp_all add: cell_addr_def algebra_simps)
  moreover have "unat (of_nat (2 * (n * cells + k)) :: u32) = 2 * (n * cells + k)"
    "unat (of_nat (2 * (n * cells + k) + 1) :: u32) = 2 * (n * cells + k) + 1"
    using con_index [OF assms(1)] assms(2) by (intro unat_of_nat_small; simp add: cells_def)+
  ultimately show "cell_addr n k \<in> region n" "cell_addr n k + 1 \<in> region n"
    using assms(2) by (simp_all only: region_def mem_Collect_eq) (simp_all add: distrib_left)
qed

lemma write_cell_region:
  assumes "n < NR_CONSOLES" "k < cells" "x \<notin> region n"
  shows "write_cell n ch k m x = m x"
proof -
  have ne: "x \<noteq> cell_addr n j" "x \<noteq> cell_addr n j + 1" if "j < cells" for j
    using cell_addr_region [OF assms(1) that] assms(3) by auto
  have "k - 1 < cells" using assms(2) by simp
  from this ne [OF assms(2)] ne [OF this] show ?thesis
    unfolding write_cell_def fun_upd_apply by (simp only: if_cancel if_False if_distribR fun_upd_apply)
qed

lemma out_char_safe_lemma:
  assumes "n < NR_CONSOLES" "con_ok n d"
  shows "\<exists>d'. out_char n ch d = Some d' \<and> con_ok n d' \<and> others_same n d d'
    \<and> cursor (console_table d' n) < current_start_addr (console_table d' n) + SCREEN_SIZE
    \<and> (\<forall>x. x \<notin> region n \<longrightarrow> vmem d' x = vmem d x)"
proof -
  from assms(2) obtain k t where kt: "con_at n k t d" "k < cells" "t \<le> 44" by (auto simp: con_ok_def)
  from out_char_at [OF kt(1) assms(1) kt(3,2), of ch] obtain d' t' where
    d': "out_char n ch d = Some d'" "con_at n (next_cell ch k) t' d'" "t' \<le> 44"
    "next_cell ch k < 80 * t' + 2000" "others_same n d d'" "vmem d' = write_cell n ch k (vmem d)" by blast
  have "cursor (console_table d' n) < current_start_addr (console_table d' n) + SCREEN_SIZE"
    using d'(2,3,4) con_index [OF assms(1)] next_cell_bound [OF kt(2), of ch]
      of_nat_u32_less [of "n * cells + next_cell ch k" "n * cells + 80 * t' + 2000"]
    by (simp add: con_at_def screen_of_nat cells_def)
  with d' next_cell_bound [OF kt(2)] write_cell_region [OF assms(1) kt(2)] show ?thesis
    by (auto simp: con_ok_def)
qed

text \<open>
  C22: printing a character always ends, whatever the character is and wherever the console was scrolled
  to: the scrolling loop of \<open>out_char\<close> terminates, the cursor stays inside the console and above the
  bottom of its window, no other console is touched, and only video memory of this console is written.
\<close>

theorem out_char_safe:
  assumes "n < NR_CONSOLES" "con_ok n d"
  shows "\<exists>d'. out_char n ch d = Some d' \<and> con_ok n d' \<and> others_same n d d'
    \<and> cursor (console_table d' n) < current_start_addr (console_table d' n) + SCREEN_SIZE
    \<and> (\<forall>x. x \<notin> region n \<longrightarrow> vmem d' x = vmem d x)"
  by (rule out_char_safe_lemma [OF assms])

text \<open>
  The window can run over the end of the console. From line 43 the guard of \<open>scroll_screen\<close> still
  allows one step down, after which the 25 lines shown end 59 cells behind the region of the
  console, in the cells of the next one.
\<close>

theorem scroll_window_overruns:
  assumes "n < NR_CONSOLES" "con_at n k 43 d"
  shows "current_start_addr (console_table (scroll_screen n SCR_DOWN d) n) + SCREEN_SIZE =
    original_addr (console_table (scroll_screen n SCR_DOWN d) n) + v_mem_limit (console_table (scroll_screen n SCR_DOWN d) n) + 59"
  using scroll_down_at(1) [OF assms(2,1)]
  by (simp add: con_at_def screen_of_nat cells_def)

end
