(* ===== verification/CString.thy ===== *)
theory CString
  imports Memory
begin

text \<open>
  The string routines of \<^verbatim>\<open>lib/string.c\<close> on byte memory. A scan for the terminating zero
  byte has no bound in the C code: its model is \<open>None\<close> when the scan never ends, and the
  lemmas show that it ends, with the expected result, on a zero-terminated string.
\<close>

section \<open>Zero-terminated strings\<close>

fun cstr :: "mem \<Rightarrow> u32 \<Rightarrow> u8 list \<Rightarrow> bool" where
  "cstr m p [] \<longleftrightarrow> m p = 0"
| "cstr m p (c # cs) \<longleftrightarrow> c \<noteq> 0 \<and> m p = c \<and> cstr m (p + 1) cs"

lemma cstr_no_zero: "cstr m p cs \<Longrightarrow> 0 \<notin> set cs"
  by (induction cs arbitrary: p) auto

lemma cstr_upd_outside:
  assumes "length cs < unat (a - p)"
  shows "cstr (m(a := v)) p cs \<longleftrightarrow> cstr m p cs"
  using assms
proof (induction cs arbitrary: p)
  case Nil
  then show ?case by auto
next
  case (Cons c cs)
  then have "a \<noteq> p" by auto
  then have "unat (a - (p + 1)) = unat (a - p) - 1" by (rule distance_pred)
  with Cons \<open>a \<noteq> p\<close> show ?case by auto
qed

lemma cstr_store_bytes:
  assumes "0 \<notin> set cs" "length cs < 2 ^ 32"
  shows "cstr (store_bytes p (cs @ [0]) m) p cs"
  using assms
proof (induction cs arbitrary: p m)
  case (Cons c cs)
  have "unat (p - (p + 1)) = 2 ^ 32 - 1"
    by (simp add: unsigned_minus_1_eq_mask mask_eq_exp_minus_1)
  with Cons.prems have "store_bytes (p + 1) (cs @ [0]) (m(p := c)) p = c"
    by (subst store_bytes_outside) simp_all
  with Cons show ?case by simp
qed simp

section \<open>strcpy, strcmp, strlen\<close>

partial_function (option) strcpy :: "u32 \<Rightarrow> u32 \<Rightarrow> mem \<Rightarrow> mem option" where
  "strcpy ptr src m =
     (if m src \<noteq> 0 then strcpy (ptr + 1) (src + 1) (m(ptr := m src)) else Some (m(ptr := 0)))"

partial_function (option) strcmp :: "mem \<Rightarrow> u32 \<Rightarrow> u32 \<Rightarrow> u32 option" where
  "strcmp m src dest =
     (if m src = m dest then if m src = 0 then Some 0 else strcmp m (src + 1) (dest + 1)
      else Some 1)"

partial_function (option) strlen_loop :: "mem \<Rightarrow> u32 \<Rightarrow> u32 \<Rightarrow> u32 option" where
  "strlen_loop m p i = (if m p \<noteq> 0 then strlen_loop m (p + 1) (i + 1) else Some i)"

definition strlen :: "mem \<Rightarrow> u32 \<Rightarrow> u32 option" where
  "strlen m p = strlen_loop m p 0"

lemma strlen_loop_cstr: "cstr m p cs \<Longrightarrow> strlen_loop m p i = Some (i + of_nat (length cs))"
proof (induction cs arbitrary: p i)
  case Nil
  then show ?case by (subst strlen_loop.simps) simp
next
  case (Cons c cs)
  then show ?case by (subst strlen_loop.simps) (auto simp: algebra_simps)
qed

lemma strlen_cstr: "cstr m p cs \<Longrightarrow> strlen m p = Some (of_nat (length cs))"
  by (simp add: strlen_def strlen_loop_cstr)

lemma strcpy_cstr:
  assumes "cstr m src cs" "length cs < unat (dest - src)"
  shows "strcpy dest src m = Some (store_bytes dest (cs @ [0]) m)"
  using assms
proof (induction cs arbitrary: dest src m)
  case Nil
  then show ?case by (subst strcpy.simps) simp
next
  case (Cons c cs)
  then have "dest \<noteq> src" by auto
  then have "unat (dest - (src + 1)) = unat (dest - src) - 1" by (rule distance_pred)
  with Cons.prems have "cstr (m(dest := c)) (src + 1) cs" "length cs < unat (dest + 1 - (src + 1))"
    by (auto simp: cstr_upd_outside)
  with Cons have "strcpy (dest + 1) (src + 1) (m(dest := c)) =
      Some (store_bytes (dest + 1) (cs @ [0]) (m(dest := c)))"
    by blast
  with Cons.prems show ?case by (subst strcpy.simps) auto
qed

lemma strcmp_cstr:
  "cstr m p cs \<Longrightarrow> cstr m q ds \<Longrightarrow> strcmp m p q = Some (if cs = ds then 0 else 1)"
proof (induction cs arbitrary: p q ds)
  case Nil
  then show ?case by (subst strcmp.simps) (cases ds; auto)
next
  case (Cons c cs)
  then show ?case
    by (subst strcmp.simps) (cases ds; auto)
qed

section \<open>itoa: hexadecimal output\<close>

definition hex_char :: "u8 \<Rightarrow> u8" where
  "hex_char ch = (let ch = ch + 0x30 in if ch > 0x39 then ch + 7 else ch)"

fun itoa_digits :: "nat list \<Rightarrow> bool \<Rightarrow> u32 \<Rightarrow> u8 list" where
  "itoa_digits [] flag num = []"
| "itoa_digits (i # is) flag num =
     (let ch = ucast (signed_drop_bit i num AND 0xF)
      in if flag \<or> ch \<noteq> 0 then hex_char ch # itoa_digits is True num
         else itoa_digits is flag num)"

definition itoa_string :: "u32 \<Rightarrow> u8 list" where
  "itoa_string num = [0x30, 0x78] @
     (if num = 0 then [0x30] else itoa_digits [28, 24, 20, 16, 12, 8, 4, 0] False num)"

definition itoa :: "u32 \<Rightarrow> u32 \<Rightarrow> mem \<Rightarrow> mem" where
  "itoa str num m = store_bytes str (itoa_string num @ [0]) m"

text \<open>Reading the digits back.\<close>

definition hex_value :: "u8 \<Rightarrow> nat" where
  "hex_value c = (if c \<le> 0x39 then unat c - 48 else unat c - 55)"

definition hex_parse :: "u8 list \<Rightarrow> nat" where
  "hex_parse cs = foldl (\<lambda>n c. 16 * n + hex_value c) 0 cs"

lemma unat_hex_char:
  assumes "unat x < 16"
  shows "unat (hex_char x) = (if unat x < 10 then unat x + 48 else unat x + 55)"
proof -
  from assms have "unat (x + 48) = unat x + 48" "unat (x + 48 + 7) = unat x + 55"
    by (simp_all add: unat_word_ariths)
  then show ?thesis by (auto simp: hex_char_def word_less_nat_alt)
qed

lemma hex_value_hex_char: "unat x < 16 \<Longrightarrow> hex_value (hex_char x) = unat x"
  by (auto simp: hex_value_def unat_hex_char word_le_nat_alt)

lemma hex_char_nonzero: "unat x < 16 \<Longrightarrow> hex_char x \<noteq> 0"
  using unat_hex_char [of x] by (auto split: if_splits)

lemma nibble_value:
  assumes "i \<le> 28"
  shows "unat (ucast (signed_drop_bit i (num :: u32) AND 0xF) :: u8) = unat num div 2 ^ i mod 16"
proof -
  have m: "(0xF :: u32) = mask 4" by (simp add: mask_eq_exp_minus_1)
  have "signed_drop_bit i num AND mask 4 = drop_bit i num AND mask 4"
    using assms by (intro bit_word_eqI) (auto simp: bit_simps bit_signed_drop_bit_iff)
  then have "signed_drop_bit i num AND 0xF = word_of_nat (unat num div 2 ^ i mod 16)"
    by (simp only: m word_and_mask_mod unat_drop_bit_div) simp
  then have "unat (signed_drop_bit i num AND 0xF) = unat num div 2 ^ i mod 16"
    by (simp add: unat_of_nat take_bit_nat_eq_self_iff less_trans [of _ 16])
  then show ?thesis by (simp add: unsigned_ucast_eq take_bit_nat_eq_self_iff less_trans [of _ 16])
qed

text \<open>
  The digits printed from shift \<open>4 * j\<close> down to 0, appended to the value \<open>num div 16 ^ Suc j\<close> that
  is already read, give \<open>num\<close>.
\<close>

fun shifts :: "nat \<Rightarrow> nat list" where
  "shifts 0 = []"
| "shifts (Suc j) = 4 * j # shifts j"

lemma shifts_8: "[28, 24, 20, 16, 12, 8, 4, 0] = shifts 8"
  by (simp add: eval_nat_numeral)

lemma itoa_digits_value:
  assumes "j \<le> 8" "flag \<or> unat num div 16 ^ j = 0"
  shows "foldl (\<lambda>n c. 16 * n + hex_value c) (unat num div 16 ^ j) (itoa_digits (shifts j) flag num)
    = unat num"
  using assms
proof (induction j arbitrary: flag)
  case (Suc j)
  let ?x = "ucast (signed_drop_bit (4 * j) num AND 0xF) :: u8"
  have x: "unat ?x = unat num div 16 ^ j mod 16"
    using nibble_value [of "4 * j" num] Suc.prems by (simp add: power_mult)
  then have x16: "unat ?x < 16" by simp
  have step: "16 * (unat num div 16 ^ Suc j) + unat ?x = unat num div 16 ^ j"
    unfolding x power_Suc2 div_mult2_eq by simp
  show ?case
  proof (cases "flag \<or> ?x \<noteq> 0")
    case True
    then show ?thesis
      using Suc.IH [of True] Suc.prems(1) step hex_value_hex_char [OF x16] by (simp add: Let_def)
  next
    case False
    with Suc.prems have "unat num div 16 ^ Suc j = 0" "unat ?x = 0" by auto
    with step have "unat num div 16 ^ j = 0" by simp
    with False \<open>unat num div 16 ^ Suc j = 0\<close> show ?thesis
      using Suc.IH [of False] Suc.prems(1) by (simp add: Let_def)
  qed
qed simp

lemma length_itoa_digits: "length (itoa_digits is flag num) \<le> length is"
  by (induction "is" flag num rule: itoa_digits.induct) (auto simp: Let_def intro: le_SucI)

lemma itoa_digits_nonzero: "\<forall>i \<in> set is. i \<le> 28 \<Longrightarrow> 0 \<notin> set (itoa_digits is flag num)"
proof (induction "is" flag num rule: itoa_digits.induct)
  case (2 i "is" flag num)
  have "unat (ucast (signed_drop_bit i num AND 0xF) :: u8) < 16"
    using nibble_value [of i num] "2.prems" by simp
  from hex_char_nonzero [OF this] "2" show ?case by (auto simp: Let_def)
qed simp

lemma hex_of_itoa_string:
  "hex_parse (drop 2 (itoa_string num)) = unat num"
proof (cases "num = 0")
  case True
  then show ?thesis by (simp add: itoa_string_def hex_parse_def hex_value_def)
next
  case False
  have "unat num < 16 ^ 8" using unsigned_less [of num, where ?'a = nat] by simp
  then have "unat num div 16 ^ 8 = 0" by simp
  with itoa_digits_value [of 8 False num] False show ?thesis
    by (simp add: itoa_string_def hex_parse_def shifts_8)
qed

lemma length_itoa_string: "length (itoa_string num) \<le> 10"
  using length_itoa_digits [of "[28, 24, 20, 16, 12, 8, 4, 0]" False num]
  by (simp add: itoa_string_def)

lemma itoa_string_nonzero: "0 \<notin> set (itoa_string num)"
  using itoa_digits_nonzero [of "[28, 24, 20, 16, 12, 8, 4, 0]" False num]
  by (simp add: itoa_string_def)

lemma itoa_cstr: "cstr (itoa str num m) str (itoa_string num)"
  using itoa_string_nonzero [of num] length_itoa_string [of num]
  by (simp add: itoa_def cstr_store_bytes)

text \<open>
  \<open>itoa\<close> leaves at \<open>str\<close> a terminated string of at most ten characters that starts with \<open>0x\<close> and
  reads back in hexadecimal as the argument.
\<close>

theorem itoa_roundtrip:
  "\<exists>cs. cstr (itoa str num m) str cs \<and> length cs \<le> 10 \<and> take 2 cs = [0x30, 0x78]
    \<and> hex_parse (drop 2 cs) = unat num"
  using itoa_cstr [of str num m] length_itoa_string [of num] hex_of_itoa_string [of num]
  by (intro exI [of _ "itoa_string num"]) (simp add: itoa_string_def)

end
