(* ===== verification/Format.thy ===== *)
theory Format
  imports CString "HOL-Library.Signed_Division" "HOL-Library.Char_ord"
begin

text \<open>
  The formatted output of \<^verbatim>\<open>lib/vsprintf.c\<close>: \<open>integer2char\<close> and \<open>vsprintf\<close>. The format is the list
  of bytes from \<open>fmt\<close> on, with its terminating zero and whatever follows it in memory; reading
  past the end of the list is the fault \<open>Wild\<close>. An argument is the double word that \<open>%d\<close> and \<open>%x\<close>
  print, or the string that \<open>%s\<close> points to. The result is the list of bytes written to \<open>buf\<close>,
  without the final zero.
\<close>

section \<open>Decimal output\<close>

text \<open>\<open>int\<close> values of the target wrap at 32 bits (the code is compiled for i386).\<close>

definition wrap_int :: "int \<Rightarrow> int" where
  "wrap_int x = (x + 2 ^ 31) mod 2 ^ 32 - 2 ^ 31"

text \<open>
  The characters that \<open>integer2char\<close> stores through \<open>p\<close>, in order. Division and remainder
  truncate towards zero. A base of 0 traps and a base of 1 never ends: both are \<open>None\<close>.
\<close>

partial_function (option) integer2char :: "int \<Rightarrow> int \<Rightarrow> u8 list option" where
  "integer2char i base =
     (let sign = (if i < 0 then [0x2D] else []);
          i = (if i < 0 then wrap_int (- i) else i);
          m = i smod base;
          digit = (if m < 10 then word_of_int (48 + m) else word_of_int (65 + m - 10))
      in if base = 0 then None
         else if i sdiv base \<noteq> 0
         then Option.bind (integer2char (i sdiv base) base) (\<lambda>cs. Some (sign @ cs @ [digit]))
         else Some (sign @ [digit]))"

lemma wrap_int_id: "- (2 ^ 31) \<le> x \<Longrightarrow> x < 2 ^ 31 \<Longrightarrow> wrap_int x = x"
  by (simp add: wrap_int_def)

definition dec_value :: "u8 list \<Rightarrow> int" where
  "dec_value cs = foldl (\<lambda>n c. 10 * n + (uint c - 48)) 0 cs"

definition dec_parse :: "u8 list \<Rightarrow> int" where
  "dec_parse cs = (case cs of [] \<Rightarrow> 0 | c # ds \<Rightarrow> if c = 0x2D then - dec_value ds else dec_value cs)"

definition dec_digit :: "u8 \<Rightarrow> bool" where
  "dec_digit c \<longleftrightarrow> 0x30 \<le> c \<and> c \<le> 0x39"

lemma sdiv_smod_nonneg:
  fixes i :: int
  assumes "0 \<le> i"
  shows "i sdiv 10 = i div 10" "i smod 10 = i mod 10"
  using assms by (auto simp: signed_divide_int_def signed_modulo_int_def sgn_if minus_mult_div_eq_mod)

lemma uint_digit:
  assumes "0 \<le> m" "m < (10::int)"
  shows "uint (word_of_int (48 + m) :: u8) = 48 + m" "dec_digit (word_of_int (48 + m))"
proof -
  show u: "uint (word_of_int (48 + m) :: u8) = 48 + m"
    using assms unfolding uint_word_of_int by simp
  show "dec_digit (word_of_int (48 + m))"
    using assms u by (simp add: dec_digit_def word_le_def)
qed

lemma integer2char_nonneg:
  assumes "0 \<le> i"
  shows "\<exists>cs. integer2char i 10 = Some cs \<and> cs \<noteq> [] \<and> list_all dec_digit cs \<and> dec_value cs = i"
  using assms
proof (induction "nat i" arbitrary: i rule: less_induct)
  case less
  let ?d = "word_of_int (48 + i mod 10) :: u8"
  have d: "uint ?d = 48 + i mod 10" "dec_digit ?d" by (rule uint_digit; simp)+
  show ?case
  proof (cases "i div 10 = 0")
    case True
    with less.prems d show ?thesis
      by (subst integer2char.simps) (simp add: sdiv_smod_nonneg Let_def dec_value_def)
  next
    case False
    with less.prems have "nat (i div 10) < nat i" "0 \<le> i div 10" by auto
    then obtain cs where cs: "integer2char (i div 10) 10 = Some cs" "list_all dec_digit cs"
      "dec_value cs = i div 10"
      using less.hyps by blast
    then have "integer2char i 10 = Some (cs @ [?d])"
      using False less.prems by (subst integer2char.simps) (simp add: sdiv_smod_nonneg Let_def)
    moreover have "dec_value (cs @ [?d]) = i"
      using cs(3) d by (simp add: dec_value_def)
    ultimately show ?thesis using cs(2) d(2) by simp
  qed
qed

lemma dec_digit_not_minus: "dec_digit c \<Longrightarrow> c \<noteq> 0x2D"
  by (auto simp: dec_digit_def)

text \<open>
  \<open>integer2char\<close> with base 10 always returns for a 32-bit \<open>int\<close> other than the smallest one,
  and the characters it stores read back as its argument, sign included.
\<close>

theorem integer2char_roundtrip:
  assumes "- (2 ^ 31) < i" "i < 2 ^ 31"
  shows "\<exists>cs. integer2char i 10 = Some cs \<and> dec_parse cs = i"
proof (cases "0 \<le> i")
  case True
  then obtain cs where cs: "integer2char i 10 = Some cs" "cs \<noteq> []" "list_all dec_digit cs" "dec_value cs = i"
    using integer2char_nonneg by blast
  then show ?thesis
    by (cases cs) (auto simp: dec_parse_def dest: dec_digit_not_minus)
next
  case False
  with assms have w: "wrap_int (- i) = - i" by (intro wrap_int_id) auto
  from False obtain cs where cs: "integer2char (- i) 10 = Some cs" "dec_value cs = - i"
    using integer2char_nonneg [of "- i"] by auto
  from cs(1) False w have "integer2char i 10 = Some (0x2D # cs)"
    by (subst (asm) integer2char.simps, subst integer2char.simps)
      (auto simp: Let_def bind_eq_Some_conv split: if_splits)
  with cs(2) show ?thesis by (simp add: dec_parse_def)
qed

text \<open>
  The smallest \<open>int\<close> is its own negation on the target: a second minus sign and a character
  that is no digit are printed.
\<close>

lemma integer2char_int_min:
  "integer2char (- (2 ^ 31)) 10 = Some (map of_char ''--214748364('')"
  by (simp add: integer2char.simps wrap_int_def Let_def signed_divide_int_def signed_modulo_int_def)

section \<open>vsprintf\<close>

datatype fmt_arg = Word u32 | Str "u8 list"

definition is_digit :: "u8 \<Rightarrow> bool" where
  "is_digit c \<longleftrightarrow> c \<ge> 0x30 \<and> c \<le> 0x39"

definition width_value :: "u8 list \<Rightarrow> int" where
  "width_value ds = foldl (\<lambda>n c. n * 10 + uint c - 0x30) 0 ds"

text \<open>
  The switch on the conversion character: the text it puts into \<open>buf\<close>, the length of \<open>tmp\<close>
  (which \<open>%s\<close> leaves empty) and the arguments that are left.
\<close>

definition convert :: "u8 \<Rightarrow> fmt_arg list \<Rightarrow> fault + u8 list \<times> nat \<times> fmt_arg list" where
  "convert c args =
    (if c = 0x64 then
       (case args of Word w # rest \<Rightarrow>
          ebind (or_spin (integer2char (sint w) 10)) (\<lambda>cs. Inr (cs, length cs, rest))
        | _ \<Rightarrow> Inl (Wild ''args''))
     else if c = 0x78 then
       (case args of Word w # rest \<Rightarrow> Inr (itoa_string w, length (itoa_string w), rest)
        | _ \<Rightarrow> Inl (Wild ''args''))
     else if c = 0x73 then
       (case args of Str s # rest \<Rightarrow> Inr (s, 0, rest) | _ \<Rightarrow> Inl (Wild ''args''))
     else Inr ([], 0, args))"

lemma length_dropWhile_hd: "dropWhile P xs = k # r \<Longrightarrow> length r < length xs"
  using length_dropWhile_le [of P xs] by simp

lemma less_dropWhile_length: "n < length (dropWhile P xs) \<Longrightarrow> n < Suc (Suc (length xs))"
  using length_dropWhile_le [of P xs] by simp

text \<open>
  In the \<open>%%\<close> branch the pointer is advanced by \<open>*fmt++\<close> and once more by the \<open>fmt++\<close> of the
  \<open>for\<close> that \<open>continue\<close> jumps to: the character after \<open>%%\<close> is skipped, whatever it is.
\<close>

function vsprintf :: "u8 list \<Rightarrow> fmt_arg list \<Rightarrow> fault + u8 list" where
  "vsprintf fmt args =
    (case fmt of [] \<Rightarrow> Inl (Wild ''fmt'')
     | c # fmt \<Rightarrow>
       if c = 0 then Inr []
       else if c \<noteq> 0x25 then ebind (vsprintf fmt args) (\<lambda>out. Inr (c # out))
       else
         (case fmt of [] \<Rightarrow> Inl (Wild ''fmt'')
          | d # rest \<Rightarrow>
            if d = 0x25 then
              (case rest of [] \<Rightarrow> Inl (Wild ''fmt'')
               | _ # rest \<Rightarrow> ebind (vsprintf rest args) (\<lambda>out. Inr (0x25 # out)))
            else
              (let align_char = (if d = 0x30 then 0x30 else 0x20);
                   fmt = dropWhile (\<lambda>c. c = 0x30) fmt;
                   align_times = width_value (takeWhile is_digit fmt)
               in case dropWhile is_digit fmt of [] \<Rightarrow> Inl (Wild ''fmt'')
                  | k # rest \<Rightarrow>
                    ebind (convert k args) (\<lambda>(text, tmp_len, args).
                      ebind (vsprintf rest args) (\<lambda>out.
                        Inr (text @ replicate (nat (align_times - int tmp_len)) align_char @ out))))))"
  by pat_completeness auto
termination
  by (relation "measure (\<lambda>(fmt, args). length fmt)")
    (auto dest!: length_dropWhile_hd intro: less_dropWhile_length split: if_splits)

declare vsprintf.simps [simp del]

definition ascii :: "string \<Rightarrow> u8 list" where
  "ascii s = map of_char s"

text \<open>A format string in memory: its characters and the terminating zero, then other bytes.\<close>

definition fmt_string :: "string \<Rightarrow> u8 list" where
  "fmt_string s = ascii s @ [0]"

text \<open>\<open>sprintf\<close> leaves the text and its final zero in the buffer.\<close>

definition sprintf :: "u32 \<Rightarrow> u8 list \<Rightarrow> fmt_arg list \<Rightarrow> mem \<Rightarrow> fault + mem" where
  "sprintf buf fmt args m = ebind (vsprintf fmt args) (\<lambda>out. Inr (store_bytes buf (out @ [0]) m))"

text \<open>Several calls of \<open>printf\<close> whose formats end in a line feed.\<close>

definition format_line :: "string \<Rightarrow> fmt_arg list \<Rightarrow> fault + u8 list" where
  "format_line fmt args = vsprintf (ascii fmt @ [0x0A, 0]) args"

fun format_lines :: "(string \<times> fmt_arg list) list \<Rightarrow> fault + u8 list list" where
  "format_lines [] = Inr []"
| "format_lines ((fmt, args) # ls) = ebind (format_line fmt args) (\<lambda>l. ebind (format_lines ls) (\<lambda>ls. Inr (l # ls)))"

definition plain :: "u8 list \<Rightarrow> bool" where
  "plain cs \<longleftrightarrow> 0 \<notin> set cs \<and> 0x25 \<notin> set cs"

lemma vsprintf_plain:
  "plain cs \<Longrightarrow> vsprintf (cs @ fmt) args = ebind (vsprintf fmt args) (\<lambda>out. Inr (cs @ out))"
proof (induction cs)
  case Nil
  show ?case by (cases "vsprintf fmt args") simp_all
next
  case (Cons c cs)
  then have "vsprintf (cs @ fmt) args = ebind (vsprintf fmt args) (\<lambda>out. Inr (cs @ out))"
    by (simp add: plain_def)
  with Cons.prems show ?case
    by (subst vsprintf.simps) (cases "vsprintf fmt args"; simp add: plain_def)
qed

lemma vsprintf_end [simp]: "vsprintf (0 # junk) args = Inr []"
  by (subst vsprintf.simps) simp

lemma vsprintf_d:
  "vsprintf (0x25 # 0x64 # fmt) (Word w # args) =
    ebind (or_spin (integer2char (sint w) 10)) (\<lambda>cs.
      ebind (vsprintf fmt args) (\<lambda>out. Inr (cs @ out)))"
  by (subst vsprintf.simps)
    (cases "integer2char (sint w) 10"; simp add: convert_def is_digit_def width_value_def)

lemma vsprintf_s:
  "vsprintf (0x25 # 0x73 # fmt) (Str s # args) =
    ebind (vsprintf fmt args) (\<lambda>out. Inr (s @ out))"
  by (subst vsprintf.simps) (simp add: convert_def is_digit_def width_value_def)

lemma vsprintf_x:
  "vsprintf (0x25 # 0x78 # fmt) (Word w # args) =
    ebind (vsprintf fmt args) (\<lambda>out. Inr (itoa_string w @ out))"
  by (subst vsprintf.simps) (simp add: convert_def is_digit_def width_value_def)

text \<open>
  C40: a format of plain text around one \<open>%d\<close> prints the text with the decimal digits of the
  argument in between, for every 32-bit argument but the smallest \<open>int\<close>, whatever follows
  the format in memory.
\<close>

theorem vsprintf_decimal:
  assumes "plain a" "plain b" "w \<noteq> 0x80000000"
  shows "\<exists>cs. vsprintf (a @ 0x25 # 0x64 # b @ 0 # junk) [Word w] = Inr (a @ cs @ b) \<and> dec_parse cs = sint w"
proof -
  have "sint w \<noteq> sint (0x80000000 :: u32)"
    using assms(3) by (metis signed_word_eqI)
  then have "sint w \<noteq> - (2 ^ 31)" "sint w < 2 ^ 31" "- (2 ^ 31) \<le> sint w"
    using sint_lt [of w] sint_ge [of w] by simp_all
  then obtain cs where "integer2char (sint w) 10 = Some cs" "dec_parse cs = sint w"
    using integer2char_roundtrip [of "sint w"] by auto
  with assms show ?thesis by (simp add: vsprintf_plain vsprintf_d)
qed

text \<open>
  \<open>%%\<close> swallows the character after it: \<open>100%% ok\<close> prints \<open>100%ok\<close>, and a format that ends
  in \<open>%%\<close> makes the scan run past its terminating zero.
\<close>

theorem vsprintf_percent_skips:
  "vsprintf (0x25 # 0x25 # c # fmt) args = ebind (vsprintf fmt args) (\<lambda>out. Inr (0x25 # out))"
  by (subst vsprintf.simps) simp

text \<open>
  A field width pads on the right of the text, with the pad character \<open>0\<close> too: for a width of
  one digit \<open>k\<close>, \<open>%0kd\<close> prints the number followed by zeros, so \<open>%03d\<close> of 5 prints \<open>500\<close>.
\<close>

theorem vsprintf_pads_right:
  assumes "is_digit k" "k \<noteq> 0x30" "integer2char (sint w) 10 = Some cs"
  shows "vsprintf (0x25 # 0x30 # k # 0x64 # 0 # junk) [Word w] =
    Inr (cs @ replicate (unat k - 48 - length cs) 0x30)"
proof -
  have k: "(0x30 :: u8) \<le> k" using assms(1) by (simp add: is_digit_def)
  then have "width_value [k] = int (unat k - 48)"
    by (simp add: width_value_def word_le_nat_alt of_nat_diff)
  moreover have "\<not> is_digit 0x64" "k \<noteq> 0x25" using k by (auto simp: is_digit_def)
  ultimately show ?thesis
    using assms by (subst vsprintf.simps) (simp add: convert_def nat_diff_distrib)
qed

theorem vsprintf_pads_right_witness:
  "vsprintf (0x25 # 0x30 # 0x33 # 0x64 # 0 # []) [Word 5] = Inr (ascii ''500'')"
proof -
  have "integer2char (sint (5 :: u32)) 10 = Some [0x35]"
    by (simp add: integer2char.simps signed_divide_int_def signed_modulo_int_def Let_def)
  moreover have "replicate 2 (0x30 :: u8) = [0x30, 0x30]" by (simp add: numeral_2_eq_2)
  ultimately show ?thesis
    using vsprintf_pads_right [of "0x33" 5 "[0x35]" "[]"] by (simp add: is_digit_def ascii_def)
qed

theorem vsprintf_decimal_witness:
  "\<exists>cs. vsprintf (ascii ''dev_tty'' @ 0x25 # 0x64 # [] @ 0 # [7]) [Word 2] = Inr (ascii ''dev_tty'' @ cs @ [])
    \<and> dec_parse cs = 2"
  using vsprintf_decimal [of "ascii ''dev_tty''" "[]" 2 "[7]"]
  by (simp add: plain_def ascii_def)

theorem integer2char_roundtrip_witness:
  "\<exists>cs. integer2char (- 42) 10 = Some cs \<and> dec_parse cs = - 42"
  using integer2char_roundtrip [of "- 42"] by simp

end
