(* ===== verification/Process.thy ===== *)
theory Process
  imports Protect Format
begin

text \<open>
  The process table of \<^verbatim>\<open>include/process.h\<close> and \<^verbatim>\<open>include/ipc.h\<close>, the kernel state that the
  system calls work on, \<open>panic\<close> and the address translation of \<^verbatim>\<open>lib/page.c\<close>.

  A pointer into \<open>proc_table\<close> is the index of its entry, a null pointer is \<open>None\<close>. The padding
  fields \<open>a\<close> to \<open>g\<close> and the stack of a process are not modelled: no C code reads them. \<open>ticks\<close> and
  \<open>priority\<close> are unbounded integers: \<open>Clock.clock_run_bounds\<close> shows that they stay within the
  initial priorities.
\<close>

section \<open>Constants\<close>

definition NR_PROCS :: nat where "NR_PROCS = 3"
definition NR_TASKS :: nat where "NR_TASKS = 4"

abbreviation nr_proc_table :: nat where "nr_proc_table \<equiv> NR_TASKS + NR_PROCS"

definition PROC_TYPE_TASK :: int where "PROC_TYPE_TASK = 0"
definition PROC_TYPE_USER :: int where "PROC_TYPE_USER = 1"

definition NO_TASK :: int where "NO_TASK = -1"
definition ANY :: int where "ANY = -2"
definition INTERRUPT :: int where "INTERRUPT = -3"

definition SEND :: int where "SEND = 1"
definition RECEIVE :: int where "RECEIVE = 2"
definition BOTH :: int where "BOTH = 3"

definition SENDING :: u32 where "SENDING = 0x2"
definition RECEIVING :: u32 where "RECEIVING = 0x4"

definition HARD_INT :: u32 where "HARD_INT = 1"

definition TASK_TTY :: nat where "TASK_TTY = 3"
definition TASK_SYS :: nat where "TASK_SYS = 4"
definition TASK_HD :: nat where "TASK_HD = 5"
definition TASK_FS :: nat where "TASK_FS = 6"

lemmas proc_consts = NR_PROCS_def NR_TASKS_def NO_TASK_def ANY_def INTERRUPT_def
lemmas flag_consts = SENDING_def RECEIVING_def

section \<open>Messages\<close>

text \<open>
  The i386 layout of \<open>MESSAGE\<close>: ten \<open>int\<close>s, a pointer, a 64-bit position (aligned to four
  bytes), a pointer and the union, whose largest member \<open>mess3\<close> has 40 bytes.
\<close>

definition msg_source :: u32 where "msg_source = 0"
definition msg_type :: u32 where "msg_type = 4"
definition msg_RETVAL :: u32 where "msg_RETVAL = 8"
definition sizeof_MESSAGE :: u32 where "sizeof_MESSAGE = 10 * 4 + 4 + 8 + 4 + 40"

lemma sizeof_MESSAGE_simps [simp]:
  "sizeof_MESSAGE \<noteq> 0" "copied_bytes sizeof_MESSAGE = 96" "unat sizeof_MESSAGE = 96"
  by (simp_all add: sizeof_MESSAGE_def copied_bytes_def)

section \<open>Processes and the kernel state\<close>

record stack_frame =
  r_gs :: u32
  r_fs :: u32
  r_es :: u32
  r_ds :: u32
  r_edi :: u32
  r_esi :: u32
  r_ebp :: u32
  r_kernel_esp :: u32
  r_ebx :: u32
  r_edx :: u32
  r_ecx :: u32
  r_eax :: u32
  r_retaddr :: u32
  r_eip :: u32
  r_cs :: u32
  r_eflags :: u32
  r_esp :: u32
  r_ss :: u32

record process =
  regs :: stack_frame
  ldt_selector :: u16
  ldts :: "nat \<Rightarrow> descriptor"
  priority :: int
  p_ticks :: int
  pid :: u32
  nr_tty :: u32
  proc_type :: int
  pname :: "u8 list"
  p_flags :: u32
  p_msg :: u32
  p_recvfrom :: int
  p_sendto :: int
  has_int_msg :: bool
  q_sending :: "nat option"
  next_sending :: "nat option"
  filp :: "nat \<Rightarrow> nat option"

record kstate =
  procs :: "nat \<Rightarrow> process"
  cur :: nat
  k_reenter :: u32
  ticks :: int
  kmem :: mem
  klog :: "u8 list list"

text \<open>One entry of the process table is updated.\<close>

definition upd_proc :: "nat \<Rightarrow> (process \<Rightarrow> process) \<Rightarrow> kstate \<Rightarrow> kstate" where
  "upd_proc p f s = s\<lparr>procs := (procs s)(p := f (procs s p))\<rparr>"

lemma upd_proc_simps [simp]:
  "procs (upd_proc p f s) = (procs s)(p := f (procs s p))"
  "cur (upd_proc p f s) = cur s"
  "k_reenter (upd_proc p f s) = k_reenter s"
  "ticks (upd_proc p f s) = ticks s"
  "kmem (upd_proc p f s) = kmem s"
  "klog (upd_proc p f s) = klog s"
  by (simp_all add: upd_proc_def)

definition valid_pid :: "int \<Rightarrow> bool" where
  "valid_pid d \<longleftrightarrow> 0 \<le> d \<and> d < int nr_proc_table"

text \<open>
  \<open>panic\<close> formats its message and calls \<open>printx\<close>. \<open>sys_printx\<close> halts the machine when the current
  process is a task; for a user process it prints the message and \<open>panic\<close> returns.
\<close>

definition panic :: "u8 list \<Rightarrow> kstate \<Rightarrow> fault + kstate" where
  "panic msg s =
    (if proc_type (procs s (cur s)) = PROC_TYPE_TASK then Inl (Halted msg)
     else Inr (s\<lparr>klog := klog s @ [msg]\<rparr>))"

definition printf :: "u8 list \<Rightarrow> kstate \<Rightarrow> kstate" where
  "printf msg s = s\<lparr>klog := klog s @ [msg]\<rparr>"

lemma printf_simps [simp]:
  "procs (printf m s) = procs s" "cur (printf m s) = cur s" "k_reenter (printf m s) = k_reenter s"
  "ticks (printf m s) = ticks s" "kmem (printf m s) = kmem s"
  by (simp_all add: printf_def)

lemma panic_cases:
  assumes "panic msg s = Inr s'"
  shows "s' = printf msg s \<and> proc_type (procs s (cur s)) \<noteq> PROC_TYPE_TASK"
  using assms by (simp add: panic_def printf_def split: if_splits)

text \<open>
  The linear base of a process: the base of the data descriptor in its LDT. A process id that is
  out of range panics; for a user process the panic returns and the table is read out of bounds.
\<close>

definition ldt_proc_id2base :: "int \<Rightarrow> kstate \<Rightarrow> fault + u32" where
  "ldt_proc_id2base proc_id s =
    (if \<not> valid_pid proc_id
     then ebind (panic (ascii ''proc_id out of bound!'') s) (\<lambda>_. Inl (Wild ''proc_table''))
     else Inr (ldt_desc_base (ldts (procs s (nat proc_id)) (unat (drop_bit 3 SELECTOR_KERNEL_DS)))))"

definition vir2linear :: "u32 \<Rightarrow> u32 \<Rightarrow> u32" where
  "vir2linear seg_base vir = seg_base + vir"

text \<open>The linear address of a pointer of process \<open>p\<close>, for a process id in range.\<close>

definition lin :: "kstate \<Rightarrow> nat \<Rightarrow> u32 \<Rightarrow> u32" where
  "lin s p a = vir2linear (ldt_desc_base (ldts (procs s p) 2)) a"

lemma valid_pid_int [simp]: "valid_pid (int p) \<longleftrightarrow> p < nr_proc_table"
  by (simp add: valid_pid_def proc_consts)

lemma ldt_proc_id2base_valid:
  "p < nr_proc_table \<Longrightarrow> ldt_proc_id2base (int p) s = Inr (ldt_desc_base (ldts (procs s p) 2))"
  by (simp add: ldt_proc_id2base_def SELECTOR_KERNEL_DS_def drop_bit_eq_div unat_div)

end
