(* ===== verification/Clock.thy ===== *)
theory Clock
  imports Process
begin

text \<open>
  The clock interrupt and the scheduler of \<^verbatim>\<open>kernel/clock.c\<close>. The \<open>while\<close> loop of \<open>schedule\<close> has
  no bound: \<open>None\<close> is "never returns", and the lemmas say exactly when that happens.
\<close>

section \<open>The scheduler\<close>

text \<open>The \<open>for\<close> loop over the table: the first runnable process with the most ticks.\<close>

fun pick_loop :: "(nat \<Rightarrow> process) \<Rightarrow> nat list \<Rightarrow> int \<times> nat \<Rightarrow> int \<times> nat" where
  "pick_loop ps [] (greatest_ticks, c) = (greatest_ticks, c)"
| "pick_loop ps (p # is) (greatest_ticks, c) =
     (if p_flags (ps p) = 0 \<and> p_ticks (ps p) > greatest_ticks
      then pick_loop ps is (p_ticks (ps p), p)
      else pick_loop ps is (greatest_ticks, c))"

text \<open>The second \<open>for\<close> loop: every runnable process gets its priority as new ticks.\<close>

definition refill :: "kstate \<Rightarrow> kstate" where
  "refill s = s\<lparr>procs := (\<lambda>p. if p < nr_proc_table \<and> p_flags (procs s p) = 0
     then procs s p\<lparr>p_ticks := priority (procs s p)\<rparr> else procs s p)\<rparr>"

partial_function (option) schedule_loop :: "int \<Rightarrow> kstate \<Rightarrow> kstate option" where
  "schedule_loop greatest_ticks s =
     (if greatest_ticks \<noteq> 0 then Some s
      else let (g, c) = pick_loop (procs s) [0..<nr_proc_table] (greatest_ticks, cur s);
               s = s\<lparr>cur := c\<rparr>
           in if g = 0 then schedule_loop g (refill s) else schedule_loop g s)"

definition schedule :: "kstate \<Rightarrow> kstate option" where
  "schedule s = schedule_loop 0 s"

definition runnable :: "kstate \<Rightarrow> nat \<Rightarrow> bool" where
  "runnable s p \<longleftrightarrow> p < nr_proc_table \<and> p_flags (procs s p) = 0"

text \<open>
  The candidates of one pass: runnable processes with ticks left. The pass picks the one with
  the most ticks, the lowest index among equals, and leaves the state alone if there is none.
\<close>

definition candidate :: "kstate \<Rightarrow> nat \<Rightarrow> bool" where
  "candidate s p \<longleftrightarrow> runnable s p \<and> p_ticks (procs s p) > 0"

lemma pick_loop_none:
  "\<forall>p \<in> set is. \<not> (p_flags (ps p) = 0 \<and> p_ticks (ps p) > g) \<Longrightarrow> pick_loop ps is (g, c) = (g, c)"
  by (induction "is") auto

lemma pick_loop_ge: "g \<le> fst (pick_loop ps is (g, c))"
proof (induction "is" arbitrary: g c)
  case (Cons p "is")
  show ?case
    using Cons.IH [of g c] Cons.IH [of "p_ticks (ps p)" p] by auto
qed simp

text \<open>The pass returns its start value or one of the entries, and no entry has more ticks.\<close>

lemma pick_loop_result:
  assumes "pick_loop ps is (g, c) = (g', c')"
  shows "(g' = g \<and> c' = c \<or> c' \<in> set is \<and> p_flags (ps c') = 0 \<and> p_ticks (ps c') = g' \<and> g < g')
    \<and> (\<forall>p \<in> set is. p_flags (ps p) = 0 \<longrightarrow> p_ticks (ps p) \<le> g')"
  using assms
proof (induction "is" arbitrary: g c)
  case (Cons p "is")
  show ?case
  proof (cases "p_flags (ps p) = 0 \<and> p_ticks (ps p) > g")
    case True
    with Cons.prems have "pick_loop ps is (p_ticks (ps p), p) = (g', c')" by simp
    from Cons.IH [OF this] True pick_loop_ge [of "p_ticks (ps p)" ps "is" p] Cons.prems
    show ?thesis by auto
  next
    case False
    with Cons.prems have "pick_loop ps is (g, c) = (g', c')" by auto
    from Cons.IH [OF this] False pick_loop_ge [of g ps "is" c] Cons.prems
    show ?thesis by auto
  qed
qed simp

lemma pick_loop_first:
  assumes "pick_loop ps is (g, c) = (g', c')" "g < g'" "sorted_wrt (<) is"
    "p \<in> set is" "p < c'" "p_flags (ps p) = 0"
  shows "p_ticks (ps p) < g'"
  using assms
proof (induction "is" arbitrary: g c)
  case (Cons q "is")
  show ?case
  proof (cases "p_flags (ps q) = 0 \<and> p_ticks (ps q) > g")
    case True
    with Cons.prems have r: "pick_loop ps is (p_ticks (ps q), q) = (g', c')" by simp
    show ?thesis
    proof (cases "g' = p_ticks (ps q)")
      case True
      with pick_loop_result [OF r] have "c' = q" by auto
      with Cons.prems show ?thesis by auto
    next
      case False
      with pick_loop_ge [of "p_ticks (ps q)" ps "is" q] r have "p_ticks (ps q) < g'" by simp
      with Cons r show ?thesis by auto
    qed
  next
    case False
    with Cons.prems have "pick_loop ps is (g, c) = (g', c')" by auto
    with Cons False pick_loop_ge [of g ps "is" c] show ?thesis by auto
  qed
qed simp

lemma pick_loop_pos:
  assumes "\<exists>p. candidate s p"
  obtains g c where "pick_loop (procs s) [0..<nr_proc_table] (0, cur s) = (g, c)" "0 < g"
proof -
  obtain g c where r: "pick_loop (procs s) [0..<nr_proc_table] (0, cur s) = (g, c)" by fastforce
  from assms obtain p where "p \<in> set [0..<nr_proc_table]" "p_flags (procs s p) = 0" "p_ticks (procs s p) > 0"
    by (auto simp: candidate_def runnable_def)
  with pick_loop_result [OF r] have "0 < g" by fastforce
  with r that show ?thesis by blast
qed

text \<open>What one call of \<open>schedule\<close> may change: the current process and ticks.\<close>

definition sched_frame :: "kstate \<Rightarrow> kstate \<Rightarrow> bool" where
  "sched_frame s s' \<longleftrightarrow>
     (\<exists>tk. procs s' = (\<lambda>p. procs s p\<lparr>p_ticks := tk p\<rparr>)) \<and> k_reenter s' = k_reenter s
     \<and> ticks s' = ticks s \<and> kmem s' = kmem s \<and> klog s' = klog s"

lemma sched_frame_refl [intro]: "sched_frame s s"
  unfolding sched_frame_def by (intro conjI exI [of _ "\<lambda>p. p_ticks (procs s p)"]) simp_all

lemma sched_frame_cur: "sched_frame s (s'\<lparr>cur := c\<rparr>) \<longleftrightarrow> sched_frame s s'"
  by (simp add: sched_frame_def)

lemma sched_frame_refill: "sched_frame s (refill s)"
  unfolding sched_frame_def
  by (intro conjI exI [of _ "\<lambda>p. if p < nr_proc_table \<and> p_flags (procs s p) = 0
        then priority (procs s p) else p_ticks (procs s p)"])
    (auto simp: refill_def fun_eq_iff)

lemma refill_simps [simp]:
  "cur (refill s) = cur s" "p_flags (procs (refill s) p) = p_flags (procs s p)"
  "priority (procs (refill s) p) = priority (procs s p)"
  "runnable (refill s) p = runnable s p"
  by (simp_all add: refill_def runnable_def)

lemma runnable_cur [simp]: "runnable (s\<lparr>cur := c\<rparr>) p = runnable s p"
  by (simp add: runnable_def)

lemma candidate_cur [simp]: "candidate (s\<lparr>cur := c\<rparr>) p = candidate s p"
  by (simp add: candidate_def)

lemma candidate_refill: "candidate (refill s) p \<longleftrightarrow> runnable s p \<and> priority (procs s p) > 0"
  by (auto simp: candidate_def refill_def runnable_def)

definition best :: "kstate \<Rightarrow> nat \<Rightarrow> bool" where
  "best s c \<longleftrightarrow> candidate s c
     \<and> (\<forall>p. runnable s p \<longrightarrow> p_ticks (procs s p) \<le> p_ticks (procs s c))
     \<and> (\<forall>p < c. runnable s p \<longrightarrow> p_ticks (procs s p) < p_ticks (procs s c))"

text \<open>Ticks are left: one pass, only the current process changes.\<close>

lemma schedule_candidate:
  assumes "\<exists>p. candidate s p"
  shows "\<exists>c. schedule s = Some (s\<lparr>cur := c\<rparr>) \<and> best s c"
proof -
  from pick_loop_pos [OF assms] obtain g c where
    r: "pick_loop (procs s) [0..<nr_proc_table] (0, cur s) = (g, c)" "0 < g" by blast
  have "schedule s = Some (s\<lparr>cur := c\<rparr>)"
    using r by (simp add: schedule_def schedule_loop.simps)
  moreover from pick_loop_result [OF r(1)] r(2) have
    c: "c < nr_proc_table" "p_flags (procs s c) = 0" "p_ticks (procs s c) = g"
      "\<forall>p < nr_proc_table. p_flags (procs s p) = 0 \<longrightarrow> p_ticks (procs s p) \<le> g" by auto
  have "p_ticks (procs s p) < g" if "p < c" "runnable s p" for p
    using pick_loop_first [OF r(1,2), of p] that by (simp add: runnable_def)
  with c r(2) have "best s c"
    by (auto simp: best_def candidate_def runnable_def)
  ultimately show ?thesis by blast
qed

lemma pick_loop_no_candidate:
  assumes "\<not> (\<exists>p. candidate s p)"
  shows "pick_loop (procs s) [0..<nr_proc_table] (0, cur s) = (0, cur s)"
  using assms by (intro pick_loop_none) (auto simp: candidate_def runnable_def)

lemma schedule_loop_refill:
  assumes "\<not> (\<exists>p. candidate s p)"
  shows "schedule_loop 0 s = schedule_loop 0 (refill s)"
proof -
  have "s\<lparr>cur := cur s\<rparr> = s" by simp
  with pick_loop_no_candidate [OF assms] show ?thesis
    by (subst schedule_loop.simps) (simp only: case_prod_conv Let_def refl if_True if_False not_True_eq_False)
qed

text \<open>No ticks are left: a refill, then one pass over the refilled table.\<close>

lemma schedule_refill:
  assumes "\<not> (\<exists>p. candidate s p)" "\<exists>p. runnable s p \<and> priority (procs s p) > 0"
  shows "\<exists>c. schedule s = Some (refill s\<lparr>cur := c\<rparr>) \<and> best (refill s) c"
proof -
  from assms(2) have "\<exists>p. candidate (refill s) p" by (simp add: candidate_refill)
  from schedule_candidate [OF this] show ?thesis
    using schedule_loop_refill [OF assms(1)] by (simp add: schedule_def)
qed

text \<open>No runnable process has ticks or a positive priority: the loop never ends.\<close>

lemma schedule_loop_spins:
  assumes "schedule_loop g s = Some r"
  shows "g = 0 \<longrightarrow> (\<exists>p. runnable s p \<and> (p_ticks (procs s p) > 0 \<or> priority (procs s p) > 0))"
proof (rule schedule_loop.raw_induct [OF _ assms, where P = "\<lambda>g s r. g = 0 \<longrightarrow>
      (\<exists>p. runnable s p \<and> (p_ticks (procs s p) > 0 \<or> priority (procs s p) > 0))"], intro impI)
  fix f :: "int \<Rightarrow> kstate \<Rightarrow> kstate option" and g :: int and s r
  assume IH: "\<And>g s r. f g s = Some r \<Longrightarrow> g = 0 \<longrightarrow>
      (\<exists>p. runnable s p \<and> (p_ticks (procs s p) > 0 \<or> priority (procs s p) > 0))"
    and eq: "(if g \<noteq> 0 then Some s
      else let (g, c) = pick_loop (procs s) [0..<nr_proc_table] (g, cur s); s = s\<lparr>cur := c\<rparr>
           in if g = 0 then f g (refill s) else f g s) = Some r" and "g = 0"
  show "\<exists>p. runnable s p \<and> (p_ticks (procs s p) > 0 \<or> priority (procs s p) > 0)"
  proof (cases "\<exists>p. candidate s p")
    case True
    then show ?thesis by (auto simp: candidate_def)
  next
    case False
    from eq \<open>g = 0\<close> have "f 0 (refill s) = Some r"
      by (simp add: pick_loop_no_candidate [OF False])
    from IH [OF this] obtain p where "runnable s p"
      "p_ticks (procs (refill s) p) > 0 \<or> priority (procs s p) > 0" by auto
    then show ?thesis by (auto simp: refill_def runnable_def)
  qed
qed

lemma schedule_cases:
  assumes "schedule s = Some s'"
  obtains
    (pick) c where "\<exists>p. candidate s p" "s' = s\<lparr>cur := c\<rparr>" "best s c"
  | (refill) c where "\<not> (\<exists>p. candidate s p)" "s' = refill s\<lparr>cur := c\<rparr>" "best (refill s) c"
proof (cases "\<exists>p. candidate s p")
  case True
  with schedule_candidate [OF True] assms pick show ?thesis by auto
next
  case False
  from schedule_loop_spins [of 0 s s'] assms False
  have "\<exists>p. runnable s p \<and> priority (procs s p) > 0"
    by (auto simp: schedule_def candidate_def)
  with schedule_refill [OF False this] assms False refill show ?thesis by auto
qed

lemma best_cur [simp]: "best (s\<lparr>cur := d\<rparr>) c = best s c"
  by (simp add: best_def)

lemma schedule_frame: "schedule s = Some s' \<Longrightarrow> sched_frame s s'"
  by (erule schedule_cases) (auto simp: sched_frame_cur sched_frame_refill)

lemma schedule_best: "schedule s = Some s' \<Longrightarrow> best s' (cur s')"
  by (erule schedule_cases) simp_all

lemma best_runnable: "best s c \<Longrightarrow> runnable s c"
  by (simp add: best_def candidate_def)

lemma sched_frame_fields:
  assumes "sched_frame s s'"
  shows "p_flags (procs s' p) = p_flags (procs s p)" "priority (procs s' p) = priority (procs s p)"
    "runnable s' p = runnable s p"
  using assms by (auto simp: sched_frame_def runnable_def)

text \<open>
  C36: the scheduler returns exactly when some process is runnable and has ticks left or a
  positive priority; otherwise it loops for ever.
\<close>

theorem schedule_terminates_iff:
  "(\<exists>s'. schedule s = Some s') \<longleftrightarrow>
    (\<exists>p. runnable s p \<and> (p_ticks (procs s p) > 0 \<or> priority (procs s p) > 0))"
proof
  assume "\<exists>s'. schedule s = Some s'"
  then show "\<exists>p. runnable s p \<and> (p_ticks (procs s p) > 0 \<or> priority (procs s p) > 0)"
    using schedule_loop_spins [of 0 s] by (auto simp: schedule_def)
next
  assume a: "\<exists>p. runnable s p \<and> (p_ticks (procs s p) > 0 \<or> priority (procs s p) > 0)"
  show "\<exists>s'. schedule s = Some s'"
  proof (cases "\<exists>p. candidate s p")
    case True
    then show ?thesis using schedule_candidate by blast
  next
    case False
    with a have "\<exists>p. runnable s p \<and> priority (procs s p) > 0" by (auto simp: candidate_def)
    with False show ?thesis using schedule_refill by blast
  qed
qed


section \<open>The clock interrupt\<close>

definition TIMER_FREQ :: nat where "TIMER_FREQ = 1193180"
definition TIME_INT_FREQ :: nat where "TIME_INT_FREQ = 100"

definition change_time_interrupt_freq :: port_writes where
  "change_time_interrupt_freq =
    [(0x43, 0x34),
     (0x40, ucast (of_nat (TIMER_FREQ div TIME_INT_FREQ) :: u8)),
     (0x40, ucast (drop_bit 8 (of_nat (TIMER_FREQ div TIME_INT_FREQ)) AND 0xFF :: u32))]"

definition clock_handler :: "kstate \<Rightarrow> kstate option" where
  "clock_handler s =
    (if k_reenter s \<noteq> 0 then Some s
     else schedule (upd_proc (cur s) (\<lambda>p. p\<lparr>p_ticks := p_ticks p - 1\<rparr>) (s\<lparr>ticks := ticks s + 1\<rparr>)))"

fun clock_run :: "nat \<Rightarrow> kstate \<Rightarrow> kstate option" where
  "clock_run 0 s = Some s"
| "clock_run (Suc n) s = Option.bind (clock_handler s) (clock_run n)"

lemma clock_run_add:
  "clock_run (m + n) s = Option.bind (clock_run m s) (clock_run n)"
  by (induction m arbitrary: s) (auto split: Option.bind_splits)

text \<open>
  A state between two clock interrupts of user code: not in the kernel, the scheduler's choice is
  running, no runnable process has negative ticks and every one has a positive priority.
\<close>

definition sched_state :: "kstate \<Rightarrow> bool" where
  "sched_state s \<longleftrightarrow> k_reenter s = 0 \<and> best s (cur s)
     \<and> (\<forall>p. runnable s p \<longrightarrow> 0 \<le> p_ticks (procs s p) \<and> 0 < priority (procs s p))"

definition total_ticks :: "kstate \<Rightarrow> int" where
  "total_ticks s = (\<Sum>p | runnable s p. p_ticks (procs s p))"

definition total_priority :: "kstate \<Rightarrow> int" where
  "total_priority s = (\<Sum>p | runnable s p. priority (procs s p))"

lemma finite_runnable [simp]: "finite {p. runnable s p}"
  by (rule finite_subset [of _ "{..<nr_proc_table}"]) (auto simp: runnable_def)

lemma sched_state_total_pos: "sched_state s \<Longrightarrow> 0 < total_ticks s"
  unfolding total_ticks_def sched_state_def
  by (intro sum_pos2 [of _ "cur s"]) (auto simp: best_def candidate_def)

text \<open>One clock interrupt: the current process loses a tick, and either one pass or a refill follows.\<close>

lemma clock_step:
  assumes "sched_state s"
  shows "\<exists>s'. clock_handler s = Some s' \<and> sched_state s' \<and> runnable s' = runnable s
    \<and> total_priority s' = total_priority s
    \<and> (if total_ticks s = 1 then \<forall>p. runnable s' p \<longrightarrow> p_ticks (procs s' p) = priority (procs s' p)
       else total_ticks s' = total_ticks s - 1
         \<and> (\<forall>p. p \<noteq> cur s \<longrightarrow> p_ticks (procs s' p) = p_ticks (procs s p)))"
proof -
  define s1 where "s1 = upd_proc (cur s) (\<lambda>p. p\<lparr>p_ticks := p_ticks p - 1\<rparr>) (s\<lparr>ticks := ticks s + 1\<rparr>)"
  from assms have cur: "runnable s (cur s)" "0 < p_ticks (procs s (cur s))" and k: "k_reenter s = 0"
    and all: "\<And>p. runnable s p \<Longrightarrow> 0 \<le> p_ticks (procs s p) \<and> 0 < priority (procs s p)"
    by (auto simp: sched_state_def best_def candidate_def)
  have h: "clock_handler s = schedule s1" by (simp add: clock_handler_def k s1_def)
  have r1: "runnable s1 = runnable s" by (auto simp: runnable_def s1_def fun_eq_iff)
  have prio1: "priority (procs s1 p) = priority (procs s p)" for p by (simp add: s1_def)
  have "total_ticks s1 = (\<Sum>p | runnable s p. p_ticks (procs s p) - (if p = cur s then 1 else 0))"
    unfolding total_ticks_def r1 by (intro sum.cong) (auto simp: s1_def)
  also have "\<dots> = total_ticks s - 1"
    using cur(1) by (simp add: sum_subtractf total_ticks_def)
  finally have t1: "total_ticks s1 = total_ticks s - 1" .
  have nn1: "0 \<le> p_ticks (procs s1 p)" if "runnable s p" for p
    using all [OF that] cur(2) by (auto simp: s1_def)
  have "candidate s1 p \<longleftrightarrow> runnable s p \<and> p_ticks (procs s1 p) \<noteq> 0" for p
    using nn1 by (auto simp: candidate_def r1 order_less_le)
  then have cand: "(\<exists>p. candidate s1 p) \<longleftrightarrow> total_ticks s1 \<noteq> 0"
    using nn1 unfolding total_ticks_def r1 by (subst sum_nonneg_eq_0_iff) auto
  from cur(1) all have "\<exists>p. runnable s1 p \<and> priority (procs s1 p) > 0"
    by (auto simp: r1 prio1)
  then obtain s' where s': "schedule s1 = Some s'"
    using schedule_candidate [of s1] schedule_refill [of s1] by blast
  note fr = schedule_frame [OF s']
  have rs: "runnable s' = runnable s" using sched_frame_fields(3) [OF fr] r1 by auto
  have prio: "priority (procs s' p) = priority (procs s p)" for p
    by (simp add: sched_frame_fields(2) [OF fr] prio1)
  have k': "k_reenter s' = 0" using fr k by (simp add: sched_frame_def s1_def)
  have tp: "total_priority s' = total_priority s" by (simp add: total_priority_def rs prio)
  from s' show ?thesis
  proof (cases rule: schedule_cases)
    case (pick c)
    then have "total_ticks s \<noteq> 1" using cand t1 by auto
    moreover have "total_ticks s' = total_ticks s - 1"
      using t1 pick(2) by (simp add: total_ticks_def)
    moreover have "sched_state s'"
      using k' schedule_best [OF s'] nn1 all pick(2) rs prio by (auto simp: sched_state_def)
    moreover have "p_ticks (procs s' p) = p_ticks (procs s p)" if "p \<noteq> cur s" for p
      using that pick(2) by (simp add: s1_def)
    ultimately show ?thesis using h s' rs tp by auto
  next
    case (refill c)
    then have "total_ticks s = 1" using cand t1 by auto
    moreover have full: "p_ticks (procs s' p) = priority (procs s' p)" if "runnable s' p" for p
      using that refill(2) by (simp add: refill_def runnable_def split: if_splits)
    moreover have "sched_state s'"
      using k' schedule_best [OF s'] full all rs prio by (auto simp: sched_state_def order_less_imp_le)
    ultimately show ?thesis using h s' rs tp by auto
  qed
qed

lemma clock_run_turn:
  assumes "sched_state s" "runnable s p" "0 < p_ticks (procs s p)"
  shows "\<exists>n s'. int n < total_ticks s \<and> clock_run n s = Some s' \<and> cur s' = p"
  using assms
proof (induction "nat (total_ticks s)" arbitrary: s rule: less_induct)
  case less
  show ?case
  proof (cases "cur s = p")
    case True
    with sched_state_total_pos [OF less.prems(1)] show ?thesis
      by (intro exI [of _ 0]) simp
  next
    case False
    have two: "total_ticks s \<noteq> 1"
    proof
      have "{cur s, p} \<subseteq> {q. runnable s q}" "0 < p_ticks (procs s (cur s))"
        using less.prems(1,2) by (auto simp: sched_state_def best_def candidate_def)
      moreover have "(\<Sum>q \<in> {cur s, p}. p_ticks (procs s q)) \<le> total_ticks s"
        unfolding total_ticks_def using calculation less.prems(1)
        by (intro sum_mono2) (auto simp: sched_state_def)
      ultimately show "total_ticks s = 1 \<Longrightarrow> False" using False less.prems(3) by simp
    qed
    from clock_step [OF less.prems(1)] two False obtain s' where s': "clock_handler s = Some s'"
      "sched_state s'" "runnable s' = runnable s" "total_ticks s' = total_ticks s - 1"
      "p_ticks (procs s' p) = p_ticks (procs s p)" by auto
    with less.prems sched_state_total_pos [OF less.prems(1)]
    obtain n s'' where "int n < total_ticks s'" "clock_run n s' = Some s''" "cur s'' = p"
      using less.hyps [of s'] by auto
    with s' show ?thesis by (intro exI [of _ "Suc n"]) auto
  qed
qed

lemma clock_run_epoch:
  assumes "sched_state s"
  shows "\<exists>s'. clock_run (nat (total_ticks s)) s = Some s' \<and> sched_state s' \<and> runnable s' = runnable s
    \<and> total_priority s' = total_priority s
    \<and> (\<forall>p. runnable s p \<longrightarrow> p_ticks (procs s' p) = priority (procs s' p))"
  using assms
proof (induction "nat (total_ticks s)" arbitrary: s rule: less_induct)
  case less
  from clock_step [OF less.prems] obtain s' where s': "clock_handler s = Some s'" "sched_state s'"
    "runnable s' = runnable s" "total_priority s' = total_priority s"
    "if total_ticks s = 1 then \<forall>p. runnable s' p \<longrightarrow> p_ticks (procs s' p) = priority (procs s' p)
     else total_ticks s' = total_ticks s - 1" by (auto split: if_splits)
  note pos = sched_state_total_pos [OF less.prems]
  show ?case
  proof (cases "total_ticks s = 1")
    case True
    with s' show ?thesis by simp
  next
    case False
    with s' pos obtain s'' where "clock_run (nat (total_ticks s')) s' = Some s''" "sched_state s''"
      "runnable s'' = runnable s" "total_priority s'' = total_priority s"
      "\<forall>p. runnable s p \<longrightarrow> p_ticks (procs s'' p) = priority (procs s'' p)"
      using less.hyps [of s'] by auto
    moreover have "nat (total_ticks s) = Suc (nat (total_ticks s'))"
      using False s'(5) pos by auto
    ultimately show ?thesis using s'(1) by simp
  qed
qed

text \<open>
  C13: no runnable process starves. As long as the set of runnable processes does not change, each
  of them is the current process within as many clock interrupts as there are ticks left
  plus one refill.
\<close>

theorem clock_no_starvation:
  assumes "sched_state s" "runnable s p"
  shows "\<exists>n s'. int n < total_ticks s + total_priority s \<and> clock_run n s = Some s' \<and> cur s' = p"
proof -
  from clock_run_epoch [OF assms(1)] obtain s' where s': "clock_run (nat (total_ticks s)) s = Some s'"
    "sched_state s'" "runnable s' = runnable s" "total_priority s' = total_priority s"
    and full: "\<forall>p. runnable s p \<longrightarrow> p_ticks (procs s' p) = priority (procs s' p)" by blast
  then have "total_ticks s' = total_priority s'"
    unfolding total_ticks_def total_priority_def by (intro sum.cong) auto
  with s'(4) have "total_ticks s' = total_priority s" by simp
  moreover from s' full assms(2) have "runnable s' p" "0 < p_ticks (procs s' p)"
    by (auto simp: sched_state_def)
  ultimately obtain n s'' where "int n < total_priority s" "clock_run n s' = Some s''" "cur s'' = p"
    using clock_run_turn [OF s'(2)] by force
  with s'(1) sched_state_total_pos [OF assms(1)] show ?thesis
    by (intro exI [of _ "nat (total_ticks s) + n"] exI [of _ s'']) (simp add: clock_run_add)
qed

text \<open>The ticks of a process never leave the range from 0 to its priority.\<close>

definition ticks_bounded :: "kstate \<Rightarrow> bool" where
  "ticks_bounded s \<longleftrightarrow> (\<forall>p < nr_proc_table. 0 \<le> p_ticks (procs s p) \<and> p_ticks (procs s p) \<le> priority (procs s p))"

lemma schedule_ticks_bounded:
  assumes "schedule s = Some s'" "ticks_bounded s"
  shows "ticks_bounded s'"
proof -
  have "ticks_bounded (refill s)"
    using assms(2) by (fastforce simp: ticks_bounded_def refill_def)
  then show ?thesis
    using assms by (auto elim!: schedule_cases simp: ticks_bounded_def)
qed

lemma clock_run_bounds:
  "\<lbrakk>clock_run n s = Some s'; ticks_bounded s; sched_state s\<rbrakk> \<Longrightarrow> ticks_bounded s'"
proof (induction n arbitrary: s)
  case (Suc n)
  then obtain t where t: "clock_handler s = Some t" "clock_run n t = Some s'" "sched_state t"
    using clock_step [of s] by auto
  let ?s1 = "upd_proc (cur s) (\<lambda>p. p\<lparr>p_ticks := p_ticks p - 1\<rparr>) (s\<lparr>ticks := ticks s + 1\<rparr>)"
  have "ticks_bounded ?s1" "schedule ?s1 = Some t"
    using Suc.prems(2,3) t(1)
    by (force simp: ticks_bounded_def sched_state_def best_def candidate_def runnable_def)
      (use Suc.prems(3) t(1) in \<open>simp add: clock_handler_def sched_state_def\<close>)
  with t Suc.IH show ?case by (blast intro: schedule_ticks_bounded)
qed simp

end
