(* ===== verification/Ipc.thy ===== *)
theory Ipc
  imports Clock
begin

text \<open>
  Message passing between processes: \<^verbatim>\<open>kernel/ipc.c\<close>. This theory holds the operations
  \<open>deadlock\<close>, \<open>msg_send\<close> and \<open>msg_receive\<close>, statement by statement, with every assertion of
  the code and its line; the theories \<open>Ipc_Queue\<close> and \<open>Ipc_Correct\<close> prove them correct.
  The operations run with interrupts disabled (\<open>sys_sendrec\<close> starts with \<open>disable_int\<close>), so each
  is one atomic step of the kernel; \<open>schedule\<close> only selects the process that the return from
  the system call continues.
\<close>

definition reset_msg :: "u32 \<Rightarrow> mem \<Rightarrow> mem" where
  "reset_msg p m = kmemset p 0 sizeof_MESSAGE m"

definition block :: "nat \<Rightarrow> kstate \<Rightarrow> fault + kstate" where
  "block p s = ebind (asserts ''ipc.c'' [(39, p_flags (procs s p) \<noteq> 0)]) (\<lambda>_. or_spin (schedule s))"

definition unblock :: "nat \<Rightarrow> kstate \<Rightarrow> fault + unit" where
  "unblock p s = asserts ''ipc.c'' [(45, 0 = p_flags (procs s p))]"

section \<open>deadlock\<close>

text \<open>The search: follow \<open>p_sendto\<close> from \<open>dest\<close> while the processes are sending.\<close>

partial_function (option) deadlock_loop :: "(nat \<Rightarrow> process) \<Rightarrow> nat \<Rightarrow> nat \<Rightarrow> (fault + bool) option" where
  "deadlock_loop ps src p =
     (if p_flags (ps p) AND SENDING \<noteq> 0 then
        if p_sendto (ps p) = int src then Some (Inr True)
        else if \<not> valid_pid (p_sendto (ps p)) then Some (Inl (Wild ''proc_table''))
        else deadlock_loop ps src (nat (p_sendto (ps p)))
      else Some (Inr False))"

text \<open>The report: the names along the cycle, from \<open>dest\<close> round to \<open>src\<close>.\<close>

partial_function (option) deadlock_report ::
    "(nat \<Rightarrow> process) \<Rightarrow> nat \<Rightarrow> nat \<Rightarrow> u8 list list \<Rightarrow> (fault + u8 list list) option" where
  "deadlock_report ps src p out =
     (if p_msg (ps p) = 0 then Some (Inl (Assertion ''ipc.c'' 57))
      else if \<not> valid_pid (p_sendto (ps p)) then Some (Inl (Wild ''proc_table''))
      else let p = nat (p_sendto (ps p)); out = out @ [ascii ''->'' @ pname (ps p)]
           in if p \<noteq> src then deadlock_report ps src p out else Some (Inr out))"

definition deadlock :: "nat \<Rightarrow> nat \<Rightarrow> kstate \<Rightarrow> fault + bool \<times> kstate" where
  "deadlock src dest s =
     ebind (or_spin (deadlock_loop (procs s) src dest)) (\<lambda>found.
     ebind found (\<lambda>found.
       if \<not> found then Inr (False, s)
       else ebind (or_spin (deadlock_report (procs s) src dest [ascii ''=_='' @ pname (procs s dest)])) (\<lambda>out.
            ebind out (\<lambda>out. Inr (True, s\<lparr>klog := klog s @ out @ [ascii ''=_='']\<rparr>)))))"

section \<open>msg_send\<close>

text \<open>The last process of a queue: \<open>while (p->next_sending) p = p->next_sending\<close>.\<close>

partial_function (option) queue_tail :: "(nat \<Rightarrow> process) \<Rightarrow> nat \<Rightarrow> nat option" where
  "queue_tail ps p = (case next_sending (ps p) of None \<Rightarrow> Some p | Some q \<Rightarrow> queue_tail ps q)"

text \<open>The destination waits for this message: copy it and wake the destination up.\<close>

definition send_deliver :: "nat \<Rightarrow> nat \<Rightarrow> u32 \<Rightarrow> kstate \<Rightarrow> fault + kstate" where
  "send_deliver sender dest m s =
     ebind (asserts ''ipc.c'' [(121, p_msg (procs s dest) \<noteq> 0), (122, m \<noteq> 0)]) (\<lambda>_.
     ebind (ldt_proc_id2base (int sender) s) (\<lambda>sbase.
     ebind (ldt_proc_id2base (int dest) s) (\<lambda>dbase.
       let s = s\<lparr>kmem := kmemcpy (vir2linear sbase m) (vir2linear dbase (p_msg (procs s dest)))
                   sizeof_MESSAGE (kmem s)\<rparr>;
           s = upd_proc sender (\<lambda>p. p\<lparr>p_msg := 0\<rparr>) s;
           s = upd_proc dest (\<lambda>p. p\<lparr>p_msg := 0, p_flags := p_flags p AND NOT RECEIVING,
                 p_recvfrom := NO_TASK\<rparr>) s
       in ebind (unblock dest s) (\<lambda>_.
          ebind (asserts ''ipc.c''
            [(135, p_flags (procs s dest) = 0), (136, p_msg (procs s dest) = 0),
             (137, p_recvfrom (procs s dest) = NO_TASK), (138, p_sendto (procs s dest) = NO_TASK),
             (139, p_flags (procs s sender) = 0), (140, p_msg (procs s sender) = 0),
             (141, p_recvfrom (procs s sender) = NO_TASK), (142, p_sendto (procs s sender) = NO_TASK)])
          (\<lambda>_. Inr s)))))"

text \<open>The destination does not wait for this message: append the sender to its queue and block.\<close>

definition send_append :: "nat \<Rightarrow> nat \<Rightarrow> kstate \<Rightarrow> fault + kstate" where
  "send_append sender dest s =
     ebind (case q_sending (procs s dest) of
              Some q \<Rightarrow> ebind (or_spin (queue_tail (procs s) q)) (\<lambda>p.
                Inr (upd_proc p (\<lambda>p. p\<lparr>next_sending := Some sender\<rparr>) s))
            | None \<Rightarrow> Inr (upd_proc dest (\<lambda>p. p\<lparr>q_sending := Some sender\<rparr>) s))
     (\<lambda>s. Inr (upd_proc sender (\<lambda>p. p\<lparr>next_sending := None\<rparr>) s))"

definition send_enqueue :: "nat \<Rightarrow> nat \<Rightarrow> u32 \<Rightarrow> kstate \<Rightarrow> fault + kstate" where
  "send_enqueue sender dest m s =
     (let s = upd_proc sender (\<lambda>p. p\<lparr>p_flags := p_flags p OR SENDING\<rparr>) s in
      ebind (asserts ''ipc.c'' [(148, p_flags (procs s sender) = SENDING)]) (\<lambda>_.
      let s = upd_proc sender (\<lambda>p. p\<lparr>p_sendto := int dest, p_msg := m\<rparr>) s in
      ebind (send_append sender dest s) (\<lambda>s.
      ebind (asserts ''ipc.c'' [(164, p_flags (procs s sender) \<noteq> 0)]) (\<lambda>_.
      ebind (block sender s) (\<lambda>s.
      ebind (asserts ''ipc.c''
        [(167, p_flags (procs s sender) \<noteq> 0), (169, p_flags (procs s sender) = SENDING),
         (170, p_msg (procs s sender) \<noteq> 0), (171, p_recvfrom (procs s sender) = NO_TASK),
         (172, p_sendto (procs s sender) = int dest)])
      (\<lambda>_. Inr s))))))"

definition msg_send :: "nat \<Rightarrow> int \<Rightarrow> u32 \<Rightarrow> kstate \<Rightarrow> fault + kstate" where
  "msg_send current dest m s =
     ebind (asserts ''ipc.c'' [(112, int current \<noteq> dest)]) (\<lambda>_.
     if \<not> valid_pid dest then Inl (Wild ''proc_table'')
     else let d = nat dest in
       ebind (deadlock current d s) (\<lambda>(dead, s).
       ebind (if dead
              then panic (ascii ''>>DEADLOCK<< '' @ pname (procs s current) @ ascii ''->'' @ pname (procs s d)) s
              else Inr s) (\<lambda>s.
       if p_flags (procs s d) AND RECEIVING \<noteq> 0
          \<and> (p_recvfrom (procs s d) = int current \<or> p_recvfrom (procs s d) = ANY)
       then send_deliver current d m s
       else send_enqueue current d m s)))"

section \<open>msg_receive\<close>

text \<open>
  The walk to the entry of \<open>src\<close> in the queue: the result is \<open>prev\<close>, the entry before it (the
  last entry when \<open>src\<close> is not in the queue).
\<close>

partial_function (option) queue_prev :: "(nat \<Rightarrow> process) \<Rightarrow> nat \<Rightarrow> nat option \<Rightarrow> nat option \<Rightarrow> nat option option" where
  "queue_prev ps src prev p =
     (if p = None \<or> p = Some src then Some prev
      else queue_prev ps src p (next_sending (ps (the p))))"

definition receive_int :: "nat \<Rightarrow> u32 \<Rightarrow> kstate \<Rightarrow> fault + kstate" where
  "receive_int who m s =
     ebind (ldt_proc_id2base (int who) s) (\<lambda>base.
       let s = s\<lparr>kmem := kmemcpy (vir2linear base (p_msg (procs s who))) (vir2linear base m)
                   sizeof_MESSAGE (kmem s)\<rparr>;
           s = upd_proc who (\<lambda>p. p\<lparr>has_int_msg := False, p_msg := 0\<rparr>) s
       in ebind (asserts ''ipc.c''
            [(196, p_flags (procs s who) = 0), (197, p_msg (procs s who) = 0),
             (198, p_sendto (procs s who) = NO_TASK), (199, \<not> has_int_msg (procs s who))])
          (\<lambda>_. Inr s))"

text \<open>Which sender to take the message from, and the entry before it in the queue.\<close>

definition receive_select :: "nat \<Rightarrow> int \<Rightarrow> kstate \<Rightarrow> fault + (nat \<times> nat option) option" where
  "receive_select who src s =
     (if src = ANY then
        (case q_sending (procs s who) of
           None \<Rightarrow> Inr None
         | Some from \<Rightarrow>
             ebind (asserts ''ipc.c''
               [(209, p_flags (procs s who) = 0), (210, p_msg (procs s who) = 0),
                (211, p_recvfrom (procs s who) = NO_TASK), (212, p_sendto (procs s who) = NO_TASK),
                (213, q_sending (procs s who) \<noteq> None), (214, p_flags (procs s from) = SENDING),
                (215, p_msg (procs s from) \<noteq> 0), (216, p_recvfrom (procs s from) = NO_TASK),
                (217, p_sendto (procs s from) = int who)])
             (\<lambda>_. Inr (Some (from, None))))
      else if valid_pid src then
        (let from = nat src in
         if p_flags (procs s from) AND SENDING \<noteq> 0 \<and> p_sendto (procs s from) = int who then
           ebind (asserts ''ipc.c''
             [(226, q_sending (procs s who) \<noteq> None), (228, p_flags (procs s from) AND SENDING \<noteq> 0)]) (\<lambda>_.
           ebind (or_spin (queue_prev (procs s) from None (q_sending (procs s who)))) (\<lambda>prev.
           ebind (asserts ''ipc.c''
             [(236, p_flags (procs s who) = 0), (237, p_msg (procs s who) = 0),
              (238, p_recvfrom (procs s who) = NO_TASK), (239, p_sendto (procs s who) = NO_TASK),
              (240, q_sending (procs s who) \<noteq> None), (241, p_flags (procs s from) = SENDING),
              (242, p_msg (procs s from) \<noteq> 0), (243, p_recvfrom (procs s from) = NO_TASK),
              (244, p_sendto (procs s from) = int who)])
           (\<lambda>_. Inr (Some (from, prev)))))
         else Inr None)
      else Inr None)"

definition receive_unlink :: "nat \<Rightarrow> nat \<Rightarrow> nat option \<Rightarrow> kstate \<Rightarrow> fault + kstate" where
  "receive_unlink who from prev s =
     (if Some from = q_sending (procs s who) then
        ebind (asserts ''ipc.c'' [(250, prev = None)]) (\<lambda>_.
        let s = upd_proc who (\<lambda>p. p\<lparr>q_sending := next_sending (procs s from)\<rparr>) s
        in Inr (upd_proc from (\<lambda>p. p\<lparr>next_sending := None\<rparr>) s))
      else
        (case prev of None \<Rightarrow> Inl (Assertion ''ipc.c'' 255)
         | Some q \<Rightarrow>
             let s = upd_proc q (\<lambda>p. p\<lparr>next_sending := next_sending (procs s from)\<rparr>) s
             in Inr (upd_proc from (\<lambda>p. p\<lparr>next_sending := None\<rparr>) s)))"

definition receive_take :: "nat \<Rightarrow> nat \<Rightarrow> nat option \<Rightarrow> u32 \<Rightarrow> kstate \<Rightarrow> fault + kstate" where
  "receive_take who from prev m s =
     ebind (receive_unlink who from prev s) (\<lambda>s.
     ebind (asserts ''ipc.c'' [(260, m \<noteq> 0), (261, p_msg (procs s from) \<noteq> 0)]) (\<lambda>_.
     ebind (ldt_proc_id2base (int from) s) (\<lambda>fbase.
     ebind (ldt_proc_id2base (int who) s) (\<lambda>base.
       let s = s\<lparr>kmem := kmemcpy (vir2linear fbase (p_msg (procs s from))) (vir2linear base m)
                   sizeof_MESSAGE (kmem s)\<rparr>;
           s = upd_proc from (\<lambda>p. p\<lparr>p_msg := 0, p_sendto := NO_TASK,
                 p_flags := p_flags p AND NOT SENDING\<rparr>) s
       in ebind (unblock from s) (\<lambda>_. Inr s)))))"

definition receive_block :: "nat \<Rightarrow> int \<Rightarrow> u32 \<Rightarrow> kstate \<Rightarrow> fault + kstate" where
  "receive_block who src m s =
     (let s = upd_proc who (\<lambda>p. p\<lparr>p_flags := p_flags p OR RECEIVING\<rparr>) s in
      ebind (asserts ''ipc.c'' [(276, p_flags (procs s who) \<noteq> 0)]) (\<lambda>_.
      let s = upd_proc who (\<lambda>p. p\<lparr>p_msg := m, p_recvfrom := src\<rparr>) s in
      ebind (block who s) (\<lambda>s.
      ebind (asserts ''ipc.c''
        [(281, p_flags (procs s who) = RECEIVING), (282, p_msg (procs s who) \<noteq> 0),
         (283, p_recvfrom (procs s who) \<noteq> NO_TASK), (284, p_sendto (procs s who) = NO_TASK),
         (285, \<not> has_int_msg (procs s who))])
      (\<lambda>_. Inr s))))"

definition msg_receive :: "nat \<Rightarrow> int \<Rightarrow> u32 \<Rightarrow> kstate \<Rightarrow> fault + kstate" where
  "msg_receive current src m s =
     ebind (asserts ''ipc.c'' [(185, int current \<noteq> src)]) (\<lambda>_.
     if has_int_msg (procs s current) \<and> (src = ANY \<or> src = INTERRUPT) then receive_int current m s
     else ebind (receive_select current src s) (\<lambda>sel.
       case sel of
         Some (from, prev) \<Rightarrow> receive_take current from prev m s
       | None \<Rightarrow> receive_block current src m s))"

end
