(* ===== verification/Ipc_Queue.thy ===== *)
theory Ipc_Queue
  imports Ipc
begin

text \<open>
  The queue of senders of a process is a list linked through \<open>next_sending\<close>. This theory relates
  the pointer structure to the list of process ids (\<open>chain\<close>) and proves what the loops of
  \<open>msg_send\<close>, \<open>msg_receive\<close> and \<open>deadlock\<close> compute on it.
\<close>

section \<open>Chains\<close>

primrec chain :: "(nat \<Rightarrow> nat option) \<Rightarrow> nat option \<Rightarrow> nat list \<Rightarrow> bool" where
  "chain nx p [] \<longleftrightarrow> p = None"
| "chain nx p (a # as) \<longleftrightarrow> p = Some a \<and> chain nx (nx a) as"

lemma chain_None [simp]: "chain nx None as \<longleftrightarrow> as = []"
  by (cases as) simp_all

lemma chain_Some: "chain nx (Some a) as \<longleftrightarrow> (\<exists>bs. as = a # bs \<and> chain nx (nx a) bs)"
  by (cases as) auto

lemma chain_unique: "chain nx p as \<Longrightarrow> chain nx p bs \<Longrightarrow> as = bs"
proof (induction as arbitrary: p bs)
  case (Cons a as)
  then show ?case by (cases bs) auto
qed simp

lemma chain_append: "chain nx p (as @ b # bs) \<Longrightarrow> chain nx (Some b) (b # bs)"
  by (induction as arbitrary: p) auto

lemma chain_distinct: "chain nx p as \<Longrightarrow> distinct as"
proof (induction as arbitrary: p)
  case (Cons a as)
  have "a \<notin> set as"
  proof
    assume "a \<in> set as"
    then obtain xs ys where "as = xs @ a # ys" by (auto simp: in_set_conv_decomp)
    with Cons.prems have "chain nx (nx a) (xs @ a # ys)" "chain nx (nx a) ys"
      using chain_append [of nx "nx a" xs a ys] by auto
    from chain_unique [OF this] have "length (xs @ a # ys) = length ys" by simp
    then show False by simp
  qed
  with Cons show ?case by auto
qed simp

lemma chain_cong: "\<forall>a \<in> set as. nx a = ny a \<Longrightarrow> chain nx p as \<longleftrightarrow> chain ny p as"
  by (induction as arbitrary: p) auto

lemma chain_upd_other: "a \<notin> set as \<Longrightarrow> chain (nx(a := b)) p as \<longleftrightarrow> chain nx p as"
  by (rule chain_cong) auto

lemma chain_last: "chain nx p as \<Longrightarrow> as \<noteq> [] \<Longrightarrow> nx (last as) = None"
proof (induction as arbitrary: p)
  case (Cons a as)
  then show ?case by (cases as) auto
qed simp

text \<open>Appending an entry behind the last one, and taking one out of the middle.\<close>

lemma chain_snoc:
  assumes "chain nx p as" "as \<noteq> []" "x \<notin> set as"
  shows "chain (nx(last as := Some x, x := None)) p (as @ [x])"
  using assms
proof (induction as arbitrary: p)
  case (Cons a as)
  from chain_distinct [OF Cons.prems(1)] have a: "a \<notin> set as" by simp
  show ?case
  proof (cases "as = []")
    case True
    with Cons.prems show ?thesis by auto
  next
    case False
    with a Cons.prems have "last as \<noteq> a" "x \<noteq> a" by auto
    with Cons False show ?thesis by auto
  qed
qed simp

lemma chain_remove:
  assumes "chain nx p (xs @ x # ys)"
  shows "chain (nx(x := None)) (nx x) ys"
    and "xs \<noteq> [] \<Longrightarrow> chain (nx(last xs := nx x, x := None)) p (xs @ ys)"
proof -
  have d: "distinct (xs @ x # ys)" using assms by (rule chain_distinct)
  have y: "chain nx (nx x) ys" using chain_append [OF assms] by simp
  with d show "chain (nx(x := None)) (nx x) ys" by (simp add: chain_upd_other)
  show "chain (nx(last xs := nx x, x := None)) p (xs @ ys)" if "xs \<noteq> []"
    using assms that d
  proof (induction xs arbitrary: p)
    case (Cons a xs)
    show ?case
    proof (cases "xs = []")
      case True
      define ny where "ny = nx(a := nx x, x := None)"
      from True Cons.prems have "ny a = nx x" "chain ny (nx x) ys"
        unfolding ny_def using y by (auto simp: chain_upd_other)
      with Cons.prems have "chain ny p (a # ys)" by simp
      with True show ?thesis by (simp only: ny_def last.simps append.simps simp_thms if_True)
    next
      case False
      with Cons.prems have "last xs \<noteq> a" "x \<noteq> a" by auto
      with Cons False show ?thesis by auto
    qed
  qed simp
qed

section \<open>The loops over a queue\<close>

abbreviation next_of :: "(nat \<Rightarrow> process) \<Rightarrow> nat \<Rightarrow> nat option" where
  "next_of ps \<equiv> (\<lambda>i. next_sending (ps i))"

lemma queue_tail_chain: "chain (next_of ps) (Some a) as \<Longrightarrow> queue_tail ps a = Some (last as)"
proof (induction as arbitrary: a)
  case (Cons b as)
  then show ?case
    by (subst queue_tail.simps) (cases "next_sending (ps b)"; cases as; auto)
qed simp

lemma queue_prev_chain:
  assumes "chain (next_of ps) p (xs @ x # ys)" "x \<notin> set xs"
  shows "queue_prev ps x prev p = Some (if xs = [] then prev else Some (last xs))"
  using assms
proof (induction xs arbitrary: p prev)
  case Nil
  then show ?case by (subst queue_prev.simps) simp
next
  case (Cons a xs)
  then show ?case by (subst queue_prev.simps) auto
qed

text \<open>
  The sending graph: an edge from a process that is blocked in a send to its destination. The
  search of \<open>deadlock\<close> walks along these edges; it ends when the graph has no cycle, and says
  whether the walk meets \<open>src\<close>.
\<close>

definition sends :: "(nat \<Rightarrow> process) \<Rightarrow> (nat \<times> nat) set" where
  "sends ps = {(p, q). p < nr_proc_table \<and> q < nr_proc_table
     \<and> p_flags (ps p) AND SENDING \<noteq> 0 \<and> p_sendto (ps p) = int q}"

lemma acyclic_empty [simp]: "acyclic {}"
  by (simp add: acyclic_def)

lemma sends_functional: "(p, q) \<in> sends ps \<Longrightarrow> (p, r) \<in> sends ps \<Longrightarrow> q = r"
  by (simp add: sends_def)

lemma finite_sends: "finite (sends ps)"
proof (rule finite_subset)
  show "sends ps \<subseteq> {..<nr_proc_table} \<times> {..<nr_proc_table}" by (auto simp: sends_def)
qed simp

lemma sends_wf: "acyclic (sends ps) \<Longrightarrow> wf ((sends ps)\<inverse>)"
  by (rule finite_acyclic_wf_converse [OF finite_sends])

definition sendto_ok :: "(nat \<Rightarrow> process) \<Rightarrow> bool" where
  "sendto_ok ps \<longleftrightarrow> (\<forall>p < nr_proc_table. p_flags (ps p) AND SENDING \<noteq> 0 \<longrightarrow> valid_pid (p_sendto (ps p)))"

lemma sends_edge:
  assumes "sendto_ok ps" "p < nr_proc_table" "p_flags (ps p) AND SENDING \<noteq> 0"
  obtains q where "(p, q) \<in> sends ps" "p_sendto (ps p) = int q" "q < nr_proc_table"
proof -
  from assms have v: "valid_pid (p_sendto (ps p))" by (auto simp: sendto_ok_def)
  then have "p_sendto (ps p) = int (nat (p_sendto (ps p)))" by (simp add: valid_pid_def)
  with v assms that [of "nat (p_sendto (ps p))"] show ?thesis
    by (auto simp: sends_def valid_pid_def nat_less_iff)
qed

lemma trancl_sends_step:
  assumes "(p, q) \<in> sends ps"
  shows "(p, r) \<in> (sends ps)\<^sup>+ \<longleftrightarrow> q = r \<or> (q, r) \<in> (sends ps)\<^sup>+"
proof
  assume "(p, r) \<in> (sends ps)\<^sup>+"
  then show "q = r \<or> (q, r) \<in> (sends ps)\<^sup>+"
    by (cases rule: converse_tranclE) (use assms sends_functional in blast)+
next
  assume "q = r \<or> (q, r) \<in> (sends ps)\<^sup>+"
  with assms show "(p, r) \<in> (sends ps)\<^sup>+" by (auto intro: trancl_into_trancl2)
qed

lemma deadlock_loop_acyclic:
  assumes "acyclic (sends ps)" "sendto_ok ps" "p < nr_proc_table"
  shows "deadlock_loop ps src p = Some (Inr ((p, src) \<in> (sends ps)\<^sup>+))"
  using sends_wf [OF assms(1)] assms(3)
proof (induction p rule: wf_induct_rule)
  case (less p)
  show ?case
  proof (cases "p_flags (ps p) AND SENDING \<noteq> 0")
    case True
    from sends_edge [OF assms(2) less.prems True] obtain q where
      q: "(p, q) \<in> sends ps" "p_sendto (ps p) = int q" "q < nr_proc_table" .
    with less.IH have "deadlock_loop ps src q = Some (Inr ((q, src) \<in> (sends ps)\<^sup>+))" by simp
    with q True show ?thesis
      by (subst deadlock_loop.simps) (auto simp: trancl_sends_step [OF q(1)])
  next
    case False
    then have "(p, src) \<notin> (sends ps)\<^sup>+"
      by (auto elim!: converse_tranclE simp: sends_def)
    with False show ?thesis by (subst deadlock_loop.simps) simp
  qed
qed

text \<open>On a cycle that does not pass through \<open>src\<close> the search never ends.\<close>

lemma deadlock_loop_cycle:
  assumes "p \<in> C" "src \<notin> C"
    "\<forall>c \<in> C. p_flags (ps c) AND SENDING \<noteq> 0 \<and> (\<exists>d \<in> C. d < nr_proc_table \<and> p_sendto (ps c) = int d)"
  shows "deadlock_loop ps src p = None"
proof (rule ccontr)
  let ?cyc = "\<lambda>ps src p. \<exists>C. p \<in> C \<and> src \<notin> C \<and> (\<forall>c \<in> C. p_flags (ps c) AND SENDING \<noteq> 0
    \<and> (\<exists>d \<in> C. d < nr_proc_table \<and> p_sendto (ps c) = int d))"
  assume "deadlock_loop ps src p \<noteq> None"
  then obtain r where r: "deadlock_loop ps src p = Some r" by blast
  have "\<not> ?cyc ps src p"
  proof (rule deadlock_loop.raw_induct [OF _ r, where P = "\<lambda>ps src p r. \<not> ?cyc ps src p"], rule notI)
    fix f :: "(nat \<Rightarrow> process) \<Rightarrow> nat \<Rightarrow> nat \<Rightarrow> (fault + bool) option" and ps src p r
    assume IH: "\<And>ps src p r. f ps src p = Some r \<Longrightarrow> \<not> ?cyc ps src p"
      and eq: "(if p_flags (ps p) AND SENDING \<noteq> 0 then
          if p_sendto (ps p) = int src then Some (Inr True)
          else if \<not> valid_pid (p_sendto (ps p)) then Some (Inl (Wild ''proc_table''))
          else f ps src (nat (p_sendto (ps p)))
        else Some (Inr False)) = Some r" and "?cyc ps src p"
    then obtain C d where C: "p \<in> C" "src \<notin> C" "d \<in> C" "d < nr_proc_table" "p_sendto (ps p) = int d"
      "p_flags (ps p) AND SENDING \<noteq> 0"
      "\<forall>c \<in> C. p_flags (ps c) AND SENDING \<noteq> 0 \<and> (\<exists>d \<in> C. d < nr_proc_table \<and> p_sendto (ps c) = int d)"
      by blast
    then have "f ps src d = Some r" using eq by (auto split: if_splits)
    from IH [OF this] C show False by blast
  qed
  with assms show False by blast
qed

text \<open>When a cycle through \<open>src\<close> is found, the report along it ends.\<close>

lemma deadlock_report_returns:
  assumes "acyclic (sends ps)" "(p, src) \<in> (sends ps)\<^sup>+"
    "\<forall>i < nr_proc_table. p_flags (ps i) AND SENDING \<noteq> 0 \<longrightarrow> p_msg (ps i) \<noteq> 0"
  shows "\<exists>out'. deadlock_report ps src p out = Some (Inr out')"
  using sends_wf [OF assms(1)] assms(2)
proof (induction p arbitrary: out rule: wf_induct_rule)
  case (less p)
  from less.prems obtain q where q: "(p, q) \<in> sends ps" by (meson tranclD)
  then have pq: "p_sendto (ps p) = int q" "q < nr_proc_table" "p_msg (ps p) \<noteq> 0"
    using assms(3) by (auto simp: sends_def)
  show ?case
  proof (cases "q = src")
    case True
    with pq show ?thesis by (subst deadlock_report.simps) (simp add: Let_def)
  next
    case False
    with less.prems q have "(q, src) \<in> (sends ps)\<^sup>+" by (simp add: trancl_sends_step [OF q])
    with less.IH q have "\<exists>out'. deadlock_report ps src q (out @ [ascii ''->'' @ pname (ps q)]) = Some (Inr out')"
      by simp
    with False pq show ?thesis by (subst deadlock_report.simps) (simp add: Let_def)
  qed
qed

end
