(* ===== verification/Ipc_Correct.thy ===== *)
theory Ipc_Correct
  imports Ipc_Queue
begin

text \<open>
  The invariant of message passing: \<open>ipc_ok\<close> ties the flags, the partner fields and the queues of
  all processes together, and the lemmas say what each kind of update does to it. The locale
  \<open>scheduler\<close> is the contract of \<open>schedule\<close> with the operations that block.
\<close>

section \<open>The invariant\<close>

definition proc_ok :: "(nat \<Rightarrow> process) \<Rightarrow> nat \<Rightarrow> bool" where
  "proc_ok ps p \<longleftrightarrow>
     p_flags (ps p) \<in> {0, SENDING, RECEIVING}
     \<and> (p_flags (ps p) = SENDING \<longrightarrow> (\<exists>d < nr_proc_table. d \<noteq> p \<and> p_sendto (ps p) = int d))
     \<and> (p_flags (ps p) \<noteq> SENDING \<longrightarrow> p_sendto (ps p) = NO_TASK \<and> next_sending (ps p) = None)
     \<and> (p_flags (ps p) = RECEIVING \<longrightarrow> p_recvfrom (ps p) = ANY \<or> p_recvfrom (ps p) = INTERRUPT
          \<or> valid_pid (p_recvfrom (ps p)))
     \<and> (p_flags (ps p) \<noteq> RECEIVING \<longrightarrow> p_recvfrom (ps p) = NO_TASK)
     \<and> (p_flags (ps p) \<noteq> 0 \<longrightarrow> p_msg (ps p) \<noteq> 0)"

text \<open>\<open>i\<close> is blocked in a send to \<open>p\<close>.\<close>

definition sending_to :: "(nat \<Rightarrow> process) \<Rightarrow> nat \<Rightarrow> nat \<Rightarrow> bool" where
  "sending_to ps i p \<longleftrightarrow> i < nr_proc_table \<and> p_flags (ps i) = SENDING \<and> p_sendto (ps i) = int p"

text \<open>The linked queue of \<open>p\<close> is the list \<open>Q p\<close>, and holds exactly the processes that send to \<open>p\<close>.\<close>

definition queue_ok :: "(nat \<Rightarrow> process) \<Rightarrow> (nat \<Rightarrow> nat list) \<Rightarrow> nat \<Rightarrow> bool" where
  "queue_ok ps Q p \<longleftrightarrow> chain (next_of ps) (q_sending (ps p)) (Q p) \<and> set (Q p) = {i. sending_to ps i p}"

text \<open>No missed rendezvous: a process never waits for a message that another one is blocked on.\<close>

definition no_missed :: "(nat \<Rightarrow> process) \<Rightarrow> nat \<Rightarrow> bool" where
  "no_missed ps p \<longleftrightarrow> (p_flags (ps p) = RECEIVING \<longrightarrow>
     (\<forall>i. sending_to ps i p \<longrightarrow> p_recvfrom (ps p) \<noteq> ANY \<and> p_recvfrom (ps p) \<noteq> int i))"

definition ipc_ok :: "(nat \<Rightarrow> process) \<Rightarrow> (nat \<Rightarrow> nat list) \<Rightarrow> bool" where
  "ipc_ok ps Q \<longleftrightarrow> (\<forall>p < nr_proc_table. proc_ok ps p \<and> queue_ok ps Q p \<and> no_missed ps p)"

definition ipc_inv :: "kstate \<Rightarrow> (nat \<Rightarrow> nat list) \<Rightarrow> bool" where
  "ipc_inv s Q \<longleftrightarrow> ipc_ok (procs s) Q \<and> acyclic (sends (procs s))"

lemma flag_bits [simp]:
  "0 AND SENDING = 0" "SENDING AND SENDING = SENDING" "RECEIVING AND SENDING = 0"
  "0 AND RECEIVING = 0" "SENDING AND RECEIVING = 0" "RECEIVING AND RECEIVING = RECEIVING"
  "0 OR SENDING = SENDING" "0 OR RECEIVING = RECEIVING"
  "SENDING AND NOT SENDING = 0" "RECEIVING AND NOT RECEIVING = 0"
  "SENDING \<noteq> 0" "RECEIVING \<noteq> 0" "SENDING \<noteq> RECEIVING" "RECEIVING \<noteq> SENDING"
  "(0 = SENDING) = False" "(0 = RECEIVING) = False"
  by (simp_all add: flag_consts)

lemma partner_consts [simp]:
  "NO_TASK \<noteq> ANY" "NO_TASK \<noteq> INTERRUPT" "ANY \<noteq> INTERRUPT" "ANY \<noteq> NO_TASK" "INTERRUPT \<noteq> NO_TASK"
  "INTERRUPT \<noteq> ANY" "int p \<noteq> NO_TASK" "int p \<noteq> ANY" "int p \<noteq> INTERRUPT" "NO_TASK \<noteq> int p" "ANY \<noteq> int p"
  "INTERRUPT \<noteq> int p" "\<not> valid_pid NO_TASK" "\<not> valid_pid ANY" "\<not> valid_pid INTERRUPT"
  by (simp_all add: proc_consts valid_pid_def)

lemma partner_numeral [simp]:
  "NO_TASK \<noteq> numeral k" "ANY \<noteq> numeral k" "INTERRUPT \<noteq> numeral k" "numeral k \<noteq> NO_TASK" "numeral k \<noteq> ANY"
  "numeral k \<noteq> INTERRUPT"
  by (simp_all add: proc_consts)

lemma ipc_okD:
  assumes "ipc_ok ps Q" "p < nr_proc_table"
  shows "proc_ok ps p" "queue_ok ps Q p" "no_missed ps p"
  using assms by (auto simp: ipc_ok_def)

lemma flags_sending_iff:
  "proc_ok ps p \<Longrightarrow> p_flags (ps p) AND SENDING \<noteq> 0 \<longleftrightarrow> p_flags (ps p) = SENDING"
  by (auto simp: proc_ok_def)

lemma flags_receiving_iff:
  "proc_ok ps p \<Longrightarrow> p_flags (ps p) AND RECEIVING \<noteq> 0 \<longleftrightarrow> p_flags (ps p) = RECEIVING"
  by (auto simp: proc_ok_def)

lemma sends_eq:
  assumes "ipc_ok ps Q"
  shows "sends ps = {(p, q). q < nr_proc_table \<and> sending_to ps p q}"
  using assms flags_sending_iff by (auto simp: sends_def sending_to_def ipc_ok_def)

lemma ipc_ok_sendto_ok: "ipc_ok ps Q \<Longrightarrow> sendto_ok ps"
  unfolding sendto_ok_def ipc_ok_def proc_ok_def by force

lemma queue_member: "ipc_ok ps Q \<Longrightarrow> p < nr_proc_table \<Longrightarrow> i \<in> set (Q p) \<longleftrightarrow> sending_to ps i p"
  by (auto simp: ipc_ok_def queue_ok_def)

section \<open>What each update does to the invariant\<close>

text \<open>A process goes to the end of the queue of \<open>d\<close>.\<close>

lemma ipc_ok_enqueue:
  assumes ok: "ipc_ok ps Q" and c: "c < nr_proc_table" "p_flags (ps c) = 0" and d: "d < nr_proc_table" "d \<noteq> c"
    and no: "\<not> (p_flags (ps d) = RECEIVING \<and> (p_recvfrom (ps d) = int c \<or> p_recvfrom (ps d) = ANY))"
    and m: "m \<noteq> 0"
    and eqs: "\<And>i. p_flags (ps' i) = (if i = c then SENDING else p_flags (ps i))"
      "\<And>i. p_sendto (ps' i) = (if i = c then int d else p_sendto (ps i))"
      "\<And>i. p_msg (ps' i) = (if i = c then m else p_msg (ps i))"
      "\<And>i. p_recvfrom (ps' i) = p_recvfrom (ps i)"
      "\<And>i. q_sending (ps' i) = (if i = d \<and> Q d = [] then Some c else q_sending (ps i))"
      "next_of ps' = (if Q d = [] then (next_of ps)(c := None)
         else (next_of ps)(last (Q d) := Some c, c := None))"
  shows "ipc_ok ps' (Q(d := Q d @ [c]))"
proof -
  have cQ: "c \<notin> set (Q p)" if "p < nr_proc_table" for p
    using queue_member [OF ok that] c(2) by (auto simp: sending_to_def)
  have st: "sending_to ps' i p \<longleftrightarrow> sending_to ps i p \<or> i = c \<and> p = d" for i p
    using c by (auto simp: sending_to_def eqs)
  have last: "last (Q d) \<in> {i. sending_to ps i d}" if "Q d \<noteq> []"
    using queue_member [OF ok d(1)] that by (metis last_in_set mem_Collect_eq)
  show ?thesis
    unfolding ipc_ok_def
  proof (intro allI impI conjI)
    fix p assume p: "p < nr_proc_table"
    note okp = ipc_okD [OF ok p]
    have nx: "next_sending (ps' p) = None" if "p_flags (ps p) \<noteq> SENDING"
      unfolding fun_cong [OF eqs(6), of p]
      using that okp(1) last by (auto simp: proc_ok_def sending_to_def)
    show "proc_ok ps' p"
      using okp(1) c(2) d m nx by (auto simp: proc_ok_def eqs(1-5))
    have "chain (next_of ps') (q_sending (ps' p)) ((Q(d := Q d @ [c])) p)"
    proof (cases "p = d")
      case True
      then show ?thesis
        using okp(2) chain_snoc [of "next_of ps" "q_sending (ps d)" "Q d" c] cQ [OF d(1)]
        by (cases "Q d = []") (auto simp: eqs(5,6) queue_ok_def)
    next
      case False
      have "next_sending (ps' a) = next_sending (ps a)" if "a \<in> set (Q p)" for a
      proof -
        have "sending_to ps a p" using that queue_member [OF ok p] by simp
        then have "a \<noteq> c" "Q d \<noteq> [] \<Longrightarrow> a \<noteq> last (Q d)"
          using c(2) last False by (auto simp: sending_to_def)
        then show ?thesis unfolding fun_cong [OF eqs(6), of a] by simp
      qed
      then have "chain (next_of ps') (q_sending (ps p)) (Q p)"
        using okp(2) by (simp add: queue_ok_def chain_cong [of "Q p" "next_of ps'" "next_of ps"])
      with False show ?thesis by (simp add: eqs(5))
    qed
    then show "queue_ok ps' (Q(d := Q d @ [c])) p"
      using okp(2) by (auto simp: queue_ok_def st)
    show "no_missed ps' p"
      using okp(3) no c(2) by (auto simp: no_missed_def st eqs)
  qed
qed

text \<open>The sender \<open>f\<close> leaves the queue of \<open>w\<close>.\<close>

lemma ipc_ok_dequeue:
  assumes ok: "ipc_ok ps Q" and w: "w < nr_proc_table" and Q: "Q w = xs @ f # ys"
    and eqs: "\<And>i. p_flags (ps' i) = (if i = f then 0 else p_flags (ps i))"
      "\<And>i. p_sendto (ps' i) = (if i = f then NO_TASK else p_sendto (ps i))"
      "\<And>i. i \<noteq> f \<Longrightarrow> p_msg (ps' i) = p_msg (ps i)"
      "\<And>i. p_recvfrom (ps' i) = p_recvfrom (ps i)"
      "\<And>i. q_sending (ps' i) = (if i = w \<and> xs = [] then next_sending (ps f) else q_sending (ps i))"
      "next_of ps' = (if xs = [] then (next_of ps)(f := None)
         else (next_of ps)(last xs := next_sending (ps f), f := None))"
  shows "ipc_ok ps' (Q(w := xs @ ys))"
proof -
  note okw = ipc_okD [OF ok w]
  have ch: "chain (next_of ps) (q_sending (ps w)) (xs @ f # ys)"
    using okw(2) by (simp add: queue_ok_def Q)
  have dist: "distinct (xs @ f # ys)" by (rule chain_distinct [OF ch])
  have f: "sending_to ps f w" using queue_member [OF ok w, of f] Q by simp
  have st: "sending_to ps' i p \<longleftrightarrow> sending_to ps i p \<and> i \<noteq> f" for i p
    by (auto simp: sending_to_def eqs)
  have last: "last xs \<in> {i. sending_to ps i w}" if "xs \<noteq> []"
    using queue_member [OF ok w, of "last xs"] Q that by simp
  show ?thesis
    unfolding ipc_ok_def
  proof (intro allI impI conjI)
    fix p assume p: "p < nr_proc_table"
    note okp = ipc_okD [OF ok p]
    have nx: "next_sending (ps' p) = None" if "p_flags (ps p) \<noteq> SENDING \<or> p = f"
      unfolding fun_cong [OF eqs(6), of p]
      using that okp(1) last by (auto simp: proc_ok_def sending_to_def)
    show "proc_ok ps' p"
      using okp(1) f nx by (auto simp: proc_ok_def eqs(1-5) sending_to_def)
    have "chain (next_of ps') (q_sending (ps' p)) ((Q(w := xs @ ys)) p)"
    proof (cases "p = w")
      case True
      then show ?thesis
        using chain_remove [OF ch] by (cases "xs = []") (auto simp: eqs(5,6))
    next
      case False
      have "next_sending (ps' a) = next_sending (ps a)" if "a \<in> set (Q p)" for a
      proof -
        have "sending_to ps a p" using that queue_member [OF ok p] by simp
        then have "a \<noteq> f" "xs \<noteq> [] \<Longrightarrow> a \<noteq> last xs"
          using f last False by (auto simp: sending_to_def)
        then show ?thesis unfolding fun_cong [OF eqs(6), of a] by simp
      qed
      then have "chain (next_of ps') (q_sending (ps p)) (Q p)"
        using okp(2) by (simp add: queue_ok_def chain_cong [of "Q p" "next_of ps'" "next_of ps"])
      with False show ?thesis by (simp add: eqs(5))
    qed
    moreover have "set ((Q(w := xs @ ys)) p) = {i. sending_to ps' i p}"
    proof (cases "p = w")
      case True
      have "set (Q w) = {i. sending_to ps i w}" using okw(2) by (simp add: queue_ok_def)
      with True dist show ?thesis by (auto simp: st Q)
    next
      case False
      with f have "\<not> sending_to ps f p" by (simp add: sending_to_def)
      with False okp(2) show ?thesis by (auto simp: queue_ok_def st)
    qed
    ultimately show "queue_ok ps' (Q(w := xs @ ys)) p" by (simp add: queue_ok_def)
    show "no_missed ps' p"
      using okp(3) by (auto simp: no_missed_def st eqs)
  qed
qed

text \<open>A receiver is woken up, or a running process loses its message pointer.\<close>

lemma ipc_ok_wake:
  assumes ok: "ipc_ok ps Q" and d: "p_flags (ps d) \<noteq> SENDING"
    and eqs: "\<And>i. p_flags (ps' i) = (if i = d then 0 else p_flags (ps i))"
      "\<And>i. p_recvfrom (ps' i) = (if i = d then NO_TASK else p_recvfrom (ps i))"
      "\<And>i. p_sendto (ps' i) = p_sendto (ps i)"
      "\<And>i. p_flags (ps i) \<noteq> 0 \<Longrightarrow> i \<noteq> d \<Longrightarrow> p_msg (ps' i) = p_msg (ps i)"
      "\<And>i. q_sending (ps' i) = q_sending (ps i)"
      "\<And>i. next_sending (ps' i) = next_sending (ps i)"
  shows "ipc_ok ps' Q"
proof -
  have st: "sending_to ps' i p = sending_to ps i p" for i p
    using d by (auto simp: sending_to_def eqs)
  show ?thesis
    using ok d unfolding ipc_ok_def proc_ok_def queue_ok_def no_missed_def st
    by (auto simp: eqs)
qed

text \<open>A running process starts to wait for \<open>src\<close>.\<close>

lemma ipc_ok_wait:
  assumes ok: "ipc_ok ps Q" and w: "w < nr_proc_table" "p_flags (ps w) = 0" and m: "m \<noteq> 0"
    and src: "src = ANY \<and> Q w = [] \<or> src = INTERRUPT \<or> (\<exists>i < nr_proc_table. src = int i \<and> i \<notin> set (Q w))"
    and eqs: "\<And>i. p_flags (ps' i) = (if i = w then RECEIVING else p_flags (ps i))"
      "\<And>i. p_recvfrom (ps' i) = (if i = w then src else p_recvfrom (ps i))"
      "\<And>i. p_sendto (ps' i) = p_sendto (ps i)"
      "\<And>i. p_msg (ps' i) = (if i = w then m else p_msg (ps i))"
      "\<And>i. q_sending (ps' i) = q_sending (ps i)"
      "\<And>i. next_sending (ps' i) = next_sending (ps i)"
  shows "ipc_ok ps' Q"
proof -
  have st: "sending_to ps' i p = sending_to ps i p" for i p
    using w by (auto simp: sending_to_def eqs)
  have nm: "\<forall>i. sending_to ps i w \<longrightarrow> src \<noteq> ANY \<and> src \<noteq> int i"
    using src queue_member [OF ok w(1)] by auto
  show ?thesis
    using ok w m src nm unfolding ipc_ok_def proc_ok_def queue_ok_def no_missed_def st
    by (auto simp: eqs)
qed

section \<open>The scheduler as the kernel relies on it\<close>

text \<open>
  \<open>block\<close> calls \<open>schedule\<close> in the middle of a system call. What message passing needs of the scheduler
  is this contract: it changes nothing but the ticks and the current process, the process that
  it picks is runnable, and it returns when some runnable process has a positive priority.
\<close>

locale scheduler =
  fixes sched :: "kstate \<Rightarrow> kstate option"
  assumes frame: "sched s = Some s' \<Longrightarrow> sched_frame s s'"
    and picks: "sched s = Some s' \<Longrightarrow> runnable s' (cur s')"
    and returns: "runnable s p \<Longrightarrow> 0 < priority (procs s p) \<Longrightarrow> \<exists>s'. sched s = Some s'"
begin

lemma frame_fields:
  assumes "sched s = Some s'"
  shows "p_flags (procs s' p) = p_flags (procs s p)" "p_msg (procs s' p) = p_msg (procs s p)"
    "p_recvfrom (procs s' p) = p_recvfrom (procs s p)" "p_sendto (procs s' p) = p_sendto (procs s p)"
    "has_int_msg (procs s' p) = has_int_msg (procs s p)" "q_sending (procs s' p) = q_sending (procs s p)"
    "next_sending (procs s' p) = next_sending (procs s p)" "proc_type (procs s' p) = proc_type (procs s p)"
    "priority (procs s' p) = priority (procs s p)" "ldts (procs s' p) = ldts (procs s p)"
    "kmem s' = kmem s"
  using frame [OF assms] by (auto simp: sched_frame_def)

lemma keeps_ipc_ok: "sched s = Some s' \<Longrightarrow> ipc_ok (procs s') Q \<longleftrightarrow> ipc_ok (procs s) Q"
  by (simp add: ipc_ok_def proc_ok_def queue_ok_def no_missed_def sending_to_def frame_fields)

lemma keeps_sends: "sched s = Some s' \<Longrightarrow> sends (procs s') = sends (procs s)"
  by (simp add: sends_def frame_fields)

lemma keeps_ipc_inv: "sched s = Some s' \<Longrightarrow> ipc_inv s' Q \<longleftrightarrow> ipc_inv s Q"
  by (simp add: ipc_inv_def keeps_ipc_ok keeps_sends)

lemma keeps_runnable: "sched s = Some s' \<Longrightarrow> runnable s' p \<longleftrightarrow> runnable s p"
  by (simp add: runnable_def frame_fields)

end

interpretation rr: scheduler schedule
proof
  show "sched_frame s s'" if "schedule s = Some s'" for s s'
    using that by (rule schedule_frame)
  show "runnable s' (cur s')" if "schedule s = Some s'" for s s'
    using schedule_best [OF that] by (rule best_runnable)
  show "\<exists>s'. schedule s = Some s'" if "runnable s p" "0 < priority (procs s p)" for s p
    using that schedule_candidate [of s] schedule_refill [of s] by blast
qed

end
