(* ===== verification/Ipc_Refine.thy ===== *)
theory Ipc_Refine
  imports Ipc_Correct
begin

text \<open>
  Correctness of message passing: the abstract machine has a status for each process and a list of
  waiting senders for each process; \<open>msg_send\<close> and \<open>msg_receive\<close> of \<^verbatim>\<open>kernel/ipc.c\<close> implement
  its steps without failing an assertion and move the message as they should. The last section
  shows what happens outside of these preconditions.
\<close>

section \<open>The abstract machine\<close>

datatype status = Running | Sending nat | Receiving int

definition status_of :: "process \<Rightarrow> status" where
  "status_of p = (if p_flags p = SENDING then Sending (nat (p_sendto p))
     else if p_flags p = RECEIVING then Receiving (p_recvfrom p) else Running)"

text \<open>A state of the abstract machine: the status of each process and the queue of its senders.\<close>

type_synonym astate = "(nat \<Rightarrow> status) \<times> (nat \<Rightarrow> nat list)"

fun a_send :: "nat \<Rightarrow> nat \<Rightarrow> astate \<Rightarrow> astate" where
  "a_send c d (st, Q) =
     (if st d = Receiving (int c) \<or> st d = Receiving ANY then (st(d := Running), Q)
      else (st(c := Sending d), Q(d := Q d @ [c])))"

definition a_pick :: "int \<Rightarrow> nat list \<Rightarrow> nat option" where
  "a_pick src q = (if src = ANY then (case q of [] \<Rightarrow> None | f # _ \<Rightarrow> Some f)
     else if valid_pid src \<and> nat src \<in> set q then Some (nat src) else None)"

fun a_receive :: "nat \<Rightarrow> int \<Rightarrow> astate \<Rightarrow> astate" where
  "a_receive c src (st, Q) = (case a_pick src (Q c) of
     Some f \<Rightarrow> (st(f := Running), Q(c := remove1 f (Q c)))
   | None \<Rightarrow> (st(c := Receiving src), Q))"

definition refines :: "kstate \<Rightarrow> astate \<Rightarrow> bool" where
  "refines s a \<longleftrightarrow> ipc_inv s (snd a) \<and> fst a = (\<lambda>p. status_of (procs s p))"

lemma status_of_simps [simp]:
  "status_of p = Running \<longleftrightarrow> p_flags p \<noteq> SENDING \<and> p_flags p \<noteq> RECEIVING"
  "status_of p = Receiving r \<longleftrightarrow> p_flags p = RECEIVING \<and> p_recvfrom p = r"
  by (auto simp: status_of_def)

section \<open>Sending\<close>

lemma deadlock_free:
  assumes "ipc_inv s Q" "d < nr_proc_table" "(d, c) \<notin> (sends (procs s))\<^sup>+"
  shows "deadlock c d s = Inr (False, s)"
  using assms deadlock_loop_acyclic [of "procs s" d c] ipc_ok_sendto_ok
  by (auto simp: deadlock_def ipc_inv_def)

lemma deadlock_found:
  assumes "ipc_inv s Q" "d < nr_proc_table" "(d, c) \<in> (sends (procs s))\<^sup>+"
  shows "\<exists>log. deadlock c d s = Inr (True, s\<lparr>klog := log\<rparr>)"
proof -
  have "\<forall>i < nr_proc_table. p_flags (procs s i) AND SENDING \<noteq> 0 \<longrightarrow> p_msg (procs s i) \<noteq> 0"
    using assms(1) by (auto simp: ipc_inv_def ipc_ok_def proc_ok_def)
  with assms deadlock_loop_acyclic [of "procs s" d c] ipc_ok_sendto_ok
    deadlock_report_returns [of "procs s" d c "[ascii ''=_='' @ pname (procs s d)]"]
  show ?thesis by (auto simp: deadlock_def ipc_inv_def)
qed

text \<open>The rendezvous: the destination is already waiting.\<close>

lemma send_deliver_ok:
  assumes inv: "ipc_inv s Q" and c: "c < nr_proc_table" "p_flags (procs s c) = 0" and cd: "d < nr_proc_table" "c \<noteq> d"
    and wait: "p_flags (procs s d) = RECEIVING" and m: "m \<noteq> 0"
  defines "ps' \<equiv> (procs s)(c := procs s c\<lparr>p_msg := 0\<rparr>,
      d := procs s d\<lparr>p_msg := 0, p_flags := 0, p_recvfrom := NO_TASK\<rparr>)"
  shows "send_deliver c d m s = Inr (s\<lparr>procs := ps',
      kmem := kmemcpy (lin s c m) (lin s d (p_msg (procs s d))) sizeof_MESSAGE (kmem s)\<rparr>)"
    and "ipc_ok ps' Q" and "sends ps' = sends (procs s)"
proof -
  have ok: "ipc_ok (procs s) Q" using inv by (simp add: ipc_inv_def)
  note pc = ipc_okD(1) [OF ok c(1)] and pd = ipc_okD(1) [OF ok cd(1)]
  show "ipc_ok ps' Q"
    by (rule ipc_ok_wake [OF ok, of d]) (use c wait in \<open>auto simp: ps'_def\<close>)
  show "sends ps' = sends (procs s)"
    using c wait by (auto simp: sends_def ps'_def fun_upd_def split: if_splits)
  show "send_deliver c d m s = Inr (s\<lparr>procs := ps',
      kmem := kmemcpy (lin s c m) (lin s d (p_msg (procs s d))) sizeof_MESSAGE (kmem s)\<rparr>)"
    using pc pd c cd wait m
    by (simp add: send_deliver_def ldt_proc_id2base_valid lin_def unblock_def proc_ok_def ps'_def
        upd_proc_def fun_upd_twist)
qed

text \<open>The destination is busy: the sender joins the end of its queue and blocks.\<close>

lemma send_append_ok:
  assumes ch: "chain (next_of (procs s)) (q_sending (procs s d)) q"
  shows "send_append c d s = Inr (upd_proc c (\<lambda>p. p\<lparr>next_sending := None\<rparr>)
    (if q = [] then upd_proc d (\<lambda>p. p\<lparr>q_sending := Some c\<rparr>) s
     else upd_proc (last q) (\<lambda>p. p\<lparr>next_sending := Some c\<rparr>) s))"
proof (cases q)
  case (Cons a as)
  with ch have "q_sending (procs s d) = Some a" "chain (next_of (procs s)) (Some a) q" by auto
  from this(1) queue_tail_chain [OF this(2)] Cons show ?thesis by (simp add: send_append_def)
qed (use ch in \<open>simp add: send_append_def\<close>)

lemma send_enqueue_ok:
  assumes ok: "ipc_ok (procs s) Q" and c: "c < nr_proc_table" "p_flags (procs s c) = 0" and d: "d < nr_proc_table" "d \<noteq> c"
    and no: "\<not> (p_flags (procs s d) = RECEIVING \<and> (p_recvfrom (procs s d) = int c \<or> p_recvfrom (procs s d) = ANY))"
    and m: "m \<noteq> 0"
    and other: "runnable s r" "r \<noteq> c" "0 < priority (procs s r)"
  shows "\<exists>s'. send_enqueue c d m s = Inr s' \<and> ipc_ok (procs s') (Q(d := Q d @ [c]))
    \<and> sends (procs s') = insert (c, d) (sends (procs s)) \<and> kmem s' = kmem s
    \<and> (\<forall>i. status_of (procs s' i) = (if i = c then Sending d else status_of (procs s i)))
    \<and> runnable s' (cur s')"
proof -
  note pc = ipc_okD(1) [OF ok c(1)] and qd = ipc_okD(2) [OF ok d(1)]
  have cQ: "c \<notin> set (Q d)" using queue_member [OF ok d(1)] c(2) by (auto simp: sending_to_def)
  have lastc: "Q d \<noteq> [] \<Longrightarrow> last (Q d) \<noteq> c" using cQ by auto
  define s1 where "s1 = upd_proc c (\<lambda>p. p\<lparr>p_flags := SENDING, p_sendto := int d, p_msg := m\<rparr>) s"
  define s2 where "s2 = upd_proc c (\<lambda>p. p\<lparr>next_sending := None\<rparr>)
    (if Q d = [] then upd_proc d (\<lambda>p. p\<lparr>q_sending := Some c\<rparr>) s1
     else upd_proc (last (Q d)) (\<lambda>p. p\<lparr>next_sending := Some c\<rparr>) s1)"
  have "next_of (procs s1) = next_of (procs s)" "q_sending (procs s1 d) = q_sending (procs s d)"
    by (auto simp: s1_def)
  then have "chain (next_of (procs s1)) (q_sending (procs s1 d)) (Q d)"
    using qd by (simp add: queue_ok_def)
  from send_append_ok [OF this] have app: "send_append c d s1 = Inr s2" by (simp add: s2_def)
  have fields: "p_flags (procs s2 i) = (if i = c then SENDING else p_flags (procs s i))"
    "p_sendto (procs s2 i) = (if i = c then int d else p_sendto (procs s i))"
    "p_msg (procs s2 i) = (if i = c then m else p_msg (procs s i))"
    "p_recvfrom (procs s2 i) = p_recvfrom (procs s i)"
    "q_sending (procs s2 i) = (if i = d \<and> Q d = [] then Some c else q_sending (procs s i))"
    "priority (procs s2 i) = priority (procs s i)" "kmem s2 = kmem s" for i
    by (auto simp: s2_def s1_def)
  have next2: "next_of (procs s2) = (if Q d = [] then (next_of (procs s))(c := None)
      else (next_of (procs s))(last (Q d) := Some c, c := None))"
    using lastc by (auto simp: s2_def s1_def fun_eq_iff)
  have ok2: "ipc_ok (procs s2) (Q(d := Q d @ [c]))"
    by (rule ipc_ok_enqueue [OF ok c d no m fields(1-5) next2])
  have sends2: "sends (procs s2) = insert (c, d) (sends (procs s))"
    using c d by (auto simp: sends_def fields split: if_splits)
  have "runnable s2 r" "0 < priority (procs s2 r)" using other by (auto simp: runnable_def fields)
  from rr.returns [OF this] obtain s' where s': "schedule s2 = Some s'" by blast
  have "send_enqueue c d m s = Inr s'"
  proof -
    have u: "upd_proc c (\<lambda>p. p\<lparr>p_sendto := int d, p_msg := m\<rparr>)
        (upd_proc c (\<lambda>p. p\<lparr>p_flags := p_flags p OR SENDING\<rparr>) s) = s1"
      using c(2) by (simp add: s1_def upd_proc_def)
    show ?thesis
      using c(2) pc m s' unfolding send_enqueue_def Let_def u app
      by (simp add: block_def rr.frame_fields fields proc_ok_def app u)
  qed
  moreover have "status_of (procs s' i) = (if i = c then Sending d else status_of (procs s i))" for i
    by (simp add: status_of_def rr.frame_fields [OF s'] fields)
  ultimately show ?thesis
    using rr.keeps_ipc_ok [OF s'] ok2 rr.keeps_sends [OF s'] sends2 rr.frame_fields(11) [OF s'] fields(7) rr.picks [OF s'] by auto
qed

text \<open>
  A send between two processes of the table that closes no cycle of senders succeeds, fails no
  assertion, and performs the abstract step. If the destination waits for the sender, the 96 bytes
  of the message are copied to the buffer that the destination named; otherwise no memory changes
  and the sender waits at the end of the queue while the scheduler picks a runnable process.
\<close>

lemma msg_send_refines:
  assumes "refines s a" and "c < nr_proc_table" "p_flags (procs s c) = 0"
    and "d < nr_proc_table" "c \<noteq> d" and "m \<noteq> 0"
    and "(d, c) \<notin> (sends (procs s))\<^sup>+"
    and "\<exists>r. runnable s r \<and> r \<noteq> c \<and> 0 < priority (procs s r)"
  shows "\<exists>s'. msg_send c (int d) m s = Inr s' \<and> refines s' (a_send c d a)
    \<and> (if fst a d = Receiving (int c) \<or> fst a d = Receiving ANY
       then kmem s' = kmemcpy (lin s c m) (lin s d (p_msg (procs s d))) sizeof_MESSAGE (kmem s) \<and> cur s' = cur s
       else kmem s' = kmem s \<and> runnable s' (cur s'))"
proof -
  obtain Q where a: "a = (\<lambda>p. status_of (procs s p), Q)" and inv: "ipc_inv s Q"
    using assms(1) by (cases a) (auto simp: refines_def)
  have fr: "p_flags (procs s d) AND RECEIVING \<noteq> 0 \<longleftrightarrow> p_flags (procs s d) = RECEIVING"
    using inv assms(4) flags_receiving_iff by (auto simp: ipc_inv_def ipc_ok_def)
  have start: "msg_send c (int d) m s = (if p_flags (procs s d) AND RECEIVING \<noteq> 0
          \<and> (p_recvfrom (procs s d) = int c \<or> p_recvfrom (procs s d) = ANY)
       then send_deliver c d m s else send_enqueue c d m s)"
    using assms by (simp add: msg_send_def deadlock_free [OF inv assms(4,7)] Let_def)
  show ?thesis
  proof (cases "p_flags (procs s d) = RECEIVING \<and> (p_recvfrom (procs s d) = int c \<or> p_recvfrom (procs s d) = ANY)")
    case True
    with send_deliver_ok [OF inv assms(2-5) _ assms(6)] start fr inv assms(3) show ?thesis
      by (auto simp: a refines_def ipc_inv_def status_of_def fun_eq_iff)
  next
    case False
    from assms(8) obtain r where "runnable s r" "r \<noteq> c" "0 < priority (procs s r)" by blast
    moreover have "ipc_ok (procs s) Q" "acyclic (sends (procs s))" using inv by (simp_all add: ipc_inv_def)
    ultimately obtain s' where s': "send_enqueue c d m s = Inr s'" "ipc_ok (procs s') (Q(d := Q d @ [c]))"
      "sends (procs s') = insert (c, d) (sends (procs s))" "kmem s' = kmem s" "runnable s' (cur s')"
      "\<forall>i. status_of (procs s' i) = (if i = c then Sending d else status_of (procs s i))"
      using send_enqueue_ok [OF _ assms(2-4) assms(5) [symmetric] False assms(6)] by blast
    with \<open>acyclic (sends (procs s))\<close> have "ipc_inv s' (Q(d := Q d @ [c]))"
      using assms(5,7) by (auto simp: ipc_inv_def acyclic_insert rtrancl_eq_or_trancl)
    with s' False show ?thesis
      using start fr by (auto simp: a refines_def fun_eq_iff)
  qed
qed

section \<open>Receiving\<close>

lemma receive_select_some:
  assumes inv: "ipc_inv s Q" and c: "c < nr_proc_table" "p_flags (procs s c) = 0" "p_msg (procs s c) = 0"
    and pick: "a_pick src (Q c) = Some f"
  shows "\<exists>xs ys. Q c = xs @ f # ys \<and> f \<notin> set xs
    \<and> receive_select c src s = Inr (Some (f, if xs = [] then None else Some (last xs)))"
proof -
  have ok: "ipc_ok (procs s) Q" using inv by (simp add: ipc_inv_def)
  note okc = ipc_okD [OF ok c(1)]
  have ch: "chain (next_of (procs s)) (q_sending (procs s c)) (Q c)" using okc(2) by (simp add: queue_ok_def)
  have "f \<in> set (Q c)" using pick by (auto simp: a_pick_def split: if_splits list.splits)
  then have f: "sending_to (procs s) f c" using queue_member [OF ok c(1)] by simp
  then have "f < nr_proc_table" by (simp add: sending_to_def)
  note pf = ipc_okD(1) [OF ok this]
  have q: "q_sending (procs s c) \<noteq> None" using ch \<open>f \<in> set (Q c)\<close> by (cases "Q c") auto
  show ?thesis
  proof (cases "src = ANY")
    case True
    then obtain ys where "Q c = f # ys" using pick by (auto simp: a_pick_def split: list.splits)
    with ch f True pf okc(1) c show ?thesis
      by (intro exI [of _ "[]"] exI [of _ ys])
        (auto simp: receive_select_def sending_to_def proc_ok_def)
  next
    case False
    then have src: "valid_pid src" "f = nat src" using pick by (auto simp: a_pick_def split: if_splits)
    obtain xs ys where Q: "Q c = xs @ f # ys" "f \<notin> set xs"
      using \<open>f \<in> set (Q c)\<close> by (meson split_list_first)
    with ch have "queue_prev (procs s) f None (q_sending (procs s c)) = Some (if xs = [] then None else Some (last xs))"
      using queue_prev_chain [of "procs s" "q_sending (procs s c)" xs f ys None] by simp
    with False src q f pf okc(1) c Q show ?thesis
      by (intro exI [of _ xs] exI [of _ ys])
        (auto simp: receive_select_def sending_to_def proc_ok_def Let_def)
  qed
qed

lemma receive_select_none:
  assumes inv: "ipc_inv s Q" and c: "c < nr_proc_table" and pick: "a_pick src (Q c) = None"
  shows "receive_select c src s = Inr None"
proof -
  have ok: "ipc_ok (procs s) Q" using inv by (simp add: ipc_inv_def)
  show ?thesis
  proof (cases "src = ANY")
    case True
    then have "Q c = []" using pick by (auto simp: a_pick_def split: list.splits)
    with True ipc_okD(2) [OF ok c] show ?thesis
      by (simp add: receive_select_def queue_ok_def)
  next
    case False
    have "\<not> sending_to (procs s) (nat src) c" if "valid_pid src"
      using that False pick queue_member [OF ok c] by (simp add: a_pick_def split: if_splits)
    moreover have "p_flags (procs s (nat src)) AND SENDING \<noteq> 0 \<longleftrightarrow> p_flags (procs s (nat src)) = SENDING"
      "nat src < nr_proc_table" if "valid_pid src"
      using that ok flags_sending_iff by (auto simp: ipc_ok_def valid_pid_def nat_less_iff)
    ultimately show ?thesis using False by (auto simp: receive_select_def sending_to_def Let_def)
  qed
qed

lemma receive_take_ok:
  assumes inv: "ipc_inv s Q" and c: "c < nr_proc_table" "p_flags (procs s c) = 0" and m: "m \<noteq> 0"
    and Q: "Q c = xs @ f # ys" "f \<notin> set xs"
  shows "\<exists>s'. receive_take c f (if xs = [] then None else Some (last xs)) m s = Inr s'
    \<and> ipc_inv s' (Q(c := xs @ ys))
    \<and> kmem s' = kmemcpy (lin s f (p_msg (procs s f))) (lin s c m) sizeof_MESSAGE (kmem s)
    \<and> (\<forall>i. status_of (procs s' i) = (if i = f then Running else status_of (procs s i)))
    \<and> cur s' = cur s"
proof -
  have ok: "ipc_ok (procs s) Q" and acyc: "acyclic (sends (procs s))" using inv by (auto simp: ipc_inv_def)
  have f: "sending_to (procs s) f c" using queue_member [OF ok c(1), of f] Q by simp
  then have fn: "f < nr_proc_table" and fc: "f \<noteq> c" using c(2) by (auto simp: sending_to_def)
  note pf = ipc_okD(1) [OF ok fn]
  have ch: "chain (next_of (procs s)) (q_sending (procs s c)) (xs @ f # ys)"
    using ipc_okD(2) [OF ok c(1)] Q by (simp add: queue_ok_def)
  have head: "xs \<noteq> [] \<Longrightarrow> q_sending (procs s c) = Some (hd xs)" "xs \<noteq> [] \<Longrightarrow> last xs \<noteq> f"
    "xs \<noteq> [] \<Longrightarrow> hd xs \<noteq> f" "xs = [] \<Longrightarrow> q_sending (procs s c) = Some f"
    using ch Q(2) by (cases xs; auto)+
  define s1 where "s1 = upd_proc f (\<lambda>p. p\<lparr>next_sending := None\<rparr>)
    (if xs = [] then upd_proc c (\<lambda>p. p\<lparr>q_sending := next_sending (procs s f)\<rparr>) s
     else upd_proc (last xs) (\<lambda>p. p\<lparr>next_sending := next_sending (procs s f)\<rparr>) s)"
  have unlink: "receive_unlink c f (if xs = [] then None else Some (last xs)) s = Inr s1"
    using head by (auto simp: receive_unlink_def s1_def Let_def)
  define s2 where "s2 = upd_proc f (\<lambda>p. p\<lparr>p_msg := 0, p_sendto := NO_TASK, p_flags := 0\<rparr>)
    (s1\<lparr>kmem := kmemcpy (lin s f (p_msg (procs s f))) (lin s c m) sizeof_MESSAGE (kmem s)\<rparr>)"
  have s1f: "p_flags (procs s1 i) = p_flags (procs s i)" "p_msg (procs s1 i) = p_msg (procs s i)"
    "p_sendto (procs s1 i) = p_sendto (procs s i)" "p_recvfrom (procs s1 i) = p_recvfrom (procs s i)"
    "ldts (procs s1 i) = ldts (procs s i)" "kmem s1 = kmem s" "cur s1 = cur s" for i
    by (auto simp: s1_def)
  have take: "receive_take c f (if xs = [] then None else Some (last xs)) m s = Inr s2"
    using m f fn c(1) pf
    by (simp add: receive_take_def unlink s1f ldt_proc_id2base_valid lin_def unblock_def s2_def
        upd_proc_def sending_to_def proc_ok_def Let_def)
  have fields: "p_flags (procs s2 i) = (if i = f then 0 else p_flags (procs s i))"
    "p_sendto (procs s2 i) = (if i = f then NO_TASK else p_sendto (procs s i))"
    "i \<noteq> f \<Longrightarrow> p_msg (procs s2 i) = p_msg (procs s i)"
    "p_recvfrom (procs s2 i) = p_recvfrom (procs s i)"
    "q_sending (procs s2 i) = (if i = c \<and> xs = [] then next_sending (procs s f) else q_sending (procs s i))" for i
    using fc by (auto simp: s2_def s1_def)
  have next2: "next_of (procs s2) = (if xs = [] then (next_of (procs s))(f := None)
      else (next_of (procs s))(last xs := next_sending (procs s f), f := None))"
    using head by (auto simp: s2_def s1_def fun_eq_iff)
  have "ipc_ok (procs s2) (Q(c := xs @ ys))"
    by (rule ipc_ok_dequeue [OF ok c(1) Q(1) fields next2])
  moreover have "sends (procs s2) \<subseteq> sends (procs s)"
    by (auto simp: sends_def fields split: if_splits)
  ultimately have "ipc_inv s2 (Q(c := xs @ ys))"
    using acyc by (auto simp: ipc_inv_def intro: acyclic_subset)
  moreover have "status_of (procs s2 i) = (if i = f then Running else status_of (procs s i))" for i
    by (simp add: status_of_def fields)
  moreover have "kmem s2 = kmemcpy (lin s f (p_msg (procs s f))) (lin s c m) sizeof_MESSAGE (kmem s)" "cur s2 = cur s"
    by (simp_all add: s2_def s1f)
  ultimately show ?thesis using take by blast
qed

lemma receive_block_ok:
  assumes inv: "ipc_inv s Q" and c: "c < nr_proc_table" "p_flags (procs s c) = 0" "\<not> has_int_msg (procs s c)"
    and m: "m \<noteq> 0"
    and src: "src = ANY \<or> src = INTERRUPT \<or> valid_pid src" "a_pick src (Q c) = None"
    and other: "runnable s r" "r \<noteq> c" "0 < priority (procs s r)"
  shows "\<exists>s'. receive_block c src m s = Inr s' \<and> ipc_inv s' Q \<and> kmem s' = kmem s
    \<and> (\<forall>i. status_of (procs s' i) = (if i = c then Receiving src else status_of (procs s i)))
    \<and> runnable s' (cur s')"
proof -
  have ok: "ipc_ok (procs s) Q" and acyc: "acyclic (sends (procs s))" using inv by (auto simp: ipc_inv_def)
  note pc = ipc_okD(1) [OF ok c(1)]
  define s1 where "s1 = upd_proc c (\<lambda>p. p\<lparr>p_flags := RECEIVING, p_msg := m, p_recvfrom := src\<rparr>) s"
  have fields: "p_flags (procs s1 i) = (if i = c then RECEIVING else p_flags (procs s i))"
    "p_recvfrom (procs s1 i) = (if i = c then src else p_recvfrom (procs s i))"
    "p_sendto (procs s1 i) = p_sendto (procs s i)"
    "p_msg (procs s1 i) = (if i = c then m else p_msg (procs s i))"
    "q_sending (procs s1 i) = q_sending (procs s i)"
    "next_sending (procs s1 i) = next_sending (procs s i)"
    "priority (procs s1 i) = priority (procs s i)" "has_int_msg (procs s1 i) = has_int_msg (procs s i)"
    "kmem s1 = kmem s" for i
    by (auto simp: s1_def)
  have "src = ANY \<and> Q c = [] \<or> src = INTERRUPT \<or> (\<exists>i < nr_proc_table. src = int i \<and> i \<notin> set (Q c))"
    using src by (auto simp: a_pick_def valid_pid_def zless_iff_Suc_zadd nat_less_iff
        intro!: exI [of _ "nat src"] split: if_splits list.splits)
  from ipc_ok_wait [OF ok c(1,2) m this fields(1-6)] have "ipc_ok (procs s1) Q" .
  moreover have "sends (procs s1) = sends (procs s)"
    using c by (auto simp: sends_def fields split: if_splits)
  ultimately have inv1: "ipc_inv s1 Q" using acyc by (simp add: ipc_inv_def)
  have "runnable s1 r" "0 < priority (procs s1 r)" using other by (auto simp: runnable_def fields)
  from rr.returns [OF this] obtain s' where s': "schedule s1 = Some s'" by blast
  have src': "src \<noteq> NO_TASK" using src by auto
  have u: "upd_proc c (\<lambda>p. p\<lparr>p_msg := m, p_recvfrom := src\<rparr>)
      (upd_proc c (\<lambda>p. p\<lparr>p_flags := p_flags p OR RECEIVING\<rparr>) s) = s1"
    using c(2) by (simp add: s1_def upd_proc_def)
  have "receive_block c src m s = Inr s'"
    using c pc m s' src' unfolding receive_block_def Let_def u
    by (simp add: block_def rr.frame_fields fields proc_ok_def u)
  moreover have "status_of (procs s' i) = (if i = c then Receiving src else status_of (procs s i))" for i
    by (simp add: status_of_def rr.frame_fields [OF s'] fields)
  ultimately show ?thesis
    using rr.keeps_ipc_inv [OF s'] inv1 rr.frame_fields(11) [OF s'] fields(9) rr.picks [OF s'] by auto
qed

text \<open>
  A receive of a running process without a pending interrupt message succeeds, fails no
  assertion, and performs the abstract step: it takes the message of the first sender in the queue
  (of the named sender, from any place of the queue) and wakes that sender up, or blocks the caller
  when there is none. The 96 bytes of the message go to the buffer of the receiver, the order of the
  remaining senders is kept.
\<close>

lemma msg_receive_refines:
  assumes "refines s a" and "c < nr_proc_table" "p_flags (procs s c) = 0"
    and "\<not> has_int_msg (procs s c)" "p_msg (procs s c) = 0" and "m \<noteq> 0"
    and "src = ANY \<or> src = INTERRUPT \<or> valid_pid src" "src \<noteq> int c"
    and "\<exists>r. runnable s r \<and> r \<noteq> c \<and> 0 < priority (procs s r)"
  shows "\<exists>s'. msg_receive c src m s = Inr s' \<and> refines s' (a_receive c src a)
    \<and> (case a_pick src (snd a c) of
         Some f \<Rightarrow> kmem s' = kmemcpy (lin s f (p_msg (procs s f))) (lin s c m) sizeof_MESSAGE (kmem s) \<and> cur s' = cur s
       | None \<Rightarrow> kmem s' = kmem s \<and> runnable s' (cur s'))"
proof -
  obtain Q where a: "a = (\<lambda>p. status_of (procs s p), Q)" and inv: "ipc_inv s Q"
    using assms(1) by (cases a) (auto simp: refines_def)
  show ?thesis
  proof (cases "a_pick src (Q c)")
    case None
    from assms(9) obtain r where "runnable s r" "r \<noteq> c" "0 < priority (procs s r)" by blast
    from receive_block_ok [OF inv assms(2,3,4,6,7) None this] receive_select_none [OF inv assms(2) None]
    show ?thesis using assms(4,8) None by (auto simp: msg_receive_def a refines_def fun_eq_iff)
  next
    case (Some f)
    from receive_select_some [OF inv assms(2,3,5) Some] obtain xs ys where
      Q: "Q c = xs @ f # ys" "f \<notin> set xs"
      and sel: "receive_select c src s = Inr (Some (f, if xs = [] then None else Some (last xs)))" by blast
    have "remove1 f (Q c) = xs @ ys" using Q by (simp add: remove1_append)
    with receive_take_ok [OF inv assms(2,3,6) Q] sel Some show ?thesis
      using assms(4,8) by (auto simp: msg_receive_def a refines_def fun_eq_iff)
  qed
qed

text \<open>A cycle of senders is found and reported through \<open>panic\<close>.\<close>

lemma msg_send_cycle:
  assumes "ipc_inv s Q" and "d < nr_proc_table" "c \<noteq> d" and "(d, c) \<in> (sends (procs s))\<^sup>+"
  shows "\<exists>log msg. msg_send c (int d) m s = ebind (panic msg (s\<lparr>klog := log\<rparr>)) (send_enqueue c d m)"
proof -
  have "p_flags (procs s d) AND SENDING \<noteq> 0"
    using assms(4) by (auto elim!: converse_tranclE simp: sends_def)
  then have "p_flags (procs s d) AND RECEIVING = 0"
    using assms(1,2) flags_sending_iff by (auto simp: ipc_inv_def ipc_ok_def)
  moreover from deadlock_found [OF assms(1,2,4)] obtain log where "deadlock c d s = Inr (True, s\<lparr>klog := log\<rparr>)" ..
  ultimately show ?thesis
    using assms(2,3) by (auto simp: msg_send_def Let_def panic_def intro!: exI)
qed

text \<open>
  C33: a send that closes a cycle of senders is always detected; when the current process is a
  task, the machine halts with the report instead of entering the deadlock.
\<close>

theorem msg_send_deadlock_halts:
  assumes "ipc_inv s Q" and "d < nr_proc_table" "c \<noteq> d" and "(d, c) \<in> (sends (procs s))\<^sup>+"
    and "proc_type (procs s (cur s)) = PROC_TYPE_TASK"
  shows "\<exists>msg. msg_send c (int d) m s = Inl (Halted msg)"
  using msg_send_cycle [OF assms(1-4)] assms(5) by (auto simp: panic_def)


section \<open>Interrupt messages, and what a receive that returns has done\<close>

text \<open>A pending interrupt message: the receive returns at once and clears the pending flag.\<close>

lemma receive_int_ok:
  assumes "refines s a" and "c < nr_proc_table" "p_flags (procs s c) = 0"
  shows "\<exists>s'. receive_int c m s = Inr s' \<and> refines s' a \<and> cur s' = cur s
    \<and> kmem s' = kmemcpy (lin s c (p_msg (procs s c))) (lin s c m) sizeof_MESSAGE (kmem s)
    \<and> \<not> has_int_msg (procs s' c) \<and> p_msg (procs s' c) = 0"
proof -
  obtain Q where a: "a = (\<lambda>p. status_of (procs s p), Q)" and inv: "ipc_inv s Q"
    using assms(1) by (cases a) (auto simp: refines_def)
  then have ok: "ipc_ok (procs s) Q" and acyc: "acyclic (sends (procs s))" by (auto simp: ipc_inv_def)
  note pc = ipc_okD(1) [OF ok assms(2)]
  define ps' where "ps' = (procs s)(c := procs s c\<lparr>has_int_msg := False, p_msg := 0\<rparr>)"
  have "ipc_ok ps' Q"
    by (rule ipc_ok_wake [OF ok, of c]) (use assms pc in \<open>auto simp: ps'_def proc_ok_def\<close>)
  moreover have "sends ps' = sends (procs s)"
    by (auto simp: sends_def ps'_def fun_upd_def split: if_splits)
  moreover have "receive_int c m s = Inr (s\<lparr>procs := ps',
      kmem := kmemcpy (lin s c (p_msg (procs s c))) (lin s c m) sizeof_MESSAGE (kmem s)\<rparr>)"
    using assms pc
    by (simp add: receive_int_def ldt_proc_id2base_valid lin_def ps'_def upd_proc_def proc_ok_def Let_def)
  moreover have "status_of (ps' p) = status_of (procs s p)" for p
    by (simp add: status_of_def ps'_def)
  ultimately show ?thesis
    using acyc by (auto simp: refines_def ipc_inv_def a ps'_def)
qed

lemma receive_select_pmsg: "receive_select c src s = Inr (Some x) \<Longrightarrow> p_msg (procs s c) = 0"
  by (auto simp: receive_select_def Let_def ebind_Inr_iff asserts_Inr_iff split: if_splits option.splits)

lemma receive_select_NoneD:
  assumes "receive_select c src s = Inr None" and inv: "ipc_inv s Q" and c: "c < nr_proc_table"
  shows "a_pick src (Q c) = None"
proof (rule ccontr)
  assume "a_pick src (Q c) \<noteq> None"
  then obtain f where pick: "a_pick src (Q c) = Some f" by blast
  have ok: "ipc_ok (procs s) Q" using inv by (simp add: ipc_inv_def)
  have f: "f \<in> set (Q c)" "src = ANY \<or> valid_pid src \<and> f = nat src"
    using pick by (auto simp: a_pick_def split: if_splits list.splits)
  then have "sending_to (procs s) f c" using queue_member [OF ok c] by simp
  moreover have "q_sending (procs s c) \<noteq> None"
    using ipc_okD(2) [OF ok c] f(1) by (cases "Q c") (auto simp: queue_ok_def)
  ultimately show False
    using assms(1) f(2)
    by (auto simp: receive_select_def Let_def ebind_Inr_iff sending_to_def split: if_splits option.splits)
qed

lemma receive_block_int: "receive_block c src m s = Inr s' \<Longrightarrow> \<not> has_int_msg (procs s c)"
  by (auto simp: receive_block_def Let_def ebind_Inr_iff asserts_Inr_iff block_def rr.frame_fields
      simp del: asserts.simps)

lemma msg_receive_returns:
  assumes "msg_receive c src m s = Inr s'" and "refines s a" and "c < nr_proc_table" "p_flags (procs s c) = 0"
    and "m \<noteq> 0" and "src = ANY \<or> src = INTERRUPT \<or> valid_pid src"
    and "\<exists>r. runnable s r \<and> r \<noteq> c \<and> 0 < priority (procs s r)"
  shows "refines s' a \<and> cur s' = cur s \<or> refines s' (a_receive c src a) \<and> (cur s' = cur s \<and> a_pick src (snd a c) \<noteq> None \<or> runnable s' (cur s'))"
proof -
  obtain Q where a: "a = (\<lambda>p. status_of (procs s p), Q)" and inv: "ipc_inv s Q"
    using assms(2) by (cases a) (auto simp: refines_def)
  have src: "src \<noteq> int c" using assms(1) by (auto simp: msg_receive_def)
  show ?thesis
  proof (cases "has_int_msg (procs s c) \<and> (src = ANY \<or> src = INTERRUPT)")
    case True
    with receive_int_ok [OF assms(2-4), of m] assms(1) src show ?thesis
      by (auto simp: msg_receive_def)
  next
    case False
    then obtain sel where sel: "receive_select c src s = Inr sel"
      "case sel of Some (f, prev) \<Rightarrow> receive_take c f prev m s = Inr s' | None \<Rightarrow> receive_block c src m s = Inr s'"
      using assms(1) src by (auto simp: msg_receive_def ebind_Inr_iff split: option.splits)
    show ?thesis
    proof (cases sel)
      case None
      with sel have pick: "a_pick src (Q c) = None" "\<not> has_int_msg (procs s c)"
        using receive_select_NoneD [OF _ inv assms(3)] receive_block_int by auto
      from assms(7) obtain r where "runnable s r" "r \<noteq> c" "0 < priority (procs s r)" by blast
      from receive_block_ok [OF inv assms(3,4) pick(2) assms(5,6) pick(1) this] sel None pick
      show ?thesis by (auto simp: a refines_def fun_eq_iff)
    next
      case (Some x)
      with sel receive_select_pmsg have pm: "p_msg (procs s c) = 0" by blast
      obtain f where pick: "a_pick src (Q c) = Some f"
        using Some sel(1) receive_select_none [OF inv assms(3)] by fastforce
      from receive_select_some [OF inv assms(3,4) pm pick] obtain xs ys where
        Q: "Q c = xs @ f # ys" "f \<notin> set xs" "x = (f, if xs = [] then None else Some (last xs))"
        using sel(1) Some by auto
      have "remove1 f (Q c) = xs @ ys" using Q by (simp add: remove1_append)
      with receive_take_ok [OF inv assms(3,4,5) Q(1,2)] sel Some Q(3) pick
      show ?thesis by (auto simp: a refines_def fun_eq_iff)
    qed
  qed
qed

end
