(* ===== verification/System_Calls.thy ===== *)
theory System_Calls
  imports Ipc_Refine
begin

text \<open>
  The system calls of \<^verbatim>\<open>kernel/system_calls.c\<close> that message passing is built on, the wrappers
  \<open>inform_int\<close> and \<open>send_recv\<close> of \<^verbatim>\<open>kernel/ipc.c\<close>, and the kernel as a transition system whose steps
  are the clock interrupt, \<open>sys_sendrec\<close> and \<open>sys_sendint\<close>. (\<open>sys_write\<close> and \<open>sys_printx\<close> are in the
  theory of the terminal.) A pointer that the kernel dereferences itself is a linear address: the
  kernel data segment is flat.
\<close>

section \<open>The calls\<close>

definition sys_get_ticks :: "kstate \<Rightarrow> int" where
  "sys_get_ticks s = ticks s"

definition sys_sendint :: "int \<Rightarrow> nat \<Rightarrow> u32 \<Rightarrow> kstate \<Rightarrow> fault + kstate" where
  "sys_sendint dest p msg s =
     ebind (asserts ''system_calls.c''
       [(24, 0 < k_reenter s), (25, valid_pid dest),
        (26, sint (load32 (kmem s) (msg + msg_source)) = INTERRUPT)]) (\<lambda>_.
     let d = nat dest in
     if p_flags (procs s d) AND RECEIVING \<noteq> 0
        \<and> (p_recvfrom (procs s d) = INTERRUPT \<or> p_recvfrom (procs s d) = ANY) then
       let s = upd_proc d (\<lambda>p. p\<lparr>has_int_msg := False\<rparr>) s in
       ebind (ldt_proc_id2base (int p) s) (\<lambda>sbase.
       ebind (ldt_proc_id2base dest s) (\<lambda>dbase.
         let s = s\<lparr>kmem := kmemcpy (vir2linear sbase msg) (vir2linear dbase (p_msg (procs s d)))
                     sizeof_MESSAGE (kmem s)\<rparr>;
             s = upd_proc d (\<lambda>p. p\<lparr>p_flags := p_flags p AND NOT RECEIVING, p_recvfrom := NO_TASK\<rparr>) s
         in ebind (unblock d s) (\<lambda>_.
            ebind (asserts ''system_calls.c''
              [(40, p_flags (procs s d) = 0), (41, p_recvfrom (procs s d) = NO_TASK),
               (42, p_sendto (procs s d) = NO_TASK)])
            (\<lambda>_. Inr s))))
     else Inr (upd_proc d (\<lambda>p. p\<lparr>has_int_msg := True\<rparr>) s))"

definition sys_sendrec :: "int \<Rightarrow> int \<Rightarrow> nat \<Rightarrow> u32 \<Rightarrow> kstate \<Rightarrow> fault + kstate" where
  "sys_sendrec function src_dest p msg s =
     ebind (asserts ''system_calls.c''
       [(53, k_reenter s = 0), (54, valid_pid src_dest \<or> src_dest = ANY \<or> src_dest = INTERRUPT)]) (\<lambda>_.
     ebind (ldt_proc_id2base (int p) s) (\<lambda>base.
     let mla = vir2linear base msg;
         s = s\<lparr>kmem := store32 (mla + msg_source) (of_nat p) (kmem s)\<rparr> in
     ebind (asserts ''system_calls.c''
       [(61, sint (load32 (kmem s) (mla + msg_source)) \<noteq> src_dest)]) (\<lambda>_.
     if function = SEND then msg_send p src_dest msg s
     else if function = RECEIVE then msg_receive p src_dest msg s
     else panic (ascii ''{sys_sendrec} invalid function'') s)))"

text \<open>
  \<open>inform_int\<close> runs in an interrupt handler: it builds the message on the kernel stack at \<open>frame\<close>
  and calls \<open>sys_sendint\<close> through the gate, on behalf of the process that was interrupted.
\<close>

definition inform_int :: "u32 \<Rightarrow> int \<Rightarrow> kstate \<Rightarrow> fault + kstate" where
  "inform_int frame dest s =
     (let m = store32 (frame + msg_source) (word_of_int INTERRUPT) (kmem s);
          m = store32 (frame + msg_type) HARD_INT m
      in sys_sendint dest (cur s) frame (s\<lparr>kmem := m\<rparr>))"

text \<open>
  The system calls that \<open>send_recv\<close> makes, one after the other; the second only runs when the first
  has returned. The last component says whether the buffer is cleared first.
\<close>

definition send_recv :: "int \<Rightarrow> int \<Rightarrow> u32 \<Rightarrow> fault + ((int \<times> int \<times> u32) list \<times> bool)" where
  "send_recv function src_dest msg =
     (if function = BOTH then Inr ([(SEND, src_dest, msg), (RECEIVE, src_dest, msg)], False)
      else if function = SEND \<or> function = RECEIVE
        then Inr ([(function, src_dest, msg)], function = RECEIVE)
      else Inl (Assertion ''ipc.c'' 100))"

section \<open>Correctness of the calls\<close>

lemma sint_of_pid: "p < nr_proc_table \<Longrightarrow> sint (of_nat p :: u32) = int p"
  by (simp add: proc_consts signed_of_nat signed_take_bit_int_eq_self)

lemma sint_interrupt: "sint (word_of_int INTERRUPT :: u32) = INTERRUPT"
  by (simp add: INTERRUPT_def)

text \<open>The source field of the caller's buffer, as \<open>sys_sendrec\<close> fills it in.\<close>

definition stamped :: "nat \<Rightarrow> u32 \<Rightarrow> kstate \<Rightarrow> kstate" where
  "stamped p msg s = s\<lparr>kmem := store32 (lin s p msg + msg_source) (of_nat p) (kmem s)\<rparr>"

lemma stamped_simps [simp]:
  "procs (stamped p msg s) = procs s" "cur (stamped p msg s) = cur s" "k_reenter (stamped p msg s) = k_reenter s"
  "lin (stamped p msg s) = lin s" "runnable (stamped p msg s) = runnable s"
  "refines (stamped p msg s) a = refines s a" "ipc_inv (stamped p msg s) Q = ipc_inv s Q"
  "kmem (stamped p msg s) = store32 (lin s p msg + msg_source) (of_nat p) (kmem s)"
  by (auto simp: stamped_def lin_def runnable_def refines_def ipc_inv_def fun_eq_iff)

lemma sys_sendrec_start:
  assumes "k_reenter s = 0" "p < nr_proc_table" "src_dest \<noteq> int p"
    "valid_pid src_dest \<or> src_dest = ANY \<or> src_dest = INTERRUPT"
  shows "sys_sendrec f src_dest p msg s =
    (if f = SEND then msg_send p src_dest msg (stamped p msg s)
     else if f = RECEIVE then msg_receive p src_dest msg (stamped p msg s)
     else panic (ascii ''{sys_sendrec} invalid function'') (stamped p msg s))"
  using assms
  by (simp add: sys_sendrec_def ldt_proc_id2base_valid load32_store32 sint_of_pid stamped_def lin_def)

text \<open>What no message operation changes: the fields that the boot code sets up.\<close>

definition static :: "kstate \<Rightarrow> nat \<Rightarrow> int \<times> int \<times> (nat \<Rightarrow> descriptor) \<times> u8 list \<times> u32" where
  "static s p = (priority (procs s p), proc_type (procs s p), ldts (procs s p), pname (procs s p), nr_tty (procs s p))"

definition same_static :: "kstate \<Rightarrow> kstate \<Rightarrow> bool" where
  "same_static s s' \<longleftrightarrow> static s' = static s \<and> k_reenter s' = k_reenter s"

lemma same_static_trans [trans]: "same_static s t \<Longrightarrow> same_static t u \<Longrightarrow> same_static s u"
  by (simp add: same_static_def)

lemma same_static_upd [simp]:
  assumes "\<And>p. priority (f p) = priority p" "\<And>p. proc_type (f p) = proc_type p" "\<And>p. ldts (f p) = ldts p"
    "\<And>p. pname (f p) = pname p" "\<And>p. nr_tty (f p) = nr_tty p"
  shows "same_static t (upd_proc q f s) \<longleftrightarrow> same_static t s"
proof -
  have "static (upd_proc q f s) = static s"
    using assms by (auto simp: static_def fun_eq_iff)
  then show ?thesis by (simp add: same_static_def)
qed

lemma same_static_simps [simp]:
  "same_static s s"
  "same_static s (s'\<lparr>kmem := m\<rparr>) = same_static s s'"
  "same_static s (s'\<lparr>klog := l\<rparr>) = same_static s s'"
  "same_static s (printf w s') = same_static s s'"
  by (simp_all add: same_static_def static_def [abs_def] printf_def)

lemma schedule_static: "schedule s = Some s' \<Longrightarrow> same_static s s'"
  by (drule schedule_frame) (auto simp: same_static_def static_def sched_frame_def fun_eq_iff)

lemma block_static: "block p s = Inr s' \<Longrightarrow> same_static s s'"
  by (auto simp: block_def ebind_Inr_iff intro: schedule_static)

lemma ldt_base_ok: "ldt_proc_id2base p s = Inr b \<Longrightarrow> valid_pid p"
  by (auto simp: ldt_proc_id2base_def ebind_Inr_iff split: if_splits)

lemma send_append_static: "send_append c d s = Inr s' \<Longrightarrow> same_static t s \<Longrightarrow> same_static t s'"
  by (auto simp: send_append_def ebind_Inr_iff split: option.splits)

lemma send_enqueue_static:
  assumes "send_enqueue c d m s = Inr s'"
  shows "same_static s s'"
proof -
  from assms obtain t where "send_append c d (upd_proc c (\<lambda>p. p\<lparr>p_sendto := int d, p_msg := m\<rparr>)
      (upd_proc c (\<lambda>p. p\<lparr>p_flags := p_flags p OR SENDING\<rparr>) s)) = Inr t" "block c t = Inr s'"
    by (auto simp: send_enqueue_def Let_def ebind_Inr_iff)
  then show ?thesis
    using send_append_static [of c d _ t s] block_static same_static_trans by fastforce
qed

lemma msg_send_static:
  assumes "msg_send c d m s = Inr s'"
  shows "same_static s s'"
proof -
  have deliver: "same_static t s'" if "send_deliver c e m t = Inr s'" for e t
    using that by (auto simp: send_deliver_def Let_def ebind_Inr_iff)
  have dl: "same_static s t" if "deadlock c e s = Inr (b, t)" for e b t
    using that by (auto simp: deadlock_def ebind_Inr_iff split: if_splits)
  from assms obtain b t u where "deadlock c (nat d) s = Inr (b, t)" "u = t \<or> panic (ascii ''>>DEADLOCK<< ''
        @ pname (procs t c) @ ascii ''->'' @ pname (procs t (nat d))) t = Inr u"
    "send_deliver c (nat d) m u = Inr s' \<or> send_enqueue c (nat d) m u = Inr s'"
    by (auto simp: msg_send_def Let_def ebind_Inr_iff split: if_splits prod.splits)
  then have "same_static s t" "same_static t u" "same_static u s'"
    using dl deliver send_enqueue_static by (auto dest!: panic_cases)
  then show ?thesis by (blast intro: same_static_trans)
qed

lemma msg_receive_static:
  assumes "msg_receive c src m s = Inr s'"
  shows "same_static s s'"
proof -
  have int: "same_static s s'" if "receive_int c m s = Inr s'"
    using that by (auto simp: receive_int_def Let_def ebind_Inr_iff)
  have unlink: "same_static s t" if "receive_unlink c f prev s = Inr t" for f prev t
    using that by (auto simp: receive_unlink_def Let_def ebind_Inr_iff split: if_splits option.splits)
  have take: "same_static s s'" if "receive_take c f prev m s = Inr s'" for f prev
    using that by (auto simp: receive_take_def Let_def ebind_Inr_iff dest: unlink)
  have blk: "same_static s s'" if "receive_block c src m s = Inr s'"
    using that by (auto simp: receive_block_def Let_def ebind_Inr_iff dest!: block_static)
      (auto simp: same_static_def static_def fun_eq_iff)
  show ?thesis
    using assms int take blk by (auto simp: msg_receive_def ebind_Inr_iff split: if_splits option.splits)
qed

text \<open>The abstract step of an interrupt message.\<close>

fun a_interrupt :: "nat \<Rightarrow> astate \<Rightarrow> astate" where
  "a_interrupt d (st, Q) =
     (if st d = Receiving INTERRUPT \<or> st d = Receiving ANY then (st(d := Running), Q) else (st, Q))"

text \<open>
  An interrupt message never blocks and fails no assertion. It wakes up a process that waits for
  an interrupt or for anything, with a copy of the message in its buffer; otherwise it is recorded in
  the pending flag. Senders that are queued stay queued. A process that is woken up keeps its
  message pointer (unlike the other operations, \<open>sys_sendint\<close> does not clear \<open>p_msg\<close>).
\<close>

lemma sys_sendint_refines:
  assumes "refines s a" and "d < nr_proc_table" "p < nr_proc_table" and "0 < k_reenter s"
    and "load32 (kmem s) (msg + msg_source) = word_of_int INTERRUPT"
  shows "\<exists>s'. sys_sendint (int d) p msg s = Inr s' \<and> refines s' (a_interrupt d a) \<and> cur s' = cur s
    \<and> (if fst a d = Receiving INTERRUPT \<or> fst a d = Receiving ANY
       then kmem s' = kmemcpy (lin s p msg) (lin s d (p_msg (procs s d))) sizeof_MESSAGE (kmem s)
         \<and> \<not> has_int_msg (procs s' d) \<and> p_msg (procs s' d) = p_msg (procs s d) \<and> p_msg (procs s d) \<noteq> 0
       else kmem s' = kmem s \<and> has_int_msg (procs s' d))"
proof -
  obtain Q where a: "a = (\<lambda>p. status_of (procs s p), Q)" and inv: "ipc_inv s Q"
    using assms(1) by (cases a) (auto simp: refines_def)
  then have ok: "ipc_ok (procs s) Q" and acyc: "acyclic (sends (procs s))" by (auto simp: ipc_inv_def)
  note pd = ipc_okD(1) [OF ok assms(2)]
  have src: "sint (load32 (kmem s) (msg + msg_source)) = INTERRUPT"
    by (simp only: assms(5) sint_interrupt)
  define waits where "waits \<longleftrightarrow> p_flags (procs s d) = RECEIVING
      \<and> (p_recvfrom (procs s d) = INTERRUPT \<or> p_recvfrom (procs s d) = ANY)"
  show ?thesis
  proof (cases waits)
    case True
    define ps' where "ps' = (procs s)(d := procs s d\<lparr>has_int_msg := False, p_flags := 0, p_recvfrom := NO_TASK\<rparr>)"
    let ?s' = "s\<lparr>procs := ps',
      kmem := kmemcpy (lin s p msg) (lin s d (p_msg (procs s d))) sizeof_MESSAGE (kmem s)\<rparr>"
    have "sys_sendint (int d) p msg s = Inr ?s'"
      using True assms(2-4) pd src
      by (simp add: sys_sendint_def waits_def ldt_proc_id2base_valid lin_def ps'_def unblock_def
          upd_proc_def proc_ok_def Let_def)
    moreover have "ipc_ok ps' Q"
      by (rule ipc_ok_wake [OF ok, of d]) (use True pd in \<open>auto simp: ps'_def waits_def\<close>)
    moreover have "sends ps' = sends (procs s)"
      using True by (auto simp: sends_def ps'_def waits_def fun_upd_def split: if_splits)
    moreover have "status_of (ps' i) = (if i = d then Running else status_of (procs s i))" for i
      by (simp add: status_of_def ps'_def)
    ultimately show ?thesis
      using True acyc pd by (auto simp: refines_def ipc_inv_def a waits_def ps'_def fun_eq_iff proc_ok_def)
  next
    case False
    define ps' where "ps' = (procs s)(d := procs s d\<lparr>has_int_msg := True\<rparr>)"
    have "sys_sendint (int d) p msg s = Inr (s\<lparr>procs := ps'\<rparr>)"
      using False assms(2-4) flags_receiving_iff [OF pd] src
      by (auto simp: sys_sendint_def waits_def ps'_def upd_proc_def Let_def)
    moreover have f: "p_flags (ps' i) = p_flags (procs s i)" "p_msg (ps' i) = p_msg (procs s i)"
      "p_recvfrom (ps' i) = p_recvfrom (procs s i)" "p_sendto (ps' i) = p_sendto (procs s i)"
      "q_sending (ps' i) = q_sending (procs s i)" "next_sending (ps' i) = next_sending (procs s i)" for i
      by (simp_all add: ps'_def)
    moreover have "ipc_ok ps' Q" "sends ps' = sends (procs s)"
      using ok by (simp_all add: ipc_ok_def proc_ok_def queue_ok_def no_missed_def sending_to_def sends_def f)
    moreover have "status_of (ps' i) = status_of (procs s i)" for i
      by (simp add: status_of_def f)
    ultimately show ?thesis
      using False acyc by (auto simp: refines_def ipc_inv_def a waits_def ps'_def fun_eq_iff)
  qed
qed

section \<open>Sending and receiving through the system call\<close>

text \<open>
  C2: the system call for sending implements the abstract step. Sending to a process of the table
  that closes no cycle of senders fails no assertion. If the destination waits for the caller or for
  anything, it gets the message: its buffer holds the caller's process id as the source, and the
  bytes of the caller's message after it (when the two buffers do not overlap); otherwise
  the caller is queued last and a runnable process continues.
\<close>

theorem sys_sendrec_send:
  assumes "refines s a" and "k_reenter s = 0" and "c < nr_proc_table" "p_flags (procs s c) = 0"
    and "d < nr_proc_table" "c \<noteq> d" and "m \<noteq> 0" and "(d, c) \<notin> (sends (procs s))\<^sup>+"
    and "\<exists>r. runnable s r \<and> r \<noteq> c \<and> 0 < priority (procs s r)"
    and "disjoint_ranges (lin s c m) (lin s d (p_msg (procs s d))) 96"
  shows "\<exists>s'. sys_sendrec SEND (int d) c m s = Inr s' \<and> refines s' (a_send c d a)
    \<and> (if fst a d = Receiving (int c) \<or> fst a d = Receiving ANY
       then cur s' = cur s \<and> load32 (kmem s') (lin s d (p_msg (procs s d)) + msg_source) = of_nat c
         \<and> (\<forall>i \<in> {4..<96}. kmem s' (lin s d (p_msg (procs s d)) + of_nat i) = kmem s (lin s c m + of_nat i))
       else runnable s' (cur s'))"
proof -
  let ?sb = "lin s c m" and ?db = "lin s d (p_msg (procs s d))" and ?t = "stamped c m s"
  have "\<exists>r. runnable ?t r \<and> r \<noteq> c \<and> 0 < priority (procs ?t r)" using assms(9) by simp
  from msg_send_refines [of ?t a c d m] this assms obtain s' where s': "msg_send c (int d) m ?t = Inr s'"
    "refines s' (a_send c d a)"
    "if fst a d = Receiving (int c) \<or> fst a d = Receiving ANY
     then kmem s' = kmemcpy ?sb ?db sizeof_MESSAGE (store32 ?sb (of_nat c) (kmem s)) \<and> cur s' = cur s
     else runnable s' (cur s')" by (auto simp: msg_source_def split: if_splits)
  have "sys_sendrec SEND (int d) c m s = Inr s'"
    using assms(2,3,5,6) s'(1) by (simp add: sys_sendrec_start)
  moreover have "load32 (kmemcpy ?sb ?db sizeof_MESSAGE (store32 ?sb (of_nat c) (kmem s))) ?db = of_nat c"
    using assms(10) by (subst load32_kmemcpy) simp_all
  moreover have "kmemcpy ?sb ?db sizeof_MESSAGE (store32 ?sb (of_nat c) (kmem s)) (?db + of_nat i) = kmem s (?sb + of_nat i)"
    if "i \<in> {4..<96}" for i
    using that assms(10) by (subst kmemcpy_nth) (simp_all add: store32_other)
  ultimately show ?thesis
    using s'(2,3) by (auto simp: msg_source_def split: if_splits)
qed

text \<open>
  C3: the system call for receiving implements the abstract step. It takes the message of the first
  sender in the queue (of the named sender, from any place of the queue), copies it to the caller's
  buffer byte for byte and wakes that sender up, leaving the others in order; with no such
  sender the caller blocks and a runnable process continues. The buffers must not overlap, the
  caller must not have an unread interrupt message or a stale message pointer.
\<close>

theorem sys_sendrec_receive:
  assumes "refines s a" and "k_reenter s = 0" and "c < nr_proc_table" "p_flags (procs s c) = 0"
    and "\<not> has_int_msg (procs s c)" "p_msg (procs s c) = 0" and "m \<noteq> 0"
    and "src = ANY \<or> src = INTERRUPT \<or> valid_pid src" "src \<noteq> int c"
    and "\<exists>r. runnable s r \<and> r \<noteq> c \<and> 0 < priority (procs s r)"
    and "\<forall>f. a_pick src (snd a c) = Some f \<longrightarrow> disjoint_ranges (lin s c m) (lin s f (p_msg (procs s f))) 96"
  shows "\<exists>s'. sys_sendrec RECEIVE src c m s = Inr s' \<and> refines s' (a_receive c src a)
    \<and> (case a_pick src (snd a c) of
         Some f \<Rightarrow> cur s' = cur s
           \<and> (\<forall>i < 96. kmem s' (lin s c m + of_nat i) = kmem s (lin s f (p_msg (procs s f)) + of_nat i))
       | None \<Rightarrow> runnable s' (cur s'))"
proof -
  let ?t = "stamped c m s"
  have "\<exists>r. runnable ?t r \<and> r \<noteq> c \<and> 0 < priority (procs ?t r)" using assms(10) by simp
  from msg_receive_refines [of ?t a c m src] this assms obtain s' where s': "msg_receive c src m ?t = Inr s'"
    "refines s' (a_receive c src a)"
    "case a_pick src (snd a c) of
       Some f \<Rightarrow> kmem s' = kmemcpy (lin s f (p_msg (procs s f))) (lin s c m) sizeof_MESSAGE
           (store32 (lin s c m) (of_nat c) (kmem s)) \<and> cur s' = cur s
     | None \<Rightarrow> runnable s' (cur s')"
    by (auto simp: msg_source_def split: option.splits)
  have "sys_sendrec RECEIVE src c m s = Inr s'"
    using assms(2,3,8,9) s'(1) by (subst sys_sendrec_start) (auto simp: SEND_def RECEIVE_def)
  moreover have "kmemcpy sb db sizeof_MESSAGE (store32 db v mm) (db + of_nat i) = mm (sb + of_nat i)"
    if "disjoint_ranges db sb 96" "i < 96" for sb db v mm i
  proof -
    have "disjoint_ranges sb db 96" using that(1) by (auto simp: disjoint_ranges_def)
    then show ?thesis using that by (subst kmemcpy_nth) (simp_all add: store32_disjoint)
  qed
  ultimately show ?thesis
    using s'(2,3) assms(11) by (auto split: option.splits)
qed

section \<open>The kernel as a transition system\<close>

text \<open>
  A state between two entries into the kernel: \<open>k_reenter\<close> is 0 while an entry is handled. The steps
  are a clock interrupt, a \<open>SEND\<close> or \<open>RECEIVE\<close> of the running process, and an interrupt message that a
  device handler sends (one level deeper, so \<open>k_reenter\<close> is 1). The program's own limits are part of
  the rules: the terminal task makes no message calls, buffers are not null, a destination is a
  process of the table, and no user process sends into a cycle.
\<close>

inductive kernel_step :: "kstate \<Rightarrow> kstate \<Rightarrow> bool" where
  k_clock: "clock_handler s = Some s' \<Longrightarrow> kernel_step s s'"
| k_send: "\<lbrakk>cur s \<noteq> TASK_TTY; d < nr_proc_table; m \<noteq> 0; (d, cur s) \<notin> (sends (procs s))\<^sup>+;
     sys_sendrec SEND (int d) (cur s) m s = Inr s'\<rbrakk> \<Longrightarrow> kernel_step s s'"
| k_receive: "\<lbrakk>cur s \<noteq> TASK_TTY; m \<noteq> 0; sys_sendrec RECEIVE src (cur s) m s = Inr s'\<rbrakk> \<Longrightarrow> kernel_step s s'"
| k_interrupt: "inform_int frame (int d) (s\<lparr>k_reenter := 1\<rparr>) = Inr s' \<Longrightarrow> kernel_step s (s'\<lparr>k_reenter := 0\<rparr>)"

inductive_cases kernel_stepE: "kernel_step s s'"

definition kernel_inv :: "kstate \<Rightarrow> bool" where
  "kernel_inv s \<longleftrightarrow> (\<exists>a. refines s a) \<and> k_reenter s = 0 \<and> runnable s (cur s)
     \<and> runnable s TASK_TTY \<and> 0 < priority (procs s TASK_TTY)"

lemma refines_runnable:
  assumes "refines s a" "p < nr_proc_table"
  shows "runnable s p \<longleftrightarrow> fst a p = Running"
proof -
  have "proc_ok (procs s) p" using assms by (auto simp: refines_def ipc_inv_def ipc_ok_def)
  then show ?thesis using assms by (auto simp: refines_def runnable_def proc_ok_def)
qed

lemma same_static_priority: "same_static s s' \<Longrightarrow> priority (procs s' p) = priority (procs s p)"
  unfolding same_static_def by (metis static_def prod.inject)

lemma TASK_TTY_lt [simp]: "TASK_TTY < nr_proc_table"
  by (simp add: TASK_TTY_def proc_consts)

text \<open>How a step that implements an abstract step keeps the invariant.\<close>

lemma kernel_inv_step:
  assumes "kernel_inv s" "refines s a" "refines s' a'" "same_static s s'"
    and "fst a TASK_TTY = Running \<Longrightarrow> fst a' TASK_TTY = Running" and "runnable s' (cur s')"
  shows "kernel_inv s'"
  using assms refines_runnable [OF assms(2)] refines_runnable [OF assms(3)] same_static_priority [OF assms(4)]
  by (auto simp: kernel_inv_def same_static_def simp del: split_paired_Ex)

lemma schedule_inv:
  assumes "schedule t = Some s'" and "kernel_inv s"
    and t: "procs t = (\<lambda>p. procs s p\<lparr>p_ticks := tk p\<rparr>)" "k_reenter t = k_reenter s"
  shows "kernel_inv s'"
proof -
  obtain a where a: "refines s a" using assms(2) by (auto simp: kernel_inv_def)
  have "ipc_inv t (snd a)"
    using a by (simp add: refines_def ipc_inv_def ipc_ok_def proc_ok_def queue_ok_def no_missed_def
        sending_to_def sends_def t)
  then have "refines s' a"
    using a rr.keeps_ipc_inv [OF assms(1)]
    by (auto simp: refines_def status_of_def t rr.frame_fields [OF assms(1)] fun_eq_iff)
  moreover have "same_static s t" using t by (auto simp: same_static_def static_def fun_eq_iff)
  ultimately show ?thesis
    using kernel_inv_step [OF assms(2) a, of s' a] schedule_static [OF assms(1)] rr.picks [OF assms(1)]
    by (blast intro: same_static_trans)
qed

lemma sys_sendrec_pre:
  assumes "sys_sendrec f sd c m s = Inr s'" "c < nr_proc_table"
  shows "sd \<noteq> int c" "valid_pid sd \<or> sd = ANY \<or> sd = INTERRUPT"
  using assms by (auto simp: sys_sendrec_def ebind_Inr_iff asserts_Inr_iff ldt_proc_id2base_valid
      load32_store32 sint_of_pid Let_def simp del: asserts.simps)

lemma stamped_static [simp]: "same_static s (stamped c m s)"
  by (simp add: stamped_def)

lemma kernel_inv_send:
  assumes inv: "kernel_inv s" and c: "cur s \<noteq> TASK_TTY" and d: "d < nr_proc_table" and m: "m \<noteq> 0"
    and free: "(d, cur s) \<notin> (sends (procs s))\<^sup>+" and eq: "sys_sendrec SEND (int d) (cur s) m s = Inr s'"
  shows "kernel_inv s'"
proof -
  obtain a where a: "refines s a" using inv by (auto simp: kernel_inv_def)
  have cur: "cur s < nr_proc_table" "p_flags (procs s (cur s)) = 0" and k: "k_reenter s = 0"
    and other: "\<exists>r. runnable s r \<and> r \<noteq> cur s \<and> 0 < priority (procs s r)"
    using inv c by (auto simp: kernel_inv_def runnable_def intro!: exI [of _ TASK_TTY])
  have ne: "cur s \<noteq> d" using sys_sendrec_pre(1) [OF eq cur(1)] by simp
  let ?t = "stamped (cur s) m s"
  have "msg_send (cur s) (int d) m ?t = Inr s'"
    using eq sys_sendrec_start [OF k cur(1), of "int d"] ne d by simp
  with msg_send_refines [of ?t a "cur s" d m] a cur d ne m free other
  have r: "refines s' (a_send (cur s) d a)" and rc: "cur s' = cur s \<and> refines s' (fst (a_send (cur s) d a), snd a)
      \<and> fst (a_send (cur s) d a) = (fst a)(d := Running) \<or> runnable s' (cur s')"
    by (cases a; auto split: if_splits)+
  have st: "same_static s s'"
    using msg_send_static [OF \<open>msg_send (cur s) (int d) m ?t = Inr s'\<close>] stamped_static by (blast intro: same_static_trans)
  have "fst a (cur s) = Running" using refines_runnable [OF a cur(1)] inv by (simp add: kernel_inv_def)
  then have "runnable s' (cur s')"
    using rc ne cur(1) refines_runnable [of s' "(fst (a_send (cur s) d a), snd a)"] by auto
  with kernel_inv_step [OF inv a r st] c show ?thesis by (cases a) (auto split: if_splits)
qed

lemma kernel_inv_receive:
  assumes inv: "kernel_inv s" and c: "cur s \<noteq> TASK_TTY" and m: "m \<noteq> 0"
    and eq: "sys_sendrec RECEIVE src (cur s) m s = Inr s'"
  shows "kernel_inv s'"
proof -
  obtain a where a: "refines s a" using inv by (auto simp: kernel_inv_def)
  have cur: "cur s < nr_proc_table" "p_flags (procs s (cur s)) = 0" and k: "k_reenter s = 0"
    and other: "\<exists>r. runnable s r \<and> r \<noteq> cur s \<and> 0 < priority (procs s r)"
    using inv c by (auto simp: kernel_inv_def runnable_def intro!: exI [of _ TASK_TTY])
  note src = sys_sendrec_pre [OF eq cur(1)]
  let ?t = "stamped (cur s) m s"
  have rec: "msg_receive (cur s) src m ?t = Inr s'"
    using eq sys_sendrec_start [OF k cur(1) src] by (simp add: SEND_def RECEIVE_def)
  have st: "same_static s s'"
    using msg_receive_static [OF rec] stamped_static by (blast intro: same_static_trans)
  have run: "fst a (cur s) = Running" using refines_runnable [OF a cur(1)] inv by (simp add: kernel_inv_def)
  from msg_receive_returns [OF rec, of a] a cur m src(2) other
  consider "refines s' a" "cur s' = cur s"
    | f where "refines s' (a_receive (cur s) src a)" "a_pick src (snd a (cur s)) = Some f" "cur s' = cur s"
    | "refines s' (a_receive (cur s) src a)" "runnable s' (cur s')" by auto
  then show ?thesis
  proof cases
    case 1
    with kernel_inv_step [OF inv a 1(1) st] refines_runnable [OF 1(1)] run cur(1) show ?thesis by simp
  next
    case (2 f)
    then have "fst (a_receive (cur s) src a) p = Running" if "fst a p = Running" for p
      using that by (cases a) auto
    with kernel_inv_step [OF inv a 2(1) st] refines_runnable [OF 2(1)] run cur(1) 2(3) show ?thesis by simp
  next
    case 3
    with kernel_inv_step [OF inv a 3(1) st] c show ?thesis by (cases a) (auto split: option.splits)
  qed
qed

lemma sys_sendint_static: "sys_sendint d p m s = Inr s' \<Longrightarrow> same_static s s'"
  by (auto simp: sys_sendint_def Let_def ebind_Inr_iff split: if_splits)

lemma frame_fields_distinct: "4 \<le> unat (a + of_nat i - (a + msg_type))" if "i < 4" for a :: u32
proof -
  have i: "i \<in> {0, 1, 2, 3}" using that by auto
  then show ?thesis by (auto simp: msg_type_def unsigned_minus_1_eq_mask mask_eq_exp_minus_1)
qed

lemma refines_cong:
  "procs s' = procs s \<Longrightarrow> refines s' a \<longleftrightarrow> refines s a"
  by (simp add: refines_def ipc_inv_def)

text \<open>The message that \<open>inform_int\<close> builds on the kernel stack.\<close>

definition int_frame :: "u32 \<Rightarrow> mem \<Rightarrow> mem" where
  "int_frame frame m = store32 (frame + msg_type) HARD_INT (store32 (frame + msg_source) (word_of_int INTERRUPT) m)"

lemma load32_int_frame [simp]:
  "load32 (int_frame frame m) (frame + msg_source) = word_of_int INTERRUPT"
  "load32 (int_frame frame m) (frame + msg_type) = HARD_INT"
  using frame_fields_distinct [of _ frame] unfolding int_frame_def
  by (subst load32_other; simp add: msg_source_def) simp

lemma inform_int_step:
  assumes "refines s a" "0 < k_reenter s" "d < nr_proc_table" "cur s < nr_proc_table"
  shows "\<exists>s'. inform_int frame (int d) s = Inr s' \<and> refines s' (a_interrupt d a) \<and> cur s' = cur s
    \<and> same_static s s'
    \<and> (if fst a d = Receiving INTERRUPT \<or> fst a d = Receiving ANY
       then kmem s' = kmemcpy (lin s (cur s) frame) (lin s d (p_msg (procs s d))) sizeof_MESSAGE (int_frame frame (kmem s))
         \<and> \<not> has_int_msg (procs s' d) \<and> p_msg (procs s' d) = p_msg (procs s d) \<and> p_msg (procs s d) \<noteq> 0
       else kmem s' = int_frame frame (kmem s) \<and> has_int_msg (procs s' d))"
proof -
  let ?t = "s\<lparr>kmem := int_frame frame (kmem s)\<rparr>"
  have "refines ?t a" using assms(1) by (subst refines_cong [of _ s]) simp_all
  from sys_sendint_refines [OF this assms(3), of "cur s" frame] assms(2,4)
  obtain s' where s': "sys_sendint (int d) (cur s) frame ?t = Inr s'"
    "refines s' (a_interrupt d a)" "cur s' = cur s"
    "if fst a d = Receiving INTERRUPT \<or> fst a d = Receiving ANY
       then kmem s' = kmemcpy (lin s (cur s) frame) (lin s d (p_msg (procs s d))) sizeof_MESSAGE (int_frame frame (kmem s))
         \<and> \<not> has_int_msg (procs s' d) \<and> p_msg (procs s' d) = p_msg (procs s d) \<and> p_msg (procs s d) \<noteq> 0
       else kmem s' = int_frame frame (kmem s) \<and> has_int_msg (procs s' d)"
    by (auto simp: lin_def split: if_splits)
  moreover from sys_sendint_static [OF s'(1)] have "same_static s s'"
    by (simp add: same_static_def static_def [abs_def])
  ultimately show ?thesis by (simp add: inform_int_def int_frame_def Let_def)
qed

text \<open>
  C15: an interrupt message never blocks and fails no assertion. It wakes up a process that waits for
  an interrupt or for anything, and leaves in its buffer a message with source \<open>INTERRUPT\<close> and type
  \<open>HARD_INT\<close> (for a flat stack segment and a buffer apart from the handler's frame); otherwise it is
  recorded in the pending flag. Senders that are queued stay queued, and the current process
  does not change. A process that is woken up keeps its message pointer: unlike the other
  operations, \<open>sys_sendint\<close> does not clear \<open>p_msg\<close>.
\<close>

theorem inform_int_refines:
  assumes "refines s a" "0 < k_reenter s" "d < nr_proc_table" "cur s < nr_proc_table"
    and "lin s (cur s) frame = frame" "disjoint_ranges frame (lin s d (p_msg (procs s d))) 96"
  shows "\<exists>s'. inform_int frame (int d) s = Inr s' \<and> refines s' (a_interrupt d a) \<and> cur s' = cur s
    \<and> (if fst a d = Receiving INTERRUPT \<or> fst a d = Receiving ANY
       then load32 (kmem s') (lin s d (p_msg (procs s d)) + msg_source) = word_of_int INTERRUPT
         \<and> load32 (kmem s') (lin s d (p_msg (procs s d)) + msg_type) = HARD_INT
         \<and> \<not> has_int_msg (procs s' d) \<and> p_msg (procs s' d) = p_msg (procs s d) \<and> p_msg (procs s d) \<noteq> 0
       else has_int_msg (procs s' d))"
proof -
  let ?db = "lin s d (p_msg (procs s d))" and ?m = "int_frame frame (kmem s)"
  have field: "load32 (kmemcpy frame ?db sizeof_MESSAGE ?m) (?db + of_nat k) = load32 ?m (frame + of_nat k)" if "k \<le> 4" for k
  proof (rule load32_cong)
    fix i :: nat assume "i < 4"
    have e: "x + of_nat k + of_nat i = x + of_nat (k + i)" for x :: u32 by (simp add: algebra_simps)
    show "kmemcpy frame ?db sizeof_MESSAGE ?m (?db + of_nat k + of_nat i) = ?m (frame + of_nat k + of_nat i)"
      unfolding e using assms(6) that \<open>i < 4\<close> by (intro kmemcpy_nth) simp_all
  qed
  have "load32 (kmemcpy frame ?db sizeof_MESSAGE ?m) (?db + msg_source) = word_of_int INTERRUPT"
    using field [of 0] load32_int_frame(1) [of frame "kmem s"] by (simp add: msg_source_def)
  moreover have "load32 (kmemcpy frame ?db sizeof_MESSAGE ?m) (?db + msg_type) = HARD_INT"
    using field [of 4] load32_int_frame(2) [of frame "kmem s"] by (simp add: msg_type_def)
  ultimately show ?thesis
    using inform_int_step [OF assms(1-4), of frame] unfolding assms(5) by (auto split: if_splits)
qed

lemma kernel_inv_interrupt:
  assumes inv: "kernel_inv s" and eq: "inform_int frame (int d) (s\<lparr>k_reenter := 1\<rparr>) = Inr s'"
  shows "kernel_inv (s'\<lparr>k_reenter := 0\<rparr>)"
proof -
  obtain a where a: "refines s a" using inv by (auto simp: kernel_inv_def)
  then have a1: "refines (s\<lparr>k_reenter := 1\<rparr>) a" by (subst refines_cong [of _ s]) simp_all
  have d: "d < nr_proc_table"
    using eq by (auto simp: inform_int_def sys_sendint_def Let_def ebind_Inr_iff asserts_Inr_iff simp del: asserts.simps)
  have cur: "cur s < nr_proc_table" using inv by (simp add: kernel_inv_def runnable_def)
  from inform_int_step [OF a1 _ d, of frame] eq cur have r: "refines s' (a_interrupt d a)"
    and c: "cur s' = cur s" and st: "same_static (s\<lparr>k_reenter := 1\<rparr>) s'" by auto
  have more: "fst (a_interrupt d a) p = Running" if "fst a p = Running" for p
    using that by (cases a) auto
  have r': "refines (s'\<lparr>k_reenter := 0\<rparr>) (a_interrupt d a)" using r by (subst refines_cong [of _ s']) simp_all
  moreover have "same_static s (s'\<lparr>k_reenter := 0\<rparr>)"
    using st inv by (simp add: same_static_def static_def [abs_def] kernel_inv_def)
  moreover have "runnable (s'\<lparr>k_reenter := 0\<rparr>) (cur s)"
    using refines_runnable [OF a cur] refines_runnable [OF r' cur] more inv by (simp add: kernel_inv_def)
  ultimately show ?thesis
    using kernel_inv_step [OF inv a, of "s'\<lparr>k_reenter := 0\<rparr>" "a_interrupt d a"] more c by simp
qed

lemma kernel_inv_clock:
  assumes inv: "kernel_inv s" and eq: "clock_handler s = Some s'"
  shows "kernel_inv s'"
proof -
  let ?t = "upd_proc (cur s) (\<lambda>p. p\<lparr>p_ticks := p_ticks p - 1\<rparr>) (s\<lparr>ticks := ticks s + 1\<rparr>)"
  have "schedule ?t = Some s'" using eq inv by (simp add: clock_handler_def kernel_inv_def)
  moreover have "procs ?t = (\<lambda>p. procs s p\<lparr>p_ticks := if p = cur s then p_ticks (procs s p) - 1 else p_ticks (procs s p)\<rparr>)"
    by auto
  ultimately show ?thesis using schedule_inv [OF _ inv] by simp
qed

lemma kernel_inv_preserved: "kernel_step s s' \<Longrightarrow> kernel_inv s \<Longrightarrow> kernel_inv s'"
  by (erule kernel_stepE; blast intro: kernel_inv_clock kernel_inv_send kernel_inv_receive kernel_inv_interrupt)

lemma kernel_inv_reachable: "kernel_step\<^sup>*\<^sup>* s s' \<Longrightarrow> kernel_inv s \<Longrightarrow> kernel_inv s'"
  by (induction rule: rtranclp_induct) (auto intro: kernel_inv_preserved)


text \<open>
  C16: the scheduler's unbounded loop ends in every reachable state: the terminal task is always
  runnable with a positive priority, so a clock interrupt always returns, and with it
  every operation that blocks the running process.
\<close>

theorem kernel_reachable_schedules:
  assumes "kernel_inv s" and "kernel_step\<^sup>*\<^sup>* s s'"
  shows "(\<exists>t. schedule s' = Some t) \<and> (\<exists>t. clock_handler s' = Some t \<and> kernel_inv t)"
proof -
  from kernel_inv_reachable [OF assms(2,1)] have inv: "kernel_inv s'" .
  then have tty: "runnable s' TASK_TTY" "0 < priority (procs s' TASK_TTY)" "k_reenter s' = 0"
    by (auto simp: kernel_inv_def)
  let ?t = "upd_proc (cur s') (\<lambda>p. p\<lparr>p_ticks := p_ticks p - 1\<rparr>) (s'\<lparr>ticks := ticks s' + 1\<rparr>)"
  have "runnable ?t TASK_TTY" "0 < priority (procs ?t TASK_TTY)" using tty by (auto simp: runnable_def)
  from rr.returns [OF this] tty(3) obtain t where "clock_handler s' = Some t" by (auto simp: clock_handler_def)
  then show ?thesis using rr.returns [OF tty(1,2)] kernel_inv_clock [OF inv] by blast
qed

section \<open>What the checks let through\<close>

text \<open>
  \<open>sys_sendrec\<close> accepts \<open>ANY\<close> and \<open>INTERRUPT\<close> as the partner of either function, so a \<open>SEND\<close> to one of
  them passes all checks and \<open>msg_send\<close> indexes the process table with a negative number.
\<close>

theorem sys_sendrec_send_any:
  assumes "k_reenter s = 0" "c < nr_proc_table" "d = ANY \<or> d = INTERRUPT"
  shows "sys_sendrec SEND d c m s = Inl (Wild ''proc_table'')"
  using assms by (subst sys_sendrec_start) (auto simp: msg_send_def)

text \<open>
  The stale message pointer that \<open>sys_sendint\<close> leaves behind. A process that waited for an
  interrupt while another one was queued for it is woken up, and its next receive from anyone fails the
  assertion that its message pointer is null.
\<close>

theorem receive_after_interrupt_fails:
  assumes "refines s a" "0 < k_reenter s" "d < nr_proc_table" "cur s < nr_proc_table"
    and "fst a d = Receiving INTERRUPT" "snd a d \<noteq> []"
  shows "\<exists>s'. inform_int frame (int d) s = Inr s' \<and> msg_receive d ANY m s' = Inl (Assertion ''ipc.c'' 210)"
proof -
  from inform_int_step [OF assms(1-4), of frame] assms(5) obtain s' where
    s': "inform_int frame (int d) s = Inr s'" "refines s' (a_interrupt d a)"
    "\<not> has_int_msg (procs s' d)" "p_msg (procs s' d) \<noteq> 0" by auto
  have ok: "ipc_ok (procs s') (snd (a_interrupt d a))" using s'(2) by (simp add: refines_def ipc_inv_def)
  have run: "p_flags (procs s' d) = 0"
    using refines_runnable [OF s'(2) assms(3)] assms(5) by (cases a) (auto simp: runnable_def)
  have "snd (a_interrupt d a) d \<noteq> []" using assms(6) by (cases a) auto
  then have "q_sending (procs s' d) \<noteq> None"
    using ipc_okD(2) [OF ok assms(3)] by (cases "snd (a_interrupt d a) d") (auto simp: queue_ok_def)
  then have "receive_select d ANY s' = Inl (Assertion ''ipc.c'' 210)"
    using run s'(4) by (auto simp: receive_select_def)
  then show ?thesis using s'(1,3) by (auto simp: msg_receive_def)
qed

text \<open>
  A pending interrupt message has no content. The receive that collects it copies 96 bytes from
  the receiver's message pointer, which is null for a process that has not been woken up by an
  interrupt before, so the receiver's buffer gets the bytes at the start of its own segment.
\<close>

theorem pending_interrupt_copies_null:
  assumes "refines s a" "c < nr_proc_table" "p_flags (procs s c) = 0"
    and "has_int_msg (procs s c)" "p_msg (procs s c) = 0" "src = ANY \<or> src = INTERRUPT"
  shows "\<exists>s'. msg_receive c src m s = Inr s' \<and> refines s' a
    \<and> kmem s' = kmemcpy (lin s c 0) (lin s c m) sizeof_MESSAGE (kmem s)"
  using receive_int_ok [OF assms(1-3), of m] assms(4-6) by (auto simp: msg_receive_def)

text \<open>
  A process with a pending interrupt message cannot wait for a particular process: it blocks, and
  the kernel then fails its last assertion on the receiver.
\<close>

theorem receive_with_pending_interrupt_fails:
  assumes "ipc_inv s Q" "c < nr_proc_table" "p_flags (procs s c) = 0"
    and "has_int_msg (procs s c)" "m \<noteq> 0" "src < nr_proc_table" "src \<noteq> c" "src \<notin> set (Q c)"
    and "runnable s r" "r \<noteq> c" "0 < priority (procs s r)"
  shows "msg_receive c (int src) m s = Inl (Assertion ''ipc.c'' 285)"
proof -
  have "a_pick (int src) (Q c) = None" using assms(8) by (simp add: a_pick_def)
  from receive_select_none [OF assms(1,2) this] have "msg_receive c (int src) m s = receive_block c (int src) m s"
    using assms(7) by (simp add: msg_receive_def)
  moreover have pc: "proc_ok (procs s) c" using assms(1,2) by (simp add: ipc_inv_def ipc_ok_def)
  define t where "t = upd_proc c (\<lambda>p. p\<lparr>p_flags := RECEIVING, p_msg := m, p_recvfrom := int src\<rparr>) s"
  have u: "upd_proc c (\<lambda>p. p\<lparr>p_msg := m, p_recvfrom := int src\<rparr>)
      (upd_proc c (\<lambda>p. p\<lparr>p_flags := p_flags p OR RECEIVING\<rparr>) s) = t"
    using assms(3) by (simp add: t_def upd_proc_def)
  have "runnable t r" "0 < priority (procs t r)" using assms(9-11) by (auto simp: t_def runnable_def)
  from rr.returns [OF this] obtain s' where s': "schedule t = Some s'" ..
  have "receive_block c (int src) m s = Inl (Assertion ''ipc.c'' 285)"
    using assms(3-5) pc s' unfolding receive_block_def Let_def u
    by (simp add: block_def rr.frame_fields t_def proc_ok_def u)
  ultimately show ?thesis by simp
qed

end
