(* ===== verification/Tty.thy ===== *)
theory Tty
  imports Keyboard Console System_Calls
begin

text \<open>
  The terminals of \<^verbatim>\<open>kernel/tty.c\<close>, the reading side of \<^verbatim>\<open>kernel/keyboard.c\<close>, and the system calls that
  print. A terminal has an input ring buffer of keys and a console; the terminal task moves scan codes
  of the keyboard to the terminal in the foreground and prints what is in its buffer.
\<close>

section \<open>State\<close>

definition TTY_IN_BYTES :: nat where "TTY_IN_BYTES = 256"

record tty =
  in_buf :: "nat \<Rightarrow> u32"
  p_in_buf_head :: nat
  p_in_buf_tail :: nat
  in_buf_count :: nat
  p_console :: nat

record terminals =
  disp :: display
  tty_table :: "nat \<Rightarrow> tty"
  kbd :: keyboard

definition upd_tty :: "nat \<Rightarrow> (tty \<Rightarrow> tty) \<Rightarrow> terminals \<Rightarrow> terminals" where
  "upd_tty n f t = t\<lparr>tty_table := (tty_table t)(n := f (tty_table t n))\<rparr>"

definition on_disp :: "(display \<Rightarrow> display) \<Rightarrow> terminals \<Rightarrow> terminals" where
  "on_disp f t = t\<lparr>disp := f (disp t)\<rparr>"

lemma terminals_simps [simp]:
  "disp (upd_tty n f t) = disp t" "kbd (upd_tty n f t) = kbd t"
  "tty_table (upd_tty n f t) = (tty_table t)(n := f (tty_table t n))"
  "disp (on_disp g t) = g (disp t)" "tty_table (on_disp g t) = tty_table t" "kbd (on_disp g t) = kbd t"
  by (simp_all add: upd_tty_def on_disp_def)

section \<open>The input buffer of a terminal\<close>

definition put_key :: "u32 \<Rightarrow> tty \<Rightarrow> tty" where
  "put_key key t =
     (if in_buf_count t < TTY_IN_BYTES
      then t\<lparr>in_buf := (in_buf t)(p_in_buf_head t := key), p_in_buf_head := ring_next TTY_IN_BYTES (p_in_buf_head t),
             in_buf_count := in_buf_count t + 1\<rparr>
      else t)"

definition take_key :: "tty \<Rightarrow> u32 \<times> tty" where
  "take_key t = (in_buf t (p_in_buf_tail t),
     t\<lparr>p_in_buf_tail := ring_next TTY_IN_BYTES (p_in_buf_tail t), in_buf_count := in_buf_count t - 1\<rparr>)"

definition tty_items :: "tty \<Rightarrow> u32 list" where
  "tty_items t = ring_items TTY_IN_BYTES (in_buf t) (p_in_buf_tail t) (in_buf_count t)"

definition tty_ring_ok :: "tty \<Rightarrow> bool" where
  "tty_ring_ok t \<longleftrightarrow> ring_ok TTY_IN_BYTES (p_in_buf_head t) (p_in_buf_tail t) (in_buf_count t)"

interpretation tty_in: bounded_fifo TTY_IN_BYTES put_key take_key tty_items tty_ring_ok
proof
  fix t :: tty and x :: u32
  assume ok: "tty_ring_ok t"
  then show "length (tty_items t) \<le> TTY_IN_BYTES" by (simp add: tty_items_def tty_ring_ok_def ring_ok_def)
  show "tty_ring_ok (put_key x t)"
    using ok ring_ok_put by (auto simp: tty_ring_ok_def put_key_def)
  show "tty_items (put_key x t) = (if length (tty_items t) < TTY_IN_BYTES then tty_items t @ [x] else tty_items t)"
    using ok ring_items_put by (auto simp: tty_ring_ok_def put_key_def tty_items_def)
  assume "tty_items t \<noteq> []"
  then have n: "0 < in_buf_count t" by (cases "in_buf_count t") (simp_all add: tty_items_def ring_items_def)
  with ok show "tty_ring_ok (snd (take_key t))"
    using ring_ok_get by (auto simp: tty_ring_ok_def take_key_def)
  from ok n show "tty_items t = fst (take_key t) # tty_items (snd (take_key t))"
    using ring_items_get by (auto simp: tty_ring_ok_def take_key_def tty_items_def)
qed

section \<open>Keys that arrive\<close>

text \<open>\<open>init_tty\<close>, with \<open>init_screen\<close> for each terminal.\<close>

definition init_one :: "nat \<Rightarrow> terminals \<Rightarrow> terminals" where
  "init_one n t = on_disp (init_screen n)
     (upd_tty n (\<lambda>y. y\<lparr>in_buf_count := 0, p_in_buf_head := 0, p_in_buf_tail := 0, p_console := n\<rparr>) t)"

definition init_tty :: "terminals \<Rightarrow> terminals" where
  "init_tty t = on_disp (select_console 0) (fold init_one [0..<NR_CONSOLES] t)"

definition tty_input_process :: "nat \<Rightarrow> u32 \<Rightarrow> terminals \<Rightarrow> terminals" where
  "tty_input_process n key t =
     (if key AND FLAG_EXT = 0 then upd_tty n (put_key key) t
      else
        (let raw_code = key AND MASK_RAW; con = p_console (tty_table t n);
             shift = key AND FLAG_SHIFT_L \<noteq> 0 \<or> key AND FLAG_SHIFT_R \<noteq> 0;
             alt = key AND FLAG_ALT_L \<noteq> 0 \<or> key AND FLAG_ALT_R \<noteq> 0 in
         if raw_code = ENTER then upd_tty n (put_key 10) t
         else if raw_code = BACKSPACE then upd_tty n (put_key 8) t
         else if raw_code = UP then (if shift then on_disp (scroll_screen con SCR_UP) t else t)
         else if raw_code = DOWN then (if shift then on_disp (scroll_screen con SCR_DOWN) t else t)
         else if F1 \<le> raw_code \<and> raw_code \<le> F12
           then (if alt then on_disp (select_console (int (unat (raw_code - F1)))) t else t)
         else t))"

text \<open>The next scan code of the keyboard buffer.\<close>

definition next_code :: "terminals \<Rightarrow> (u8 \<times> terminals) option" where
  "next_code t = map_option (\<lambda>(c, k). (c, t\<lparr>kbd := k\<rparr>)) (get_byte_from_kbuf (kbd t))"

text \<open>The loop that compares the codes after \<open>0xE1\<close>: it stops at the first difference.\<close>

fun match_codes :: "u8 list \<Rightarrow> terminals \<Rightarrow> (bool \<times> terminals) option" where
  "match_codes [] t = Some (True, t)"
| "match_codes (c # cs) t = Option.bind (next_code t) (\<lambda>(x, t). if x \<noteq> c then Some (False, t) else match_codes cs t)"

definition key_of_code :: "nat \<Rightarrow> u8 \<Rightarrow> terminals \<Rightarrow> terminals option" where
  "key_of_code n scan_code t = Option.bind (translate scan_code (kbd t)) (\<lambda>(key, k).
     Some (case key of Some key \<Rightarrow> tty_input_process n key (t\<lparr>kbd := k\<rparr>) | None \<Rightarrow> t\<lparr>kbd := k\<rparr>))"

text \<open>After the prefix \<open>0xE0\<close>: print screen is recognised and dropped, anything else sets the prefix flag.\<close>

definition prefixed :: "nat \<Rightarrow> terminals \<Rightarrow> terminals option" where
  "prefixed n t = Option.bind (next_code t) (\<lambda>(scan_code, t).
     Option.bind (if scan_code = 0x2A then match_codes [0xE0, 0x37] t
                  else if scan_code = 0xB7 then match_codes [0xE0, 0xAA] t
                  else Some (False, t)) (\<lambda>(printscreen, t).
       if printscreen then Some t
       else key_of_code n scan_code (t\<lparr>kbd := (kbd t)\<lparr>code_with_E0 := True\<rparr>\<rparr>)))"

definition keyboard_read :: "nat \<Rightarrow> terminals \<Rightarrow> terminals option" where
  "keyboard_read n t =
     (if kb_count (kbd t) > 0 then
        Option.bind (next_code t) (\<lambda>(scan_code, t).
          if scan_code = 0xE1 then
            Option.bind (match_codes [0x1D, 0x45, 0xE1, 0x9D, 0xC5] t) (\<lambda>(pausebreak, t).
              if pausebreak then Some t else key_of_code n scan_code t)
          else if scan_code = 0xE0 then prefixed n t
          else key_of_code n scan_code t)
      else Some t)"

section \<open>The terminal task\<close>

definition tty_do_read :: "nat \<Rightarrow> terminals \<Rightarrow> terminals option" where
  "tty_do_read n t = (if is_current_console (p_console (tty_table t n)) (disp t) then keyboard_read n t else Some t)"

definition tty_out :: "nat \<Rightarrow> u8 \<Rightarrow> terminals \<Rightarrow> terminals option" where
  "tty_out n ch t = map_option (\<lambda>d. t\<lparr>disp := d\<rparr>) (out_char (p_console (tty_table t n)) ch (disp t))"

definition tty_do_write :: "nat \<Rightarrow> terminals \<Rightarrow> terminals option" where
  "tty_do_write n t =
     (if in_buf_count (tty_table t n) > 0
      then (case take_key (tty_table t n) of (key, y) \<Rightarrow> tty_out n (ucast key) (upd_tty n (\<lambda>_. y) t))
      else Some t)"

text \<open>One pass of the endless loop of \<open>task_tty\<close>.\<close>

fun tty_pass :: "nat list \<Rightarrow> terminals \<Rightarrow> terminals option" where
  "tty_pass [] t = Some t"
| "tty_pass (n # ns) t = Option.bind (tty_do_read n t) (\<lambda>t. Option.bind (tty_do_write n t) (tty_pass ns))"

definition task_tty_pass :: "terminals \<Rightarrow> terminals option" where
  "task_tty_pass = tty_pass [0..<NR_CONSOLES]"

section \<open>Printing\<close>

text \<open>\<open>while (i) { out_char(*p++); i--; }\<close>: the length is counted down to 0, so a negative one wraps.\<close>

fun tty_write_loop :: "nat \<Rightarrow> nat \<Rightarrow> mem \<Rightarrow> u32 \<Rightarrow> terminals \<Rightarrow> terminals option" where
  "tty_write_loop 0 n m p t = Some t"
| "tty_write_loop (Suc i) n m p t = Option.bind (tty_out n (m p) t) (tty_write_loop i n m (p + 1))"

definition tty_write :: "nat \<Rightarrow> mem \<Rightarrow> u32 \<Rightarrow> u32 \<Rightarrow> terminals \<Rightarrow> terminals option" where
  "tty_write n m buf len t = tty_write_loop (unat len) n m buf t"

definition sys_write :: "kstate \<Rightarrow> u32 \<Rightarrow> u32 \<Rightarrow> nat \<Rightarrow> terminals \<Rightarrow> terminals option" where
  "sys_write s buf len p t = tty_write (unat (nr_tty (procs s p))) (kmem s) buf len t"

text \<open>
  What \<open>sys_printx\<close> does to the screen before it halts the machine for a task: the message at \<open>p\<close> in red, once
  in each block of eight lines, the rest of the block in grey. \<open>c\<close> is the cell that \<open>v\<close> points to.
\<close>

definition RED_CHAR :: u8 where "RED_CHAR = 0x0C"
definition GRAY_CHAR :: u8 where "GRAY_CHAR = 0x08"

function pad_rows :: "nat \<Rightarrow> mem \<Rightarrow> nat \<times> mem" where
  "pad_rows c v = (if c mod 640 = 0 then (c, v)
     else pad_rows (c + 1) (v(V_MEM_BASE + of_nat (2 * c + 1) := GRAY_CHAR)))"
  by auto
termination
  by (relation "measure (\<lambda>(c, v). (640 - c mod 640) mod 640)") (auto simp: mod_Suc)

declare pad_rows.simps [simp del]

lemma pad_rows_ge: "c \<le> fst (pad_rows c v)"
  by (induction c v rule: pad_rows.induct) (subst pad_rows.simps, auto simp: fun_upd_def)

function halt_screen :: "mem \<Rightarrow> u32 \<Rightarrow> nat \<Rightarrow> u32 \<Rightarrow> mem \<Rightarrow> mem" where
  "halt_screen m p c q v =
     (if c < unat V_MEM_SIZE div 2 then
        let v = v(V_MEM_BASE + of_nat (2 * c) := m q, V_MEM_BASE + of_nat (2 * c + 1) := RED_CHAR) in
        if m (q + 1) = 0 then (case pad_rows (c + 1) v of (c, v) \<Rightarrow> halt_screen m p c p v)
        else halt_screen m p (c + 1) (q + 1) v
      else v)"
  by auto
termination
  apply (relation "measure (\<lambda>(m, p, c, q, v). unat V_MEM_SIZE div 2 - c)")
  apply (auto dest!: arg_cong [of _ _ fst])
  apply (metis (no_types, lifting) One_nat_def Suc_le_eq diff_less_mono2 fst_conv less_le_trans pad_rows_ge)
  done

declare halt_screen.simps [simp del]

text \<open>
  \<open>sys_printx\<close> fills the screen and halts the machine for a task, and otherwise prints up to the zero byte.
  The result is the terminals and the fault that kept the call from returning, if any.
\<close>

partial_function (option) printx_loop :: "nat \<Rightarrow> mem \<Rightarrow> u32 \<Rightarrow> terminals \<Rightarrow> terminals option" where
  "printx_loop n m p t =
     (if m p \<noteq> 0 then Option.bind (tty_out n (m p) t) (printx_loop n m (p + 1)) else Some t)"

definition sys_printx :: "kstate \<Rightarrow> u32 \<Rightarrow> nat \<Rightarrow> terminals \<Rightarrow> terminals \<times> fault option" where
  "sys_printx s str p t =
     (case (if k_reenter s = 0
            then ebind (ldt_proc_id2base (int p) s) (\<lambda>base. Inr (vir2linear base str))
            else Inr str) of
        Inl e \<Rightarrow> (t, Some e)
      | Inr q \<Rightarrow>
          if proc_type (procs s p) = PROC_TYPE_TASK
          then (on_disp (\<lambda>d. d\<lparr>vmem := halt_screen (kmem s) q 0 q (vmem d)\<rparr>) t, Some (Halted []))
          else (case printx_loop (unat (nr_tty (procs s p))) (kmem s) q t of
                  None \<Rightarrow> (t, Some Spin) | Some t \<Rightarrow> (t, None)))"

section \<open>The invariant of the terminals\<close>

definition term_ok :: "terminals \<Rightarrow> bool" where
  "term_ok t \<longleftrightarrow> (\<forall>n < NR_CONSOLES. tty_ring_ok (tty_table t n) \<and> con_ok n (disp t) \<and> p_console (tty_table t n) = n)
     \<and> 0 \<le> current_console (disp t) \<and> current_console (disp t) < int NR_CONSOLES \<and> kb_ring_ok (kbd t)"

text \<open>Only video memory inside the regions of the consoles changes.\<close>

definition regions_only :: "terminals \<Rightarrow> terminals \<Rightarrow> bool" where
  "regions_only t t' \<longleftrightarrow> (\<forall>x. (\<forall>n < NR_CONSOLES. x \<notin> region n) \<longrightarrow> vmem (disp t') x = vmem (disp t) x)"

lemma regions_only_refl [simp]: "regions_only t t"
  by (simp add: regions_only_def)

lemma regions_only_trans: "regions_only t u \<Longrightarrow> regions_only u v \<Longrightarrow> regions_only t v"
  by (simp add: regions_only_def)

lemma con_ok_others: "others_same n d d' \<Longrightarrow> m \<noteq> n \<Longrightarrow> con_ok m d' \<longleftrightarrow> con_ok m d"
  by (simp add: con_ok_def con_at_def others_same_def)

lemma scroll_screen_ok:
  assumes "con_ok n d" "n < NR_CONSOLES"
  shows "con_ok n (scroll_screen n dir d)" "others_same n d (scroll_screen n dir d)" "vmem (scroll_screen n dir d) = vmem d"
proof -
  from assms(1) obtain k t where kt: "con_at n k t d" "k < cells" "t \<le> 44" by (auto simp: con_ok_def)
  show "con_ok n (scroll_screen n dir d)"
  proof (cases dir)
    case SCR_UP
    let ?c = "console_table d n"
    have "current_start_addr ?c > original_addr ?c \<longleftrightarrow> 0 < t"
      using kt con_index [OF assms(2)] of_nat_u32_less [of "n * cells" "n * cells + 80 * t"]
      by (simp add: con_at_def cells_def)
    then have "con_at n k (t - 1) (scroll_screen n dir d)"
      using kt(1) SCR_UP
      by (cases t) (auto simp: scroll_screen_def Let_def con_at_def screen_of_nat algebra_simps)
    moreover have "t - 1 \<le> 44" using kt(3) by simp
    ultimately show ?thesis using kt(2) unfolding con_ok_def by blast
  next
    case SCR_DOWN
    have "(if 80 * t + 2000 < cells then t + 1 else t) \<le> 44" using kt(3) by (auto simp: cells_def)
    with scroll_down_at(1) [OF kt(1) assms(2) kt(3)] kt(2) SCR_DOWN show ?thesis by (auto simp: con_ok_def)
  qed
qed (auto simp: scroll_screen_def Let_def others_same_def split: direction.splits)

lemma select_console_ok:
  "console_table (select_console nr d) = console_table d" "vmem (select_console nr d) = vmem d"
  "current_console (select_console nr d) = (if nr < 0 \<or> nr \<ge> int NR_CONSOLES then current_console d else nr)"
  by (simp_all add: select_console_def set_cursor_def set_video_start_addr_def Let_def)

lemma con_ok_cong: "console_table d' = console_table d \<Longrightarrow> con_ok n d' \<longleftrightarrow> con_ok n d"
  by (simp add: con_ok_def con_at_def)

lemma upd_tty_ok:
  assumes "term_ok t" "n < NR_CONSOLES" "tty_ring_ok (f (tty_table t n))" "p_console (f (tty_table t n)) = n"
  shows "term_ok (upd_tty n f t)"
  using assms by (auto simp: term_ok_def)

lemma put_key_ok: "term_ok t \<Longrightarrow> n < NR_CONSOLES \<Longrightarrow> term_ok (upd_tty n (put_key key) t)"
  by (rule upd_tty_ok) (auto simp: term_ok_def tty_in.put_ok, simp add: put_key_def)

lemma scroll_ok:
  assumes "term_ok t" "n < NR_CONSOLES"
  shows "term_ok (on_disp (scroll_screen n dir) t)"
  using assms scroll_screen_ok(1,2) [of n "disp t" dir] con_ok_others [OF scroll_screen_ok(2) [of n "disp t" dir]]
  by (fastforce simp: term_ok_def others_same_def)

lemma input_process_ok:
  assumes "term_ok t" "n < NR_CONSOLES"
  shows "term_ok (tty_input_process n key t)" "regions_only t (tty_input_process n key t)"
proof -
  have con: "p_console (tty_table t n) = n" "con_ok n (disp t)" using assms by (auto simp: term_ok_def)
  have sel: "term_ok (on_disp (select_console c) t)" for c
    using assms(1) by (auto simp: term_ok_def select_console_ok con_ok_cong [OF select_console_ok(1)])
  show "term_ok (tty_input_process n key t)"
    using assms put_key_ok scroll_ok sel con by (simp add: tty_input_process_def Let_def)
  show "regions_only t (tty_input_process n key t)"
    using con assms(2) by (simp add: tty_input_process_def Let_def regions_only_def scroll_screen_ok select_console_ok)
qed

text \<open>Reading the keyboard.\<close>

lemma set_leds_ring: "set_leds k = Some k' \<Longrightarrow> kb_ring_ok k' = kb_ring_ok k \<and> kb_count k' = kb_count k"
  by (auto simp: set_leds_def kb_ring_ok_def split: bind_splits)

lemma modifier_ring: "modifier key mk k = Some k' \<Longrightarrow> kb_ring_ok k' = kb_ring_ok k"
  by (auto simp: modifier_def kb_ring_ok_def dest!: set_leds_ring split: if_splits)

lemma translate_ring: "translate c k = Some (key, k') \<Longrightarrow> kb_ring_ok k' = kb_ring_ok k"
  by (auto simp: translate_def Let_def dest!: modifier_ring split: bind_splits if_splits)
    (simp_all add: kb_ring_ok_def)

lemma kbd_ok: "term_ok t \<Longrightarrow> kb_ring_ok k \<Longrightarrow> term_ok (t\<lparr>kbd := k\<rparr>)"
  by (simp add: term_ok_def)

lemma regions_only_kbd [simp]: "regions_only t (t'\<lparr>kbd := k\<rparr>) = regions_only t t'"
  by (simp add: regions_only_def)

lemma next_code_ok:
  assumes "next_code t = Some (c, t')" "term_ok t"
  shows "term_ok t' \<and> regions_only t t'"
proof -
  have ok: "kb_ring_ok (kbd t)" using assms(2) by (simp add: term_ok_def)
  from assms(1) have n: "0 < kb_count (kbd t)" and t': "t' = t\<lparr>kbd := snd (take_byte (kbd t))\<rparr>"
    by (auto simp: next_code_def get_byte_from_kbuf_def split: if_splits prod.splits)
  have "kb_items (kbd t) \<noteq> []" using n by (simp add: kb_items_def ring_items_def)
  from kb.get_ok [OF ok this] assms(2) show ?thesis by (simp add: t' kbd_ok)
qed

lemma match_codes_ok: "match_codes cs t = Some (b, t') \<Longrightarrow> term_ok t \<Longrightarrow> term_ok t' \<and> regions_only t t'"
proof (induction cs t rule: match_codes.induct)
  case (2 c cs t)
  then obtain x u where u: "next_code t = Some (x, u)"
    "if x \<noteq> c then (b, t') = (False, u) else match_codes cs u = Some (b, t')"
    by (auto split: bind_splits if_splits)
  note n = next_code_ok [OF u(1) "2.prems"(2)]
  show ?case
  proof (cases "x = c")
    case True
    with "2.IH" [OF u(1) refl] u n show ?thesis by (auto intro: regions_only_trans)
  qed (use u n in auto)
qed auto

lemma key_of_code_ok:
  assumes "key_of_code n c t = Some t'" "term_ok t" "n < NR_CONSOLES"
  shows "term_ok t' \<and> regions_only t t'"
proof -
  from assms(1) obtain key k where tr: "translate c (kbd t) = Some (key, k)"
    "t' = (case key of Some key \<Rightarrow> tty_input_process n key (t\<lparr>kbd := k\<rparr>) | None \<Rightarrow> t\<lparr>kbd := k\<rparr>)"
    by (auto simp: key_of_code_def split: bind_splits)
  have "term_ok (t\<lparr>kbd := k\<rparr>)"
    using assms(2) translate_ring [OF tr(1)] by (simp add: term_ok_def)
  with input_process_ok [OF this assms(3)] tr(2) show ?thesis
    by (auto simp: regions_only_def split: option.splits)
qed

lemma keyboard_read_ok:
  assumes "keyboard_read n t = Some t'" "term_ok t" "n < NR_CONSOLES"
  shows "term_ok t' \<and> regions_only t t'"
proof (cases "kb_count (kbd t) > 0")
  case True
  with assms(1) obtain c u where u: "next_code t = Some (c, u)"
    and rest: "(if c = 0xE1 then Option.bind (match_codes [0x1D, 0x45, 0xE1, 0x9D, 0xC5] u) (\<lambda>(b, v).
        if b then Some v else key_of_code n c v)
      else if c = 0xE0 then prefixed n u else key_of_code n c u) = Some t'"
    by (auto simp: keyboard_read_def simp del: match_codes.simps split: bind_splits)
  note n = next_code_ok [OF u assms(2)]
  have keys: "term_ok t' \<and> regions_only v t'" if "key_of_code n x v = Some t'" "term_ok v" for x v
    using key_of_code_ok [OF that assms(3)] by simp
  have prefix: "term_ok t' \<and> regions_only u t'" if pre: "prefixed n u = Some t'"
  proof -
    from pre obtain x v where v: "next_code u = Some (x, v)"
      and r: "Option.bind (if x = 0x2A then match_codes [0xE0, 0x37] v else if x = 0xB7 then match_codes [0xE0, 0xAA] v
        else Some (False, v)) (\<lambda>(b, w). if b then Some w
          else key_of_code n x (w\<lparr>kbd := (kbd w)\<lparr>code_with_E0 := True\<rparr>\<rparr>)) = Some t'"
      by (auto simp: prefixed_def simp del: match_codes.simps split: bind_splits)
    have vok: "term_ok v \<and> regions_only u v" using next_code_ok [OF v] n by simp
    from r obtain b w where pick: "(if x = 0x2A then match_codes [0xE0, 0x37] v else if x = 0xB7
        then match_codes [0xE0, 0xAA] v else Some (False, v)) = Some (b, w)"
      and w: "if b then w = t' else key_of_code n x (w\<lparr>kbd := (kbd w)\<lparr>code_with_E0 := True\<rparr>\<rparr>) = Some t'"
      by (auto simp: bind_eq_Some_conv simp del: match_codes.simps split: if_splits)
    have wok: "term_ok w \<and> regions_only v w"
      using pick vok match_codes_ok by (simp del: match_codes.simps split: if_splits)
    moreover from wok have "term_ok (w\<lparr>kbd := (kbd w)\<lparr>code_with_E0 := True\<rparr>\<rparr>)"
      by (simp add: term_ok_def kb_ring_ok_def)
    ultimately show ?thesis
      using vok w key_of_code_ok [of n x "w\<lparr>kbd := (kbd w)\<lparr>code_with_E0 := True\<rparr>\<rparr>" t'] assms(3)
      by (auto split: if_splits simp: regions_only_def)
  qed
  show ?thesis
  proof (cases "c = 0xE1")
    case True
    with rest obtain b v where v: "match_codes [0x1D, 0x45, 0xE1, 0x9D, 0xC5] u = Some (b, v)"
      "(if b then Some v else key_of_code n c v) = Some t'"
      by (auto simp: bind_eq_Some_conv simp del: match_codes.simps)
    have "term_ok v \<and> regions_only u v" using match_codes_ok [OF v(1)] n by simp
    with v(2) n keys [of c v] show ?thesis
      by (cases b) (auto intro: regions_only_trans)
  next
    case False
    with rest n prefix keys [of c u] show ?thesis
      by (cases "c = 0xE0") (auto intro: regions_only_trans)
  qed
qed (use assms in \<open>auto simp: keyboard_read_def\<close>)

text \<open>Printing one character on a terminal.\<close>

lemma tty_out_ok:
  assumes "term_ok t" "n < NR_CONSOLES"
  shows "\<exists>t'. tty_out n ch t = Some t' \<and> term_ok t' \<and> tty_table t' = tty_table t \<and> kbd t' = kbd t
    \<and> (\<forall>x. x \<notin> region n \<longrightarrow> vmem (disp t') x = vmem (disp t) x)
    \<and> (\<forall>m. m \<noteq> n \<longrightarrow> console_table (disp t') m = console_table (disp t) m)"
proof -
  have con: "p_console (tty_table t n) = n" "con_ok n (disp t)" using assms by (auto simp: term_ok_def)
  from out_char_safe_lemma [OF assms(2) con(2), of ch] obtain d' where
    d': "out_char n ch (disp t) = Some d'" "con_ok n d'" "others_same n (disp t) d'"
    "\<forall>x. x \<notin> region n \<longrightarrow> vmem d' x = vmem (disp t) x" by blast
  have "con_ok m d'" if "m < NR_CONSOLES" for m
    using d'(2) con_ok_others [OF d'(3)] that assms(1) by (cases "m = n") (auto simp: term_ok_def)
  moreover have "current_console d' = current_console (disp t)" using d'(3) by (simp add: others_same_def)
  ultimately have "term_ok (t\<lparr>disp := d'\<rparr>)" using assms(1) by (simp add: term_ok_def)
  moreover have "tty_out n ch t = Some (t\<lparr>disp := d'\<rparr>)" using d'(1) con(1) by (simp add: tty_out_def)
  ultimately show ?thesis using d'(3,4) by (auto simp: others_same_def)
qed

lemma tty_do_write_ok:
  assumes "term_ok t" "n < NR_CONSOLES"
  shows "\<exists>t'. tty_do_write n t = Some t' \<and> term_ok t' \<and> regions_only t t'"
proof (cases "in_buf_count (tty_table t n) > 0")
  case True
  obtain key y where y: "take_key (tty_table t n) = (key, y)" by fastforce
  have "tty_ring_ok (tty_table t n)" "tty_items (tty_table t n) \<noteq> []" "p_console (tty_table t n) = n"
    using assms True by (auto simp: term_ok_def tty_items_def ring_items_def)
  with tty_in.get_ok [of "tty_table t n"] y have "term_ok (upd_tty n (\<lambda>_. y) t)"
    by (intro upd_tty_ok [OF assms]) (auto simp: take_key_def)
  from tty_out_ok [OF this assms(2), of "ucast key"] obtain t' where
    "tty_out n (ucast key) (upd_tty n (\<lambda>_. y) t) = Some t'" "term_ok t'"
    "\<forall>x. x \<notin> region n \<longrightarrow> vmem (disp t') x = vmem (disp t) x" by auto
  with True y assms(2) show ?thesis by (simp add: tty_do_write_def regions_only_def)
qed (use assms in \<open>simp add: tty_do_write_def\<close>)

lemma tty_pass_ok:
  "tty_pass ns t = Some t' \<Longrightarrow> term_ok t \<Longrightarrow> \<forall>n \<in> set ns. n < NR_CONSOLES \<Longrightarrow> term_ok t' \<and> regions_only t t'"
proof (induction ns t rule: tty_pass.induct)
  case (2 n ns t)
  then obtain u v where u: "tty_do_read n t = Some u" and v: "tty_do_write n u = Some v" "tty_pass ns v = Some t'"
    by (auto simp: bind_eq_Some_conv)
  have n: "n < NR_CONSOLES" using "2.prems"(3) by simp
  have "term_ok u \<and> regions_only t u"
    using u keyboard_read_ok [OF _ "2.prems"(2) n] "2.prems"(2) by (auto simp: tty_do_read_def split: if_splits)
  moreover from this tty_do_write_ok [of u n] n v(1) have "term_ok v \<and> regions_only u v" by auto
  ultimately show ?case using "2.IH" [OF u v(1) v(2)] "2.prems"(3) by (auto intro: regions_only_trans)
qed simp

text \<open>
  C24: a pass of the terminal task keeps everything in order, whatever scan codes have arrived: the ring
  buffers stay consistent, every cursor stays in its console, the console in the foreground
  exists, and nothing but the video memory of the consoles is written. The printing half of the pass
  always returns.
\<close>

theorem task_tty_pass_safe:
  assumes "term_ok t"
  shows "(\<forall>t'. task_tty_pass t = Some t' \<longrightarrow> term_ok t' \<and> regions_only t t')
    \<and> (\<forall>n < NR_CONSOLES. \<exists>t'. tty_do_write n t = Some t' \<and> term_ok t' \<and> regions_only t t')"
  using tty_pass_ok [OF _ assms, of "[0..<NR_CONSOLES]"] tty_do_write_ok [OF assms]
  by (auto simp: task_tty_pass_def)

section \<open>Initialisation\<close>

lemma init_screen_at:
  assumes "n < NR_CONSOLES" "n = 0 \<Longrightarrow> unat (cursor_pos d) div 2 < cells"
  shows "con_ok n (init_screen n d)" "m \<noteq> n \<Longrightarrow> console_table (init_screen n d) m = console_table d m"
    "cursor_pos (init_screen n d) = (if n = 0 then 0 else cursor_pos d)"
    "current_console (init_screen n d) = current_console d"
proof -
  have "cursor_pos d div 2 = of_nat (unat (cursor_pos d) div 2)"
    using unat_lt_u32 [of "cursor_pos d"] by (simp add: word_unat_eq_iff unat_div)
  then have "con_at n (if n = 0 then unat (cursor_pos d) div 2 else 0) 0 (init_screen n d)"
    by (simp add: init_screen_def con_at_def set_cursor_def screen_of_nat Let_def)
  then show "con_ok n (init_screen n d)"
    using assms(2) unfolding con_ok_def by (intro exI conjI) (auto simp: cells_def)
qed (auto simp: init_screen_def set_cursor_def Let_def)

lemma init_one_simps:
  "tty_table (init_one n t) = (tty_table t)(n := (tty_table t n)\<lparr>in_buf_count := 0, p_in_buf_head := 0,
     p_in_buf_tail := 0, p_console := n\<rparr>)"
  "disp (init_one n t) = init_screen n (disp t)" "kbd (init_one n t) = kbd t"
  by (simp_all add: init_one_def)

lemma init_fold_ok:
  assumes "unat (cursor_pos (disp t)) div 2 < cells" "k \<le> NR_CONSOLES"
  shows "(\<forall>n < k. tty_ring_ok (tty_table (fold init_one [0..<k] t) n) \<and> con_ok n (disp (fold init_one [0..<k] t))
      \<and> p_console (tty_table (fold init_one [0..<k] t) n) = n \<and> in_buf_count (tty_table (fold init_one [0..<k] t) n) = 0)
    \<and> unat (cursor_pos (disp (fold init_one [0..<k] t))) div 2 < cells \<and> kbd (fold init_one [0..<k] t) = kbd t"
  using assms(2)
proof (induction k)
  case (Suc k)
  let ?u = "fold init_one [0..<k] t"
  have IH: "\<forall>n < k. tty_ring_ok (tty_table ?u n) \<and> con_ok n (disp ?u) \<and> p_console (tty_table ?u n) = n
      \<and> in_buf_count (tty_table ?u n) = 0" "unat (cursor_pos (disp ?u)) div 2 < cells" "kbd ?u = kbd t"
    using Suc by auto
  have k: "k < NR_CONSOLES" using Suc.prems by simp
  have i: "con_ok k (init_screen k (disp ?u))" "cursor_pos (init_screen k (disp ?u)) = (if k = 0 then 0 else cursor_pos (disp ?u))"
    "\<And>n. n \<noteq> k \<Longrightarrow> console_table (init_screen k (disp ?u)) n = console_table (disp ?u) n"
    using init_screen_at [OF k, of "disp ?u"] IH(2) by blast+
  have "con_ok n (init_screen k (disp ?u))" if "n < k" for n
    using IH(1) that i(3) [of n] by (auto simp: con_ok_def con_at_def)
  moreover have "tty_ring_ok (y\<lparr>in_buf_count := 0, p_in_buf_head := 0, p_in_buf_tail := 0, p_console := m\<rparr>)" for y m
    by (simp add: tty_ring_ok_def ring_ok_def TTY_IN_BYTES_def)
  ultimately show ?case
    using IH i(1,2) by (auto simp: init_one_simps less_Suc_eq cells_def)
qed (use assms in simp)

lemma init_tty_ok:
  assumes "unat (cursor_pos (disp t)) div 2 < cells" "kb_ring_ok (kbd t)"
  shows "term_ok (init_tty t) \<and> current_console (disp (init_tty t)) = 0
    \<and> (\<forall>n < NR_CONSOLES. in_buf_count (tty_table (init_tty t) n) = 0)
    \<and> (\<forall>m n. m \<noteq> n \<longrightarrow> region m \<inter> region n = {})
    \<and> (\<forall>n < NR_CONSOLES. \<forall>x \<in> region n. unat (x - V_MEM_BASE) < unat V_MEM_SIZE)"
proof -
  let ?u = "fold init_one [0..<NR_CONSOLES] t"
  have "term_ok (init_tty t) \<and> current_console (disp (init_tty t)) = 0
    \<and> (\<forall>n < NR_CONSOLES. in_buf_count (tty_table (init_tty t) n) = 0)"
    using init_fold_ok [OF assms(1), of NR_CONSOLES] assms(2)
    by (auto simp: init_tty_def term_ok_def select_console_ok con_ok_cong [OF select_console_ok(1)] NR_CONSOLES_def)
  moreover have "unat (x - V_MEM_BASE) < unat V_MEM_SIZE" if "n < NR_CONSOLES" "x \<in> region n" for n x
    using con_index [OF that(1)] that(2) by (simp add: region_def V_MEM_SIZE_def cells_def)
  ultimately show ?thesis using region_disjoint by blast
qed

text \<open>
  \<open>init_tty\<close> establishes the invariant of the terminals with empty input buffers and terminal 0 in the
  foreground, provided that the boot messages have left the cursor inside the first console; the video
  memory of the consoles does not overlap and ends inside the 32 KB of the text buffer.
\<close>

theorem init_tty_establishes:
  assumes "unat (cursor_pos (disp t)) div 2 < cells" "kb_ring_ok (kbd t)"
  shows "term_ok (init_tty t) \<and> current_console (disp (init_tty t)) = 0
    \<and> (\<forall>n < NR_CONSOLES. in_buf_count (tty_table (init_tty t) n) = 0)
    \<and> (\<forall>m n. m \<noteq> n \<longrightarrow> region m \<inter> region n = {})
    \<and> (\<forall>n < NR_CONSOLES. \<forall>x \<in> region n. unat (x - V_MEM_BASE) < unat V_MEM_SIZE)"
  by (rule init_tty_ok [OF assms])

section \<open>What a process prints\<close>

lemma tty_write_loop_ok:
  "term_ok t \<Longrightarrow> n < NR_CONSOLES \<Longrightarrow> \<exists>t'. tty_write_loop i n m p t = Some t' \<and> term_ok t' \<and> tty_table t' = tty_table t
    \<and> (\<forall>x. x \<notin> region n \<longrightarrow> vmem (disp t') x = vmem (disp t) x)
    \<and> (\<forall>c. c \<noteq> n \<longrightarrow> console_table (disp t') c = console_table (disp t) c)"
proof (induction i arbitrary: p t)
  case (Suc i)
  from tty_out_ok [OF Suc.prems, of "m p"] obtain u where u: "tty_out n (m p) t = Some u" "term_ok u"
    "tty_table u = tty_table t" "\<forall>x. x \<notin> region n \<longrightarrow> vmem (disp u) x = vmem (disp t) x"
    "\<forall>c. c \<noteq> n \<longrightarrow> console_table (disp u) c = console_table (disp t) c" by blast
  from Suc.IH [OF u(2) Suc.prems(2), of "p + 1"] u show ?case by auto
qed simp

text \<open>
  Output is confined. The system call that writes always returns, whatever bytes the process passes
  and however long the text is, and changes only the console of the process's own terminal: the other
  consoles, all input buffers and all video memory outside of that console stay as they were.
\<close>

theorem sys_write_confined:
  assumes "term_ok t" "unat (nr_tty (procs s p)) = n" "n < NR_CONSOLES"
  shows "\<exists>t'. sys_write s buf len p t = Some t' \<and> term_ok t' \<and> tty_table t' = tty_table t
    \<and> (\<forall>x. x \<notin> region n \<longrightarrow> vmem (disp t') x = vmem (disp t) x)
    \<and> (\<forall>c. c \<noteq> n \<longrightarrow> console_table (disp t') c = console_table (disp t) c)"
  using tty_write_loop_ok [OF assms(1,3), of "unat len" "kmem s" buf] assms(2)
  by (auto simp: sys_write_def tty_write_def)

lemma cell_addr_inj:
  assumes "n < NR_CONSOLES" "i < cells" "j < cells" "i \<noteq> j"
  shows "cell_addr n i \<noteq> cell_addr n j" "cell_addr n i + 1 \<noteq> cell_addr n j" "cell_addr n i \<noteq> cell_addr n j + 1"
    "cell_addr n i + 1 \<noteq> cell_addr n j + 1"
proof -
  have d: "unat (cell_addr n k - V_MEM_BASE) = 2 * (n * cells + k)" "unat (cell_addr n k + 1 - V_MEM_BASE) = 2 * (n * cells + k) + 1"
    if "k < cells" for k
  proof -
    have e: "cell_addr n k - V_MEM_BASE = of_nat (2 * (n * cells + k))"
      "cell_addr n k + 1 - V_MEM_BASE = of_nat (2 * (n * cells + k) + 1)"
      by (simp_all add: cell_addr_def algebra_simps)
    show "unat (cell_addr n k - V_MEM_BASE) = 2 * (n * cells + k)" "unat (cell_addr n k + 1 - V_MEM_BASE) = 2 * (n * cells + k) + 1"
      unfolding e using con_index [OF assms(1)] that by (intro unat_of_nat_small; simp add: cells_def)+
  qed
  show "cell_addr n i \<noteq> cell_addr n j" using d(1) [OF assms(2)] d(1) [OF assms(3)] assms(4) by auto
  show "cell_addr n i + 1 \<noteq> cell_addr n j + 1" using d(1) [OF assms(2)] d(1) [OF assms(3)] assms(4) by auto
  show "cell_addr n i + 1 \<noteq> cell_addr n j"
  proof
    assume "cell_addr n i + 1 = cell_addr n j"
    with d(2) [OF assms(2)] d(1) [OF assms(3)] have "2 * (n * cells + i) + 1 = 2 * (n * cells + j)" by simp
    then show False by presburger
  qed
  show "cell_addr n i \<noteq> cell_addr n j + 1"
  proof
    assume "cell_addr n i = cell_addr n j + 1"
    with d(1) [OF assms(2)] d(2) [OF assms(3)] have "2 * (n * cells + i) = 2 * (n * cells + j) + 1" by simp
    then show False by presburger
  qed
qed

definition printable :: "u8 \<Rightarrow> bool" where
  "printable ch \<longleftrightarrow> ch \<noteq> 10 \<and> ch \<noteq> 8"

lemma tty_write_loop_text:
  assumes "n < NR_CONSOLES" "con_at n k s (disp t)" "s \<le> 44" "k + i < cells" "p_console (tty_table t n) = n"
    "\<forall>j < i. printable (m (p + of_nat j))"
  shows "\<exists>t' s'. tty_write_loop i n m p t = Some t' \<and> con_at n (k + i) s' (disp t') \<and> s' \<le> 44 
    \<and> (\<forall>j < i. vmem (disp t') (cell_addr n (k + j)) = m (p + of_nat j) \<and> vmem (disp t') (cell_addr n (k + j) + 1) = DEFAULT_CHAR_COLOR)
    \<and> (\<forall>j < k. vmem (disp t') (cell_addr n j) = vmem (disp t) (cell_addr n j)
         \<and> vmem (disp t') (cell_addr n j + 1) = vmem (disp t) (cell_addr n j + 1))"
  using assms(2-)
proof (induction i arbitrary: k s p t)
  case 0
  then show ?case by auto
next
  case (Suc i)
  have ch: "printable (m p)" using Suc.prems(5) by (auto dest: spec [of _ 0])
  have k: "k < cells" "k + 1 < cells" using Suc.prems(3) by simp_all
  then have nx: "next_cell (m p) k = k + 1" using ch by (simp add: next_cell_def printable_def)
  from out_char_at [OF Suc.prems(1) assms(1) Suc.prems(2) k(1), of "m p"] nx obtain d s1 where
    d: "out_char n (m p) (disp t) = Some d" "con_at n (k + 1) s1 d" "s1 \<le> 44" "vmem d = write_cell n (m p) k (vmem (disp t))"
    by auto
  let ?u = "t\<lparr>disp := d\<rparr>"
  have u: "tty_out n (m p) t = Some ?u" using d(1) Suc.prems(4) by (simp add: tty_out_def)
  have pr: "\<forall>j < i. printable (m (p + 1 + of_nat j))"
  proof (intro allI impI)
    fix j assume "j < i"
    then show "printable (m (p + 1 + of_nat j))"
      using Suc.prems(5) [rule_format, of "Suc j"] by (simp add: algebra_simps)
  qed
  have w: "vmem d (cell_addr n k) = m p" "vmem d (cell_addr n k + 1) = DEFAULT_CHAR_COLOR"
    using ch k by (simp_all add: d(4) write_cell_def printable_def)
  have old: "vmem d (cell_addr n j) = vmem (disp t) (cell_addr n j)" "vmem d (cell_addr n j + 1) = vmem (disp t) (cell_addr n j + 1)"
    if "j < k" for j
    using that ch k cell_addr_inj [OF assms(1), of j k] by (simp_all add: d(4) write_cell_def printable_def)
  from Suc.IH [of "k + 1" s1 ?u "p + 1"] d(2,3) Suc.prems(3,4) pr obtain t' s' where
    t': "tty_write_loop i n m (p + 1) ?u = Some t'" "con_at n (k + 1 + i) s' (disp t')" "s' \<le> 44"
    "\<forall>j < i. vmem (disp t') (cell_addr n (k + 1 + j)) = m (p + 1 + of_nat j) \<and> vmem (disp t') (cell_addr n (k + 1 + j) + 1) = DEFAULT_CHAR_COLOR"
    "\<forall>j < k + 1. vmem (disp t') (cell_addr n j) = vmem d (cell_addr n j) \<and> vmem (disp t') (cell_addr n j + 1) = vmem d (cell_addr n j + 1)"
    by auto
  have "vmem (disp t') (cell_addr n (k + j)) = m (p + of_nat j) \<and> vmem (disp t') (cell_addr n (k + j) + 1) = DEFAULT_CHAR_COLOR"
    if "j < Suc i" for j
  proof (cases j)
    case 0
    with t'(5) w show ?thesis by auto
  next
    case (Suc l)
    with t'(4) that show ?thesis by (auto simp: algebra_simps)
  qed
  moreover have "tty_write_loop (Suc i) n m p t = Some t'" using t'(1) u by simp
  moreover have "con_at n (k + Suc i) s' (disp t')" using t'(2) by simp
  moreover have "vmem (disp t') (cell_addr n j) = vmem (disp t) (cell_addr n j)
      \<and> vmem (disp t') (cell_addr n j + 1) = vmem (disp t) (cell_addr n j + 1)" if "j < k" for j
    using t'(5) that old [OF that] by auto
  ultimately show ?case using t'(3) by blast
qed

text \<open>
  C23: text appears as it was written. When the characters are printable and fit behind the cursor, the call
  puts them into consecutive cells in the default colour, leaves the cells before them alone and
  moves the cursor behind the last one.
\<close>

theorem sys_write_text:
  assumes "term_ok t" "unat (nr_tty (procs s p)) = n" "n < NR_CONSOLES"
    and "con_at n k l (disp t)" "l \<le> 44" "k + unat len < cells"
    and "\<forall>j < unat len. printable (kmem s (buf + of_nat j))"
  shows "\<exists>t' l'. sys_write s buf len p t = Some t' \<and> con_at n (k + unat len) l' (disp t')
    \<and> (\<forall>j < unat len. vmem (disp t') (cell_addr n (k + j)) = kmem s (buf + of_nat j)
         \<and> vmem (disp t') (cell_addr n (k + j) + 1) = DEFAULT_CHAR_COLOR)
    \<and> (\<forall>j < k. vmem (disp t') (cell_addr n j) = vmem (disp t) (cell_addr n j))"
proof -
  have "p_console (tty_table t n) = n" using assms(1,3) by (simp add: term_ok_def)
  from tty_write_loop_text [OF assms(3-6) this assms(7)] show ?thesis
    unfolding sys_write_def tty_write_def assms(2) by blast
qed

section \<open>Fake shifts\<close>

lemma next_code_items:
  assumes "kb_ring_ok (kbd t)" "kb_items (kbd t) = c # cs"
  shows "\<exists>k. next_code t = Some (c, t\<lparr>kbd := k\<rparr>) \<and> kb_ring_ok k \<and> kb_items k = cs
    \<and> code_with_E0 k = code_with_E0 (kbd t)"
proof -
  have ne: "kb_items (kbd t) \<noteq> []" using assms(2) by simp
  have "\<not> kb_count (kbd t) \<le> 0" using assms(2) by (cases "kb_count (kbd t)") (auto simp: kb_items_def ring_items_def)
  moreover have "code_with_E0 (snd (take_byte k)) = code_with_E0 k" for k by (simp add: take_byte_def)
  ultimately show ?thesis
    using kb.get_ok [OF assms(1) ne] kb.get_items [OF assms(1) ne] assms(2)
    by (intro exI [of _ "snd (take_byte (kbd t))"]) (auto simp: next_code_def get_byte_from_kbuf_def split: prod.splits)
qed

text \<open>
  With num lock on, keyboards wrap the navigation keys in fake shift codes: \<open>E0 2A E0 c\<close>. Of such a
  sequence \<open>keyboard_read\<close> consumes all four codes; the navigation key is lost and the terminal gets a key
  with character 0 instead.
\<close>

theorem fake_shift_loses_key:
  assumes "kb_ring_ok (kbd t)" "kb_items (kbd t) = [0xE0, 0x2A, 0xE0, c]" "c \<noteq> 0x37"
  shows "\<exists>t' key. keyboard_read n t = Some t' \<and> kb_items (kbd t') = []
    \<and> tty_table t' = (tty_table t)(n := put_key key (tty_table t n)) \<and> (ucast key :: u8) = 0"
proof -
  from next_code_items [OF assms(1,2)] obtain k1 where k1: "next_code t = Some (0xE0, t\<lparr>kbd := k1\<rparr>)" "kb_ring_ok k1"
    "kb_items k1 = [0x2A, 0xE0, c]" by blast
  from next_code_items [of "t\<lparr>kbd := k1\<rparr>"] k1 obtain k2 where k2: "next_code (t\<lparr>kbd := k1\<rparr>) = Some (0x2A, t\<lparr>kbd := k2\<rparr>)"
    "kb_ring_ok k2" "kb_items k2 = [0xE0, c]" by auto
  from next_code_items [of "t\<lparr>kbd := k2\<rparr>"] k2 obtain k3 where k3: "next_code (t\<lparr>kbd := k2\<rparr>) = Some (0xE0, t\<lparr>kbd := k3\<rparr>)"
    "kb_ring_ok k3" "kb_items k3 = [c]" by auto
  from next_code_items [of "t\<lparr>kbd := k3\<rparr>"] k3 obtain k4 where k4: "next_code (t\<lparr>kbd := k3\<rparr>) = Some (c, t\<lparr>kbd := k4\<rparr>)"
    "kb_ring_ok k4" "kb_items k4 = []" by auto
  let ?k = "k4\<lparr>code_with_E0 := False\<rparr>" and ?key = "key_flags k4 False 0"
  have "lookup_key (k4\<lparr>code_with_E0 := True\<rparr>) 0x2A = 0"
    by (simp add: lookup_key_def key_column_def keymap_def Let_def)
  then have "translate 0x2A (k4\<lparr>code_with_E0 := True\<rparr>) = Some (Some (key_flags ?k False 0), ?k)"
    by (simp add: translate_def make_code_def FLAG_BREAK_def modifier_def Let_def)
  moreover have "key_flags ?k False 0 = ?key" by (simp add: key_flags_def)
  moreover have "?key AND FLAG_EXT = 0" "(ucast ?key :: u8) = 0"
    using key_flags_ext [of k4 False 0] key_flags_char [of k4 False 0] by simp_all
  ultimately have key: "key_of_code n 0x2A (t\<lparr>kbd := k4\<lparr>code_with_E0 := True\<rparr>\<rparr>) = Some (upd_tty n (put_key ?key) (t\<lparr>kbd := ?k\<rparr>))"
    by (simp add: key_of_code_def tty_input_process_def)
  have "0 < kb_count (kbd t)" using assms(2) by (cases "kb_count (kbd t)") (auto simp: kb_items_def ring_items_def)
  then have "keyboard_read n t = Some (upd_tty n (put_key ?key) (t\<lparr>kbd := ?k\<rparr>))"
    using k1(1) k2(1) k3(1) k4(1) assms(3) key by (simp add: keyboard_read_def prefixed_def)
  moreover have "kb_items ?k = []" using k4(3) by (simp add: kb_items_def)
  ultimately show ?thesis using \<open>(ucast ?key :: u8) = 0\<close>
    by (intro exI [of _ "upd_tty n (put_key ?key) (t\<lparr>kbd := ?k\<rparr>)"] exI [of _ ?key]) (simp add: upd_tty_def)
qed

end
