(* ===== verification/Kernel_Main.thy ===== *)
theory Kernel_Main
  imports System_Calls
begin

text \<open>
  The start of the kernel: the globals of \<^verbatim>\<open>kernel/global.c\<close> and the loop of \<open>kernel_main\<close> in
  \<^verbatim>\<open>kernel/main.c\<close> that builds the process table, the local descriptor tables and the TSS. Addresses
  that the linker chooses are parameters: \<open>symaddr\<close> for functions, \<open>paddr\<close> for \<open>proc_table\<close>,
  \<open>taddr\<close> for \<open>shared_tss\<close>. The calls of \<open>init_clock\<close>, \<open>init_keyboard\<close> and \<open>init_tty\<close>
  at the start of \<open>kernel_main\<close> do not touch this state; they are in the theories of these devices.
\<close>

section \<open>Globals\<close>

definition GDT_SIZE :: nat where "GDT_SIZE = 128"
definition LDT_SIZE :: u32 where "LDT_SIZE = 3"
definition STACK_SIZE :: u32 where "STACK_SIZE = 0x4000"
definition sizeof_DESCRIPTOR :: u32 where "sizeof_DESCRIPTOR = 8"
definition sizeof_STACK_FRAME :: u32 where "sizeof_STACK_FRAME = 18 * 4"

text \<open>The i386 layout of \<open>PROCESS\<close>, with ten file slots.\<close>

definition offset_ldts :: u32 where "offset_ldts = sizeof_STACK_FRAME + 2"
definition offset_stack :: u32 where "offset_stack = 100 + 12 * 4 + 16 + 7 * 4 + 10 * 4"
definition sizeof_PROCESS :: u32 where "sizeof_PROCESS = offset_stack + STACK_SIZE"

text \<open>\<open>task_table\<close>: the entry point and the name of each process, in the order of the process table.\<close>

definition task_table :: "(string \<times> string) list" where
  "task_table = [(''TestA'', ''Process A''), (''TestB'', ''Process B''), (''TestC'', ''Process C''),
     (''task_tty'', ''TTY''), (''task_sys'', ''syscall''), (''task_hd'', ''hard disk''),
     (''task_fs'', ''file system'')]"

datatype irq_handler = Clock_Handler | Keyboard_Handler | Hd_Handler

text \<open>\<open>add_irq_handler\<close> of \<^verbatim>\<open>kernel/interrupts.c\<close>.\<close>

definition add_irq_handler :: "nat \<Rightarrow> irq_handler \<Rightarrow> (nat \<Rightarrow> irq_handler option) \<Rightarrow> (nat \<Rightarrow> irq_handler option)" where
  "add_irq_handler irq h irq_table = irq_table(irq := Some h)"

definition initializeGlobalParameters :: "kstate \<Rightarrow> kstate" where
  "initializeGlobalParameters s = s\<lparr>ticks := 0, k_reenter := 0, cur := 0\<rparr>"

text \<open>The fields of the TSS that are set; \<open>tss_rest\<close> stands for all others, which are cleared.\<close>

record tss =
  esp0 :: u32
  ss0 :: u32
  iobase :: u16
  tss_rest :: u32

record boot_state =
  kern :: kstate
  gdt :: "nat \<Rightarrow> descriptor"
  shared_tss :: tss

section \<open>kernel_main\<close>

definition SA_RPL_MASK :: u16 where "SA_RPL_MASK = 0xFFFC"
definition SA_TI_MASK :: u16 where "SA_TI_MASK = 0xFFFB"
definition SA_FULL_MASK :: u16 where "SA_FULL_MASK = 0xFFF8"
definition SA_LOCAL :: u16 where "SA_LOCAL = 4"
definition SA_RPL1 :: u16 where "SA_RPL1 = 1"
definition SA_RPL3 :: u16 where "SA_RPL3 = 3"
definition DA_DPL1 :: u8 where "DA_DPL1 = 0x20"
definition DA_DPL3 :: u8 where "DA_DPL3 = 0x60"

text \<open>The local variables of the loop.\<close>

record loop_vars =
  lv_dpl :: u8
  lv_cs :: u16
  lv_ss :: u16
  lv_eflags :: u32
  lv_proc_type :: int
  lv_priority :: int
  lv_selector_ldt :: u16

definition local_selector :: "u16 \<Rightarrow> u16 \<Rightarrow> u16" where
  "local_selector sel rpl = (sel AND SA_RPL_MASK AND SA_TI_MASK) OR SA_LOCAL OR rpl"

definition main_vars :: loop_vars where
  "main_vars = \<lparr>lv_dpl = DA_DPL3, lv_cs = local_selector SELECTOR_KERNEL_CS SA_RPL3,
     lv_ss = local_selector SELECTOR_KERNEL_DS SA_RPL3, lv_eflags = 0x202,
     lv_proc_type = PROC_TYPE_USER, lv_priority = 200, lv_selector_ldt = SELECTOR_LDT\<rparr>"

text \<open>From index \<open>NR_PROCS\<close> on the entries are tasks.\<close>

definition start_tasks :: "nat \<Rightarrow> loop_vars \<Rightarrow> loop_vars" where
  "start_tasks i v = (if i = NR_PROCS
     then v\<lparr>lv_dpl := DA_DPL1, lv_cs := local_selector SELECTOR_KERNEL_CS SA_RPL1,
       lv_ss := local_selector SELECTOR_KERNEL_DS SA_RPL1, lv_eflags := 0x1202,
       lv_proc_type := PROC_TYPE_TASK, lv_priority := 600\<rparr>
     else v)"

definition or_attr1 :: "u8 \<Rightarrow> descriptor \<Rightarrow> descriptor" where
  "or_attr1 dpl d = d\<lparr>attr1 := attr1 d OR dpl\<rparr>"

definition init_process :: "(string \<Rightarrow> u32) \<Rightarrow> u32 \<Rightarrow> (nat \<Rightarrow> descriptor) \<Rightarrow> nat \<Rightarrow> loop_vars \<Rightarrow> process \<Rightarrow> process" where
  "init_process symaddr paddr g i v p =
     (let addr = paddr + of_nat i * sizeof_PROCESS in
      p\<lparr>pid := of_nat i, ldt_selector := lv_selector_ldt v,
        priority := lv_priority v, p_ticks := lv_priority v, nr_tty := 0, proc_type := lv_proc_type v,
        p_flags := 0, p_recvfrom := NO_TASK, p_sendto := NO_TASK, has_int_msg := False,
        q_sending := None, next_sending := None, pname := ascii (snd (task_table ! i)),
        ldts := (ldts p)(1 := or_attr1 (lv_dpl v) (g (unat (drop_bit 3 SELECTOR_KERNEL_CS))),
                         2 := or_attr1 (lv_dpl v) (g (unat (drop_bit 3 SELECTOR_KERNEL_DS)))),
        regs := (regs p)\<lparr>r_cs := ucast (lv_cs v), r_ds := ucast (lv_ss v), r_es := ucast (lv_ss v),
          r_fs := ucast (lv_ss v), r_ss := ucast (lv_ss v), r_gs := ucast (SELECTOR_VIDEO OR SA_RPL3),
          r_eip := symaddr (fst (task_table ! i)), r_esp := addr + offset_stack + STACK_SIZE,
          r_eflags := lv_eflags v\<rparr>\<rparr>)"

definition SIZEOF_TSS :: u32 where "SIZEOF_TSS = 25 * 4 + 4"

definition restore_tss_func :: "descriptor \<Rightarrow> descriptor" where
  "restore_tss_func d = d\<lparr>attr1 := ucast DA_386TSS\<rparr>"

definition init_tables :: "u32 \<Rightarrow> u32 \<Rightarrow> nat \<Rightarrow> loop_vars \<Rightarrow> (nat \<Rightarrow> descriptor) \<Rightarrow> (nat \<Rightarrow> descriptor)" where
  "init_tables paddr taddr i v g =
     (let ldt = unat (drop_bit 3 (lv_selector_ldt v AND SA_FULL_MASK));
          g = g(ldt := init_descriptor
                 (vir2linear (selector2base g SELECTOR_KERNEL_DS) (paddr + of_nat i * sizeof_PROCESS + offset_ldts))
                 (LDT_SIZE * sizeof_DESCRIPTOR - 1) DA_LDT (g ldt));
          t = unat (drop_bit 3 (SELECTOR_TSS AND SA_FULL_MASK));
          g = g(t := init_descriptor (vir2linear (selector2base g SELECTOR_KERNEL_DS) taddr)
                 (SIZEOF_TSS - 1) DA_386TSS (g t))
      in g(unat (drop_bit 3 SELECTOR_TSS) := restore_tss_func (g (unat (drop_bit 3 SELECTOR_TSS)))))"

fun kernel_main_loop :: "(string \<Rightarrow> u32) \<Rightarrow> u32 \<Rightarrow> u32 \<Rightarrow> nat list \<Rightarrow> loop_vars \<Rightarrow> boot_state \<Rightarrow> boot_state" where
  "kernel_main_loop symaddr paddr taddr [] v b = b"
| "kernel_main_loop symaddr paddr taddr (i # is) v b =
     (let v = start_tasks i v;
          b = b\<lparr>kern := upd_proc i (init_process symaddr paddr (gdt b) i v) (kern b)\<rparr>;
          b = b\<lparr>gdt := init_tables paddr taddr i v (gdt b),
                shared_tss := \<lparr>esp0 = paddr + of_nat i * sizeof_PROCESS + sizeof_STACK_FRAME,
                  ss0 = ucast SELECTOR_KERNEL_DS, iobase = ucast SIZEOF_TSS, tss_rest = 0\<rparr>\<rparr>
      in kernel_main_loop symaddr paddr taddr is
           (v\<lparr>lv_priority := lv_priority v - 50, lv_selector_ldt := lv_selector_ldt v + 8\<rparr>) b)"

definition kernel_main :: "(string \<Rightarrow> u32) \<Rightarrow> u32 \<Rightarrow> u32 \<Rightarrow> boot_state \<Rightarrow> boot_state" where
  "kernel_main symaddr paddr taddr b =
     kernel_main_loop symaddr paddr taddr [0..<nr_proc_table] main_vars
       (b\<lparr>kern := initializeGlobalParameters (kern b)\<rparr>)"

section \<open>The state after boot\<close>

text \<open>The loop variables at the start of iteration \<open>i\<close> (after \<open>start_tasks\<close>).\<close>

definition vars_at :: "nat \<Rightarrow> loop_vars" where
  "vars_at i = (if i < NR_PROCS then main_vars else start_tasks NR_PROCS main_vars)
     \<lparr>lv_priority := (if i < NR_PROCS then 200 - 50 * int i else 600 - 50 * int (i - NR_PROCS)),
      lv_selector_ldt := SELECTOR_LDT + 8 * of_nat i\<rparr>"

lemma nr_proc_table_7: "nr_proc_table = 7" and NR_PROCS_3: "NR_PROCS = 3"
  by (simp_all add: proc_consts)

lemma index_cases: "i < nr_proc_table \<Longrightarrow> i \<in> {0, 1, 2, 3, 4, 5, 6}"
  by (auto simp: nr_proc_table_7)

definition boot_iter :: "(string \<Rightarrow> u32) \<Rightarrow> u32 \<Rightarrow> u32 \<Rightarrow> nat \<Rightarrow> boot_state \<Rightarrow> boot_state" where
  "boot_iter symaddr paddr taddr i b =
     b\<lparr>kern := upd_proc i (init_process symaddr paddr (gdt b) i (vars_at i)) (kern b),
       gdt := init_tables paddr taddr i (vars_at i) (gdt b),
       shared_tss := \<lparr>esp0 = paddr + of_nat i * sizeof_PROCESS + sizeof_STACK_FRAME,
         ss0 = ucast SELECTOR_KERNEL_DS, iobase = ucast SIZEOF_TSS, tss_rest = 0\<rparr>\<rparr>"

lemma start_tasks_first: "start_tasks 0 main_vars = vars_at 0"
  by (simp add: start_tasks_def vars_at_def main_vars_def proc_consts)

lemma start_tasks_next:
  assumes "Suc i < nr_proc_table"
  shows "start_tasks (Suc i) (vars_at i\<lparr>lv_priority := lv_priority (vars_at i) - 50,
      lv_selector_ldt := lv_selector_ldt (vars_at i) + 8\<rparr>) = vars_at (Suc i)"
proof -
  from assms have "i \<in> {0, 1, 2, 3, 4, 5}" by (auto simp: nr_proc_table_7)
  then show ?thesis by (auto simp: start_tasks_def vars_at_def main_vars_def NR_PROCS_3)
qed

lemma kernel_main_loop_fold:
  assumes "i < nr_proc_table" "start_tasks i v = vars_at i"
  shows "kernel_main_loop symaddr paddr taddr [i..<nr_proc_table] v b =
    fold (boot_iter symaddr paddr taddr) [i..<nr_proc_table] b"
  using assms
proof (induction "nr_proc_table - i" arbitrary: i v b)
  case (Suc k)
  then have "[i..<nr_proc_table] = i # [Suc i..<nr_proc_table]" by (simp add: upt_conv_Cons)
  moreover have "kernel_main_loop symaddr paddr taddr [Suc i..<nr_proc_table]
      (vars_at i\<lparr>lv_priority := lv_priority (vars_at i) - 50, lv_selector_ldt := lv_selector_ldt (vars_at i) + 8\<rparr>) b' =
    fold (boot_iter symaddr paddr taddr) [Suc i..<nr_proc_table] b'" for b'
  proof (cases "Suc i < nr_proc_table")
    case True
    with Suc.hyps(2) show ?thesis by (intro Suc.hyps(1) start_tasks_next) auto
  qed simp
  ultimately show ?case using Suc.prems(2) by (simp add: boot_iter_def Let_def)
qed simp

lemma kernel_main_fold:
  "kernel_main symaddr paddr taddr b = fold (boot_iter symaddr paddr taddr) [0..<nr_proc_table]
     (b\<lparr>kern := initializeGlobalParameters (kern b)\<rparr>)"
  unfolding kernel_main_def
  by (rule kernel_main_loop_fold) (simp_all add: start_tasks_first nr_proc_table_7)

text \<open>The descriptors that one iteration writes: slot 4 and the slot of the local table.\<close>

lemma selector_slots [simp]:
  "unat (drop_bit 3 SELECTOR_KERNEL_CS) = 1" "unat (drop_bit 3 SELECTOR_KERNEL_DS) = 2"
  "unat (drop_bit 3 (SELECTOR_TSS AND SA_FULL_MASK)) = 4" "unat (drop_bit 3 SELECTOR_TSS) = 4"
  by (simp_all add: SELECTOR_KERNEL_CS_def SELECTOR_KERNEL_DS_def SELECTOR_TSS_def SA_FULL_MASK_def
      drop_bit_eq_div unat_div)

lemma ldt_slot:
  assumes "i < nr_proc_table"
  shows "unat (drop_bit 3 (lv_selector_ldt (vars_at i) AND SA_FULL_MASK)) = 5 + i"
  using index_cases [OF assms]
  by (auto simp: vars_at_def SELECTOR_LDT_def SA_FULL_MASK_def drop_bit_eq_div unat_div)

lemma selector2base_DS: "selector2base g SELECTOR_KERNEL_DS = ldt_desc_base (g 2)"
  by (simp add: selector2base_def ldt_desc_base_eq_or Let_def)

lemma init_tables_slots:
  assumes "i < nr_proc_table"
  shows "init_tables paddr taddr i (vars_at i) g j =
    (if j = 4 then restore_tss_func (init_descriptor (vir2linear (ldt_desc_base (g 2)) taddr) (SIZEOF_TSS - 1) DA_386TSS (g 4))
     else if j = 5 + i then init_descriptor
       (vir2linear (ldt_desc_base (g 2)) (paddr + of_nat i * sizeof_PROCESS + offset_ldts))
       (LDT_SIZE * sizeof_DESCRIPTOR - 1) DA_LDT (g j)
     else g j)"
  unfolding init_tables_def Let_def ldt_slot [OF assms] selector_slots selector2base_DS by auto

text \<open>The state after \<open>n\<close> iterations.\<close>

definition boot_iters :: "(string \<Rightarrow> u32) \<Rightarrow> u32 \<Rightarrow> u32 \<Rightarrow> nat \<Rightarrow> boot_state \<Rightarrow> boot_state" where
  "boot_iters symaddr paddr taddr n b = fold (boot_iter symaddr paddr taddr) [0..<n] b"

lemma boot_iters_simps [simp]:
  "boot_iters symaddr paddr taddr 0 b = b"
  "boot_iters symaddr paddr taddr (Suc n) b = boot_iter symaddr paddr taddr n (boot_iters symaddr paddr taddr n b)"
  by (simp_all add: boot_iters_def)

lemma boot_iters_globals [simp]:
  "cur (kern (boot_iters symaddr paddr taddr n b)) = cur (kern b)"
  "k_reenter (kern (boot_iters symaddr paddr taddr n b)) = k_reenter (kern b)"
  "ticks (kern (boot_iters symaddr paddr taddr n b)) = ticks (kern b)"
  "kmem (kern (boot_iters symaddr paddr taddr n b)) = kmem (kern b)"
  by (induction n) (simp_all add: boot_iter_def)

lemma boot_iters_gdt_other:
  "n \<le> nr_proc_table \<Longrightarrow> j < 4 \<or> 5 + n \<le> j \<Longrightarrow> gdt (boot_iters symaddr paddr taddr n b) j = gdt b j"
  by (induction n) (auto simp: boot_iter_def init_tables_slots)

lemma boot_iters_gdt_ldt:
  assumes "i < n" "n \<le> nr_proc_table"
  shows "gdt (boot_iters symaddr paddr taddr n b) (5 + i) = init_descriptor
       (vir2linear (ldt_desc_base (gdt b 2)) (paddr + of_nat i * sizeof_PROCESS + offset_ldts))
       (LDT_SIZE * sizeof_DESCRIPTOR - 1) DA_LDT (gdt b (5 + i))"
  using assms
proof (induction n)
  case (Suc n)
  then show ?case
    by (cases "i = n") (simp_all add: boot_iter_def init_tables_slots boot_iters_gdt_other)
qed simp

lemma init_process_cong:
  "g 1 = h 1 \<Longrightarrow> g 2 = h 2 \<Longrightarrow> init_process symaddr paddr g i v p = init_process symaddr paddr h i v p"
  by (simp add: init_process_def)

lemma boot_iters_procs:
  assumes "n \<le> nr_proc_table"
  shows "procs (kern (boot_iters symaddr paddr taddr n b)) p =
    (if p < n then init_process symaddr paddr (gdt b) p (vars_at p) (procs (kern b) p) else procs (kern b) p)"
  using assms
proof (induction n)
  case (Suc n)
  let ?b = "boot_iters symaddr paddr taddr n b"
  have "init_process symaddr paddr (gdt ?b) n (vars_at n) q = init_process symaddr paddr (gdt b) n (vars_at n) q" for q
    using Suc.prems by (intro init_process_cong boot_iters_gdt_other) auto
  with Suc show ?case by (cases "p = n") (simp_all add: boot_iter_def)
qed simp

text \<open>All seven iterations, from the initial globals.\<close>

lemma kernel_main_state:
  fixes symaddr paddr taddr b
  defines "b' \<equiv> kernel_main symaddr paddr taddr b"
  shows "p < nr_proc_table \<Longrightarrow> procs (kern b') p = init_process symaddr paddr (gdt b) p (vars_at p) (procs (kern b) p)"
    and "cur (kern b') = 0" and "k_reenter (kern b') = 0" and "ticks (kern b') = 0"
    and "i < nr_proc_table \<Longrightarrow> gdt b' (5 + i) = init_descriptor
       (vir2linear (ldt_desc_base (gdt b 2)) (paddr + of_nat i * sizeof_PROCESS + offset_ldts))
       (LDT_SIZE * sizeof_DESCRIPTOR - 1) DA_LDT (gdt b (5 + i))"
    and "j < 4 \<Longrightarrow> gdt b' j = gdt b j"
  unfolding b'_def kernel_main_fold boot_iters_def [symmetric]
  by (simp_all add: boot_iters_procs boot_iters_gdt_ldt boot_iters_gdt_other initializeGlobalParameters_def)

lemma kernel_main_mem: "kmem (kern (kernel_main symaddr paddr taddr b)) = kmem (kern b)"
  unfolding kernel_main_fold boot_iters_def [symmetric] by (simp add: initializeGlobalParameters_def)

lemma init_process_fields [simp]:
  "p_flags (init_process symaddr paddr g i v p) = 0"
  "p_recvfrom (init_process symaddr paddr g i v p) = NO_TASK"
  "p_sendto (init_process symaddr paddr g i v p) = NO_TASK"
  "q_sending (init_process symaddr paddr g i v p) = None"
  "next_sending (init_process symaddr paddr g i v p) = None"
  "priority (init_process symaddr paddr g i v p) = lv_priority v"
  "p_ticks (init_process symaddr paddr g i v p) = lv_priority v"
  "ldt_selector (init_process symaddr paddr g i v p) = lv_selector_ldt v"
  "proc_type (init_process symaddr paddr g i v p) = lv_proc_type v"
  "ldts (init_process symaddr paddr g i v p) 1 = or_attr1 (lv_dpl v) (g 1)"
  "ldts (init_process symaddr paddr g i v p) 2 = or_attr1 (lv_dpl v) (g 2)"
  "regs (init_process symaddr paddr g i v p) = (regs p)\<lparr>r_cs := ucast (lv_cs v), r_ds := ucast (lv_ss v),
     r_es := ucast (lv_ss v), r_fs := ucast (lv_ss v), r_ss := ucast (lv_ss v),
     r_gs := ucast (SELECTOR_VIDEO OR SA_RPL3), r_eip := symaddr (fst (task_table ! i)),
     r_esp := paddr + of_nat i * sizeof_PROCESS + offset_stack + STACK_SIZE, r_eflags := lv_eflags v\<rparr>"
  by (simp_all add: init_process_def Let_def)

section \<open>What the boot establishes\<close>

lemma kernel_main_kernel_inv:
  "kernel_inv (kern (kernel_main symaddr paddr taddr b))
   \<and> refines (kern (kernel_main symaddr paddr taddr b))
       (\<lambda>p. status_of (procs (kern (kernel_main symaddr paddr taddr b)) p), \<lambda>_. [])"
proof -
  let ?s = "kern (kernel_main symaddr paddr taddr b)"
  have fields: "p_flags (procs ?s p) = 0" "p_recvfrom (procs ?s p) = NO_TASK" "p_sendto (procs ?s p) = NO_TASK"
    "q_sending (procs ?s p) = None" "next_sending (procs ?s p) = None" if "p < nr_proc_table" for p
    using that by (simp_all add: kernel_main_state)
  have none: "\<not> sending_to (procs ?s) i p" for i p
    by (auto simp: sending_to_def fields)
  have "sends (procs ?s) = {}"
    by (auto simp: sends_def fields)
  then have "ipc_inv ?s (\<lambda>_. [])"
    by (simp add: ipc_inv_def ipc_ok_def proc_ok_def queue_ok_def no_missed_def fields none acyclic_def)
  then have "refines ?s (\<lambda>p. status_of (procs ?s p), \<lambda>_. [])" by (simp add: refines_def)
  moreover from this have "\<exists>a. refines ?s a" by blast
  moreover have "0 < priority (procs ?s TASK_TTY)"
    by (simp add: kernel_main_state) (simp add: vars_at_def TASK_TTY_def start_tasks_def NR_PROCS_3)
  ultimately show ?thesis
    unfolding kernel_inv_def using fields(1) [of 0] fields(1) [OF TASK_TTY_lt] TASK_TTY_lt
    by (auto simp: kernel_main_state(2,3) runnable_def proc_consts simp del: split_paired_Ex TASK_TTY_lt)
qed

text \<open>
  C18: the process table that \<open>kernel_main\<close> builds satisfies the invariant of the kernel, whatever the
  memory held before: no process waits or is queued, and the terminal task can run. With
  it, everything that holds in the states reachable from the invariant holds from boot on.
\<close>

theorem kernel_main_establishes_inv:
  "kernel_inv (kern (kernel_main symaddr paddr taddr b))
   \<and> (\<forall>p \<in> {..<nr_proc_table}. status_of (procs (kern (kernel_main symaddr paddr taddr b)) p) = Running)"
  using kernel_main_kernel_inv by (auto simp: kernel_main_state)

lemma vars_at_segments:
  assumes "i < nr_proc_table"
  shows "unat (drop_bit 3 (lv_selector_ldt (vars_at i))) = 5 + i"
    "lv_dpl (vars_at i) = (if i < NR_PROCS then 0x60 else 0x20)"
    "lv_cs (vars_at i) = (if i < NR_PROCS then 0xF else 0xD)"
    "lv_ss (vars_at i) = (if i < NR_PROCS then 0x17 else 0x15)"
    "lv_proc_type (vars_at i) = (if i < NR_PROCS then PROC_TYPE_USER else PROC_TYPE_TASK)"
proof -
  show "unat (drop_bit 3 (lv_selector_ldt (vars_at i))) = 5 + i"
    using index_cases [OF assms] by (auto simp: vars_at_def SELECTOR_LDT_def drop_bit_eq_div unat_div)
qed (simp_all add: vars_at_def main_vars_def start_tasks_def local_selector_def SELECTOR_KERNEL_CS_def
    SELECTOR_KERNEL_DS_def SA_RPL_MASK_def SA_TI_MASK_def SA_LOCAL_def SA_RPL1_def SA_RPL3_def DA_DPL1_def DA_DPL3_def)

lemma ldt_desc_base_or_attr1 [simp]: "ldt_desc_base (or_attr1 dpl d) = ldt_desc_base d"
  by (simp add: ldt_desc_base_def or_attr1_def)


end
