(* ===== verification/Early_Display.thy ===== *)
theory Early_Display
  imports Console Process
begin

text \<open>
  Output without a terminal: \<open>disp_str\<close> and \<open>disp_color_str\<close> of \<^verbatim>\<open>lib/kliba.asm\<close>, \<open>disp_int\<close> of \<^verbatim>\<open>lib/klib.c\<close>, and the
  exception handler of \<^verbatim>\<open>kernel/protect.c\<close>, which reports with them. \<open>cursor_pos\<close> is a byte offset in the video memory.
  A string is the list of its characters without the terminating zero.
\<close>

section \<open>Strings on the screen\<close>

text \<open>
  The loop of the two routines: \<open>ah\<close> is the attribute of the cells and \<open>edi\<close> the offset. A line feed divides the offset by 160 in an
  8-bit division, which faults when the quotient does not fit; the product that is the new offset is
  formed in the register that holds the attribute.
\<close>

fun disp_loop :: "u8 list \<Rightarrow> u8 \<Rightarrow> u32 \<Rightarrow> mem \<Rightarrow> fault + u32 \<times> mem" where
  "disp_loop [] ah edi m = Inr (edi, m)"
| "disp_loop (c # cs) ah edi m =
     (if c = 0x0A then
        let q = unat edi mod 2 ^ 16 div 160 in
        if q > 255 then Inl (Wild ''divide error'')
        else let ax = of_nat ((q + 1) mod 256 * 160) :: u32 in disp_loop cs (ucast (drop_bit 8 ax)) ax m
      else disp_loop cs ah (edi + 2) (m(V_MEM_BASE + edi := c, V_MEM_BASE + edi + 1 := ah)))"

definition disp_color_str :: "u8 list \<Rightarrow> u8 \<Rightarrow> display \<Rightarrow> fault + display" where
  "disp_color_str cs color d = ebind (disp_loop cs color (cursor_pos d) (vmem d)) (\<lambda>(edi, m). Inr (d\<lparr>cursor_pos := edi, vmem := m\<rparr>))"

definition disp_str :: "u8 list \<Rightarrow> display \<Rightarrow> fault + display" where
  "disp_str cs = disp_color_str cs 0x0F"

definition disp_int :: "u32 \<Rightarrow> display \<Rightarrow> fault + display" where
  "disp_int n = disp_str (itoa_string n)"

text \<open>An interrupt without a handler, in \<^verbatim>\<open>kernel/interrupts.c\<close>.\<close>

definition spurious_irq :: "u32 \<Rightarrow> display \<Rightarrow> fault + display" where
  "spurious_irq irq d = ebind (disp_str (ascii ''spurious_irq: '') d) (disp_int irq)"

section \<open>The exception handler\<close>

definition err_msg :: "string list" where
  "err_msg = [''#DE Divide Error'', ''#DB RESERVED'', ''--  NMI  Interrupt'', ''#BP Breakpoint'', ''#OF Overflow'', ''#BR Bound Range Exceeded'',
     ''#UD Invalid Opcode (Undefined Opcode)'', ''#NM Device Not Available (No Match Coprocessor)'', ''#DF Double Fault'',
     ''    Coprocessor Segment Overrun (reserved)'', ''#TS Invalid TSS'', ''#NP Segment Not Present'', ''#SS Stack Segment Fault'',
     ''#GP General Protection'', ''#PF Page Fault'', ''--  (Intel Reserved...)'', ''#MF x87 FPU Floating Point Error (Math Fault)'',
     ''#AC Alignment Check'', ''#MC Machine Check'', ''#XF SIMD Floating Point Exception'']"

fun times :: "nat \<Rightarrow> ('a \<Rightarrow> fault + 'a) \<Rightarrow> 'a \<Rightarrow> fault + 'a" where
  "times 0 f x = Inr x"
| "times (Suc n) f x = ebind (f x) (times n f)"

text \<open>\<open>disp_color_str(name, text_color); disp_int(value);\<close>\<close>

definition disp_item :: "string \<Rightarrow> u32 \<Rightarrow> display \<Rightarrow> fault + display" where
  "disp_item name v d = ebind (disp_color_str (ascii name) 0x74 d) (disp_int v)"

definition exception_screen :: "int \<Rightarrow> u32 \<Rightarrow> u32 \<Rightarrow> u32 \<Rightarrow> u32 \<Rightarrow> kstate \<Rightarrow> display \<Rightarrow> fault + display" where
  "exception_screen vec_no err_code eip cs eflags k d =
     (let top = current_start_addr (console_table d 0) * 2 in
      ebind (times (80 * 5) (disp_str [0x20]) (d\<lparr>cursor_pos := top\<rparr>)) (\<lambda>d.
      let d = upd_con 0 (\<lambda>c. c\<lparr>cursor := current_start_addr c + 2 * SCREEN_WIDTH\<rparr>) (d\<lparr>cursor_pos := top\<rparr>) in
      ebind (disp_color_str (ascii ''Exception: ---> '') 0x74 d) (\<lambda>d.
      if vec_no < 0 \<or> int (length err_msg) \<le> vec_no then Inl (Wild ''err_msg'')
      else
        ebind (disp_color_str (ascii (err_msg ! nat vec_no)) 0x74 d) (\<lambda>d.
        ebind (disp_color_str [0x0A, 0x0A] 0x74 d) (\<lambda>d.
        ebind (disp_item ''EFLAGS:'' eflags d) (\<lambda>d.
        ebind (disp_item ''CS:'' cs d) (\<lambda>d.
        ebind (disp_item ''EIP:'' eip d) (\<lambda>d.
        ebind (if err_code \<noteq> 0xFFFFFFFF then disp_item ''Error code:'' err_code d else Inr d) (\<lambda>d.
        ebind (disp_item ''PROC:'' (of_nat (cur k)) d) (\<lambda>d.
        disp_item ''K_REENTER:'' (k_reenter k) d))))))))))"

text \<open>The line for an entry of the process table; \<open>addr\<close> is the address of the entry.\<close>

definition process_line :: "kstate \<Rightarrow> (nat \<Rightarrow> u32) \<Rightarrow> nat \<Rightarrow> string \<times> fmt_arg list" where
  "process_line k addr i =
     (let p = procs k i; r = regs p in
      (''gs = %x, fs = %x, es = %x, ds = %x, ss = %x, esp = %x, priority = %d, ticks = %d, addr = %x'',
       [Word (r_gs r), Word (r_fs r), Word (r_es r), Word (r_ds r), Word (r_ss r), Word (r_esp r), Word (word_of_int (priority p)),
        Word (word_of_int (p_ticks p)), Word (addr i)]))"

definition cpu_reserved_exception_handler ::
  "int \<Rightarrow> u32 \<Rightarrow> u32 \<Rightarrow> u32 \<Rightarrow> u32 \<Rightarrow> (nat \<Rightarrow> u32) \<Rightarrow> kstate \<Rightarrow> display \<Rightarrow> fault + display \<times> kstate" where
  "cpu_reserved_exception_handler vec_no err_code eip cs eflags addr k d =
     ebind (exception_screen vec_no err_code eip cs eflags k d) (\<lambda>d.
     ebind (format_lines ((''''::string, []) # map (process_line k addr) [0..<nr_proc_table])) (\<lambda>ls.
     Inr (d, fold printf ls k)))"

section \<open>Line feeds\<close>

text \<open>
  The attribute register is overwritten by the computation of the new line: text behind a line feed in the same string has
  an attribute that depends on the line only, whatever colour was asked for.
\<close>

lemma disp_line_feed_loses_color: "disp_loop (0x0A # cs) ah edi m = disp_loop (0x0A # cs) ah' edi m"
  by simp

end
