(* ===== verification/Start.thy ===== *)
theory Start
  imports Kernel_Main Early_Display
begin

text \<open>
  \<open>cstart\<close> of \<^verbatim>\<open>kernel/start.c\<close>, the first C function of the kernel: it takes over the descriptor table that the boot loader made, sets
  the pointers that \<open>lgdt\<close> and \<open>lidt\<close> will load, and fills the interrupt table. \<open>gdt_ptr\<close>, \<open>idt_ptr\<close> and \<open>gdt\<close> are bytes of the kernel's
  memory at addresses that the linker chooses (\<open>symaddr\<close>); the loader has stored its own table pointer in \<open>gdt_ptr\<close>.
\<close>

section \<open>Half words and table pointers\<close>

definition load16 :: "mem \<Rightarrow> u32 \<Rightarrow> u16" where
  "load16 m a = ucast (m a) OR push_bit 8 (ucast (m (a + 1)))"

definition store16 :: "u32 \<Rightarrow> u16 \<Rightarrow> mem \<Rightarrow> mem" where
  "store16 a w m = m(a := ucast w, a + 1 := ucast (drop_bit 8 w))"

text \<open>A descriptor of eight bytes, as the compiler lays out the packed structure.\<close>

definition descriptor_at :: "mem \<Rightarrow> u32 \<Rightarrow> descriptor" where
  "descriptor_at m a = \<lparr>limit_low = load16 m a, base_low = load16 m (a + 2), base_mid = m (a + 4), attr1 = m (a + 5),
     limit_high_attr2 = m (a + 6), base_high = m (a + 7)\<rparr>"

section \<open>cstart\<close>

definition IDT_SIZE :: nat where "IDT_SIZE = 256"

definition sizeof_GATE :: u32 where "sizeof_GATE = 8"

record start_state =
  st_kern :: kstate
  st_idt :: "u8 \<Rightarrow> gate"
  st_disp :: display

definition begin_banner :: "u8 list" where
  "begin_banner = replicate 18 0x0A @ ascii (''-----------'' @ [CHR 0x22] @ ''cstart'' @ [CHR 0x22] @ '' begins-----------'') @ [0x0A]"

definition end_banner :: "u8 list" where
  "end_banner = ascii (''--------------'' @ [CHR 0x22] @ ''cstart'' @ [CHR 0x22] @ '' ends----------------'') @ [0x0A]"

definition cstart_tables :: "(string \<Rightarrow> u32) \<Rightarrow> mem \<Rightarrow> mem" where
  "cstart_tables symaddr m =
     (let gdt_ptr = symaddr ''gdt_ptr''; idt_ptr = symaddr ''idt_ptr'';
          m = kmemcpy (load32 m (gdt_ptr + 2)) (symaddr ''gdt'') (ucast (load16 m gdt_ptr) + 1) m;
          m = store16 gdt_ptr (ucast (of_nat GDT_SIZE * sizeof_DESCRIPTOR - 1)) m;
          m = store32 (gdt_ptr + 2) (symaddr ''gdt'') m;
          m = store16 idt_ptr (ucast (of_nat IDT_SIZE * sizeof_GATE - 1)) m
      in store32 (idt_ptr + 2) (symaddr ''idt'') m)"

definition cstart :: "(string \<Rightarrow> u32) \<Rightarrow> start_state \<Rightarrow> fault + start_state" where
  "cstart symaddr s =
     (let k = initializeGlobalParameters (st_kern s) in
      ebind (disp_str begin_banner ((st_disp s)\<lparr>cursor_pos := 0\<rparr>)) (\<lambda>d.
      let k = k\<lparr>kmem := cstart_tables symaddr (kmem k)\<rparr>;
          (writes, idt) = init_protect_mode_interrupt_mechanism symaddr (st_idt s) in
      ebind (disp_str end_banner (d\<lparr>ports := ports d @ writes\<rparr>)) (\<lambda>d.
      Inr \<lparr>st_kern = k, st_idt = idt, st_disp = d\<rparr>)))"

text \<open>What \<open>kernel_main\<close> is entered with: the descriptors in the table of the kernel.\<close>

definition main_entry :: "(string \<Rightarrow> u32) \<Rightarrow> tss \<Rightarrow> start_state \<Rightarrow> boot_state" where
  "main_entry symaddr t s = \<lparr>kern = st_kern s, gdt = (\<lambda>i. descriptor_at (kmem (st_kern s)) (symaddr ''gdt'' + 8 * of_nat i)), shared_tss = t\<rparr>"

section \<open>The tables\<close>

lemma load16_store16 [simp]: "load16 (store16 a w m) a = w"
  unfolding load16_def store16_def by (rule bit_word_eqI) (auto simp: bit_simps not_bit_u8)

lemma load16_cong: "m a = m' b \<Longrightarrow> m (a + 1) = m' (b + 1) \<Longrightarrow> load16 m a = load16 m' b"
  by (simp add: load16_def)

text \<open>\<open>n\<close> bytes at \<open>a\<close> and \<open>k\<close> bytes at \<open>b\<close> have no byte in common.\<close>

definition ranges_apart :: "u32 \<Rightarrow> nat \<Rightarrow> u32 \<Rightarrow> nat \<Rightarrow> bool" where
  "ranges_apart a n b k \<longleftrightarrow> n \<le> unat (b - a) \<and> k \<le> unat (a - b)"

lemma ranges_apart_nth:
  assumes "ranges_apart a n b k" "i < k"
  shows "n \<le> unat (b + of_nat i - a)"
proof -
  have "unat (a - b) \<noteq> 0" using assms by (auto simp: ranges_apart_def)
  then have "a \<noteq> b" by auto
  then have "unat (b - a) + k \<le> 2 ^ 32" using unat_diff_swap [of a b] assms(1) unat_lt_u32 [of "a - b"] by (simp add: ranges_apart_def, linarith)
  with assms have lt: "unat (b - a) + i < 2 ^ 32" and n: "n \<le> unat (b - a)" by (simp_all add: ranges_apart_def)
  then have "unat (of_nat i :: u32) = i" by (intro unat_of_nat_small) simp
  moreover have "b + of_nat i - a = (b - a) + of_nat i" by simp
  ultimately have "unat (b + of_nat i - a) = unat (b - a) + i" using lt by (simp only: unat_word_ariths) simp
  with n show ?thesis by simp
qed

text \<open>A table pointer of six bytes: the limit and behind it the base.\<close>

lemma pointer_bytes:
  assumes "6 \<le> unat (x - p)"
  shows "store32 (p + 2) b (store16 p l m) x = m x"
proof -
  have "unat (x - (p + 1)) = unat (x - p) - 1" using assms by (intro distance_pred) auto
  moreover from this assms have "unat (x - (p + 1 + 1)) = unat (x - (p + 1)) - 1" by (intro distance_pred) auto
  moreover have "p + 1 + 1 = p + 2" by simp
  ultimately have "4 \<le> unat (x - (p + 2))" using assms by simp
  from store32_other [OF this] have "store32 (p + 2) b (store16 p l m) x = store16 p l m x" .
  also have "x \<noteq> p" "x \<noteq> p + 1" using assms by auto
  then have "store16 p l m x = m x" by (simp add: store16_def)
  finally show ?thesis .
qed

lemma pointer_at:
  "load16 (store32 (p + 2) b (store16 p l m)) p = l" "load32 (store32 (p + 2) b (store16 p l m)) (p + 2) = b"
proof -
  have "unat (p - (p + 2)) = 2 ^ 32 - 2" "unat (p + 1 - (p + 2)) = 2 ^ 32 - 1" by (simp_all add: unsigned_minus_1_eq_mask mask_eq_exp_minus_1)
  then have "store32 (p + 2) b (store16 p l m) p = store16 p l m p" "store32 (p + 2) b (store16 p l m) (p + 1) = store16 p l m (p + 1)"
    by (intro store32_other, simp)+
  then have "load16 (store32 (p + 2) b (store16 p l m)) p = load16 (store16 p l m) p" by (rule load16_cong)
  then show "load16 (store32 (p + 2) b (store16 p l m)) p = l" by simp
qed simp

lemma pointers_stored:
  assumes "ranges_apart p 6 q 6"
  shows "load16 (store32 (q + 2) b (store16 q l m)) p = load16 m p" "load32 (store32 (q + 2) b (store16 q l m)) (p + 2) = load32 m (p + 2)"
proof -
  have s: "ranges_apart q 6 p 6" using assms by (auto simp: ranges_apart_def)
  have x: "store32 (q + 2) b (store16 q l m) (p + of_nat i) = m (p + of_nat i)" if "i < 6" for i
    by (rule pointer_bytes [OF ranges_apart_nth [OF s that]])
  show "load16 (store32 (q + 2) b (store16 q l m)) p = load16 m p" using x [of 0] x [of 1] by (intro load16_cong) simp_all
  show "load32 (store32 (q + 2) b (store16 q l m)) (p + 2) = load32 m (p + 2)"
    using x [of 2] x [of 3] x [of 4] x [of 5] by (simp add: load32_def add.assoc)
qed

lemma descriptor_at_cong:
  assumes "\<And>i. i < 8 \<Longrightarrow> m (a + of_nat i) = m' (a' + of_nat i)"
  shows "descriptor_at m a = descriptor_at m' a'"
  using assms [of 0] assms [of 1] assms [of 2] assms [of 3] assms [of 4] assms [of 5] assms [of 6] assms [of 7]
  by (simp add: descriptor_at_def load16_def add.assoc)

text \<open>The linker puts the two pointers and the table where they do not overlap, and the loader's table is somewhere else.\<close>

definition start_layout :: "(string \<Rightarrow> u32) \<Rightarrow> mem \<Rightarrow> bool" where
  "start_layout symaddr m \<longleftrightarrow> ranges_apart (symaddr ''gdt_ptr'') 6 (symaddr ''gdt'') 1024 \<and> ranges_apart (symaddr ''idt_ptr'') 6 (symaddr ''gdt'') 1024
     \<and> ranges_apart (symaddr ''gdt_ptr'') 6 (symaddr ''idt_ptr'') 6 \<and> unat (load16 m (symaddr ''gdt_ptr'')) < 1024
     \<and> disjoint_ranges (load32 m (symaddr ''gdt_ptr'' + 2)) (symaddr ''gdt'') 1024"

lemma cstart_tables_ok:
  assumes L: "start_layout symaddr m"
  defines "g \<equiv> symaddr ''gdt_ptr''" and "i \<equiv> symaddr ''idt_ptr''" and "m' \<equiv> cstart_tables symaddr m"
  shows "load16 m' g = 1023" "load32 m' (g + 2) = symaddr ''gdt''" "load16 m' i = 2047" "load32 m' (i + 2) = symaddr ''idt''"
    "8 * j + 7 \<le> unat (load16 m g) \<Longrightarrow> descriptor_at m' (symaddr ''gdt'' + 8 * of_nat j) = descriptor_at m (load32 m (g + 2) + 8 * of_nat j)"
proof -
  let ?t = "symaddr ''gdt''" let ?b = "load32 m (g + 2)" let ?n = "ucast (load16 m g) + 1 :: u32"
  have l: "ranges_apart g 6 ?t 1024" "ranges_apart i 6 ?t 1024" "ranges_apart g 6 i 6" "unat (load16 m g) < 1024" "disjoint_ranges ?b ?t 1024"
    using L by (simp_all add: start_layout_def g_def i_def)
  define k where "k = kmemcpy ?b ?t ?n m"
  define p where "p = store32 (g + 2) ?t (store16 g 1023 k)"
  have m': "m' = store32 (i + 2) (symaddr ''idt'') (store16 i 2047 p)"
    by (simp add: m'_def cstart_tables_def g_def i_def p_def k_def Let_def GDT_SIZE_def IDT_SIZE_def sizeof_DESCRIPTOR_def sizeof_GATE_def)
  show "load16 m' i = 2047" "load32 m' (i + 2) = symaddr ''idt''" unfolding m' by (rule pointer_at)+
  have "load16 m' g = load16 p g" "load32 m' (g + 2) = load32 p (g + 2)" unfolding m' by (rule pointers_stored [OF l(3)])+
  then show "load16 m' g = 1023" "load32 m' (g + 2) = ?t" unfolding p_def by (simp_all only: pointer_at)
  have "unat (ucast (load16 m g) :: u32) = unat (load16 m g)" using l(4) by (simp add: unsigned_ucast_eq take_bit_nat_eq_self)
  then have n: "unat ?n = unat (load16 m g) + 1" using l(4) by (subst unat_plus_simple [THEN iffD1]) (auto simp: word_le_nat_alt unat_word_ariths)
  then have n0: "?n \<noteq> 0" by (metis add_is_0 unat_0 zero_neq_one)
  have c: "copied_bytes ?n \<le> 1024" unfolding copied_bytes_def n using l(4) by simp
  then have d: "disjoint_ranges ?b ?t (copied_bytes ?n)" using l(5) by (simp add: disjoint_ranges_def)
  have byte: "m' (?t + of_nat x) = m (?b + of_nat x)" if "x \<le> unat (load16 m g)" for x
  proof -
    have x: "x < 1024" "x < copied_bytes ?n" using that l(4) copied_bytes_bounds [of ?n] n by linarith+
    have "m' (?t + of_nat x) = p (?t + of_nat x)" unfolding m' by (rule pointer_bytes [OF ranges_apart_nth [OF l(2) x(1)]])
    also have "\<dots> = k (?t + of_nat x)" unfolding p_def by (rule pointer_bytes [OF ranges_apart_nth [OF l(1) x(1)]])
    also have "\<dots> = m (?b + of_nat x)" unfolding k_def by (rule kmemcpy_nth [OF n0 d x(2)])
    finally show ?thesis .
  qed
  show "descriptor_at m' (?t + 8 * of_nat j) = descriptor_at m (?b + 8 * of_nat j)" if j: "8 * j + 7 \<le> unat (load16 m g)"
  proof (rule descriptor_at_cong)
    fix x :: nat assume "x < 8"
    then have "8 * j + x \<le> unat (load16 m g)" using j by simp
    from byte [OF this] show "m' (?t + 8 * of_nat j + of_nat x) = m (?b + 8 * of_nat j + of_nat x)" by (simp add: add.assoc)
  qed
qed

section \<open>The banners\<close>

lemma disp_loop_text:
  assumes "0x0A \<notin> set cs"
  shows "\<exists>m'. \<forall>ds. disp_loop (cs @ ds) ah edi m = disp_loop ds ah (edi + 2 * of_nat (length cs)) m'"
  using assms
proof (induction cs arbitrary: edi m)
  case (Cons c cs)
  then obtain m' where "\<forall>ds. disp_loop (cs @ ds) ah (edi + 2) (m(V_MEM_BASE + edi := c, V_MEM_BASE + edi + 1 := ah)) = disp_loop ds ah (edi + 2 + 2 * of_nat (length cs)) m'"
    by fastforce
  then show ?case using Cons.prems by (intro exI [of _ m']) (simp add: algebra_simps)
qed auto

text \<open>Eighteen line feeds lead to line 18, and in the text behind them the attribute is the high byte of the offset: the banner is not white.\<close>

lemma banners:
  "\<exists>m'. disp_str begin_banner (d\<lparr>cursor_pos := 0\<rparr>) = Inr (d\<lparr>cursor_pos := 3040, vmem := m'\<rparr>)"
  "cursor_pos e = 3040 \<Longrightarrow> \<exists>m'. disp_str end_banner e = Inr (e\<lparr>cursor_pos := 3200, vmem := m'\<rparr>)"
proof -
  let ?t = "ascii (''-----------'' @ [CHR 0x22] @ ''cstart'' @ [CHR 0x22] @ '' begins-----------'')"
  have feeds: "replicate 18 (0x0A :: u8) = [0x0A, 0x0A, 0x0A, 0x0A, 0x0A, 0x0A, 0x0A, 0x0A, 0x0A, 0x0A, 0x0A, 0x0A, 0x0A, 0x0A, 0x0A, 0x0A, 0x0A, 0x0A]" by code_simp
  have "0x0A \<notin> set ?t" by (simp add: ascii_def)
  from disp_loop_text [OF this, of "0x0B" 2880 "vmem d"] obtain m' where "disp_loop (?t @ [0x0A]) 0x0B 2880 (vmem d) = disp_loop [0x0A] 0x0B (2880 + 2 * of_nat (length ?t)) m'" by blast
  moreover have "disp_loop (replicate 18 0x0A @ cs) 0x0F 0 m = disp_loop cs 0x0B 2880 m" for cs m
    unfolding feeds append.simps by simp
  ultimately show "\<exists>m'. disp_str begin_banner (d\<lparr>cursor_pos := 0\<rparr>) = Inr (d\<lparr>cursor_pos := 3040, vmem := m'\<rparr>)"
    by (intro exI [of _ m']) (simp add: disp_str_def disp_color_str_def begin_banner_def ascii_def)
  let ?e = "ascii (''--------------'' @ [CHR 0x22] @ ''cstart'' @ [CHR 0x22] @ '' ends----------------'')"
  have "0x0A \<notin> set ?e" by (simp add: ascii_def)
  from disp_loop_text [OF this, of "0x0F" 3040 "vmem e"] obtain m'' where "disp_loop (?e @ [0x0A]) 0x0F 3040 (vmem e) = disp_loop [0x0A] 0x0F (3040 + 2 * of_nat (length ?e)) m''" by blast
  then show "cursor_pos e = 3040 \<Longrightarrow> \<exists>m'. disp_str end_banner e = Inr (e\<lparr>cursor_pos := 3200, vmem := m'\<rparr>)"
    by (intro exI [of _ m'']) (simp add: disp_str_def disp_color_str_def end_banner_def ascii_def)
qed

section \<open>From the loader to the first process\<close>

lemma cstart_state:
  "\<exists>d. cstart symaddr s = Inr \<lparr>st_kern = (initializeGlobalParameters (st_kern s))\<lparr>kmem := cstart_tables symaddr (kmem (st_kern s))\<rparr>,
    st_idt = snd (init_protect_mode_interrupt_mechanism symaddr (st_idt s)), st_disp = d\<rparr>"
proof -
  from banners(1) [of "st_disp s"] obtain m1 where m1: "disp_str begin_banner ((st_disp s)\<lparr>cursor_pos := 0\<rparr>) = Inr ((st_disp s)\<lparr>cursor_pos := 3040, vmem := m1\<rparr>)" by blast
  let ?e = "(st_disp s)\<lparr>cursor_pos := 3040, vmem := m1\<rparr>"
  let ?p = "ports ?e @ fst (init_protect_mode_interrupt_mechanism symaddr (st_idt s))"
  from banners(2) [of "?e\<lparr>ports := ?p\<rparr>"] obtain m2 where
    m2: "disp_str end_banner (?e\<lparr>ports := ?p\<rparr>) = Inr (?e\<lparr>ports := ?p, cursor_pos := 3200, vmem := m2\<rparr>)" by auto
  show ?thesis unfolding cstart_def Let_def m1 ebind_simps split_beta m2 by (simp add: initializeGlobalParameters_def)
qed

text \<open>
  C17: from the boot loader to the first process. \<open>cstart\<close> returns when the linker's layout is sane; the pointers for \<open>lgdt\<close> and \<open>lidt\<close>
  then name the two tables of the kernel with their full limits, every vector leads to its handler, and when \<open>kernel_main\<close> has run
  the kernel code and data descriptors are those of the loader's table and the data segment of every process has the base that the
  loader gave to the kernel's.
\<close>

theorem cstart_boots:
  assumes "start_layout symaddr m" "m = kmem (st_kern s)" "b = load32 m (symaddr ''gdt_ptr'' + 2)" "23 \<le> unat (load16 m (symaddr ''gdt_ptr''))" "i < nr_proc_table"
  shows "\<exists>s' m' k. cstart symaddr s = Inr s' \<and> m' = kmem (st_kern s') \<and> k = kernel_main symaddr paddr taddr (main_entry symaddr t s')
    \<and> load16 m' (symaddr ''gdt_ptr'') = 1023 \<and> load32 m' (symaddr ''gdt_ptr'' + 2) = symaddr ''gdt''
    \<and> load16 m' (symaddr ''idt_ptr'') = 2047 \<and> load32 m' (symaddr ''idt_ptr'' + 2) = symaddr ''idt''
    \<and> (\<forall>(v, h, dpl) \<in> set idt_entries. gate_offset (st_idt s' v) = symaddr h \<and> gate_dpl (st_idt s' v) = dpl)
    \<and> gdt k 1 = descriptor_at m (b + 8) \<and> gdt k 2 = descriptor_at m (b + 16)
    \<and> ldt_proc_id2base (int i) (kern k) = Inr (ldt_desc_base (descriptor_at m (b + 16)))"
proof -
  from cstart_state [of symaddr s] obtain s' where s': "cstart symaddr s = Inr s'" "kmem (st_kern s') = cstart_tables symaddr m"
    "st_idt s' = snd (init_protect_mode_interrupt_mechanism symaddr (st_idt s))" using assms(2) by auto
  note tab = cstart_tables_ok [OF assms(1)]
  define k where "k = kernel_main symaddr paddr taddr (main_entry symaddr t s')"
  have g: "gdt (main_entry symaddr t s') 1 = descriptor_at m (b + 8)" "gdt (main_entry symaddr t s') 2 = descriptor_at m (b + 16)"
    using tab(5) [of 1] tab(5) [of 2] assms(3,4) by (simp_all add: main_entry_def s'(2))
  then have gk: "gdt k 1 = descriptor_at m (b + 8)" "gdt k 2 = descriptor_at m (b + 16)" by (simp_all add: k_def kernel_main_state del: One_nat_def)
  have "ldt_proc_id2base (int i) (kern k) = Inr (ldt_desc_base (descriptor_at m (b + 16)))"
    using assms(5) g(2) by (simp add: k_def kernel_main_state ldt_proc_id2base_valid)
  moreover have "gate_offset (st_idt s' v) = symaddr h \<and> gate_dpl (st_idt s' v) = dpl" if "(v, h, dpl) \<in> set idt_entries" for v h dpl
    using int_gate_attr [OF that] by (simp add: s'(3) idt_gate [OF that] gate_offset_init)
  ultimately show ?thesis using s' tab(1-4) gk unfolding k_def by (intro exI [of _ s'] exI [of _ "kmem (st_kern s')"] exI [of _ "kernel_main symaddr paddr taddr (main_entry symaddr t s')"]) auto
qed

end
