(* ===== verification/Boot_Examples.thy ===== *)
theory Boot_Examples
  imports Start
begin

text \<open>
  The theorems about the scheduler, message passing and the boot code at a concrete machine: memory is
  zero, the loader's descriptors are flat and \<open>kernel_main\<close> has run. Each example applies one theorem
  at this state or at a state that a few operations reach from it, discharging its hypotheses.
\<close>

section \<open>The machine after boot\<close>

definition zero_process :: process where
  "zero_process = \<lparr>regs = \<lparr>r_gs = 0, r_fs = 0, r_es = 0, r_ds = 0, r_edi = 0, r_esi = 0, r_ebp = 0,
       r_kernel_esp = 0, r_ebx = 0, r_edx = 0, r_ecx = 0, r_eax = 0, r_retaddr = 0, r_eip = 0, r_cs = 0,
       r_eflags = 0, r_esp = 0, r_ss = 0\<rparr>,
     ldt_selector = 0, ldts = (\<lambda>_. \<lparr>limit_low = 0, base_low = 0, base_mid = 0, attr1 = 0, limit_high_attr2 = 0, base_high = 0\<rparr>),
     priority = 0, p_ticks = 0, pid = 0, nr_tty = 0, proc_type = 0, pname = [], p_flags = 0, p_msg = 0,
     p_recvfrom = 0, p_sendto = 0, has_int_msg = False, q_sending = None, next_sending = None, filp = (\<lambda>_. None)\<rparr>"

definition loaded :: boot_state where
  "loaded = \<lparr>kern = \<lparr>procs = (\<lambda>_. zero_process), cur = 0, k_reenter = 0, ticks = 0, kmem = (\<lambda>_. 0), klog = []\<rparr>,
     gdt = (\<lambda>_. init_descriptor 0 0xFFFFF 0xC092
       \<lparr>limit_low = 0, base_low = 0, base_mid = 0, attr1 = 0, limit_high_attr2 = 0, base_high = 0\<rparr>),
     shared_tss = \<lparr>esp0 = 0, ss0 = 0, iobase = 0, tss_rest = 0\<rparr>\<rparr>"

definition booted :: kstate where
  "booted = kern (kernel_main (\<lambda>_. 0) 0x100000 0x90000 loaded)"

lemma booted_fields [simp]:
  "p < nr_proc_table \<Longrightarrow> p_flags (procs booted p) = 0"
  "p < nr_proc_table \<Longrightarrow> p_msg (procs booted p) = 0"
  "p < nr_proc_table \<Longrightarrow> has_int_msg (procs booted p) = False"
  "p < nr_proc_table \<Longrightarrow> lin booted p a = a"
  "p < nr_proc_table \<Longrightarrow> runnable booted p"
  "k_reenter booted = 0" "cur booted = 0"
  by (simp_all add: booted_def kernel_main_state runnable_def lin_def vir2linear_def loaded_def init_process_def
      zero_process_def init_descriptor_fields Let_def)

lemma booted_priority: "p < nr_proc_table \<Longrightarrow>
    priority (procs booted p) = [200, 150, 100, 600, 550, 500, 450] ! p \<and> p_ticks (procs booted p) = priority (procs booted p)"
  using index_cases [of p] by (auto simp: booted_def kernel_main_state vars_at_def NR_PROCS_3)

lemma booted_type: "p < nr_proc_table \<Longrightarrow>
    proc_type (procs booted p) = (if p < NR_PROCS then PROC_TYPE_USER else PROC_TYPE_TASK)"
  by (simp add: booted_def kernel_main_state vars_at_segments)

lemma booted_prio_pos: "p < nr_proc_table \<Longrightarrow> 0 < priority (procs booted p)"
  using booted_priority [of p] index_cases [of p] by auto

lemma pids [simp]: "1 < nr_proc_table" "2 < nr_proc_table" "3 < nr_proc_table" "4 < nr_proc_table" "5 < nr_proc_table"
  by (simp_all add: nr_proc_table_7)

lemma booted_types:
  "proc_type (procs booted 1) = PROC_TYPE_USER" "proc_type (procs booted 4) = PROC_TYPE_TASK"
  using booted_type [OF pids(1)] booted_type [OF pids(4)] by (simp_all add: NR_PROCS_3)

abbreviation idle :: astate where
  "idle \<equiv> (\<lambda>p. status_of (procs booted p), \<lambda>_. [])"

lemma booted_inv: "kernel_inv booted" "refines booted idle" "ipc_inv booted (\<lambda>_. [])"
  using kernel_main_kernel_inv [of "\<lambda>_. 0" "0x100000" "0x90000" loaded]
  by (simp_all add: booted_def refines_def)

lemma booted_sends [simp]: "sends (procs booted) = {}"
  by (auto simp: sends_def)

lemma booted_status [simp]: "p < nr_proc_table \<Longrightarrow> status_of (procs booted p) = Running"
  by (simp add: status_of_def)

theorem kernel_main_establishes_inv_witness:
  "kernel_inv booted \<and> status_of (procs booted 3) = Running"
  using kernel_main_establishes_inv [of "\<lambda>_. 0" "0x100000" "0x90000" loaded]
  unfolding booted_def by (auto dest: bspec [of _ _ 3])


section \<open>The first C function\<close>

text \<open>The loader's table at address 0x8000 holds an empty and two flat descriptors; the kernel's variables lie from 0x30000 on.\<close>

definition loader_memory :: mem where
  "loader_memory = store_bytes 0x8000 [0, 0, 0, 0, 0, 0, 0, 0, 0xFF, 0xFF, 0, 0, 0, 0x9A, 0xCF, 0, 0xFF, 0xFF, 0, 0, 0, 0x92, 0xCF, 0]
     (store_bytes 0x30000 [0x17, 0, 0, 0x80, 0, 0] (\<lambda>_. 0))"

definition linked :: "string \<Rightarrow> u32" where
  "linked name = (if name = ''gdt_ptr'' then 0x30000 else if name = ''idt_ptr'' then 0x30008 else if name = ''gdt'' then 0x30100 else 0x31000)"

lemma loader_table:
  "load16 loader_memory 0x30000 = 0x17" "load32 loader_memory 0x30002 = 0x8000" "ldt_desc_base (descriptor_at loader_memory 0x8010) = 0"
  "start_layout linked loader_memory"
proof -
  show l: "load16 loader_memory 0x30000 = 0x17" "load32 loader_memory 0x30002 = 0x8000" "ldt_desc_base (descriptor_at loader_memory 0x8010) = 0"
    by (simp_all add: load16_def load32_def loader_memory_def descriptor_at_def ldt_desc_base_def)
  show "start_layout linked loader_memory" by (simp add: start_layout_def linked_def ranges_apart_def disjoint_ranges_def l)
qed

definition dark :: display where
  "dark = \<lparr>console_table = (\<lambda>_. \<lparr>current_start_addr = 0, original_addr = 0, v_mem_limit = 0, cursor = 0\<rparr>), current_console = 0, cursor_pos = 0,
     vmem = (\<lambda>_. 0), ports = []\<rparr>"

definition entered_state :: start_state where
  "entered_state = \<lparr>st_kern = (kern loaded)\<lparr>kmem := loader_memory\<rparr>,
     st_idt = (\<lambda>_. \<lparr>offset_low = 0, selector = 0, dcount = 0, attr = 0, offset_high = 0\<rparr>), st_disp = dark\<rparr>"

theorem cstart_boots_witness:
  "\<exists>s'. cstart linked entered_state = Inr s' \<and> load16 (kmem (st_kern s')) 0x30000 = 1023
    \<and> ldt_proc_id2base (int 3) (kern (kernel_main linked 0x100000 0x90000 (main_entry linked (shared_tss loaded) s'))) = Inr 0"
proof -
  have g: "linked ''gdt_ptr'' = 0x30000" by (simp add: linked_def)
  have m: "loader_memory = kmem (st_kern entered_state)" by (simp add: entered_state_def)
  from cstart_boots [OF loader_table(4) m refl _ pids(3), where paddr = "0x100000" and taddr = "0x90000" and t = "shared_tss loaded", unfolded g] loader_table(1-3)
  show ?thesis by fastforce
qed

section \<open>The scheduler and the clock\<close>

lemma booted_candidate: "\<exists>p. candidate booted p"
  using booted_prio_pos [of 3] booted_priority [of 3] by (intro exI [of _ 3]) (simp add: candidate_def)


theorem clock_no_starvation_witness:
  "\<exists>c n s'. clock_run n (booted\<lparr>cur := c\<rparr>) = Some s' \<and> cur s' = 2"
proof -
  from schedule_candidate [OF booted_candidate] obtain c where c: "best booted c" by blast
  have "sched_state (booted\<lparr>cur := c\<rparr>)"
    using c booted_priority booted_prio_pos by (auto simp: sched_state_def runnable_def less_imp_le)
  from clock_no_starvation [OF this, of 2] show ?thesis by auto
qed

section \<open>Messages\<close>

lemma tty_other: "p \<noteq> 3 \<Longrightarrow> \<exists>r. runnable booted r \<and> r \<noteq> p \<and> 0 < priority (procs booted r)"
  using booted_prio_pos [of 3] by (intro exI [of _ 3]) simp

lemma disjoint_example: "disjoint_ranges 0x1000 0 96" "disjoint_ranges 0x1000 0x3000 96"
  by (simp_all add: disjoint_ranges_def)

theorem sys_sendrec_send_witness:
  "\<exists>s'. sys_sendrec SEND (int 4) 2 0x1000 booted = Inr s' \<and> refines s' (a_send 2 4 idle) \<and> runnable s' (cur s')"
proof -
  have "\<exists>s'. sys_sendrec SEND (int 4) 2 0x1000 booted = Inr s' \<and> refines s' (a_send 2 4 idle)
    \<and> (if fst idle 4 = Receiving (int 2) \<or> fst idle 4 = Receiving ANY
       then cur s' = cur booted \<and> load32 (kmem s') (lin booted 4 (p_msg (procs booted 4)) + msg_source) = of_nat 2
         \<and> (\<forall>i \<in> {4..<96}. kmem s' (lin booted 4 (p_msg (procs booted 4)) + of_nat i) = kmem booted (lin booted 2 0x1000 + of_nat i))
       else runnable s' (cur s'))"
    by (rule sys_sendrec_send [OF booted_inv(2)]) (simp_all add: tty_other disjoint_example)
  then show ?thesis by auto
qed

theorem sys_sendrec_receive_witness:
  "\<exists>s'. sys_sendrec RECEIVE ANY 4 0x1000 booted = Inr s' \<and> refines s' (a_receive 4 ANY idle)"
proof -
  have "ANY \<noteq> int 4" by (rule partner_consts(11))
  then show ?thesis
    using sys_sendrec_receive [OF booted_inv(2), of 4 "0x1000" ANY] by (auto simp: tty_other a_pick_def)
qed

theorem inform_int_refines_witness:
  "\<exists>s'. inform_int 0x1000 (int 5) (booted\<lparr>k_reenter := 1, cur := 2\<rparr>) = Inr s' \<and> has_int_msg (procs s' 5)"
proof -
  have "refines (booted\<lparr>k_reenter := 1, cur := 2\<rparr>) idle" using booted_inv(2) by (subst refines_cong [of _ booted]) simp_all
  moreover have "lin (booted\<lparr>k_reenter := 1, cur := 2\<rparr>) p a = lin booted p a" for p a by (simp add: lin_def)
  moreover have "INTERRUPT \<noteq> int 5" by (rule partner_consts(12))
  ultimately show ?thesis
    using inform_int_refines [of "booted\<lparr>k_reenter := 1, cur := 2\<rparr>" idle 5 "0x1000"] by (auto simp: disjoint_example)
qed

section \<open>Reachable states\<close>


theorem kernel_reachable_schedules_witness:
  "\<exists>t. clock_handler booted = Some t \<and> kernel_inv t"
  using kernel_reachable_schedules [OF booted_inv(1) rtranclp.rtrancl_refl] by blast

section \<open>Blocked senders\<close>

text \<open>Process \<open>c\<close> blocks in a send to \<open>d\<close>; \<open>e\<close> is the current process afterwards.\<close>

lemma blocked_sender:
  assumes "c < nr_proc_table" "d < nr_proc_table" "c \<noteq> d" "c \<noteq> 3"
  shows "\<exists>s Q. ipc_inv s Q \<and> cur s = e \<and> k_reenter s = 0 \<and> sends (procs s) = {(c, d)}
    \<and> (\<forall>p < nr_proc_table. p \<noteq> c \<longrightarrow> runnable s p)
    \<and> (\<forall>p < nr_proc_table. 0 < priority (procs s p) \<and> proc_type (procs s p) = proc_type (procs booted p))"
proof -
  have "ipc_ok (procs booted) (\<lambda>_. [])" using booted_inv(3) by (simp add: ipc_inv_def)
  from send_enqueue_ok [OF this assms(1) _ assms(2) assms(3) [symmetric], of 1 3] assms booted_prio_pos [of 3]
  obtain s where s: "send_enqueue c d 1 booted = Inr s" "ipc_ok (procs s) ((\<lambda>_. [])(d := [c]))"
    "sends (procs s) = {(c, d)}" "\<And>i. status_of (procs s i) = (if i = c then Sending d else status_of (procs booted i))"
    by (auto simp: runnable_def)
  from send_enqueue_static [OF s(1)] have st: "same_static booted s" .
  have "acyclic {(c, d)}" using assms(3) by (simp add: acyclic_insert)
  then have "ipc_inv (s\<lparr>cur := e\<rparr>) ((\<lambda>_. [])(d := [c]))" using s by (simp add: ipc_inv_def)
  moreover have "runnable (s\<lparr>cur := e\<rparr>) p" if "p < nr_proc_table" "p \<noteq> c" for p
  proof -
    have "status_of (procs s p) = Running" using s(4) [of p] that by simp
    moreover have "proc_ok (procs s) p" using s(2) that by (simp add: ipc_ok_def)
    ultimately show ?thesis using that by (auto simp: runnable_def proc_ok_def)
  qed
  moreover have "priority (procs s p) = priority (procs booted p)" "proc_type (procs s p) = proc_type (procs booted p)" for p
    using st unfolding same_static_def by (metis static_def prod.inject)+
  moreover have "k_reenter s = 0" using st by (simp add: same_static_def)
  ultimately show ?thesis
    using s(3) booted_prio_pos by (intro exI [of _ "s\<lparr>cur := e\<rparr>"] exI [of _ "(\<lambda>_. [])(d := [c])"]) simp
qed

theorem msg_send_deadlock_halts_witness:
  "\<exists>s msg. cur s = 4 \<and> msg_send 4 (int 2) 0x1000 s = Inl (Halted msg)"
proof -
  obtain s Q where s: "ipc_inv s Q" "cur s = 4" "sends (procs s) = {(2, 4)}" "proc_type (procs s 4) = PROC_TYPE_TASK"
    using blocked_sender [of 2 4 4] booted_types by auto
  then have "(2, 4) \<in> (sends (procs s))\<^sup>+" by auto
  from msg_send_deadlock_halts [OF s(1) _ _ this, of "0x1000"] s show ?thesis by auto
qed


section \<open>Interrupt messages\<close>

lemma refines_has_int: "refines (upd_proc p (\<lambda>q. q\<lparr>has_int_msg := b\<rparr>) s) a \<longleftrightarrow> refines s a"
proof -
  let ?ps = "procs (upd_proc p (\<lambda>q. q\<lparr>has_int_msg := b\<rparr>) s)"
  have f: "p_flags (?ps i) = p_flags (procs s i)" "p_msg (?ps i) = p_msg (procs s i)"
    "p_recvfrom (?ps i) = p_recvfrom (procs s i)" "p_sendto (?ps i) = p_sendto (procs s i)"
    "q_sending (?ps i) = q_sending (procs s i)" "next_sending (?ps i) = next_sending (procs s i)" for i
    by simp_all
  show ?thesis
    unfolding refines_def ipc_inv_def ipc_ok_def proc_ok_def queue_ok_def no_missed_def sending_to_def sends_def
      status_of_def f ..
qed

definition pending :: kstate where
  "pending = upd_proc 5 (\<lambda>q. q\<lparr>has_int_msg := True\<rparr>) booted"

lemma pending_fields:
  "refines pending idle" "p < nr_proc_table \<Longrightarrow> p_flags (procs pending p) = 0" "has_int_msg (procs pending 5)"
  "p_msg (procs pending 5) = 0" "runnable pending 3" "0 < priority (procs pending 3)"
  using booted_inv(2) booted_prio_pos [of 3] by (simp_all add: pending_def refines_has_int runnable_def)

theorem pending_interrupt_copies_null_witness:
  "\<exists>s'. msg_receive 5 INTERRUPT 0x1000 pending = Inr s' \<and> refines s' idle"
  using pending_interrupt_copies_null [OF pending_fields(1), of 5 INTERRUPT "0x1000"] pending_fields
  by auto

theorem receive_with_pending_interrupt_fails_witness:
  "msg_receive 5 (int 4) 0x1000 pending = Inl (Assertion ''ipc.c'' 285)"
  by (rule receive_with_pending_interrupt_fails [of _ "\<lambda>_. []" _ _ _ 3])
    (use pending_fields in \<open>simp_all add: refines_def\<close>)

theorem sys_sendrec_send_any_witness:
  "sys_sendrec SEND ANY 2 0x1000 booted = Inl (Wild ''proc_table'')"
  by (rule sys_sendrec_send_any) simp_all

theorem receive_after_interrupt_fails_witness:
  "\<exists>s s'. inform_int 0x2000 (int 5) s = Inr s' \<and> msg_receive 5 ANY 0x1000 s' = Inl (Assertion ''ipc.c'' 210)"
proof -
  have "a_pick INTERRUPT [] = None" by (simp add: a_pick_def)
  with receive_block_ok [OF booted_inv(3), of 5 "0x1000" INTERRUPT 3] booted_prio_pos [of 3]
  obtain s1 where s1: "receive_block 5 INTERRUPT 0x1000 booted = Inr s1" "ipc_inv s1 (\<lambda>_. [])"
    "\<And>i. status_of (procs s1 i) = (if i = 5 then Receiving INTERRUPT else status_of (procs booted i))" by auto
  have st: "priority (procs s1 p) = priority (procs booted p)" for p
    using s1(1) same_static_priority msg_receive_static [of 5 INTERRUPT "0x1000" booted s1]
    by (simp add: msg_receive_def receive_select_def same_static_priority)
  have ok: "ipc_ok (procs s1) (\<lambda>_. [])" using s1(2) by (simp add: ipc_inv_def)
  have run: "p_flags (procs s1 p) = 0" if "p < nr_proc_table" "p \<noteq> 5" for p
  proof -
    have "proc_ok (procs s1) p" using ok that by (simp add: ipc_ok_def)
    moreover have "status_of (procs s1 p) = Running" using that s1(3) [of p] by simp
    ultimately show ?thesis by (auto simp: proc_ok_def)
  qed
  have five: "p_flags (procs s1 5) = RECEIVING" "p_recvfrom (procs s1 5) = INTERRUPT"
    using s1(3) [of 5] by auto
  have "\<exists>s2 :: kstate. ipc_ok (procs s2) ((\<lambda>_. [])(5 := [2])) \<and> sends (procs s2) = insert (2, 5) (sends (procs s1))
      \<and> (\<forall>i. status_of (procs s2 i) = (if i = 2 then Sending 5 else status_of (procs s1 i)))"
    using send_enqueue_ok [OF ok, of 2 5 1 3] run [of 2] run [of 3] st [of 3] booted_prio_pos [of 3] five
    by (simp add: runnable_def split del: if_split) blast
  then obtain s2 :: kstate where s2: "ipc_ok (procs s2) ((\<lambda>_. [])(5 := [2]))" "sends (procs s2) = insert (2, 5) (sends (procs s1))"
    "\<And>i. status_of (procs s2 i) = (if i = 2 then Sending 5 else status_of (procs s1 i))" by blast
  have "sends (procs s1) = {}"
    using sends_eq [OF ok] queue_member [OF ok] by auto
  with s2 have "refines (s2\<lparr>k_reenter := 1, cur := 4\<rparr>) (\<lambda>i. status_of (procs s2 i), (\<lambda>_. [])(5 := [2]))"
    by (auto simp: refines_def ipc_inv_def acyclic_insert)
  from receive_after_interrupt_fails [OF this, of 5 "0x2000" "0x1000"] s1(3) [of 5] s2(3) [of 5]
  show ?thesis by (auto simp del: split_paired_Ex)
qed

end
