(* ===== verification/Term_Examples.thy ===== *)
theory Term_Examples
  imports Tty Boot_Examples
begin

text \<open>
  The theorems about consoles, terminals and the keyboard at a concrete machine: the terminals after
  \<open>init_tty\<close> on cleared memory, with the boot messages ending on the second line.
\<close>

definition cleared :: terminals where
  "cleared = \<lparr>disp = \<lparr>console_table = (\<lambda>_. \<lparr>current_start_addr = 0, original_addr = 0, v_mem_limit = 0, cursor = 0\<rparr>),
       current_console = 0, cursor_pos = 160, vmem = (\<lambda>_. 0), ports = []\<rparr>,
     tty_table = (\<lambda>_. \<lparr>in_buf = (\<lambda>_. 0), p_in_buf_head = 0, p_in_buf_tail = 0, in_buf_count = 0, p_console = 0\<rparr>),
     kbd = sample_keyboard\<rparr>"

lemma cleared_pre: "unat (cursor_pos (disp cleared)) div 2 < cells" "kb_ring_ok (kbd cleared)"
  by (simp_all add: cleared_def cells_def sample_keyboard_def kb_ring_ok_def ring_ok_def KB_IN_BYTES_def)

definition started :: terminals where
  "started = init_tty cleared"

lemma started_ok: "term_ok started"
  using init_tty_ok [OF cleared_pre] by (simp add: started_def)

lemma consoles [simp]: "0 < NR_CONSOLES" "1 < NR_CONSOLES"
  by (simp_all add: NR_CONSOLES_def)

theorem init_tty_establishes_witness:
  "term_ok (init_tty cleared) \<and> current_console (disp (init_tty cleared)) = 0"
  using init_tty_establishes [OF cleared_pre] by blast

theorem out_char_safe_witness:
  "\<exists>d'. out_char 1 0x41 (disp started) = Some d' \<and> con_ok 1 d'"
proof -
  have "con_ok 1 (disp started)" using started_ok unfolding term_ok_def by (blast intro: consoles)
  from out_char_safe [OF consoles(2) this, of "0x41"] show ?thesis by blast
qed

definition bottom :: display where
  "bottom = (disp cleared)\<lparr>console_table := (\<lambda>_. \<lparr>current_start_addr = of_nat (1 * cells + 80 * 43),
     original_addr = of_nat (1 * cells), v_mem_limit = of_nat cells, cursor = of_nat (1 * cells + 0)\<rparr>)\<rparr>"

theorem scroll_window_overruns_witness:
  "current_start_addr (console_table (scroll_screen 1 SCR_DOWN bottom) 1) + SCREEN_SIZE =
    original_addr (console_table (scroll_screen 1 SCR_DOWN bottom) 1) + v_mem_limit (console_table (scroll_screen 1 SCR_DOWN bottom) 1) + 59"
  by (rule scroll_window_overruns [of 1 0]) (simp_all add: con_at_def bottom_def NR_CONSOLES_def)

theorem task_tty_pass_safe_witness:
  "\<exists>t'. tty_do_write 1 started = Some t' \<and> term_ok t'"
  using task_tty_pass_safe [OF started_ok] consoles(2) by blast

lemma booted_tty: "nr_tty (procs booted 2) = 0"
  by (simp add: booted_def kernel_main_state init_process_def Let_def)

theorem sys_write_confined_witness:
  "\<exists>t'. sys_write booted 0x1000 0xFFFFFFFF 2 started = Some t' \<and> term_ok t'"
proof -
  have "unat (nr_tty (procs booted 2)) = 0" by (simp add: booted_tty)
  from sys_write_confined [OF started_ok this consoles(1), of "0x1000" "0xFFFFFFFF"] show ?thesis by blast
qed

lemma booted_mem: "kmem booted = (\<lambda>_. 0)"
  by (simp add: booted_def kernel_main_mem loaded_def)

lemma started_at: "con_at 0 80 0 (disp started)"
proof -
  have "console_table (disp started) 0 = console_table (init_screen 0 (disp cleared)) 0"
    by (simp add: started_def init_tty_def select_console_ok NR_CONSOLES_def upt_rec init_one_simps
        init_screen_def set_cursor_def Let_def)
  then show ?thesis
    by (simp add: con_at_def init_screen_def set_cursor_def screen_of_nat cleared_def Let_def)
qed

theorem sys_write_text_witness:
  "\<exists>t' l. sys_write booted 0x1000 5 2 started = Some t' \<and> con_at 0 85 l (disp t')"
proof -
  have "\<exists>t' l'. sys_write booted 0x1000 5 2 started = Some t' \<and> con_at 0 (80 + unat (5 :: u32)) l' (disp t')
    \<and> (\<forall>j < unat (5 :: u32). vmem (disp t') (cell_addr 0 (80 + j)) = kmem booted (0x1000 + of_nat j)
         \<and> vmem (disp t') (cell_addr 0 (80 + j) + 1) = DEFAULT_CHAR_COLOR)
    \<and> (\<forall>j < 80. vmem (disp t') (cell_addr 0 j) = vmem (disp started) (cell_addr 0 j))"
    by (rule sys_write_text [OF started_ok _ consoles(1) started_at])
      (simp_all add: booted_tty booted_mem cells_def printable_def)
  then show ?thesis by auto
qed

definition fake_shift :: terminals where
  "fake_shift = started\<lparr>kbd := fold keyboard_handler [0xE0, 0x2A, 0xE0, 0x48] sample_keyboard\<rparr>"

theorem fake_shift_loses_key_witness:
  "\<exists>t' key. keyboard_read 0 fake_shift = Some t' \<and> kb_items (kbd t') = [] \<and> (ucast key :: u8) = 0
    \<and> tty_table t' 0 = put_key key (tty_table fake_shift 0)"
proof -
  have ok: "kb_ring_ok sample_keyboard" "kb_items sample_keyboard = []"
    by (simp_all add: sample_keyboard_def kb_ring_ok_def ring_ok_def KB_IN_BYTES_def kb_items_def ring_items_def)
  have "kb_items (kbd fake_shift) = [0xE0, 0x2A, 0xE0, 0x48]"
    using kb.puts_items [OF ok(1), of "[0xE0, 0x2A, 0xE0, 0x48]"] ok(2) by (simp add: fake_shift_def KB_IN_BYTES_def)
  moreover have "kb_ring_ok (kbd fake_shift)"
    using kb.puts_ok [OF ok(1), of "[0xE0, 0x2A, 0xE0, 0x48]"] by (simp add: fake_shift_def)
  ultimately obtain t' key where "keyboard_read 0 fake_shift = Some t'" "kb_items (kbd t') = []" "(ucast key :: u8) = 0"
    "tty_table t' = (tty_table fake_shift)(0 := put_key key (tty_table fake_shift 0))"
    using fake_shift_loses_key [of fake_shift "0x48" 0] by auto
  then show ?thesis by (intro exI [of _ t'] exI [of _ key]) simp
qed

end
