(* ===== verification/Disk.thy ===== *)
theory Disk
  imports System_Calls
begin

text \<open>
  The hard disk driver of \<^verbatim>\<open>kernel/hd.c\<close>: the encoding of a request into the registers of the controller,
  the partition table, and the transfer of sectors between the disk and the memory of a process.

  The disk is an array of bytes, sector \<open>n\<close> at \<open>512 * n\<close>. Of the controller the model has what the driver
  relies on: the command addresses the sector and the number of sectors that the registers hold (a count of
  0 stands for 256), each sector of the command is transferred through the data port with one interrupt, and
  nothing is transferred after the last one. \<open>ready\<close> says whether the drive answers within the timeout of
  \<open>waitfor\<close>. The driver runs as a task, so its calls of \<open>panic\<close> halt the machine.
\<close>

section \<open>Constants\<close>

definition REG_DEV_CTRL :: u32 where "REG_DEV_CTRL = 0x3F6"
definition REG_FEATURES :: u32 where "REG_FEATURES = 0x1F1"
definition REG_NSECTOR :: u32 where "REG_NSECTOR = 0x1F2"
definition REG_LBA_LOW :: u32 where "REG_LBA_LOW = 0x1F3"
definition REG_LBA_MID :: u32 where "REG_LBA_MID = 0x1F4"
definition REG_LBA_HIGH :: u32 where "REG_LBA_HIGH = 0x1F5"
definition REG_DEVICE :: u32 where "REG_DEVICE = 0x1F6"
definition REG_CMD :: u32 where "REG_CMD = 0x1F7"

definition ATA_IDENTIFY :: u8 where "ATA_IDENTIFY = 0xEC"
definition ATA_READ :: u8 where "ATA_READ = 0x20"
definition ATA_WRITE :: u8 where "ATA_WRITE = 0x30"

definition SECTOR_SIZE :: nat where "SECTOR_SIZE = 512"
definition SECTOR_SIZE_SHIFT :: nat where "SECTOR_SIZE_SHIFT = 9"

definition EXT_PART :: u8 where "EXT_PART = 5"
definition NO_PART :: u8 where "NO_PART = 0"
definition MINOR_hd1a :: int where "MINOR_hd1a = 0x10"
definition PARTITION_TABLE_OFFSET :: nat where "PARTITION_TABLE_OFFSET = 0x1BE"
definition MAX_DRIVES :: int where "MAX_DRIVES = 2"
definition NR_PART_PER_DRIVE :: int where "NR_PART_PER_DRIVE = 4"
definition NR_SUB_PER_PART :: int where "NR_SUB_PER_PART = 16"
definition NR_SUB_PER_DRIVE :: int where "NR_SUB_PER_DRIVE = NR_SUB_PER_PART * NR_PART_PER_DRIVE"
definition NR_PRIM_PER_DRIVE :: int where "NR_PRIM_PER_DRIVE = NR_PART_PER_DRIVE + 1"
definition MAX_PRIM :: int where "MAX_PRIM = MAX_DRIVES * NR_PRIM_PER_DRIVE - 1"
definition MINOR_hd2a :: int where "MINOR_hd2a = MINOR_hd1a + NR_SUB_PER_PART"

definition DEV_OPEN :: int where "DEV_OPEN = 1"
definition DEV_CLOSE :: int where "DEV_CLOSE = 2"
definition DEV_READ :: int where "DEV_READ = 3"
definition DEV_WRITE :: int where "DEV_WRITE = 4"
definition DEV_IOCTL :: int where "DEV_IOCTL = 5"
definition DIOCTL_GET_GEO :: int where "DIOCTL_GET_GEO = 0"

lemmas part_consts = MINOR_hd1a_def MINOR_hd2a_def MAX_DRIVES_def NR_PART_PER_DRIVE_def NR_SUB_PER_PART_def
  NR_SUB_PER_DRIVE_def NR_PRIM_PER_DRIVE_def MAX_PRIM_def
lemmas dev_msg_consts = DEV_OPEN_def DEV_CLOSE_def DEV_READ_def DEV_WRITE_def DEV_IOCTL_def
lemmas reg_consts = REG_DEV_CTRL_def REG_FEATURES_def REG_NSECTOR_def REG_LBA_LOW_def REG_LBA_MID_def
  REG_LBA_HIGH_def REG_DEVICE_def REG_CMD_def

section \<open>State\<close>

record part_info =
  part_base :: u32
  part_size :: u32

record hd_info =
  open_cnt :: int
  primary :: "nat \<Rightarrow> part_info"
  logical :: "nat \<Rightarrow> part_info"

record hd_cmd =
  c_features :: u8
  c_count :: u8
  c_lba_low :: u8
  c_lba_mid :: u8
  c_lba_high :: u8
  c_device :: u8
  c_command :: u8

record part_entry =
  status :: u8
  head_start :: u8
  sector_start_cylinder_start_high :: u8
  cylinder_start_low :: u8
  sys_id :: u8
  head_end :: u8
  sector_end_cylinder_end_high :: u8
  cylinder_end_low :: u8
  lba_start_sector :: u32
  sector_num :: u32

text \<open>The fields of a message that the driver and the file system use.\<close>

record message =
  m_source :: int
  m_type :: int
  m_RETVAL :: int
  m_DEVICE :: int
  m_CNT :: int
  m_PROC_NR :: int
  m_REQUEST :: int
  m_FLAGS :: u32
  m_NAME_LEN :: int
  m_FD :: int
  m_PATHNAME :: u32
  m_POSITION :: u64
  m_BUF :: u32

text \<open>
  The kernel state with the disk, what the drive reports of itself, and the driver's table of the
  partitions of its only drive.
\<close>

record hstate =
  hk :: kstate
  platter :: "nat \<Rightarrow> u8"
  ready :: bool
  ident :: "nat \<Rightarrow> u16"
  hd0 :: hd_info

definition set_kmem :: "(mem \<Rightarrow> mem) \<Rightarrow> hstate \<Rightarrow> hstate" where
  "set_kmem f s = s\<lparr>hk := (hk s)\<lparr>kmem := f (kmem (hk s))\<rparr>\<rparr>"

lemma set_kmem_simps [simp]:
  "kmem (hk (set_kmem f s)) = f (kmem (hk s))" "procs (hk (set_kmem f s)) = procs (hk s)"
  "cur (hk (set_kmem f s)) = cur (hk s)" "platter (set_kmem f s) = platter s" "ready (set_kmem f s) = ready s"
  "ident (set_kmem f s) = ident s" "hd0 (set_kmem f s) = hd0 s"
  by (simp_all add: set_kmem_def)

section \<open>Commands\<close>

text \<open>Minor device numbers: 0 to 9 are primary partitions of two drives, from 16 on logical ones.\<close>

definition DRIVE_OF_DEV :: "int \<Rightarrow> int" where
  "DRIVE_OF_DEV d = (if d \<le> MAX_PRIM then d sdiv NR_PRIM_PER_DRIVE else (d - MINOR_hd1a) sdiv NR_SUB_PER_DRIVE)"

definition MAKE_DEVICE_REG :: "u32 \<Rightarrow> u32 \<Rightarrow> u32 \<Rightarrow> u8" where
  "MAKE_DEVICE_REG lba drv lba_highest = ucast (push_bit 6 lba OR push_bit 4 drv OR (lba_highest AND 0xF) OR 0xA0)"

text \<open>The command that \<open>hd_rdwt\<close> and \<open>get_part_table\<close> fill in.\<close>

definition sector_cmd :: "u32 \<Rightarrow> u8 \<Rightarrow> u32 \<Rightarrow> u8 \<Rightarrow> hd_cmd" where
  "sector_cmd drive count sect_nr command =
     \<lparr>c_features = 0, c_count = count, c_lba_low = ucast (sect_nr AND 0xFF),
      c_lba_mid = ucast (drop_bit 8 sect_nr AND 0xFF), c_lba_high = ucast (drop_bit 16 sect_nr AND 0xFF),
      c_device = MAKE_DEVICE_REG 1 drive (drop_bit 24 sect_nr AND 0xF), c_command = command\<rparr>"

definition hd_cmd_out :: "hd_cmd \<Rightarrow> hstate \<Rightarrow> fault + port_writes" where
  "hd_cmd_out cmd s =
     (if \<not> ready s then Inl (Halted (ascii ''hd error.''))
      else Inr [(REG_DEV_CTRL, 0), (REG_FEATURES, ucast (c_features cmd)), (REG_NSECTOR, ucast (c_count cmd)),
                (REG_LBA_LOW, ucast (c_lba_low cmd)), (REG_LBA_MID, ucast (c_lba_mid cmd)),
                (REG_LBA_HIGH, ucast (c_lba_high cmd)), (REG_DEVICE, ucast (c_device cmd)),
                (REG_CMD, ucast (c_command cmd))])"

text \<open>What the controller makes of the registers: the first sector and the number of sectors.\<close>

definition reg_value :: "u32 \<Rightarrow> port_writes \<Rightarrow> nat" where
  "reg_value p ws = unat (case map_of (rev ws) p of Some v \<Rightarrow> v AND 0xFF | None \<Rightarrow> 0)"

definition ata_lba :: "port_writes \<Rightarrow> nat" where
  "ata_lba ws = reg_value REG_LBA_LOW ws + 2 ^ 8 * reg_value REG_LBA_MID ws + 2 ^ 16 * reg_value REG_LBA_HIGH ws
     + 2 ^ 24 * (reg_value REG_DEVICE ws mod 16)"

definition ata_count :: "port_writes \<Rightarrow> nat" where
  "ata_count ws = (if reg_value REG_NSECTOR ws = 0 then 256 else reg_value REG_NSECTOR ws)"

definition sector_bytes :: "(nat \<Rightarrow> u8) \<Rightarrow> nat \<Rightarrow> u8 list" where
  "sector_bytes p n = map (\<lambda>i. p (512 * n + i)) [0..<512]"

definition put_bytes :: "nat \<Rightarrow> u8 list \<Rightarrow> (nat \<Rightarrow> u8) \<Rightarrow> nat \<Rightarrow> u8" where
  "put_bytes a bs p i = (if a \<le> i \<and> i < a + length bs then bs ! (i - a) else p i)"

section \<open>Transfer\<close>

text \<open>
  The loops of \<open>hd_rdwt\<close>: \<open>n\<close> is the next sector of the command and \<open>left\<close> the number of sectors the
  controller still has to transfer. A read waits for the interrupt of the next sector; a write finds the
  drive not requesting data when there is none, and waits in vain for the interrupt of a sector that it has
  not filled. \<open>kmemcpy\<close> moves whole double words out of the sector buffer.
\<close>

function hd_read_loop :: "(nat \<Rightarrow> u8) \<Rightarrow> nat \<Rightarrow> nat \<Rightarrow> u32 \<Rightarrow> int \<Rightarrow> mem \<Rightarrow> fault + mem" where
  "hd_read_loop p n left la bytes_left m =
     (if bytes_left = 0 then Inr m
      else let bytes = (if int SECTOR_SIZE < bytes_left then int SECTOR_SIZE else bytes_left) in
        if left = 0 then Inl (Blocked ''interrupt'')
        else if bytes < 0 then Inl (Wild ''hdbuf'')
        else hd_read_loop p (n + 1) (left - 1) (la + word_of_int bytes) (bytes_left - bytes)
               (store_bytes la (take (copied_bytes (word_of_int bytes)) (sector_bytes p n)) m))"
  by auto
termination
  by (relation "measure (\<lambda>(p, n, left, la, bytes_left, m). nat bytes_left)") (auto simp: SECTOR_SIZE_def)

function hd_write_loop :: "mem \<Rightarrow> nat \<Rightarrow> nat \<Rightarrow> u32 \<Rightarrow> int \<Rightarrow> (nat \<Rightarrow> u8) \<Rightarrow> fault + (nat \<Rightarrow> u8)" where
  "hd_write_loop m n left la bytes_left p =
     (if bytes_left = 0 then Inr p
      else let bytes = (if int SECTOR_SIZE < bytes_left then int SECTOR_SIZE else bytes_left) in
        if left = 0 then Inl (Halted (ascii ''hd writing error.''))
        else if bytes < 0 then Inl (Wild ''BUF'')
        else if bytes < int SECTOR_SIZE then Inl (Blocked ''interrupt'')
        else hd_write_loop m (n + 1) (left - 1) (la + word_of_int bytes) (bytes_left - bytes)
               (put_bytes (512 * n) (load_bytes m la 512) p))"
  by auto
termination
  by (relation "measure (\<lambda>(m, n, left, la, bytes_left, p). nat bytes_left)") (auto simp: SECTOR_SIZE_def split: if_splits)

declare hd_read_loop.simps [simp del] hd_write_loop.simps [simp del]

text \<open>The first sector of a partition; a minor number below 16 that is no primary partition is out of range.\<close>

definition part_of :: "int \<Rightarrow> hd_info \<Rightarrow> fault + part_info" where
  "part_of device info =
     (if device < MAX_PRIM
      then (if 0 \<le> device \<and> device < NR_PRIM_PER_DRIVE then Inr (primary info (nat device)) else Inl (Wild ''primary''))
      else (let logidx = (device - MINOR_hd1a) smod NR_SUB_PER_DRIVE in
            if 0 \<le> logidx then Inr (logical info (nat logidx)) else Inl (Wild ''logical'')))"

definition hd_rdwt :: "message \<Rightarrow> hstate \<Rightarrow> fault + hstate" where
  "hd_rdwt p s =
     (let drive = DRIVE_OF_DEV (m_DEVICE p); pos = m_POSITION p in
      ebind (asserts ''hd.c'' [(103, drive = 0), (106, drop_bit SECTOR_SIZE_SHIFT pos < 0xFFFFFFFF80000000),
               (109, pos AND 0x1FF = 0)]) (\<lambda>_.
      ebind (part_of (m_DEVICE p) (hd0 s)) (\<lambda>part.
      let sect_nr = ucast (drop_bit SECTOR_SIZE_SHIFT pos) + part_base part;
          count = word_of_int (wrap_int (m_CNT p + int SECTOR_SIZE - 1) sdiv int SECTOR_SIZE);
          cmd = sector_cmd (word_of_int drive) count sect_nr (if m_type p = DEV_READ then ATA_READ else ATA_WRITE) in
      ebind (hd_cmd_out cmd s) (\<lambda>ws.
      ebind (ldt_proc_id2base (m_PROC_NR p) (hk s)) (\<lambda>base.
      let la = vir2linear base (m_BUF p) in
      if m_type p = DEV_READ
      then ebind (hd_read_loop (platter s) (ata_lba ws) (ata_count ws) la (m_CNT p) (kmem (hk s))) (\<lambda>m.
             Inr (set_kmem (\<lambda>_. m) s))
      else ebind (hd_write_loop (kmem (hk s)) (ata_lba ws) (ata_count ws) la (m_CNT p) (platter s)) (\<lambda>q.
             Inr (s\<lparr>platter := q\<rparr>)))))))"

section \<open>Partitions\<close>

definition le32 :: "(nat \<Rightarrow> u8) \<Rightarrow> nat \<Rightarrow> u32" where
  "le32 f i = load32 (\<lambda>a. f (i + unat a)) 0"

definition entry_at :: "(nat \<Rightarrow> u8) \<Rightarrow> nat \<Rightarrow> part_entry" where
  "entry_at f i = \<lparr>status = f i, head_start = f (i + 1), sector_start_cylinder_start_high = f (i + 2),
     cylinder_start_low = f (i + 3), sys_id = f (i + 4), head_end = f (i + 5),
     sector_end_cylinder_end_high = f (i + 6), cylinder_end_low = f (i + 7),
     lba_start_sector = le32 f (i + 8), sector_num = le32 f (i + 12)\<rparr>"

definition get_part_table :: "u32 \<Rightarrow> u32 \<Rightarrow> hstate \<Rightarrow> fault + (nat \<Rightarrow> part_entry)" where
  "get_part_table drive sect_nr s =
     ebind (hd_cmd_out (sector_cmd drive 1 sect_nr ATA_READ) s) (\<lambda>ws.
       Inr (\<lambda>i. entry_at (\<lambda>j. platter s (512 * ata_lba ws + j)) (PARTITION_TABLE_OFFSET + 16 * i)))"

text \<open>The chain of logical partitions in an extended one: at most 16, linked by the second entry of each table.\<close>

fun ext_loop :: "u32 \<Rightarrow> u32 \<Rightarrow> nat \<Rightarrow> hstate \<Rightarrow> nat list \<Rightarrow> u32 \<Rightarrow> hd_info \<Rightarrow> fault + hd_info" where
  "ext_loop drive ext first st [] s info = Inr info"
| "ext_loop drive ext first st (i # is) s info =
     ebind (get_part_table drive s st) (\<lambda>tab.
       let part = \<lparr>part_base = s + lba_start_sector (tab 0), part_size = sector_num (tab 0)\<rparr>;
           info = info\<lparr>logical := (logical info)(first + i := part)\<rparr>;
           s = ext + lba_start_sector (tab 1)
       in if sys_id (tab 1) = NO_PART then Inr info else ext_loop drive ext first st is s info)"

definition partition_extended :: "int \<Rightarrow> hstate \<Rightarrow> hd_info \<Rightarrow> fault + hd_info" where
  "partition_extended device st info =
     (let j = device smod NR_PRIM_PER_DRIVE;
          ext_start_sect = part_base (primary info (nat j));
          nr_1st_sub = (j - 1) * NR_SUB_PER_PART
      in if nr_1st_sub < 0 then Inl (Wild ''logical'')
         else ext_loop (word_of_int (DRIVE_OF_DEV device)) ext_start_sect (nat nr_1st_sub) st
                [0..<nat NR_SUB_PER_PART] ext_start_sect info)"

text \<open>The four entries of the boot sector; the number counts those in use.\<close>

fun prim_loop :: "int \<Rightarrow> hstate \<Rightarrow> (nat \<Rightarrow> part_entry) \<Rightarrow> nat list \<Rightarrow> nat \<Rightarrow> hd_info \<Rightarrow> fault + nat \<times> hd_info" where
  "prim_loop device st tab [] n info = Inr (n, info)"
| "prim_loop device st tab (i # is) n info =
     (if sys_id (tab i) = NO_PART then prim_loop device st tab is n info
      else let dev_nr = i + 1;
               part = \<lparr>part_base = lba_start_sector (tab i), part_size = sector_num (tab i)\<rparr>;
               info = info\<lparr>primary := (primary info)(dev_nr := part)\<rparr>
           in ebind (if sys_id (tab i) = EXT_PART then partition_extended (device + int dev_nr) st info else Inr info)
                (prim_loop device st tab is (n + 1)))"

definition partition :: "int \<Rightarrow> hstate \<Rightarrow> hd_info \<Rightarrow> fault + hd_info" where
  "partition device st info =
     (let drive = word_of_int (DRIVE_OF_DEV device) in
      ebind (get_part_table drive drive st) (\<lambda>tab.
      ebind (prim_loop device st tab [0..<nat NR_PART_PER_DRIVE] 0 info) (\<lambda>(nr_prim_parts, info).
      ebind (asserts ''hd.c'' [(205, nr_prim_parts \<noteq> 0)]) (\<lambda>_. Inr info))))"

text \<open>The size of the disk comes from words 60 and 61 of the identification.\<close>

definition hd_identify :: "u32 \<Rightarrow> hstate \<Rightarrow> fault + hstate" where
  "hd_identify drive s =
     ebind (hd_cmd_out \<lparr>c_features = 0, c_count = 0, c_lba_low = 0, c_lba_mid = 0, c_lba_high = 0,
              c_device = MAKE_DEVICE_REG 0 drive 0, c_command = ATA_IDENTIFY\<rparr> s) (\<lambda>_.
       Inr (s\<lparr>hd0 := (hd0 s)\<lparr>primary := (primary (hd0 s))
              (0 := \<lparr>part_base = 0, part_size = push_bit 16 (ucast (ident s 61)) + ucast (ident s 60)\<rparr>)\<rparr>\<rparr>))"

section \<open>Requests\<close>

definition init_hd :: "u8 \<Rightarrow> hstate \<Rightarrow> fault + hstate" where
  "init_hd nr_drives s =
     ebind (asserts ''hd.c'' [(72, nr_drives \<noteq> 0)]) (\<lambda>_.
       Inr (s\<lparr>hd0 := \<lparr>open_cnt = 0, primary = (\<lambda>_. \<lparr>part_base = 0, part_size = 0\<rparr>),
                       logical = (\<lambda>_. \<lparr>part_base = 0, part_size = 0\<rparr>)\<rparr>\<rparr>))"

definition hd_open :: "int \<Rightarrow> hstate \<Rightarrow> fault + hstate" where
  "hd_open device s =
     (let drive = DRIVE_OF_DEV device in
      ebind (asserts ''hd.c'' [(85, drive = 0)]) (\<lambda>_.
      ebind (hd_identify (word_of_int drive) s) (\<lambda>s.
      let n = open_cnt (hd0 s); s = s\<lparr>hd0 := (hd0 s)\<lparr>open_cnt := n + 1\<rparr>\<rparr> in
      if n = 0
      then ebind (partition (drive * (NR_PART_PER_DRIVE + 1)) s (hd0 s)) (\<lambda>info. Inr (s\<lparr>hd0 := info\<rparr>))
      else Inr s)))"

definition hd_close :: "int \<Rightarrow> hstate \<Rightarrow> fault + hstate" where
  "hd_close device s =
     ebind (asserts ''hd.c'' [(96, DRIVE_OF_DEV device = 0)]) (\<lambda>_.
       Inr (s\<lparr>hd0 := (hd0 s)\<lparr>open_cnt := open_cnt (hd0 s) - 1\<rparr>\<rparr>))"

text \<open>The geometry of a partition is copied to the caller: two double words.\<close>

definition hd_ioctl :: "message \<Rightarrow> hstate \<Rightarrow> fault + hstate" where
  "hd_ioctl p s =
     (if m_REQUEST p = DIOCTL_GET_GEO then
        ebind (ldt_proc_id2base (m_PROC_NR p) (hk s)) (\<lambda>base.
        ebind (if DRIVE_OF_DEV (m_DEVICE p) = 0 then part_of (m_DEVICE p) (hd0 s) else Inl (Wild ''hd_info'')) (\<lambda>part.
        let dest = vir2linear base (m_BUF p) in
        Inr (set_kmem (store32 (dest + 4) (part_size part) \<circ> store32 dest (part_base part)) s)))
      else ebind (asserts ''hd.c'' [(163, False)]) (\<lambda>_. Inr s))"

text \<open>A pass of \<open>task_hd\<close>: the request of a message; the reply is the message itself.\<close>

definition task_hd_request :: "message \<Rightarrow> hstate \<Rightarrow> fault + hstate" where
  "task_hd_request msg s =
     (if m_type msg = DEV_OPEN then hd_open (m_DEVICE msg) s
      else if m_type msg = DEV_CLOSE then hd_close (m_DEVICE msg) s
      else if m_type msg = DEV_READ \<or> m_type msg = DEV_WRITE then hd_rdwt msg s
      else if m_type msg = DEV_IOCTL then hd_ioctl msg s
      else Inl (Halted (ascii ''HD driver unknown message type'')))"

end
