(* ===== verification/Disk_Correct.thy ===== *)
theory Disk_Correct
  imports Disk
begin

text \<open>
  The hard disk driver is correct: the registers address the sector that was asked for, and a request of up
  to 256 sectors moves exactly the bytes of these sectors. A longer request never completes, since the count
  register has eight bits.
\<close>

section \<open>The registers\<close>

lemma and_FF_u8: "(ucast (c :: u8) :: u32) AND 0xFF = ucast c"
proof -
  have "(ucast c :: u32) AND mask 8 = ucast c"
    by (rule bit_word_eqI) (auto simp: bit_simps dest: bit_imp_le_length)
  then show ?thesis by (simp add: mask_eq_exp_minus_1)
qed

lemma unat_ucast_u8: "unat (ucast (c :: u8) :: u32) = unat c"
proof -
  have "unat c < 2 ^ LENGTH(8)" by (rule unsigned_less)
  then have "unat c < 2 ^ 32" by simp
  then show ?thesis by (simp add: unsigned_ucast_eq take_bit_nat_eq_self)
qed

lemma reg_values:
  assumes "hd_cmd_out cmd s = Inr ws"
  shows "reg_value REG_LBA_LOW ws = unat (c_lba_low cmd)" "reg_value REG_LBA_MID ws = unat (c_lba_mid cmd)"
    "reg_value REG_LBA_HIGH ws = unat (c_lba_high cmd)" "reg_value REG_DEVICE ws = unat (c_device cmd)"
    "reg_value REG_NSECTOR ws = unat (c_count cmd)" "reg_value REG_CMD ws = unat (c_command cmd)"
  using assms by (auto simp: hd_cmd_out_def reg_value_def reg_consts and_FF_u8 unat_ucast_u8 split: if_splits)

lemma unat_low_byte: "unat (ucast (w AND 0xFF) :: u8) = unat (w :: u32) mod 256"
proof -
  have "(ucast (w AND 0xFF) :: u8) = ucast (w AND mask 8)" by (simp add: mask_eq_exp_minus_1)
  also have "\<dots> = ucast w" by (rule bit_word_eqI) (auto simp: bit_simps)
  finally have "(ucast (w AND 0xFF) :: u8) = ucast w" .
  then show ?thesis by (simp add: unsigned_ucast_eq take_bit_eq_mod)
qed

lemma bit_A0: "bit (0xA0 :: u32) n \<longleftrightarrow> n = 5 \<or> n = 7"
proof -
  have "(0xA0 :: u32) = set_bit 5 (2 ^ 7)" by (simp add: set_bit_eq_or)
  then show ?thesis by (simp only: bit_set_bit_iff bit_exp_iff) auto
qed

lemma bit_device_reg:
  "bit (MAKE_DEVICE_REG 1 0 h) n \<longleftrightarrow> n = 5 \<or> n = 6 \<or> n = 7 \<or> (n < 4 \<and> bit h n)"
proof -
  have F: "bit (0xF :: u32) n \<longleftrightarrow> n < 4" for n
    using bit_mask_iff [where ?'a = u32, of 4 n] by (auto simp: mask_eq_exp_minus_1)
  have "bit (push_bit 6 (1 :: u32)) n \<longleftrightarrow> n = 6"
    using bit_exp_iff [where ?'a = u32, of 6 n] by (auto simp: push_bit_eq_mult)
  then show ?thesis
    unfolding MAKE_DEVICE_REG_def bit_ucast_iff bit_or_iff bit_and_iff bit_A0 F by auto
qed

lemma device_reg_low: "unat (MAKE_DEVICE_REG 1 0 h) mod 16 = unat h mod 16"
proof -
  have "take_bit 4 (MAKE_DEVICE_REG 1 0 h) = ucast (take_bit 4 h)"
    by (rule bit_word_eqI) (auto simp: bit_device_reg bit_take_bit_iff bit_ucast_iff)
  from arg_cong [OF this, of unat]
  have "take_bit 4 (unat (MAKE_DEVICE_REG 1 0 h)) = take_bit 8 (take_bit 4 (unat h))"
    unfolding unsigned_ucast_eq unsigned_take_bit_eq by simp
  then show ?thesis by (simp add: take_bit_eq_mod)
qed

lemma nat_bytes_split:
  fixes n :: nat
  shows "n mod 256 + 256 * (n div 256 mod 256) + 65536 * (n div 65536 mod 256) + 16777216 * (n div 16777216 mod 16) = n mod 2 ^ 28"
proof -
  have "n mod 2 ^ 28 = n mod 256 + 256 * (n div 256 mod (256 * (256 * 16)))"
    by (simp add: mod_mult2_eq [of n 256 "256 * (256 * 16)", simplified])
  also have "n div 256 mod (256 * (256 * 16)) = 256 * (n div 256 div 256 mod (256 * 16)) + n div 256 mod 256"
    by (rule mod_mult2_eq)
  also have "n div 256 div 256 mod (256 * 16) = 256 * (n div 256 div 256 div 256 mod 16) + n div 256 div 256 mod 256"
    by (rule mod_mult2_eq)
  finally show ?thesis by (simp add: div_mult2_eq [symmetric])
qed

lemma sector_cmd_regs:
  assumes "hd_cmd_out (sector_cmd 0 count sect_nr c) s = Inr ws"
  shows "ata_lba ws = unat sect_nr mod 2 ^ 28 \<and> ata_count ws = (if count = 0 then 256 else unat count)
    \<and> reg_value REG_CMD ws = unat c
    \<and> bit (reg_value REG_DEVICE ws) 6 \<and> \<not> bit (reg_value REG_DEVICE ws) 4"
proof -
  have "reg_value REG_DEVICE ws mod 16 = unat sect_nr div 16777216 mod 16"
    using reg_values(4) [OF assms] device_reg_low [of "drop_bit 24 sect_nr AND 0xF"]
      word_and_mask_mod [of "drop_bit 24 sect_nr" 4]
    by (simp add: sector_cmd_def mask_eq_exp_minus_1 unat_drop_bit_div)
  moreover have "reg_value REG_LBA_LOW ws = unat sect_nr mod 256"
    "reg_value REG_LBA_MID ws = unat sect_nr div 256 mod 256"
    "reg_value REG_LBA_HIGH ws = unat sect_nr div 65536 mod 256"
    using reg_values [OF assms] by (simp_all add: sector_cmd_def unat_low_byte unat_drop_bit_div)
  ultimately have "ata_lba ws = unat sect_nr mod 2 ^ 28"
    using nat_bytes_split [of "unat sect_nr"] by (simp add: ata_lba_def)
  then show ?thesis
    using reg_values [OF assms] bit_device_reg [of "drop_bit 24 sect_nr AND 0xF"]
    by (auto simp: ata_count_def sector_cmd_def unat_eq_zero unsigned_eq_0_iff bit_unsigned_iff)
qed

section \<open>The loops\<close>

lemma store_bytes_append:
  "store_bytes a (xs @ ys) m = store_bytes (a + of_nat (length xs)) ys (store_bytes a xs m)"
  by (induction xs arbitrary: a m) (simp_all add: algebra_simps)

lemma load_bytes_add:
  "load_bytes m a (j + k) = load_bytes m a j @ load_bytes m (a + of_nat j) k"
  by (induction j arbitrary: a) (simp_all add: algebra_simps)

lemma put_bytes_append:
  "put_bytes a (xs @ ys) p = put_bytes (a + length xs) ys (put_bytes a xs p)"
  by (rule ext) (auto simp: put_bytes_def nth_append)

lemma put_bytes_Nil [simp]: "put_bytes a [] p = p"
  by (rule ext) (auto simp: put_bytes_def)

definition disk_bytes :: "(nat \<Rightarrow> u8) \<Rightarrow> nat \<Rightarrow> nat \<Rightarrow> u8 list" where
  "disk_bytes p n k = map p [512 * n..<512 * (n + k)]"

lemma length_disk_bytes [simp]: "length (disk_bytes p n k) = 512 * k"
  by (simp add: disk_bytes_def)

lemma sector_bytes_disk: "sector_bytes p n = disk_bytes p n 1"
  unfolding sector_bytes_def disk_bytes_def
  by (rule nth_equalityI) simp_all

lemma disk_bytes_Suc: "disk_bytes p n (Suc k) = disk_bytes p n 1 @ disk_bytes p (n + 1) k"
proof -
  have "[512 * n..<512 * (n + Suc k)] = [512 * n..<512 * (n + 1)] @ [512 * (n + 1)..<512 * (n + 1 + k)]"
    using upt_add_eq_append [of "512 * n" "512 * (n + 1)" "512 * k"] by (simp add: add.assoc)
  then show ?thesis by (simp add: disk_bytes_def)
qed

lemma disk_bytes_0 [simp]: "disk_bytes p n 0 = []"
  by (simp add: disk_bytes_def)

lemma copied_bytes_512: "copied_bytes 512 = 512"
  by (simp add: copied_bytes_def)

lemma hd_read_loop_sectors:
  "hd_read_loop p n left la (512 * int k) m =
    (if k \<le> left then Inr (store_bytes la (disk_bytes p n k) m) else Inl (Blocked ''interrupt''))"
proof (induction k arbitrary: n left la m)
  case 0
  then show ?case by (subst hd_read_loop.simps) simp
next
  case (Suc k)
  have left: "512 * int (Suc k) - 512 = 512 * int k" by simp
  have bytes: "(if int SECTOR_SIZE < 512 * int (Suc k) then int SECTOR_SIZE else 512 * int (Suc k)) = 512"
    by (simp add: SECTOR_SIZE_def)
  have "hd_read_loop p n left la (512 * int (Suc k)) m =
    (if left = 0 then Inl (Blocked ''interrupt'')
     else hd_read_loop p (n + 1) (left - 1) (la + 512) (512 * int k) (store_bytes la (disk_bytes p n 1) m))"
    by (subst hd_read_loop.simps, unfold bytes Let_def left)
      (simp add: sector_bytes_disk copied_bytes_512)
  then show ?case
    by (auto simp: Suc.IH disk_bytes_Suc [of p n k] store_bytes_append)
qed

lemma hd_write_loop_sectors:
  "hd_write_loop m n left la (512 * int k) p =
    (if k \<le> left then Inr (put_bytes (512 * n) (load_bytes m la (512 * k)) p)
     else Inl (Halted (ascii ''hd writing error.'')))"
proof (induction k arbitrary: n left la p)
  case 0
  then show ?case by (subst hd_write_loop.simps) simp
next
  case (Suc k)
  have left: "512 * int (Suc k) - 512 = 512 * int k" by simp
  have bytes: "(if int SECTOR_SIZE < 512 * int (Suc k) then int SECTOR_SIZE else 512 * int (Suc k)) = 512"
    by (simp add: SECTOR_SIZE_def)
  have "hd_write_loop m n left la (512 * int (Suc k)) p =
    (if left = 0 then Inl (Halted (ascii ''hd writing error.''))
     else hd_write_loop m (n + 1) (left - 1) (la + 512) (512 * int k) (put_bytes (512 * n) (load_bytes m la 512) p))"
    by (subst hd_write_loop.simps, unfold bytes Let_def left) (simp add: SECTOR_SIZE_def)
  moreover have "load_bytes m la (512 * Suc k) = load_bytes m la 512 @ load_bytes m (la + 512) (512 * k)"
    using load_bytes_add [of m la 512 "512 * k"] by (simp add: add.assoc)
  ultimately show ?case
    by (auto simp: Suc.IH put_bytes_append add.commute simp del: load_bytes.simps)
qed

section \<open>Requests\<close>

lemma request_count:
  assumes "0 < k" "k < 2 ^ 22"
  shows "unat (word_of_int (wrap_int (512 * int k + int SECTOR_SIZE - 1) sdiv int SECTOR_SIZE) :: u8) = k mod 256"
proof -
  have "wrap_int (512 * int k + 511) = 512 * int k + 511"
    using assms by (intro wrap_int_id) auto
  moreover have "(512 * int k + 511) sdiv 512 = int k"
    by (simp add: signed_divide_int_def sgn_if)
  moreover have "512 * int k + int SECTOR_SIZE - 1 = 512 * int k + 511" "int SECTOR_SIZE = 512"
    by (simp_all add: SECTOR_SIZE_def)
  ultimately have "wrap_int (512 * int k + int SECTOR_SIZE - 1) sdiv int SECTOR_SIZE = int k"
    by (simp only:)
  then show ?thesis by (simp add: unat_of_nat take_bit_eq_mod)
qed

lemma request_position:
  assumes "n < 2 ^ 31"
  shows "drop_bit 9 (of_nat (512 * n) :: u64) = of_nat n" "(of_nat (512 * n) :: u64) AND 0x1FF = 0"
    "(ucast (of_nat n :: u64) :: u32) = of_nat n" "(of_nat n :: u64) < 0xFFFFFFFF80000000"
proof -
  have u: "unat (of_nat (512 * n) :: u64) = 512 * n" using assms by (intro unat_of_nat_small) simp
  have n: "unat (of_nat n :: u64) = n" using assms by (intro unat_of_nat_small) simp
  show "drop_bit 9 (of_nat (512 * n) :: u64) = of_nat n"
    by (rule word_unat_eq_iff [THEN iffD2], simp only: unat_drop_bit_div u n) simp
  have "(of_nat (512 * n) :: u64) AND mask 9 = word_of_nat (512 * n mod 2 ^ 9)"
    by (simp only: word_and_mask_mod u)
  then show "(of_nat (512 * n) :: u64) AND 0x1FF = 0" by (simp add: mask_eq_exp_minus_1)
  show "(ucast (of_nat n :: u64) :: u32) = of_nat n"
    by (rule word_unat_eq_iff [THEN iffD2]) (simp only: unsigned_ucast_eq n unsigned_of_nat, simp)
  show "(of_nat n :: u64) < 0xFFFFFFFF80000000"
    using assms by (simp add: word_less_nat_alt n)
qed

lemma count_register: "k \<le> (if k mod 256 = 0 then 256 else k mod 256) \<longleftrightarrow> k \<le> (256 :: nat)"
proof (cases "k < 256")
  case False
  then show ?thesis using mod_less_divisor [of 256 k] by (cases "k = 256") (auto simp: not_less)
qed simp

lemma hd_rdwt_eq:
  assumes "ready s" "DRIVE_OF_DEV (m_DEVICE p) = 0" "part_of (m_DEVICE p) (hd0 s) = Inr part"
    and "m_POSITION p = of_nat (512 * n)" "m_CNT p = 512 * int k" "m_PROC_NR p = int q"
    and "0 < k" "unat (part_base part) + n + k \<le> 2 ^ 28" "k < 2 ^ 22" "q < nr_proc_table"
    and lba: "lba = unat (part_base part) + n" and la: "la = lin (hk s) q (m_BUF p)"
  shows "hd_rdwt p s =
    (if m_type p = DEV_READ
     then if k \<le> 256 then Inr (set_kmem (store_bytes la (disk_bytes (platter s) lba k)) s)
          else Inl (Blocked ''interrupt'')
     else if k \<le> 256 then Inr (s\<lparr>platter := put_bytes (512 * lba) (load_bytes (kmem (hk s)) la (512 * k)) (platter s)\<rparr>)
          else Inl (Halted (ascii ''hd writing error.'')))"
proof -
  let ?sect = "of_nat n + part_base part :: u32"
  have n: "n < 2 ^ 31" using assms by simp
  have "unat ?sect = lba" 
    using assms by (subst unat_word_ariths) (simp add: unat_of_nat take_bit_nat_eq_self)
  then have sect: "unat ?sect mod 2 ^ 28 = lba" using assms by simp
  let ?c = "word_of_int (wrap_int (512 * int k + int SECTOR_SIZE - 1) sdiv int SECTOR_SIZE) :: u8"
  define cmd where "cmd = sector_cmd 0 ?c ?sect (if m_type p = DEV_READ then ATA_READ else ATA_WRITE)"
  obtain ws where ws: "hd_cmd_out cmd s = Inr ws" using assms(1) by (simp add: hd_cmd_out_def)
  note rt = sector_cmd_regs [OF ws [unfolded cmd_def]]
  have lba': "ata_lba ws = lba" using rt sect by simp
  have "?c = 0 \<longleftrightarrow> unat ?c = 0" by (simp add: unat_eq_zero)
  then have "ata_count ws = (if k mod 256 = 0 then 256 else k mod 256)"
    using rt request_count [OF assms(7,9)] by auto
  then have cnt: "k \<le> ata_count ws \<longleftrightarrow> k \<le> 256" using count_register by simp
  show ?thesis
    using assms(2-6) request_position [OF n] ws cnt
    by (simp add: hd_rdwt_def SECTOR_SIZE_SHIFT_def cmd_def [symmetric] lba' hd_read_loop_sectors
      hd_write_loop_sectors ldt_proc_id2base_valid [OF assms(10)] la lin_def set_kmem_def)
qed

text \<open>
  The controller is asked for the sector that the driver means. Whatever the 32-bit sector number, the
  registers hold its low 28 bits and the number of sectors modulo 256, and select the first drive in
  LBA mode.
\<close>

theorem sector_cmd_roundtrip:
  assumes "hd_cmd_out (sector_cmd 0 count sect_nr c) s = Inr ws"
  shows "ata_lba ws = unat sect_nr mod 2 ^ 28 \<and> ata_count ws = (if count = 0 then 256 else unat count)
    \<and> reg_value REG_CMD ws = unat c
    \<and> bit (reg_value REG_DEVICE ws) 6 \<and> \<not> bit (reg_value REG_DEVICE ws) 4"
  using assms by (rule sector_cmd_regs)

text \<open>
  C14: a request of 1 to 256 sectors moves exactly the bytes of these sectors of the partition: a read puts
  them into the buffer of the process that the message names and changes nothing else, a write
  replaces them on the disk by the bytes of the buffer.
\<close>

theorem hd_rdwt_transfers:
  assumes "ready s" "DRIVE_OF_DEV (m_DEVICE p) = 0" "part_of (m_DEVICE p) (hd0 s) = Inr part"
    and "m_POSITION p = of_nat (512 * n)" "m_CNT p = 512 * int k" "m_PROC_NR p = int q" "q < nr_proc_table"
    and "0 < k" "k \<le> 256" "unat (part_base part) + n + k \<le> 2 ^ 28"
  shows "hd_rdwt p s =
    (if m_type p = DEV_READ
     then Inr (set_kmem (store_bytes (lin (hk s) q (m_BUF p)) (disk_bytes (platter s) (unat (part_base part) + n) k)) s)
     else Inr (s\<lparr>platter := put_bytes (512 * (unat (part_base part) + n))
                (load_bytes (kmem (hk s)) (lin (hk s) q (m_BUF p)) (512 * k)) (platter s)\<rparr>))"
  using assms by (subst hd_rdwt_eq [OF assms(1-6)]) auto

text \<open>
  C32: a request of more than 256 sectors never completes. The count register has only eight bits, so the
  drive transfers fewer sectors than the driver waits for: a read blocks for ever, a write
  halts the machine when the drive does not ask for more data.
\<close>

theorem hd_rdwt_long_request:
  assumes "ready s" "DRIVE_OF_DEV (m_DEVICE p) = 0" "part_of (m_DEVICE p) (hd0 s) = Inr part"
    and "m_POSITION p = of_nat (512 * n)" "m_CNT p = 512 * int k" "m_PROC_NR p = int q" "q < nr_proc_table"
    and "256 < k" "unat (part_base part) + n + k \<le> 2 ^ 28" "k < 2 ^ 22"
  shows "hd_rdwt p s = Inl (if m_type p = DEV_READ then Blocked ''interrupt'' else Halted (ascii ''hd writing error.''))"
  using assms by (subst hd_rdwt_eq [OF assms(1-6)]) auto

section \<open>The partition table\<close>

definition table_at :: "(nat \<Rightarrow> u8) \<Rightarrow> u32 \<Rightarrow> nat \<Rightarrow> part_entry" where
  "table_at p sect i = entry_at (\<lambda>j. p (512 * (unat sect mod 2 ^ 28) + j)) (PARTITION_TABLE_OFFSET + 16 * i)"

lemma get_part_table_ready: "ready s \<Longrightarrow> get_part_table 0 sect s = Inr (table_at (platter s) sect)"
  using sector_cmd_regs [of 1 sect ATA_READ s]
  by (auto simp: get_part_table_def hd_cmd_out_def table_at_def fun_eq_iff)

definition entry_part :: "part_entry \<Rightarrow> part_info" where
  "entry_part e = \<lparr>part_base = lba_start_sector e, part_size = sector_num e\<rparr>"

lemma ext_loop_frame:
  assumes "ready st"
  shows "\<exists>info'. ext_loop 0 ext first st is s info = Inr info' \<and> primary info' = primary info
    \<and> open_cnt info' = open_cnt info \<and> (\<forall>j. j \<notin> (+) first ` set is \<longrightarrow> logical info' j = logical info j)"
proof (induction "is" arbitrary: s info)
  case (Cons i "is")
  let ?info = "info\<lparr>logical := (logical info)(first + i := \<lparr>part_base = s + lba_start_sector (table_at (platter st) s 0),
    part_size = sector_num (table_at (platter st) s 0)\<rparr>)\<rparr>"
  from Cons [of "ext + lba_start_sector (table_at (platter st) s 1)" ?info] show ?case
    by (auto simp: get_part_table_ready [OF assms] Let_def)
qed simp

lemma partition_extended_ok:
  assumes "ready st" "i < 4"
  shows "\<exists>info'. partition_extended (int (i + 1)) st info = Inr info' \<and> primary info' = primary info
    \<and> open_cnt info' = open_cnt info \<and> (\<forall>j. j \<notin> {16 * i..<16 * i + 16} \<longrightarrow> logical info' j = logical info j)
    \<and> logical info' (16 * i) =
       (let ext = part_base (primary info (i + 1)); e = table_at (platter st) ext 0
        in \<lparr>part_base = ext + lba_start_sector e, part_size = sector_num e\<rparr>)"
proof -
  define ext where "ext = part_base (primary info (i + 1))"
  define info1 where "info1 = info\<lparr>logical := (logical info)(16 * i + 0 :=
    \<lparr>part_base = ext + lba_start_sector (table_at (platter st) ext 0), part_size = sector_num (table_at (platter st) ext 0)\<rparr>)\<rparr>"
  have dev: "int (i + 1) smod NR_PRIM_PER_DRIVE = int (i + 1)" "DRIVE_OF_DEV (int (i + 1)) = 0"
    "(int (i + 1) - 1) * NR_SUB_PER_PART = int (16 * i)" "nat NR_SUB_PER_PART = 16"
    using assms(2) by (auto simp: part_consts DRIVE_OF_DEV_def signed_modulo_int_def signed_divide_int_def sgn_if)
  have upt: "[0..<16] = 0 # [1..<16]" by (simp add: upt_rec)
  have "partition_extended (int (i + 1)) st info = ext_loop 0 ext (16 * i) st [0..<16] ext info"
    unfolding partition_extended_def Let_def dev by (simp add: ext_def nat_add_distrib nat_mult_distrib)
  also have "\<dots> = (if sys_id (table_at (platter st) ext 1) = NO_PART then Inr info1
      else ext_loop 0 ext (16 * i) st [1..<16] (ext + lba_start_sector (table_at (platter st) ext 1)) info1)"
    unfolding upt by (simp add: get_part_table_ready [OF assms(1)] info1_def Let_def)
  finally have eq: "partition_extended (int (i + 1)) st info = \<dots>" .
  have "(+) (16 * i) ` set [1..<16] = {16 * i + 1..<16 * i + 16}" by (simp add: add.commute)
  then obtain info' where info': "ext_loop 0 ext (16 * i) st [1..<16] (ext + lba_start_sector (table_at (platter st) ext 1)) info1 = Inr info'"
    "primary info' = primary info1" "open_cnt info' = open_cnt info1"
    "\<And>j. j \<notin> {16 * i + 1..<16 * i + 16} \<Longrightarrow> logical info' j = logical info1 j"
    using ext_loop_frame [OF assms(1), of ext "16 * i" "[1..<16]" "ext + lba_start_sector (table_at (platter st) ext 1)" info1]
    by auto
  have i1: "primary info1 = primary info" "open_cnt info1 = open_cnt info"
    "\<And>j. j \<noteq> 16 * i \<Longrightarrow> logical info1 j = logical info j"
    "logical info1 (16 * i) = \<lparr>part_base = ext + lba_start_sector (table_at (platter st) ext 0),
       part_size = sector_num (table_at (platter st) ext 0)\<rparr>"
    by (simp_all add: info1_def)
  show ?thesis
  proof (cases "sys_id (table_at (platter st) ext 1) = NO_PART")
    case True
    with i1 show ?thesis unfolding eq ext_def [symmetric] Let_def by (intro exI [of _ info1]) auto
  next
    case False
    with i1 info' show ?thesis unfolding eq ext_def [symmetric] Let_def by (intro exI [of _ info']) auto
  qed
qed

lemma prim_loop_ok:
  assumes "ready st" "set is \<subseteq> {..<4}" "distinct is"
  shows "\<exists>info'. prim_loop 0 st tab is n info =
      Inr (n + length (filter (\<lambda>i. sys_id (tab i) \<noteq> NO_PART) is), info')
    \<and> open_cnt info' = open_cnt info
    \<and> (\<forall>j. primary info' j = (if \<exists>i \<in> set is. j = i + 1 \<and> sys_id (tab i) \<noteq> NO_PART
                               then entry_part (tab (j - 1)) else primary info j))
    \<and> (\<forall>i \<in> set is. sys_id (tab i) = EXT_PART \<longrightarrow> logical info' (16 * i) =
         (let ext = lba_start_sector (tab i); e = table_at (platter st) ext 0
          in \<lparr>part_base = ext + lba_start_sector e, part_size = sector_num e\<rparr>))
    \<and> (\<forall>j. (\<forall>i \<in> set is. sys_id (tab i) = EXT_PART \<longrightarrow> j \<notin> {16 * i..<16 * i + 16}) \<longrightarrow> logical info' j = logical info j)"
  using assms(2,3)
proof (induction "is" arbitrary: n info)
  case (Cons i "is")
  note IH = Cons.IH [OF _ distinct_tl [OF Cons.prems(2), simplified]]
  show ?case
  proof (cases "sys_id (tab i) = NO_PART")
    case True
    then show ?thesis using IH [of n info] Cons.prems by (auto simp: NO_PART_def EXT_PART_def)
  next
    case False
    let ?info = "info\<lparr>primary := (primary info)(i + 1 := entry_part (tab i))\<rparr>"
    have "\<exists>i2. (if sys_id (tab i) = EXT_PART then partition_extended (0 + int (i + 1)) st ?info else Inr ?info) = Inr i2
      \<and> primary i2 = primary ?info \<and> open_cnt i2 = open_cnt info
      \<and> (\<forall>j. \<not> (sys_id (tab i) = EXT_PART \<and> j \<in> {16 * i..<16 * i + 16}) \<longrightarrow> logical i2 j = logical info j)
      \<and> (sys_id (tab i) = EXT_PART \<longrightarrow> logical i2 (16 * i) =
         (let ext = lba_start_sector (tab i); e = table_at (platter st) ext 0
          in \<lparr>part_base = ext + lba_start_sector e, part_size = sector_num e\<rparr>))"
      using partition_extended_ok [OF assms(1), of i ?info] Cons.prems(1) by (auto simp: entry_part_def)
    then obtain i2 where i2: "(if sys_id (tab i) = EXT_PART then partition_extended (0 + int (i + 1)) st ?info else Inr ?info) = Inr i2"
      "primary i2 = primary ?info" "open_cnt i2 = open_cnt info"
      "\<And>j. \<not> (sys_id (tab i) = EXT_PART \<and> j \<in> {16 * i..<16 * i + 16}) \<Longrightarrow> logical i2 j = logical info j"
      "sys_id (tab i) = EXT_PART \<Longrightarrow> logical i2 (16 * i) =
         (let ext = lba_start_sector (tab i); e = table_at (platter st) ext 0
          in \<lparr>part_base = ext + lba_start_sector e, part_size = sector_num e\<rparr>)"
      by blast
    have eq: "prim_loop 0 st tab (i # is) n info = prim_loop 0 st tab is (n + 1) i2"
      using False i2(1) unfolding prim_loop.simps Let_def entry_part_def by (simp only: if_False ebind_simps)
    obtain i3 where i3: "prim_loop 0 st tab is (n + 1) i2 =
        Inr (n + 1 + length (filter (\<lambda>i. sys_id (tab i) \<noteq> NO_PART) is), i3)" "open_cnt i3 = open_cnt i2"
      "\<And>j. primary i3 j = (if \<exists>i \<in> set is. j = i + 1 \<and> sys_id (tab i) \<noteq> NO_PART
                               then entry_part (tab (j - 1)) else primary i2 j)"
      "\<And>i. i \<in> set is \<Longrightarrow> sys_id (tab i) = EXT_PART \<Longrightarrow> logical i3 (16 * i) =
         (let ext = lba_start_sector (tab i); e = table_at (platter st) ext 0
          in \<lparr>part_base = ext + lba_start_sector e, part_size = sector_num e\<rparr>)"
      "\<And>j. (\<forall>i \<in> set is. sys_id (tab i) = EXT_PART \<longrightarrow> j \<notin> {16 * i..<16 * i + 16}) \<Longrightarrow> logical i3 j = logical i2 j"
      using IH [of "n + 1" i2] Cons.prems(1) by auto
    have "logical i3 (16 * i) = logical i2 (16 * i)"
    proof (rule i3(5), intro ballI impI)
      fix k
      assume "k \<in> set is"
      with Cons.prems(2) have "k \<noteq> i" by auto
      then show "16 * i \<notin> {16 * k..<16 * k + 16}" by auto
    qed
    with i3 i2 False eq show ?thesis by (intro exI [of _ i3]) auto
  qed
qed simp

text \<open>
  C28: opening the drive for the first time reads the partition table. Every used entry of the boot sector
  becomes a primary partition; the first logical partition of an extended one is relative to the
  start of the extended one, where its table is; no slot of another partition and nothing outside of the tables
  changes. The open fails exactly when all four entries are unused.
\<close>

theorem hd_open_partitions:
  assumes "ready s" "DRIVE_OF_DEV d = 0" "open_cnt (hd0 s) = 0" and tab: "tab = table_at (platter s) 0"
  shows "if \<forall>i \<in> {..<4}. sys_id (tab i) = NO_PART then hd_open d s = Inl (Assertion ''hd.c'' 205)
    else \<exists>info. hd_open d s = Inr (s\<lparr>hd0 := info\<rparr>) \<and> open_cnt info = 1
      \<and> (\<forall>i \<in> {..<4}. sys_id (tab i) \<noteq> NO_PART \<longrightarrow> primary info (i + 1) = entry_part (tab i))
      \<and> (\<forall>i \<in> {..<4}. sys_id (tab i) = EXT_PART \<longrightarrow> logical info (16 * i) =
           (let ext = lba_start_sector (tab i); e = table_at (platter s) ext 0
            in \<lparr>part_base = ext + lba_start_sector e, part_size = sector_num e\<rparr>))
      \<and> (\<forall>j \<in> {5..}. primary info j = primary (hd0 s) j) \<and> (\<forall>j \<in> {64..}. logical info j = logical (hd0 s) j)"
proof -
  obtain h where h: "hd_identify 0 s = Inr (s\<lparr>hd0 := h\<rparr>)" "open_cnt h = 0" "logical h = logical (hd0 s)"
    "\<And>j. j \<noteq> 0 \<Longrightarrow> primary h j = primary (hd0 s) j"
    using assms(1,3) by (auto simp: hd_identify_def hd_cmd_out_def)
  let ?h = "h\<lparr>open_cnt := 1\<rparr>" and ?s = "s\<lparr>hd0 := h\<lparr>open_cnt := 1\<rparr>\<rparr>"
  have upt: "[0..<nat NR_PART_PER_DRIVE] = [0, 1, 2, 3]" by (simp add: part_consts upt_rec)
  have r: "ready ?s" using assms(1) by simp
  let ?n = "length (filter (\<lambda>i. sys_id (tab i) \<noteq> NO_PART) [0, 1, 2, 3])"
  have set4: "set [0, 1, 2, 3 :: nat] = {..<4}" by auto
  have h3: "logical ?h = logical (hd0 s)" "primary ?h = primary h" "open_cnt ?h = 1" "platter ?s = platter s"
    by (simp_all add: h(3))
  obtain info where info: "prim_loop 0 ?s tab [0, 1, 2, 3] 0 ?h = Inr (?n, info)" "open_cnt info = 1"
    "\<And>j. primary info j = (if \<exists>i \<in> {..<4}. j = i + 1 \<and> sys_id (tab i) \<noteq> NO_PART
                               then entry_part (tab (j - 1)) else primary h j)"
    "\<forall>i \<in> {..<4}. sys_id (tab i) = EXT_PART \<longrightarrow> logical info (16 * i) =
         (let ext = lba_start_sector (tab i); e = table_at (platter s) ext 0
          in \<lparr>part_base = ext + lba_start_sector e, part_size = sector_num e\<rparr>)"
    "\<And>j. (\<forall>i \<in> {..<4}. sys_id (tab i) = EXT_PART \<longrightarrow> j \<notin> {16 * i..<16 * i + 16}) \<Longrightarrow> logical info j = logical (hd0 s) j"
    using prim_loop_ok [OF r, of "[0, 1, 2, 3]" tab 0 ?h] unfolding set4 h3 add_0 by fastforce
  have "\<forall>i \<in> {..<4}. sys_id (tab i) \<noteq> NO_PART \<longrightarrow> primary info (i + 1) = entry_part (tab i)"
    unfolding info(3) by simp
  moreover have "\<forall>j \<in> {5..}. primary info j = primary (hd0 s) j" unfolding info(3) using h(4) by auto
  moreover have "\<forall>j \<in> {64..}. logical info j = logical (hd0 s) j" by (auto intro!: info(5))
  ultimately have spec: "\<exists>info'. Inr (s\<lparr>hd0 := info\<rparr>) = (Inr (s\<lparr>hd0 := info'\<rparr>) :: fault + hstate) \<and> open_cnt info' = 1
      \<and> (\<forall>i \<in> {..<4}. sys_id (tab i) \<noteq> NO_PART \<longrightarrow> primary info' (i + 1) = entry_part (tab i))
      \<and> (\<forall>i \<in> {..<4}. sys_id (tab i) = EXT_PART \<longrightarrow> logical info' (16 * i) =
           (let ext = lba_start_sector (tab i); e = table_at (platter s) ext 0
            in \<lparr>part_base = ext + lba_start_sector e, part_size = sector_num e\<rparr>))
      \<and> (\<forall>j \<in> {5..}. primary info' j = primary (hd0 s) j) \<and> (\<forall>j \<in> {64..}. logical info' j = logical (hd0 s) j)"
    using info(2,4) by blast
  have "hd_open d s = ebind (partition 0 ?s ?h) (\<lambda>info. Inr (s\<lparr>hd0 := info\<rparr>))"
    using assms(2) h by (simp add: hd_open_def Let_def)
  moreover have "partition 0 ?s ?h = ebind (asserts ''hd.c'' [(205, ?n \<noteq> 0)]) (\<lambda>_. Inr info)"
    using get_part_table_ready [OF r, of 0] info(1)
    by (simp add: partition_def DRIVE_OF_DEV_def part_consts tab [symmetric] upt [unfolded part_consts, simplified])
  ultimately have eq: "hd_open d s = (if ?n \<noteq> 0 then Inr (s\<lparr>hd0 := info\<rparr>) else Inl (Assertion ''hd.c'' 205))"
    by (cases "?n = 0"; simp only: asserts.simps ebind_simps if_True if_False simp_thms)
  have n: "?n = 0 \<longleftrightarrow> (\<forall>i \<in> {..<4}. sys_id (tab i) = NO_PART)"
    unfolding set4 [symmetric] by (simp add: filter_empty_conv)
  show ?thesis
  proof (cases "\<forall>i \<in> {..<4}. sys_id (tab i) = NO_PART")
    case True
    then have "?n = 0" using n by blast
    then have "hd_open d s = Inl (Assertion ''hd.c'' 205)" unfolding eq by (intro if_not_P) blast
    then show ?thesis unfolding if_P [OF True] .
  next
    case False
    then have "?n \<noteq> 0" using n by blast
    then have "hd_open d s = Inr (s\<lparr>hd0 := info\<rparr>)" unfolding eq by (intro if_P) blast
    with spec show ?thesis unfolding if_not_P [OF False] by (simp only:)
  qed
qed

end
