(* ===== verification/Fs_Base.thy ===== *)
theory Fs_Base
  imports Disk_Correct
begin

text \<open>
  The data of the file system of \<^verbatim>\<open>include/fs.h\<close> and its access to the disk: requests to the driver of a
  device (\<open>rw_sector\<close> of \<^verbatim>\<open>fs/fs.c\<close>), the sector buffer \<open>fsbuf\<close>, and the super blocks.

  The exchange of messages with the driver is a call of the driver's request function: the theorems on
  \<open>sys_sendrec\<close> describe the exchange itself. The driver of the terminals never receives a message, so a
  request to it blocks for ever. A pointer into \<open>inode_table\<close> or \<open>f_desc_table\<close> is an index; a field of type
  \<open>int\<close> that counts or names something is an integer. The file system is a task, so \<open>panic\<close> halts the machine.
\<close>

section \<open>Constants\<close>

definition MAGIC_V1 :: u32 where "MAGIC_V1 = 0x111"
definition MAX_FILENAME_LEN :: nat where "MAX_FILENAME_LEN = 12"
definition ROOT_INODE :: int where "ROOT_INODE = 1"
definition I_TYPE_MASK :: u32 where "I_TYPE_MASK = 0x170000"
definition I_REGULAR :: u32 where "I_REGULAR = 0x100000"
definition I_DIRECTORY :: u32 where "I_DIRECTORY = 0x040000"
definition I_CHAR_SPECIAL :: u32 where "I_CHAR_SPECIAL = 0x020000"
definition NR_FILES :: nat where "NR_FILES = 10"
definition NR_FILE_DESC :: nat where "NR_FILE_DESC = 256"
definition NR_INODE :: nat where "NR_INODE = 4096"
definition NR_SUPER_BLOCK :: nat where "NR_SUPER_BLOCK = 8"
definition MAX_PATH :: int where "MAX_PATH = 64"
definition O_CREAT :: u32 where "O_CREAT = 1"
definition O_RDWR :: u32 where "O_RDWR = 2 OR 4"
definition INVALID_INODE :: u32 where "INVALID_INODE = 0"
definition NR_DEFAULT_FILE_SECTS :: int where "NR_DEFAULT_FILE_SECTS = 2048"
definition INODE_SIZE :: nat where "INODE_SIZE = 32"
definition DIR_ENTRY_SIZE :: nat where "DIR_ENTRY_SIZE = 16"
definition NO_DEV :: int where "NO_DEV = 0"
definition DEV_HD :: int where "DEV_HD = 3"
definition DEV_CHAR_TTY :: int where "DEV_CHAR_TTY = 4"
definition FSBUF :: u32 where "FSBUF = 0x600000"
definition FSBUF_SIZE :: int where "FSBUF_SIZE = 0x100000"

definition MAKE_DEV :: "int \<Rightarrow> int \<Rightarrow> int" where "MAKE_DEV a b = a * 2 ^ 8 + b mod 2 ^ 8"
definition MAJOR :: "int \<Rightarrow> int" where "MAJOR x = x div 2 ^ 8 mod 2 ^ 8"
definition MINOR :: "int \<Rightarrow> int" where "MINOR x = x mod 2 ^ 8"
definition ROOT_DEV :: int where "ROOT_DEV = MAKE_DEV DEV_HD MINOR_hd2a"

section \<open>State\<close>

record super_block =
  magic :: u32
  nr_inodes :: u32
  nr_sectors :: u32
  nr_imap_sectors :: u32
  nr_smap_sectors :: u32
  n_1st_sector :: u32
  nr_inode_sectors :: u32
  sb_root_inode :: u32
  inode_size :: u32
  inode_isize_off :: u32
  inode_start_off :: u32
  dir_ent_size :: u32
  dir_ent_inode_off :: u32
  dir_ent_fname_off :: u32
  sb_dev :: int

record inode =
  i_mode :: u32
  i_size :: u32
  i_start_sector :: u32
  i_nr_sectors :: u32
  i_dev :: int
  i_cnt :: int
  i_num :: int

record file_desc =
  fd_mode :: u32
  fd_pos :: int
  fd_inode :: "nat option"

record fstate =
  hs :: hstate
  inode_table :: "nat \<Rightarrow> inode"
  f_desc_table :: "nat \<Rightarrow> file_desc"
  super_blocks :: "nat \<Rightarrow> super_block"
  root_inode :: "nat option"
  fs_msg :: message
  pcaller :: nat

abbreviation fmem :: "fstate \<Rightarrow> mem" where "fmem s \<equiv> kmem (hk (hs s))"

definition upd_mem :: "(mem \<Rightarrow> mem) \<Rightarrow> fstate \<Rightarrow> fstate" where
  "upd_mem f s = s\<lparr>hs := set_kmem f (hs s)\<rparr>"

definition upd_inode :: "nat \<Rightarrow> (inode \<Rightarrow> inode) \<Rightarrow> fstate \<Rightarrow> fstate" where
  "upd_inode p f s = s\<lparr>inode_table := (inode_table s)(p := f (inode_table s p))\<rparr>"

text \<open>The sector buffer: \<open>fsbuf\<close> is an address of the file system's own segment.\<close>

definition fsb :: "fstate \<Rightarrow> u32" where
  "fsb s = lin (hk (hs s)) TASK_FS FSBUF"

definition buf :: "fstate \<Rightarrow> u8 list" where
  "buf s = load_bytes (fmem s) (fsb s) 512"

definition set_buf :: "u8 list \<Rightarrow> fstate \<Rightarrow> fstate" where
  "set_buf bs s = upd_mem (store_bytes (fsb s) bs) s"

section \<open>Requests to a driver\<close>

definition dev_drv_map :: "int list" where
  "dev_drv_map = [0, 0, 0, int TASK_HD, int TASK_TTY, 0]"

text \<open>The assertion that the device has a driver, at the given line of \<^verbatim>\<open>fs.c\<close>, and the request to it.\<close>

definition call_driver :: "nat \<Rightarrow> int \<Rightarrow> message \<Rightarrow> fstate \<Rightarrow> fault + fstate" where
  "call_driver line dev msg s =
     (if int (length dev_drv_map) \<le> MAJOR dev then Inl (Wild ''dev_drv_map'')
      else let handler = dev_drv_map ! nat (MAJOR dev) in
        ebind (asserts ''fs.c'' [(line, handler \<noteq> 0)]) (\<lambda>_.
          if handler = int TASK_HD
          then ebind (task_hd_request msg (hs s)) (\<lambda>h. Inr (s\<lparr>hs := h\<rparr>))
          else Inl (Blocked ''TASK_TTY'')))"

text \<open>The request to move sectors between a device and \<open>fsbuf\<close>, made at the given line.\<close>

definition rw_request :: "nat \<Rightarrow> int \<Rightarrow> int \<Rightarrow> u64 \<Rightarrow> int \<Rightarrow> fstate \<Rightarrow> fault + fstate" where
  "rw_request line io_type dev pos bytes s =
     call_driver line dev
       \<lparr>m_source = int TASK_FS, m_type = io_type, m_RETVAL = 0, m_DEVICE = MINOR dev, m_CNT = bytes,
        m_PROC_NR = int TASK_FS, m_REQUEST = 0, m_FLAGS = 0, m_NAME_LEN = 0, m_FD = 0, m_PATHNAME = 0,
        m_POSITION = pos, m_BUF = FSBUF\<rparr> s"

definition rw_sector :: "int \<Rightarrow> int \<Rightarrow> u64 \<Rightarrow> int \<Rightarrow> fstate \<Rightarrow> fault + fstate" where
  "rw_sector = rw_request 67"

text \<open>The position of an \<open>int\<close> sector number: the product is an \<open>int\<close> and is extended with its sign.\<close>

definition sect_pos :: "int \<Rightarrow> u64" where
  "sect_pos n = word_of_int (wrap_int (n * int SECTOR_SIZE))"

definition RD_SECT :: "int \<Rightarrow> int \<Rightarrow> fstate \<Rightarrow> fault + fstate" where
  "RD_SECT dev n = rw_sector DEV_READ dev (sect_pos n) (int SECTOR_SIZE)"

definition WR_SECT :: "int \<Rightarrow> int \<Rightarrow> fstate \<Rightarrow> fault + fstate" where
  "WR_SECT dev n = rw_sector DEV_WRITE dev (sect_pos n) (int SECTOR_SIZE)"

text \<open>The loop of \<open>get_super_block\<close> over the table of super blocks.\<close>

definition get_super_block :: "int \<Rightarrow> fstate \<Rightarrow> fault + super_block" where
  "get_super_block dev s =
     (case List.find (\<lambda>i. sb_dev (super_blocks s i) = dev) [0..<NR_SUPER_BLOCK] of
        Some i \<Rightarrow> Inr (super_blocks s i)
      | None \<Rightarrow> Inl (Halted (ascii ''super block of device not found.'')))"

end
