(* ===== verification/Fs_Device.thy ===== *)
theory Fs_Device
  imports Fs_Base
begin

text \<open>
  The root device seen from the file system: sector \<open>n\<close> of the root partition is \<open>sect s n\<close>, reading fills the
  sector buffer and writing stores it. The locale \<open>block_device\<close> is the contract; its interpretation on
  \<open>RD_SECT\<close> and \<open>WR_SECT\<close> rests on the theorems about the driver.
\<close>

section \<open>Sectors and the buffer\<close>

lemma load_store_bytes:
  assumes "length bs \<le> 2 ^ 32"
  shows "load_bytes (store_bytes a bs m) a (length bs) = bs"
proof (rule nth_equalityI)
  fix i
  assume "i < length (load_bytes (store_bytes a bs m) a (length bs))"
  then have i: "i < length bs" by simp
  then have "unat (of_nat i :: u32) = i" using assms by (simp add: unat_of_nat take_bit_nat_eq_self)
  then show "load_bytes (store_bytes a bs m) a (length bs) ! i = bs ! i"
    using i assms by (simp add: nth_load_bytes store_bytes_apply)
qed simp

lemma store_store_bytes:
  assumes "length bs = length cs" "length bs \<le> 2 ^ 32"
  shows "store_bytes a bs (store_bytes a cs m) = store_bytes a bs m"
  by (rule ext) (use assms in \<open>simp add: store_bytes_apply\<close>)

definition rbase :: "fstate \<Rightarrow> nat" where
  "rbase s = unat (part_base (logical (hd0 (hs s)) 16))"

definition sect :: "fstate \<Rightarrow> nat \<Rightarrow> u8 list" where
  "sect s n = disk_bytes (platter (hs s)) (rbase s + n) 1"

definition put_sect :: "nat \<Rightarrow> u8 list \<Rightarrow> fstate \<Rightarrow> fstate" where
  "put_sect n bs s = s\<lparr>hs := (hs s)\<lparr>platter := put_bytes (512 * (rbase s + n)) bs (platter (hs s))\<rparr>\<rparr>"

definition valid_sect :: "fstate \<Rightarrow> nat \<Rightarrow> bool" where
  "valid_sect s n \<longleftrightarrow> ready (hs s) \<and> n < 2 ^ 22 \<and> rbase s + n < 2 ^ 28"

lemma length_buf [simp]: "length (buf s) = 512"
  by (simp add: buf_def del: load_bytes.simps)

lemma length_sect [simp]: "length (sect s n) = 512"
  by (simp add: sect_def)

lemma upd_mem_simps [simp]:
  "fmem (upd_mem f s) = f (fmem s)" "inode_table (upd_mem f s) = inode_table s"
  "f_desc_table (upd_mem f s) = f_desc_table s" "super_blocks (upd_mem f s) = super_blocks s"
  "root_inode (upd_mem f s) = root_inode s" "fs_msg (upd_mem f s) = fs_msg s" "pcaller (upd_mem f s) = pcaller s"
  "procs (hk (hs (upd_mem f s))) = procs (hk (hs s))" "platter (hs (upd_mem f s)) = platter (hs s)"
  "hd0 (hs (upd_mem f s)) = hd0 (hs s)" "ready (hs (upd_mem f s)) = ready (hs s)"
  "fsb (upd_mem f s) = fsb s" "rbase (upd_mem f s) = rbase s" "sect (upd_mem f s) n = sect s n"
  "valid_sect (upd_mem f s) n = valid_sect s n"
  by (simp_all add: upd_mem_def fsb_def lin_def rbase_def sect_def valid_sect_def)

lemma put_sect_simps [simp]:
  "fmem (put_sect n bs s) = fmem s" "inode_table (put_sect n bs s) = inode_table s"
  "f_desc_table (put_sect n bs s) = f_desc_table s" "super_blocks (put_sect n bs s) = super_blocks s"
  "root_inode (put_sect n bs s) = root_inode s" "fs_msg (put_sect n bs s) = fs_msg s"
  "pcaller (put_sect n bs s) = pcaller s" "procs (hk (hs (put_sect n bs s))) = procs (hk (hs s))"
  "hd0 (hs (put_sect n bs s)) = hd0 (hs s)" "ready (hs (put_sect n bs s)) = ready (hs s)"
  "fsb (put_sect n bs s) = fsb s" "rbase (put_sect n bs s) = rbase s" "buf (put_sect n bs s) = buf s"
  "valid_sect (put_sect n bs s) k = valid_sect s k"
  by (simp_all add: put_sect_def fsb_def lin_def rbase_def buf_def valid_sect_def del: load_bytes.simps)

lemma set_buf_simps [simp]:
  "inode_table (set_buf bs s) = inode_table s"
  "f_desc_table (set_buf bs s) = f_desc_table s" "super_blocks (set_buf bs s) = super_blocks s"
  "root_inode (set_buf bs s) = root_inode s" "fs_msg (set_buf bs s) = fs_msg s" "pcaller (set_buf bs s) = pcaller s"
  "procs (hk (hs (set_buf bs s))) = procs (hk (hs s))" "platter (hs (set_buf bs s)) = platter (hs s)"
  "fsb (set_buf bs s) = fsb s" "rbase (set_buf bs s) = rbase s" "sect (set_buf bs s) n = sect s n"
  "valid_sect (set_buf bs s) n = valid_sect s n" "fmem (set_buf bs s) = store_bytes (fsb s) bs (fmem s)"
  by (simp_all add: set_buf_def)

lemma upd_inode_simps [simp]:
  "inode_table (upd_inode p f s) = (inode_table s)(p := f (inode_table s p))" "hs (upd_inode p f s) = hs s"
  "f_desc_table (upd_inode p f s) = f_desc_table s" "super_blocks (upd_inode p f s) = super_blocks s"
  "root_inode (upd_inode p f s) = root_inode s" "fs_msg (upd_inode p f s) = fs_msg s" "pcaller (upd_inode p f s) = pcaller s"
  "fsb (upd_inode p f s) = fsb s" "rbase (upd_inode p f s) = rbase s" "buf (upd_inode p f s) = buf s"
  "sect (upd_inode p f s) n = sect s n" "valid_sect (upd_inode p f s) n = valid_sect s n"
  by (simp_all add: upd_inode_def fsb_def rbase_def buf_def sect_def valid_sect_def del: load_bytes.simps)

lemma buf_set_buf [simp]: "length bs = 512 \<Longrightarrow> buf (set_buf bs s) = bs"
  using load_store_bytes [of bs "fsb s" "fmem s"] by (simp add: buf_def)

lemma set_set_buf [simp]: "length bs = 512 \<Longrightarrow> length cs = 512 \<Longrightarrow> set_buf bs (set_buf cs s) = set_buf bs s"
  by (simp add: set_buf_def upd_mem_def set_kmem_def store_store_bytes fsb_def lin_def)

lemma sect_put_sect:
  assumes "length bs = 512"
  shows "sect (put_sect n bs s) m = (if m = n then bs else sect s m)"
proof (cases "m = n")
  case True
  then show ?thesis
    using assms by (intro nth_equalityI) (auto simp: sect_def put_sect_def disk_bytes_def put_bytes_def rbase_def)
next
  case False
  then have "put_bytes (512 * (rbase s + n)) bs (platter (hs s)) (512 * (rbase s + m) + i) = platter (hs s) (512 * (rbase s + m) + i)"
    if "i < 512" for i
    using that assms by (auto simp: put_bytes_def)
  with False show ?thesis
    by (intro nth_equalityI) (auto simp: sect_def put_sect_def disk_bytes_def rbase_def)
qed

lemma put_sect_set_buf: "put_sect n bs (set_buf cs s) = set_buf cs (put_sect n bs s)"
  by (simp add: put_sect_def set_buf_def upd_mem_def set_kmem_def rbase_def fsb_def lin_def)

section \<open>The driver as a block device\<close>

lemma root_dev: "MAJOR ROOT_DEV = 3" "MINOR ROOT_DEV = 32" "DRIVE_OF_DEV 32 = 0"
  "part_of 32 info = Inr (logical info 16)"
  by (simp_all add: MAJOR_def MINOR_def ROOT_DEV_def MAKE_DEV_def DEV_HD_def part_consts DRIVE_OF_DEV_def part_of_def
    signed_divide_int_def signed_modulo_int_def sgn_if Let_def)

lemma sect_pos_nat:
  assumes "n < 2 ^ 22"
  shows "sect_pos (int n) = of_nat (512 * n)"
proof -
  have "wrap_int (int n * int SECTOR_SIZE) = int (512 * n)"
    using assms by (subst wrap_int_id) (auto simp: SECTOR_SIZE_def)
  then show ?thesis unfolding sect_pos_def by simp
qed

lemma rw_request_root:
  assumes "ready (hs s)" "rbase s + n + k \<le> 2 ^ 28" "0 < k" "k \<le> 256" "n < 2 ^ 28" and pos: "pos = of_nat (512 * n)"
  shows "rw_request line DEV_READ ROOT_DEV pos (512 * int k) s =
      Inr (set_buf (disk_bytes (platter (hs s)) (rbase s + n) k) s)"
    and "rw_request line DEV_WRITE ROOT_DEV pos (512 * int k) s =
      Inr (s\<lparr>hs := (hs s)\<lparr>platter := put_bytes (512 * (rbase s + n)) (load_bytes (fmem s) (fsb s) (512 * k)) (platter (hs s))\<rparr>\<rparr>)"
proof -
  let ?m = "\<lambda>io. \<lparr>m_source = int TASK_FS, m_type = io, m_RETVAL = 0, m_DEVICE = MINOR ROOT_DEV, m_CNT = 512 * int k,
      m_PROC_NR = int TASK_FS, m_REQUEST = 0, m_FLAGS = 0, m_NAME_LEN = 0, m_FD = 0, m_PATHNAME = 0,
      m_POSITION = pos, m_BUF = FSBUF\<rparr> :: message"
  have neq: "DEV_READ \<noteq> DEV_OPEN" "DEV_READ \<noteq> DEV_CLOSE" "DEV_WRITE \<noteq> DEV_OPEN" "DEV_WRITE \<noteq> DEV_CLOSE" "DEV_WRITE \<noteq> DEV_READ"
    by (simp_all add: dev_msg_consts)
  have q: "TASK_FS < nr_proc_table" by (simp add: TASK_FS_def NR_TASKS_def NR_PROCS_def)
  have call: "rw_request line io ROOT_DEV pos (512 * int k) s =
      ebind (task_hd_request (?m io) (hs s)) (\<lambda>h. Inr (s\<lparr>hs := h\<rparr>))" for io
    by (simp add: rw_request_def call_driver_def root_dev(1) dev_drv_map_def TASK_HD_def)
  have k: "k < 2 ^ 22" "unat (part_base (logical (hd0 (hs s)) 16)) + n + k \<le> 2 ^ 28" using assms by (auto simp: rbase_def)
  have rd: "hd_rdwt (?m io) (hs s) = (if io = DEV_READ
      then Inr (set_kmem (store_bytes (fsb s) (disk_bytes (platter (hs s)) (rbase s + n) k)) (hs s))
      else Inr ((hs s)\<lparr>platter := put_bytes (512 * (rbase s + n)) (load_bytes (fmem s) (fsb s) (512 * k)) (platter (hs s))\<rparr>))" for io
    using assms(4) by (subst hd_rdwt_eq [OF assms(1) _ _ _ _ _ assms(3) k(2,1) q refl refl])
      (simp_all add: root_dev fsb_def rbase_def pos)
  show "rw_request line DEV_READ ROOT_DEV pos (512 * int k) s =
      Inr (set_buf (disk_bytes (platter (hs s)) (rbase s + n) k) s)"
    unfolding call by (simp add: task_hd_request_def rd neq set_buf_def upd_mem_def)
  show "rw_request line DEV_WRITE ROOT_DEV pos (512 * int k) s =
      Inr (s\<lparr>hs := (hs s)\<lparr>platter := put_bytes (512 * (rbase s + n)) (load_bytes (fmem s) (fsb s) (512 * k)) (platter (hs s))\<rparr>\<rparr>)"
    unfolding call by (simp add: task_hd_request_def rd neq)
qed

lemmas rw_sector_root = rw_request_root [of _ _ _ _ 67, folded rw_sector_def]

lemma RD_SECT_root: "valid_sect s n \<Longrightarrow> RD_SECT ROOT_DEV (int n) s = Inr (set_buf (sect s n) s)"
  using rw_sector_root(1) [of s n 1 "of_nat (512 * n)"] by (simp add: RD_SECT_def valid_sect_def sect_pos_nat SECTOR_SIZE_def sect_def)

lemma WR_SECT_root: "valid_sect s n \<Longrightarrow> WR_SECT ROOT_DEV (int n) s = Inr (put_sect n (buf s) s)"
  using rw_sector_root(2) [of s n 1 "of_nat (512 * n)"]
  by (simp add: WR_SECT_def valid_sect_def sect_pos_nat SECTOR_SIZE_def put_sect_def buf_def del: load_bytes.simps)

text \<open>
  What a client relies on: reading fills the buffer with the sector, writing replaces the sector by the
  buffer, neither changes another sector, and what is valid stays valid.
\<close>

locale block_device =
  fixes rd :: "nat \<Rightarrow> 's \<Rightarrow> fault + 's"
    and wr :: "nat \<Rightarrow> 's \<Rightarrow> fault + 's"
    and content :: "'s \<Rightarrow> nat \<Rightarrow> 'b"
    and buffer :: "'s \<Rightarrow> 'b"
    and valid :: "'s \<Rightarrow> nat \<Rightarrow> bool"
  assumes rd_ok: "valid s n \<Longrightarrow> \<exists>s'. rd n s = Inr s' \<and> buffer s' = content s n \<and> content s' = content s \<and> valid s' = valid s"
    and wr_ok: "valid s n \<Longrightarrow> \<exists>s'. wr n s = Inr s' \<and> content s' = (content s)(n := buffer s) \<and> buffer s' = buffer s \<and> valid s' = valid s"
begin

text \<open>A sector is copied, and a copy that is copied back changes nothing.\<close>

lemma copy:
  assumes "valid s a" "valid s b"
  shows "\<exists>s'. ebind (rd a s) (wr b) = Inr s' \<and> content s' = (content s)(b := content s a) \<and> valid s' = valid s"
proof -
  from rd_ok [OF assms(1)] obtain s1 where s1: "rd a s = Inr s1" "buffer s1 = content s a" "content s1 = content s" "valid s1 = valid s"
    by blast
  from wr_ok [of s1 b] assms(2) s1 show ?thesis by auto
qed

lemma write_read:
  assumes "valid s n"
  shows "\<exists>s'. ebind (wr n s) (rd n) = Inr s' \<and> buffer s' = buffer s \<and> content s' = (content s)(n := buffer s)"
proof -
  from wr_ok [OF assms] obtain s1 where s1: "wr n s = Inr s1" "content s1 = (content s)(n := buffer s)" "valid s1 = valid s"
    by blast
  from rd_ok [of s1 n] assms s1 show ?thesis by auto
qed

lemma read_write_same:
  assumes "valid s n"
  shows "\<exists>s'. ebind (rd n s) (wr n) = Inr s' \<and> content s' = content s"
  using copy [OF assms assms] by auto

end

interpretation root: block_device "\<lambda>n. RD_SECT ROOT_DEV (int n)" "\<lambda>n. WR_SECT ROOT_DEV (int n)" sect buf valid_sect
proof
  fix s :: fstate and n
  assume v: "valid_sect s n"
  show "\<exists>s'. RD_SECT ROOT_DEV (int n) s = Inr s' \<and> buf s' = sect s n \<and> sect s' = sect s \<and> valid_sect s' = valid_sect s"
    using RD_SECT_root [OF v] by (intro exI [of _ "set_buf (sect s n) s"]) (simp add: fun_eq_iff)
  show "\<exists>s'. WR_SECT ROOT_DEV (int n) s = Inr s' \<and> sect s' = (sect s)(n := buf s) \<and> buf s' = buf s \<and> valid_sect s' = valid_sect s"
    using WR_SECT_root [OF v] by (intro exI [of _ "put_sect n (buf s) s"]) (simp add: fun_eq_iff sect_put_sect)
qed

text \<open>
  A sector that is written to the root device is read back as it was written, through the message to
  the driver, its register encoding and the transfer loops, and no other sector of the partition changes.
\<close>

theorem sector_write_read:
  assumes "valid_sect s n"
  shows "\<exists>s'. ebind (WR_SECT ROOT_DEV (int n) s) (RD_SECT ROOT_DEV (int n)) = Inr s'
    \<and> buf s' = buf s \<and> sect s' = (sect s)(n := buf s)"
  using root.write_read [OF assms] .

end
