(* ===== verification/Fs_Inode.thy ===== *)
theory Fs_Inode
  imports Fs_Device
begin

text \<open>
  Inodes of \<^verbatim>\<open>fs/open.c\<close>: the table of inodes in memory with its reference counts, and the inode sectors of
  the disk, 16 inodes of 32 bytes each. An inode in the buffer is read field by field.
\<close>

section \<open>Fields in the sector buffer\<close>

definition list32 :: "u8 list \<Rightarrow> nat \<Rightarrow> u32" where
  "list32 bs i = load32 (\<lambda>a. bs ! (i + unat a)) 0"

definition bytes32 :: "u32 \<Rightarrow> u8 list" where
  "bytes32 w = [ucast w, ucast (drop_bit 8 w), ucast (drop_bit 16 w), ucast (drop_bit 24 w)]"

definition put_list :: "nat \<Rightarrow> 'a list \<Rightarrow> 'a list \<Rightarrow> 'a list" where
  "put_list i xs bs = take i bs @ xs @ drop (i + length xs) bs"

text \<open>The four fields that are stored on the disk, at byte \<open>o\<close> of the buffer.\<close>

definition inode_bytes :: "inode \<Rightarrow> u8 list" where
  "inode_bytes p = bytes32 (i_mode p) @ bytes32 (i_size p) @ bytes32 (i_start_sector p) @ bytes32 (i_nr_sectors p)"

definition read_inode :: "u8 list \<Rightarrow> nat \<Rightarrow> inode \<Rightarrow> inode" where
  "read_inode bs off p = p\<lparr>i_mode := list32 bs off, i_size := list32 bs (off + 4),
     i_start_sector := list32 bs (off + 8), i_nr_sectors := list32 bs (off + 12)\<rparr>"

section \<open>Operations\<close>

text \<open>The sector of an inode and its place in the sector, which is in front of it for a negative number.\<close>

definition inode_blk :: "super_block \<Rightarrow> int \<Rightarrow> int" where
  "inode_blk sb num = sint (1 + 1 + nr_imap_sectors sb + nr_smap_sectors sb
     + word_of_int ((num - 1) sdiv (int SECTOR_SIZE div int INODE_SIZE)))"

definition inode_off :: "int \<Rightarrow> fault + nat" where
  "inode_off num =
     (let off = ((num - 1) smod (int SECTOR_SIZE div int INODE_SIZE)) * int INODE_SIZE
      in if off < 0 then Inl (Wild ''fsbuf'') else Inr (nat off))"

definition sync_inode :: "nat \<Rightarrow> fstate \<Rightarrow> fault + fstate" where
  "sync_inode q s =
     (let p = inode_table s q in
      ebind (get_super_block (i_dev p) s) (\<lambda>sb.
      let blk_nr = inode_blk sb (i_num p) in
      ebind (RD_SECT (i_dev p) blk_nr s) (\<lambda>s.
      ebind (inode_off (i_num p)) (\<lambda>off.
      let s = set_buf (put_list off (inode_bytes p) (buf s)) s in
      WR_SECT (i_dev p) blk_nr s))))"

text \<open>
  The loop of \<open>get_inode\<close> over the table: the entry of the inode, if it is in use, and the first entry seen
  that is not.
\<close>

fun scan_inodes :: "(nat \<Rightarrow> inode) \<Rightarrow> int \<Rightarrow> int \<Rightarrow> nat list \<Rightarrow> nat option \<Rightarrow> nat option \<times> nat option" where
  "scan_inodes tab dev num [] q = (None, q)"
| "scan_inodes tab dev num (p # ps) q =
     (if i_cnt (tab p) \<noteq> 0
      then if i_dev (tab p) = dev \<and> i_num (tab p) = num then (Some p, q) else scan_inodes tab dev num ps q
      else scan_inodes tab dev num ps (case q of None \<Rightarrow> Some p | Some _ \<Rightarrow> q))"

definition get_inode :: "int \<Rightarrow> int \<Rightarrow> fstate \<Rightarrow> fault + nat option \<times> fstate" where
  "get_inode dev num s =
     (if num = 0 then Inr (None, s)
      else case scan_inodes (inode_table s) dev num [0..<NR_INODE] None of
        (Some p, _) \<Rightarrow> Inr (Some p, upd_inode p (\<lambda>p. p\<lparr>i_cnt := i_cnt p + 1\<rparr>) s)
      | (None, None) \<Rightarrow> Inl (Halted (ascii ''the inode table is full''))
      | (None, Some q) \<Rightarrow>
          (let s = upd_inode q (\<lambda>p. p\<lparr>i_dev := dev, i_num := num, i_cnt := 1\<rparr>) s in
           ebind (get_super_block dev s) (\<lambda>sb.
           ebind (RD_SECT dev (inode_blk sb num) s) (\<lambda>s.
           ebind (inode_off num) (\<lambda>off.
           Inr (Some q, upd_inode q (read_inode (buf s) off) s))))))"

definition put_inode :: "nat \<Rightarrow> fstate \<Rightarrow> fault + fstate" where
  "put_inode p s =
     ebind (asserts ''open.c'' [(230, i_cnt (inode_table s p) > 0)]) (\<lambda>_.
       Inr (upd_inode p (\<lambda>p. p\<lparr>i_cnt := i_cnt p - 1\<rparr>) s))"

text \<open>\<open>new_inode\<close> dereferences the result of \<open>get_inode\<close>, which is null for the inode number 0.\<close>

definition new_inode :: "int \<Rightarrow> int \<Rightarrow> int \<Rightarrow> fstate \<Rightarrow> fault + nat \<times> fstate" where
  "new_inode dev inode_nr start_sect s =
     ebind (get_inode dev inode_nr s) (\<lambda>(r, s).
     case r of None \<Rightarrow> Inl (Wild ''new_inode'')
     | Some q \<Rightarrow>
       (let s = upd_inode q (\<lambda>p. p\<lparr>i_mode := I_REGULAR, i_size := 0, i_start_sector := word_of_int start_sect,
              i_nr_sectors := word_of_int NR_DEFAULT_FILE_SECTS, i_dev := dev, i_cnt := 1, i_num := inode_nr\<rparr>) s
        in ebind (sync_inode q s) (\<lambda>s. Inr (q, s))))"

section \<open>Bytes and fields\<close>

lemma sint_of_nat_small: "n < 2 ^ 31 \<Longrightarrow> sint (of_nat n :: u32) = int n"
  by (simp add: signed_of_nat signed_take_bit_int_eq_self)

lemma length_bytes32 [simp]: "length (bytes32 w) = 4"
  by (simp add: bytes32_def)

lemma nth_bytes32:
  "bytes32 w ! 0 = ucast w" "bytes32 w ! Suc 0 = ucast (drop_bit 8 w)" "bytes32 w ! 1 = ucast (drop_bit 8 w)"
  "bytes32 w ! 2 = ucast (drop_bit 16 w)" "bytes32 w ! 3 = ucast (drop_bit 24 w)"
  by (simp_all add: bytes32_def)

lemma list32_bytes32:
  assumes "\<And>k. k < 4 \<Longrightarrow> bs ! (i + k) = bytes32 w ! k"
  shows "list32 bs i = w"
proof -
  have "load32 (\<lambda>a. bs ! (i + unat a)) 0 = load32 (store32 0 w (\<lambda>_. 0)) 0"
  proof (rule load32_cong)
    fix k :: nat
    assume "k < 4"
    then have "k = 0 \<or> k = 1 \<or> k = 2 \<or> k = 3" by auto
    then show "bs ! (i + unat (0 + of_nat k :: u32)) = store32 0 w (\<lambda>_. 0) (0 + of_nat k)"
      using assms [of 0] assms [of 1] assms [of 2] assms [of 3] by (auto simp: store32_def nth_bytes32)
  qed
  then show ?thesis by (simp add: list32_def)
qed

lemma list32_cong:
  assumes "\<And>k. k < 4 \<Longrightarrow> bs ! (i + k) = cs ! (j + k)"
  shows "list32 bs i = list32 cs j"
  unfolding list32_def
proof (rule load32_cong)
  fix k :: nat
  assume "k < 4"
  then show "bs ! (i + unat (0 + of_nat k :: u32)) = cs ! (j + unat (0 + of_nat k :: u32))"
    using assms by simp
qed

lemma length_put_list [simp]: "i + length xs \<le> length bs \<Longrightarrow> length (put_list i xs bs) = length bs"
  by (simp add: put_list_def)

lemma nth_put_list:
  assumes "i + length xs \<le> length bs" "j < length bs"
  shows "put_list i xs bs ! j = (if i \<le> j \<and> j < i + length xs then xs ! (j - i) else bs ! j)"
  using assms by (auto simp: put_list_def nth_append)

lemma list32_put_other:
  assumes "i + length xs \<le> length bs" "j + 4 \<le> length bs" "j + 4 \<le> i \<or> i + length xs \<le> j"
  shows "list32 (put_list i xs bs) j = list32 bs j"
  using assms by (intro list32_cong) (auto simp: nth_put_list)

lemma length_inode_bytes [simp]: "length (inode_bytes p) = 16"
  by (simp add: inode_bytes_def)

lemma list32_put_inode:
  assumes "off + 16 \<le> length bs"
  shows "list32 (put_list off (inode_bytes p) bs) off = i_mode p"
    "list32 (put_list off (inode_bytes p) bs) (off + 4) = i_size p"
    "list32 (put_list off (inode_bytes p) bs) (off + 8) = i_start_sector p"
    "list32 (put_list off (inode_bytes p) bs) (off + 12) = i_nr_sectors p"
  using assms by (auto intro!: list32_bytes32 simp: nth_put_list inode_bytes_def nth_append)

text \<open>The four stored fields of an inode.\<close>

type_synonym fields = "u32 \<times> u32 \<times> u32 \<times> u32"

definition fields :: "inode \<Rightarrow> fields" where
  "fields p = (i_mode p, i_size p, i_start_sector p, i_nr_sectors p)"

definition fields_at :: "u8 list \<Rightarrow> nat \<Rightarrow> fields" where
  "fields_at bs off = (list32 bs off, list32 bs (off + 4), list32 bs (off + 8), list32 bs (off + 12))"

lemma fields_put_inode:
  assumes "off + 16 \<le> length bs" "off' + 16 \<le> length bs" "off' = off \<or> off' + 16 \<le> off \<or> off + 16 \<le> off'"
  shows "fields_at (put_list off (inode_bytes p) bs) off' = (if off' = off then fields p else fields_at bs off')"
  using assms by (auto simp: fields_at_def fields_def list32_put_inode list32_put_other)

lemma fields_read_inode [simp]: "fields (read_inode bs off p) = fields_at bs off"
  by (simp add: fields_def fields_at_def read_inode_def)

section \<open>Where an inode is stored\<close>

text \<open>
  A file system as \<open>mkfs\<close> lays it out: one sector of inode map, then the sector map, 256 sectors of inodes and the
  data. All its sectors can be addressed.
\<close>

definition fs_layout :: "fstate \<Rightarrow> super_block \<Rightarrow> bool" where
  "fs_layout s sb \<longleftrightarrow> get_super_block ROOT_DEV s = Inr sb \<and> nr_imap_sectors sb = 1
     \<and> 0 < unat (nr_smap_sectors sb) \<and> unat (nr_smap_sectors sb) \<le> 2 ^ 16
     \<and> n_1st_sector sb = 259 + nr_smap_sectors sb \<and> unat (n_1st_sector sb) \<le> unat (nr_sectors sb)
     \<and> (\<forall>n < unat (nr_sectors sb). valid_sect s n)"

lemma first_sector:
  assumes "fs_layout s sb"
  shows "unat (n_1st_sector sb) = 259 + unat (nr_smap_sectors sb)"
  using assms unat_of_nat_small [of "259 + unat (nr_smap_sectors sb)", where ?'a = 32] by (simp add: fs_layout_def)

definition iblk :: "super_block \<Rightarrow> int \<Rightarrow> nat" where
  "iblk sb num = 3 + unat (nr_smap_sectors sb) + nat (num - 1) div 16"

definition ioff :: "int \<Rightarrow> nat" where
  "ioff num = nat (num - 1) mod 16 * 32"

lemma ioff_le: "ioff num + 32 \<le> 512"
  using mod_less_divisor [of 16 "nat (num - 1)"] by (simp add: ioff_def)

lemma inode_off_eq: "1 \<le> num \<Longrightarrow> inode_off num = Inr (ioff num)"
proof -
  assume "1 \<le> num"
  then obtain k where k: "num = int k + 1" by (metis nonneg_int_cases le_add_diff_inverse2 diff_ge_0_iff_ge)
  show ?thesis
    by (simp add: k inode_off_def ioff_def SECTOR_SIZE_def INODE_SIZE_def signed_modulo_int_def sgn_if Let_def
      nat_mult_distrib zmod_int [symmetric, of k 16, simplified])
qed

lemma inode_blk_eq:
  assumes "fs_layout s sb" "1 \<le> num" "num \<le> 4096"
  shows "inode_blk sb num = int (iblk sb num)"
proof -
  from assms(2) obtain k where k: "num = int k + 1" by (metis nonneg_int_cases le_add_diff_inverse2 diff_ge_0_iff_ge)
  have kd: "k div 16 < 256" using assms(3) k by (simp add: less_mult_imp_div_less)
  let ?b = "iblk sb num"
  have b: "?b = 3 + unat (nr_smap_sectors sb) + k div 16" by (simp add: iblk_def k)
  then have lt: "?b < 2 ^ 31" using assms(1) kd by (simp add: fs_layout_def)
  have "(num - 1) sdiv (int SECTOR_SIZE div int INODE_SIZE) = int (k div 16)"
    by (simp add: k SECTOR_SIZE_def INODE_SIZE_def signed_divide_int_def sgn_if zdiv_int)
  then have "1 + 1 + nr_imap_sectors sb + nr_smap_sectors sb + word_of_int ((num - 1) sdiv (int SECTOR_SIZE div int INODE_SIZE))
      = (of_nat ?b :: u32)"
    using assms(1) by (simp add: b fs_layout_def)
  then have "inode_blk sb num = sint (of_nat ?b :: u32)" by (simp add: inode_blk_def)
  also have "\<dots> = int ?b"
    using lt by (rule sint_of_nat_small)
  finally show ?thesis .
qed

lemma iblk_valid: "fs_layout s sb \<Longrightarrow> 1 \<le> num \<Longrightarrow> num \<le> 4096 \<Longrightarrow> valid_sect s (iblk sb num)"
proof -
  assume l: "fs_layout s sb" and n: "1 \<le> num" "num \<le> 4096"
  have "nat (num - 1) div 16 < 256" using n by (simp add: less_mult_imp_div_less)
  with first_sector [OF l] have "iblk sb num < unat (nr_sectors sb)" using l by (simp add: iblk_def fs_layout_def)
  with l show ?thesis by (simp add: fs_layout_def)
qed

definition disk_fields :: "fstate \<Rightarrow> super_block \<Rightarrow> int \<Rightarrow> fields" where
  "disk_fields s sb num = fields_at (sect s (iblk sb num)) (ioff num)"

lemma fs_layout_cong:
  "super_blocks s' = super_blocks s \<Longrightarrow> valid_sect s' = valid_sect s \<Longrightarrow> fs_layout s' sb = fs_layout s sb"
  by (simp add: fs_layout_def get_super_block_def cong: option.case_cong)

lemma fs_layout_simps [simp]:
  "fs_layout (upd_inode p f s) sb = fs_layout s sb" "fs_layout (set_buf bs s) sb = fs_layout s sb"
  "fs_layout (put_sect n bs s) sb = fs_layout s sb" "fs_layout (upd_mem g s) sb = fs_layout s sb"
  by (auto intro!: fs_layout_cong)

lemma RD_inode:
  assumes "fs_layout s sb" "1 \<le> num" "num \<le> 4096"
  shows "RD_SECT ROOT_DEV (inode_blk sb num) s = Inr (set_buf (sect s (iblk sb num)) s)"
  using RD_SECT_root [OF iblk_valid [OF assms]] by (simp add: inode_blk_eq [OF assms])

lemma sync_inode_eq:
  assumes "fs_layout s sb" "i_dev (inode_table s q) = ROOT_DEV" "1 \<le> i_num (inode_table s q)" "i_num (inode_table s q) \<le> 4096"
    and b: "b = iblk sb (i_num (inode_table s q))"
    and new: "new = put_list (ioff (i_num (inode_table s q))) (inode_bytes (inode_table s q)) (sect s b)"
  shows "sync_inode q s = Inr (put_sect b new (set_buf new s))"
proof -
  have len: "length new = 512" using ioff_le [of "i_num (inode_table s q)"] by (simp add: new)
  have "valid_sect (set_buf new s) b" using iblk_valid [OF assms(1,3,4)] by (simp add: b)
  from WR_SECT_root [OF this] have "WR_SECT ROOT_DEV (inode_blk sb (i_num (inode_table s q))) (set_buf new s) = Inr (put_sect b new (set_buf new s))"
    by (simp add: inode_blk_eq [OF assms(1,3,4)] b len)
  then show ?thesis
    using assms(1,2) RD_inode [OF assms(1,3,4)] inode_off_eq [OF assms(3)]
    by (simp add: sync_inode_def fs_layout_def Let_def b [symmetric] new [symmetric] len)
qed

lemma inode_place:
  assumes "1 \<le> num" "1 \<le> num'" "iblk sb num = iblk sb num'"
  shows "num = num' \<or> ioff num' + 16 \<le> ioff num \<or> ioff num + 16 \<le> ioff num'"
proof -
  let ?a = "nat (num - 1)" and ?b = "nat (num' - 1)"
  have d: "?a div 16 = ?b div 16" using assms(3) by (simp add: iblk_def)
  show ?thesis
  proof (cases "?a mod 16 = ?b mod 16")
    case True
    with d have "?a = ?b" by (metis div_mult_mod_eq)
    with assms(1,2) have "num = num'" by linarith
    then show ?thesis by simp
  qed (auto simp: ioff_def)
qed

lemma disk_fields_sync:
  assumes "fs_layout s sb" "i_dev (inode_table s q) = ROOT_DEV" "1 \<le> i_num (inode_table s q)" "i_num (inode_table s q) \<le> 4096"
    and "sync_inode q s = Inr s'"
  shows "inode_table s' = inode_table s"
    and "1 \<le> num \<Longrightarrow> disk_fields s' sb num = (if num = i_num (inode_table s q) then fields (inode_table s q) else disk_fields s sb num)"
    and "n \<noteq> iblk sb (i_num (inode_table s q)) \<Longrightarrow> sect s' n = sect s n"
proof -
  let ?p = "inode_table s q"
  let ?b = "iblk sb (i_num ?p)"
  let ?new = "put_list (ioff (i_num ?p)) (inode_bytes ?p) (sect s ?b)"
  have len: "length ?new = 512" using ioff_le [of "i_num ?p"] by simp
  have s': "s' = put_sect ?b ?new (set_buf ?new s)"
    using sync_inode_eq [OF assms(1-4) refl refl] assms(5) by simp
  show "inode_table s' = inode_table s" by (simp add: s')
  show "n \<noteq> ?b \<Longrightarrow> sect s' n = sect s n" by (simp add: s' sect_put_sect len)
  assume num: "1 \<le> num"
  have "fields_at ?new (ioff num) = (if ioff num = ioff (i_num ?p) then fields ?p else fields_at (sect s ?b) (ioff num))"
    if "iblk sb num = ?b"
    using inode_place [OF num assms(3) that] ioff_le [of num] ioff_le [of "i_num ?p"] by (intro fields_put_inode) auto
  moreover have "ioff num = ioff (i_num ?p) \<longleftrightarrow> num = i_num ?p" if "iblk sb num = ?b"
    using inode_place [OF num assms(3) that] by auto
  ultimately show "disk_fields s' sb num = (if num = i_num ?p then fields ?p else disk_fields s sb num)"
    by (auto simp: s' disk_fields_def sect_put_sect len)
qed

section \<open>The table in memory\<close>

definition in_use :: "fstate \<Rightarrow> nat \<Rightarrow> bool" where
  "in_use s p \<longleftrightarrow> p < NR_INODE \<and> i_cnt (inode_table s p) \<noteq> 0"

definition holds :: "fstate \<Rightarrow> int \<Rightarrow> int \<Rightarrow> nat \<Rightarrow> bool" where
  "holds s dev num p \<longleftrightarrow> in_use s p \<and> i_dev (inode_table s p) = dev \<and> i_num (inode_table s p) = num"

text \<open>Reference counts are never negative, and no inode is in the table twice.\<close>

definition inodes_ok :: "fstate \<Rightarrow> bool" where
  "inodes_ok s \<longleftrightarrow> (\<forall>p < NR_INODE. 0 \<le> i_cnt (inode_table s p))
     \<and> (\<forall>dev num p q. holds s dev num p \<longrightarrow> holds s dev num q \<longrightarrow> p = q)"

lemma scan_inodes_hit:
  "scan_inodes tab dev num ps q = (Some p, q') \<Longrightarrow>
    p \<in> set ps \<and> i_cnt (tab p) \<noteq> 0 \<and> i_dev (tab p) = dev \<and> i_num (tab p) = num"
  by (induction ps arbitrary: q) (auto split: if_splits)

lemma scan_inodes_miss:
  assumes "scan_inodes tab dev num ps q = (None, q')"
  shows "\<forall>p \<in> set ps. i_cnt (tab p) \<noteq> 0 \<longrightarrow> \<not> (i_dev (tab p) = dev \<and> i_num (tab p) = num)"
    and "q' = None \<longleftrightarrow> q = None \<and> (\<forall>p \<in> set ps. i_cnt (tab p) \<noteq> 0)"
    and "q = None \<Longrightarrow> q' = Some x \<Longrightarrow> x \<in> set ps \<and> i_cnt (tab x) = 0"
proof -
  show "\<forall>p \<in> set ps. i_cnt (tab p) \<noteq> 0 \<longrightarrow> \<not> (i_dev (tab p) = dev \<and> i_num (tab p) = num)"
    using assms by (induction ps arbitrary: q) (auto split: if_splits)
  show "q' = None \<longleftrightarrow> q = None \<and> (\<forall>p \<in> set ps. i_cnt (tab p) \<noteq> 0)"
    using assms by (induction ps arbitrary: q) (auto split: if_splits option.splits)
  have "q' = Some x \<Longrightarrow> q = Some x \<or> (x \<in> set ps \<and> i_cnt (tab x) = 0)"
    using assms by (induction ps arbitrary: q) (auto split: if_splits option.splits)
  then show "q = None \<Longrightarrow> q' = Some x \<Longrightarrow> x \<in> set ps \<and> i_cnt (tab x) = 0" by simp
qed

lemma holds_upd_other: "p \<noteq> r \<Longrightarrow> holds (upd_inode r f s) dev num p = holds s dev num p"
  by (simp add: holds_def in_use_def)

lemma holds_cong: "inode_table s' = inode_table s \<Longrightarrow> holds s' dev num p = holds s dev num p"
  by (simp add: holds_def in_use_def)

lemma inodes_ok_cong: "inode_table s' = inode_table s \<Longrightarrow> inodes_ok s' = inodes_ok s"
  by (simp add: inodes_ok_def holds_def in_use_def)

lemma inodes_ok_upd:
  assumes "inodes_ok s" "p < NR_INODE" "0 \<le> i_cnt (f (inode_table s p))"
    and "\<And>q. i_cnt (f (inode_table s p)) \<noteq> 0 \<Longrightarrow>
      holds s (i_dev (f (inode_table s p))) (i_num (f (inode_table s p))) q \<Longrightarrow> q = p"
  shows "inodes_ok (upd_inode p f s)"
proof -
  let ?s = "upd_inode p f s"
  have same: "q = p" if "holds ?s dev num p" "holds ?s dev num q" for dev num q
  proof (rule ccontr)
    assume "q \<noteq> p"
    with that(2) have "holds s dev num q" by (simp add: holds_upd_other)
    moreover from that(1) have "i_cnt (f (inode_table s p)) \<noteq> 0" "dev = i_dev (f (inode_table s p))" "num = i_num (f (inode_table s p))"
      by (simp_all add: holds_def in_use_def)
    ultimately show False using assms(4) \<open>q \<noteq> p\<close> by blast
  qed
  have "x = y" if "holds ?s dev num x" "holds ?s dev num y" for dev num x y
  proof (cases "x = p \<or> y = p")
    case True
    with that same show ?thesis by metis
  next
    case False
    with that assms(1) show ?thesis by (auto simp: holds_upd_other inodes_ok_def)
  qed
  moreover have "\<forall>q < NR_INODE. 0 \<le> i_cnt (inode_table ?s q)"
    using assms(1,3) by (auto simp: inodes_ok_def)
  ultimately show ?thesis unfolding inodes_ok_def by blast
qed

text \<open>The three cases of \<open>get_inode\<close> on the root device.\<close>

lemma get_inode_cached:
  assumes "inodes_ok s" "num \<noteq> 0" "holds s dev num p"
  shows "get_inode dev num s = Inr (Some p, upd_inode p (\<lambda>p. p\<lparr>i_cnt := i_cnt p + 1\<rparr>) s)"
    and "inodes_ok (upd_inode p (\<lambda>p. p\<lparr>i_cnt := i_cnt p + 1\<rparr>) s)"
proof -
  obtain hit q where scan: "scan_inodes (inode_table s) dev num [0..<NR_INODE] None = (hit, q)" by fastforce
  have "hit = Some p"
  proof (cases hit)
    case None
    with scan assms(3) scan_inodes_miss(1) [of "inode_table s" dev num "[0..<NR_INODE]" None q]
    show ?thesis by (auto simp: holds_def in_use_def)
  next
    case (Some r)
    with scan scan_inodes_hit [of "inode_table s" dev num "[0..<NR_INODE]" None r q]
    have "holds s dev num r" by (auto simp: holds_def in_use_def)
    with assms(1,3) Some show ?thesis by (auto simp: inodes_ok_def)
  qed
  with scan assms(2) show "get_inode dev num s = Inr (Some p, upd_inode p (\<lambda>p. p\<lparr>i_cnt := i_cnt p + 1\<rparr>) s)"
    by (simp add: get_inode_def)
  show "inodes_ok (upd_inode p (\<lambda>p. p\<lparr>i_cnt := i_cnt p + 1\<rparr>) s)"
    using assms by (intro inodes_ok_upd) (auto simp: holds_def in_use_def inodes_ok_def)
qed

lemma get_inode_new:
  assumes "fs_layout s sb" "1 \<le> num" "num \<le> 4096" "\<forall>p. \<not> holds s ROOT_DEV num p" "\<exists>p < NR_INODE. \<not> in_use s p"
  shows "\<exists>q bs. q < NR_INODE \<and> \<not> in_use s q \<and> length bs = 512 \<and> get_inode ROOT_DEV num s =
    Inr (Some q, upd_inode q (\<lambda>p. read_inode (sect s (iblk sb num)) (ioff num) (p\<lparr>i_dev := ROOT_DEV, i_num := num, i_cnt := 1\<rparr>))
          (set_buf bs s))"
proof -
  obtain hit q where scan: "scan_inodes (inode_table s) ROOT_DEV num [0..<NR_INODE] None = (hit, q)" by fastforce
  have hit: "hit = None"
  proof (cases hit)
    case (Some r)
    with scan scan_inodes_hit [of "inode_table s" ROOT_DEV num "[0..<NR_INODE]" None r q]
    have "holds s ROOT_DEV num r" by (auto simp: holds_def in_use_def)
    with assms(4) show ?thesis by blast
  qed
  from scan hit scan_inodes_miss(2) [of "inode_table s" ROOT_DEV num "[0..<NR_INODE]" None q] assms(5)
  obtain x where x: "q = Some x" by (auto simp: in_use_def)
  with scan hit scan_inodes_miss(3) [of "inode_table s" ROOT_DEV num "[0..<NR_INODE]" None q x]
  have free: "x < NR_INODE" "\<not> in_use s x" by (auto simp: in_use_def)
  let ?s = "upd_inode x (\<lambda>p. p\<lparr>i_dev := ROOT_DEV, i_num := num, i_cnt := 1\<rparr>) s"
  have l: "fs_layout ?s sb" using assms(1) by simp
  have "get_inode ROOT_DEV num s = Inr (Some x, upd_inode x (read_inode (sect s (iblk sb num)) (ioff num)) (set_buf (sect s (iblk sb num)) ?s))"
    using l RD_inode [OF l assms(2,3)] inode_off_eq [OF assms(2)] assms(2)
    by (simp add: get_inode_def scan hit x fs_layout_def)
  also have "upd_inode x (read_inode (sect s (iblk sb num)) (ioff num)) (set_buf (sect s (iblk sb num)) ?s) =
    upd_inode x (\<lambda>p. read_inode (sect s (iblk sb num)) (ioff num) (p\<lparr>i_dev := ROOT_DEV, i_num := num, i_cnt := 1\<rparr>)) (set_buf (sect s (iblk sb num)) s)"
    by (simp add: upd_inode_def set_buf_def upd_mem_def fsb_def)
  finally show ?thesis using free by (intro exI [of _ x] exI [of _ "sect s (iblk sb num)"]) simp
qed

lemma get_inode_full:
  assumes "num \<noteq> 0" "\<forall>p. \<not> holds s dev num p" "\<forall>p < NR_INODE. in_use s p"
  shows "get_inode dev num s = Inl (Halted (ascii ''the inode table is full''))"
proof -
  obtain hit q where scan: "scan_inodes (inode_table s) dev num [0..<NR_INODE] None = (hit, q)" by fastforce
  with assms(2) scan_inodes_hit [of "inode_table s" dev num "[0..<NR_INODE]" None _ q] have "hit = None"
    by (cases hit) (auto simp: holds_def in_use_def)
  with scan assms(1,3) scan_inodes_miss(2) [of "inode_table s" dev num "[0..<NR_INODE]" None q]
  show ?thesis by (auto simp: get_inode_def in_use_def)
qed

lemma put_inode_ok:
  assumes "inodes_ok s" "in_use s p"
  shows "put_inode p s = Inr (upd_inode p (\<lambda>p. p\<lparr>i_cnt := i_cnt p - 1\<rparr>) s)"
    and "inodes_ok (upd_inode p (\<lambda>p. p\<lparr>i_cnt := i_cnt p - 1\<rparr>) s)"
proof -
  have pos: "p < NR_INODE" "0 < i_cnt (inode_table s p)" using assms by (auto simp: inodes_ok_def in_use_def order_less_le)
  then show "put_inode p s = Inr (upd_inode p (\<lambda>p. p\<lparr>i_cnt := i_cnt p - 1\<rparr>) s)" by (simp add: put_inode_def)
  show "inodes_ok (upd_inode p (\<lambda>p. p\<lparr>i_cnt := i_cnt p - 1\<rparr>) s)"
  proof (rule inodes_ok_upd [OF assms(1) pos(1)])
    show "0 \<le> i_cnt ((inode_table s p)\<lparr>i_cnt := i_cnt (inode_table s p) - 1\<rparr>)" using pos by simp
    fix q
    assume "holds s (i_dev ((inode_table s p)\<lparr>i_cnt := i_cnt (inode_table s p) - 1\<rparr>))
      (i_num ((inode_table s p)\<lparr>i_cnt := i_cnt (inode_table s p) - 1\<rparr>)) q"
    with assms show "q = p" by (simp add: inodes_ok_def holds_def)
  qed
qed

text \<open>
  C21: the table of inodes. \<open>get_inode\<close> finds an inode that is in the table already, with one reference more;
  otherwise it loads the inode from its place on the disk into an entry that was free. It fails only when all 4096
  entries are in use. No inode is ever in the table twice, and the disk does not change.
\<close>

theorem get_inode_spec:
  assumes "fs_layout s sb" "inodes_ok s" "1 \<le> num" "num \<le> 4096"
  shows "case get_inode ROOT_DEV num s of
      Inl e \<Rightarrow> e = Halted (ascii ''the inode table is full'') \<and> (\<forall>p < NR_INODE. in_use s p \<and> \<not> holds s ROOT_DEV num p)
    | Inr (r, s') \<Rightarrow> inodes_ok s' \<and> sect s' = sect s \<and> (\<exists>p. r = Some p \<and> holds s' ROOT_DEV num p
        \<and> (\<forall>q. q \<noteq> p \<longrightarrow> inode_table s' q = inode_table s q)
        \<and> (if holds s ROOT_DEV num p
            then i_cnt (inode_table s' p) = i_cnt (inode_table s p) + 1 \<and> fields (inode_table s' p) = fields (inode_table s p)
            else \<not> in_use s p \<and> i_cnt (inode_table s' p) = 1 \<and> fields (inode_table s' p) = disk_fields s sb num))"
proof (cases "\<exists>p. holds s ROOT_DEV num p")
  case True
  then obtain p where p: "holds s ROOT_DEV num p" ..
  have "num \<noteq> 0" using assms(3) by simp
  note get = get_inode_cached [OF assms(2) this p]
  have "0 \<le> i_cnt (inode_table s p)" using p assms(2) by (simp add: holds_def in_use_def inodes_ok_def)
  with get p show ?thesis by (auto simp: holds_def in_use_def fields_def fun_eq_iff)
next
  case False
  show ?thesis
  proof (cases "\<exists>p < NR_INODE. \<not> in_use s p")
    case True
    from get_inode_new [OF assms(1,3,4) _ True] False obtain q bs where q: "q < NR_INODE" "\<not> in_use s q" "length bs = 512"
      and get: "get_inode ROOT_DEV num s = Inr (Some q, upd_inode q (\<lambda>p. read_inode (sect s (iblk sb num)) (ioff num)
          (p\<lparr>i_dev := ROOT_DEV, i_num := num, i_cnt := 1\<rparr>)) (set_buf bs s))" by blast
    let ?f = "\<lambda>p. read_inode (sect s (iblk sb num)) (ioff num) (p\<lparr>i_dev := ROOT_DEV, i_num := num, i_cnt := 1\<rparr>)"
    have ok: "inodes_ok (upd_inode q ?f (set_buf bs s))"
    proof (rule inodes_ok_upd)
      show "inodes_ok (set_buf bs s)" using assms(2) by (subst inodes_ok_cong) simp_all
      fix r
      assume "holds (set_buf bs s) (i_dev (?f (inode_table (set_buf bs s) q))) (i_num (?f (inode_table (set_buf bs s) q))) r"
      then have "holds s ROOT_DEV num r" by (subst (asm) holds_cong [of _ s]) (simp_all add: read_inode_def)
      with False show "r = q" by blast
    qed (use q in \<open>simp_all add: read_inode_def\<close>)
    have "holds (upd_inode q ?f (set_buf bs s)) ROOT_DEV num q"
      using q by (simp add: holds_def in_use_def read_inode_def)
    with get ok False q show ?thesis by (auto simp: disk_fields_def read_inode_def fields_def fields_at_def fun_eq_iff)
  next
    case full: False
    with False assms(3) get_inode_full [of num s ROOT_DEV] show ?thesis by auto
  qed
qed

text \<open>
  An inode that is written back is stored in its own 16 bytes of its sector. The disk then holds its mode,
  size, first sector and number of sectors, so that loading it again gives the same inode; every other inode and
  every other sector is unchanged.
\<close>

theorem sync_inode_roundtrip:
  assumes "fs_layout s sb" "p = inode_table s q" "i_dev p = ROOT_DEV" "1 \<le> i_num p" "i_num p \<le> 4096"
  shows "\<exists>s'. sync_inode q s = Inr s' \<and> inode_table s' = inode_table s
    \<and> (\<forall>num \<in> {1..4096}. disk_fields s' sb num = (if num = i_num p then fields p else disk_fields s sb num))
    \<and> (\<forall>n. n \<noteq> iblk sb (i_num p) \<longrightarrow> sect s' n = sect s n)"
proof -
  note a = assms(3-5) [unfolded assms(2)]
  obtain s' where s': "sync_inode q s = Inr s'" using sync_inode_eq [OF assms(1) a refl refl] by blast
  show ?thesis using disk_fields_sync [OF assms(1) a s'] s' by (auto simp: assms(2))
qed

end
