(* ===== verification/Fs_Alloc.thy ===== *)
theory Fs_Alloc
  imports Fs_Inode
begin

text \<open>
  Allocation of inodes and sectors: the bit maps of \<^verbatim>\<open>fs/open.c\<close>, and the code of \<open>do_unlink\<close> in
  \<^verbatim>\<open>fs/link.c\<close> that frees the bits again. A sector of a map is the list of the 512 bytes of the buffer.
\<close>

section \<open>Inode map\<close>

text \<open>\<open>for (k = 0; ((fsbuf[j] >> k) & 1) != 0; k++)\<close>\<close>

function zero_bit :: "u8 \<Rightarrow> nat \<Rightarrow> nat" where
  "zero_bit b k = (if bit b k then zero_bit b (k + 1) else k)"
  by auto
termination
  by (relation "measure (\<lambda>(b, k). 8 - k)") (auto dest: bit_imp_le_length)

declare zero_bit.simps [simp del]

text \<open>
  The loop over the bytes of one sector: the first byte with a clear bit gets its lowest clear bit set and
  the sector is written. The outer loop returns in its first pass, whether or not there was such a byte.
\<close>

definition alloc_imap_bit :: "int \<Rightarrow> fstate \<Rightarrow> fault + int \<times> fstate" where
  "alloc_imap_bit dev s =
     ebind (get_super_block dev s) (\<lambda>sb.
     let imap_blk0_nr = 1 + 1 in
     if nr_imap_sectors sb = 0 then Inl (Halted (ascii ''inode map is probably full.''))
     else
       ebind (RD_SECT dev imap_blk0_nr s) (\<lambda>s.
       case List.find (\<lambda>j. buf s ! j \<noteq> 0xFF) [0..<SECTOR_SIZE] of
         None \<Rightarrow> Inr (0, s)
       | Some j \<Rightarrow>
           (let k = zero_bit (buf s ! j) 0; s = set_buf ((buf s)[j := buf s ! j OR push_bit k 1]) s in
            ebind (WR_SECT dev imap_blk0_nr s) (\<lambda>s. Inr (int (j * 8 + k), s)))))"

section \<open>Sector map\<close>

text \<open>\<open>for (; k < 8; k++)\<close>: bits of one byte are set until enough sectors are allocated.\<close>

function take_bits :: "nat \<Rightarrow> u8 \<Rightarrow> int \<Rightarrow> fault + u8 \<times> int" where
  "take_bits k b n =
     (if k < 8 then
        if bit b k then Inl (Assertion ''open.c'' 62)
        else let b = b OR push_bit k 1; n = n - 1 in if n = 0 then Inr (b, n) else take_bits (k + 1) b n
      else Inr (b, n))"
  by auto
termination
  by (relation "measure (\<lambda>(k, b, n). 8 - k)") auto

declare take_bits.simps [simp del]

text \<open>
  The loop over the bytes of sector \<open>i\<close> of the map: nothing happens before the first byte with a clear bit,
  which fixes the result; from there on bits are set as long as sectors are wanted.
\<close>

fun smap_bytes :: "super_block \<Rightarrow> int \<Rightarrow> nat list \<Rightarrow> int \<Rightarrow> int \<Rightarrow> u8 list \<Rightarrow> fault + int \<times> int \<times> u8 list" where
  "smap_bytes sb i [] free n bs = Inr (free, n, bs)"
| "smap_bytes sb i (j # js) free n bs =
     (if n \<le> 0 then Inr (free, n, bs)
      else if free = 0 \<and> bs ! j = 0xFF then smap_bytes sb i js free n bs
      else let k = (if free = 0 then zero_bit (bs ! j) 0 else 0);
               free = (if free = 0
                 then sint (word_of_int ((i * int SECTOR_SIZE + int j) * 8 + int k - 1) + n_1st_sector sb) else free)
           in ebind (take_bits k (bs ! j) n) (\<lambda>(b, n). smap_bytes sb i js free n (bs[j := b])))"

function smap_loop :: "int \<Rightarrow> super_block \<Rightarrow> int \<Rightarrow> int \<Rightarrow> int \<Rightarrow> fstate \<Rightarrow> fault + int \<times> int \<times> fstate" where
  "smap_loop dev sb i free n s =
     (if i < uint (nr_smap_sectors sb) then
        let blk = sint (1 + 1 + nr_imap_sectors sb) + i in
        ebind (RD_SECT dev blk s) (\<lambda>s.
        ebind (smap_bytes sb i [0..<SECTOR_SIZE] free n (buf s)) (\<lambda>(free, n, bs).
        let s = set_buf bs s in
        ebind (if free \<noteq> 0 then WR_SECT dev blk s else Inr s) (\<lambda>s.
        if n = 0 then Inr (free, n, s) else smap_loop dev sb (i + 1) free n s)))
      else Inr (free, n, s))"
  by auto
termination
  by (relation "measure (\<lambda>(dev, sb, i, free, n, s). nat (uint (nr_smap_sectors sb) - i))") auto

declare smap_loop.simps [simp del]

definition alloc_smap_bit :: "int \<Rightarrow> int \<Rightarrow> fstate \<Rightarrow> fault + int \<times> fstate" where
  "alloc_smap_bit dev nr_sects_to_alloc s =
     ebind (get_super_block dev s) (\<lambda>sb.
     ebind (smap_loop dev sb 0 0 nr_sects_to_alloc s) (\<lambda>(free_sect_nr, n, s).
     ebind (asserts ''open.c'' [(76, n = 0)]) (\<lambda>_. Inr (free_sect_nr, s))))"

section \<open>Freeing\<close>

text \<open>\<open>do_unlink\<close>: the bit of the inode.\<close>

definition free_imap_bit :: "int \<Rightarrow> int \<Rightarrow> fstate \<Rightarrow> fault + fstate" where
  "free_imap_bit dev inode_nr s =
     (let byte_idx = inode_nr sdiv 8; bit_idx = inode_nr smod 8 in
      ebind (asserts ''link.c'' [(62, byte_idx < int SECTOR_SIZE)]) (\<lambda>_.
      ebind (RD_SECT dev 2 s) (\<lambda>s.
      if byte_idx smod int SECTOR_SIZE < 0 \<or> bit_idx < 0 then Inl (Wild ''fsbuf'')
      else let j = nat (byte_idx smod int SECTOR_SIZE); k = nat bit_idx in
        ebind (asserts ''link.c'' [(64, bit (buf s ! j) k)]) (\<lambda>_.
        let s = set_buf ((buf s)[j := buf s ! j AND NOT (push_bit k 1)]) s in
        WR_SECT dev 2 s))))"

text \<open>The bits of the first byte, from bit \<open>i\<close> on.\<close>

function drop_bits :: "nat \<Rightarrow> u8 \<Rightarrow> int \<Rightarrow> fault + u8 \<times> int" where
  "drop_bits i b bits_left =
     (if i < 8 \<and> bits_left \<noteq> 0 then
        if \<not> bit b i then Inl (Assertion ''link.c'' 80)
        else drop_bits (i + 1) (b AND NOT (push_bit i 1)) (bits_left - 1)
      else Inr (b, bits_left))"
  by auto
termination
  by (relation "measure (\<lambda>(i, b, n). 8 - i)") auto

declare drop_bits.simps [simp del]

text \<open>\<open>if (i == SECTOR_SIZE) { i = 0; WR_SECT(dev, s); RD_SECT(dev, ++s); }\<close>\<close>

definition next_map_sector :: "int \<Rightarrow> nat \<Rightarrow> int \<Rightarrow> fstate \<Rightarrow> fault + nat \<times> int \<times> fstate" where
  "next_map_sector dev i blk s =
     (if i = SECTOR_SIZE
      then ebind (WR_SECT dev blk s) (\<lambda>s. ebind (RD_SECT dev (blk + 1) s) (\<lambda>s. Inr (0, blk + 1, s)))
      else Inr (i, blk, s))"

text \<open>The bytes in between, \<open>byte_cnt\<close> of them.\<close>

fun free_bytes :: "int \<Rightarrow> nat \<Rightarrow> nat \<Rightarrow> int \<Rightarrow> int \<Rightarrow> fstate \<Rightarrow> fault + nat \<times> int \<times> int \<times> fstate" where
  "free_bytes dev 0 i blk bits_left s = Inr (i, blk, bits_left, s)"
| "free_bytes dev (Suc cnt) i blk bits_left s =
     ebind (next_map_sector dev i blk s) (\<lambda>(i, blk, s).
     ebind (asserts ''link.c'' [(93, buf s ! i = 0xFF)]) (\<lambda>_.
     free_bytes dev cnt (i + 1) blk (bits_left - 8) (set_buf ((buf s)[i := 0]) s)))"

definition free_smap_bits :: "int \<Rightarrow> super_block \<Rightarrow> u32 \<Rightarrow> u32 \<Rightarrow> fstate \<Rightarrow> fault + fstate" where
  "free_smap_bits dev sb start_sector nr s =
     (let bit_idx = sint (start_sector - n_1st_sector sb + 1); byte_idx = bit_idx sdiv 8; bits_left = sint nr;
          byte_cnt = (bits_left - (8 - bit_idx smod 8)) sdiv 8;
          blk = sint (2 + nr_imap_sectors sb + word_of_int (byte_idx sdiv int SECTOR_SIZE)) in
      ebind (RD_SECT dev blk s) (\<lambda>s.
      if bit_idx < 0 then Inl (Wild ''fsbuf'')
      else let j = nat (byte_idx smod int SECTOR_SIZE) in
        ebind (drop_bits (nat (bit_idx smod 8)) (buf s ! j) bits_left) (\<lambda>(b, bits_left).
        ebind (free_bytes dev (nat byte_cnt) (j + 1) blk bits_left (set_buf ((buf s)[j := b]) s)) (\<lambda>(i, blk, bits_left, s).
        ebind (next_map_sector dev i blk s) (\<lambda>(i, blk, s).
        if bits_left < 0 then Inl (Wild ''shift'')
        else let mask = NOT (push_bit (nat bits_left) (NOT 0)) in
        ebind (asserts ''link.c'' [(105, buf s ! i AND mask = mask)]) (\<lambda>_.
        let s = set_buf ((buf s)[i := buf s ! i AND push_bit (nat bits_left) (NOT 0)]) s in
        WR_SECT dev blk s))))))"

end
