(* ===== verification/Fs_Map.thy ===== *)
theory Fs_Map
  imports Fs_Alloc
begin

text \<open>
  The bit maps as bits: what setting and clearing a bit of the buffer means, the frame of disk operations,
  and what allocating and freeing the bit of an inode does to the inode map.
\<close>

section \<open>Frame\<close>

text \<open>What input and output leave alone: everything but the disk and the file system's buffer.\<close>

definition io_frame :: "fstate \<Rightarrow> fstate \<Rightarrow> bool" where
  "io_frame s s' \<longleftrightarrow> (\<exists>p m. s' = s\<lparr>hs := (hs s)\<lparr>platter := p, hk := (hk (hs s))\<lparr>kmem := m\<rparr>\<rparr>\<rparr>
     \<and> (\<forall>x. 2 ^ 20 \<le> unat (x - fsb s) \<longrightarrow> m x = fmem s x))"

lemma io_frame_simps:
  assumes "io_frame s s'"
  shows "inode_table s' = inode_table s" "f_desc_table s' = f_desc_table s" "super_blocks s' = super_blocks s"
    "root_inode s' = root_inode s" "fs_msg s' = fs_msg s" "pcaller s' = pcaller s" "procs (hk (hs s')) = procs (hk (hs s))"
    "fsb s' = fsb s" "rbase s' = rbase s" "valid_sect s' = valid_sect s" "fs_layout s' sb = fs_layout s sb"
    "2 ^ 20 \<le> unat (x - fsb s) \<Longrightarrow> fmem s' x = fmem s x" "hd0 (hs s') = hd0 (hs s)" "ready (hs s') = ready (hs s)"
proof -
  from assms obtain p m where s': "s' = s\<lparr>hs := (hs s)\<lparr>platter := p, hk := (hk (hs s))\<lparr>kmem := m\<rparr>\<rparr>\<rparr>"
    and m: "\<forall>x. 2 ^ 20 \<le> unat (x - fsb s) \<longrightarrow> m x = fmem s x" by (auto simp: io_frame_def)
  show "inode_table s' = inode_table s" "f_desc_table s' = f_desc_table s" and sb: "super_blocks s' = super_blocks s"
    and "root_inode s' = root_inode s" "fs_msg s' = fs_msg s" "pcaller s' = pcaller s" "procs (hk (hs s')) = procs (hk (hs s))"
    "fsb s' = fsb s" "rbase s' = rbase s" and v: "valid_sect s' = valid_sect s"
    and "hd0 (hs s') = hd0 (hs s)" "ready (hs s') = ready (hs s)"
    by (simp_all add: s' fsb_def lin_def rbase_def valid_sect_def fun_eq_iff)
  show "fs_layout s' sb = fs_layout s sb" using sb v by (rule fs_layout_cong)
  show "2 ^ 20 \<le> unat (x - fsb s) \<Longrightarrow> fmem s' x = fmem s x" using m by (simp add: s')
qed

lemma io_frame_refl [simp]: "io_frame s s"
  unfolding io_frame_def by (intro exI [of _ "platter (hs s)"] exI [of _ "fmem s"]) simp

lemma io_frame_trans [trans]: "io_frame s t \<Longrightarrow> io_frame t u \<Longrightarrow> io_frame s u"
proof -
  assume "io_frame s t" "io_frame t u"
  then obtain p m p' m' where t: "t = s\<lparr>hs := (hs s)\<lparr>platter := p, hk := (hk (hs s))\<lparr>kmem := m\<rparr>\<rparr>\<rparr>"
    and m: "\<forall>x. 2 ^ 20 \<le> unat (x - fsb s) \<longrightarrow> m x = fmem s x"
    and u: "u = t\<lparr>hs := (hs t)\<lparr>platter := p', hk := (hk (hs t))\<lparr>kmem := m'\<rparr>\<rparr>\<rparr>"
    and m': "\<forall>x. 2 ^ 20 \<le> unat (x - fsb t) \<longrightarrow> m' x = fmem t x" by (auto simp: io_frame_def)
  have "fsb t = fsb s" by (simp add: t fsb_def lin_def)
  with m m' have "\<forall>x. 2 ^ 20 \<le> unat (x - fsb s) \<longrightarrow> m' x = fmem s x" by (simp add: t)
  moreover have "u = s\<lparr>hs := (hs s)\<lparr>platter := p', hk := (hk (hs s))\<lparr>kmem := m'\<rparr>\<rparr>\<rparr>" by (simp add: t u)
  ultimately show ?thesis unfolding io_frame_def by blast
qed

lemma io_frame_set_buf [simp]: "length bs \<le> 2 ^ 20 \<Longrightarrow> io_frame s (set_buf bs s)"
  unfolding io_frame_def set_buf_def upd_mem_def set_kmem_def
  by (intro exI [of _ "platter (hs s)"] exI [of _ "store_bytes (fsb s) bs (fmem s)"]) (simp add: store_bytes_outside)

lemma io_frame_put_sect [simp]: "io_frame s (put_sect n bs s)"
  unfolding io_frame_def put_sect_def
  by (intro exI [of _ "put_bytes (512 * (rbase s + n)) bs (platter (hs s))"] exI [of _ "fmem s"]) simp

lemma io_frame_put_set [simp]: "length bs = 512 \<Longrightarrow> io_frame s (put_sect n cs (set_buf bs s))"
  by (rule io_frame_trans [of _ "set_buf bs s"]) simp_all

section \<open>Bits of a sector\<close>

definition bit_at :: "u8 list \<Rightarrow> nat \<Rightarrow> bool" where
  "bit_at bs n \<longleftrightarrow> bit (bs ! (n div 8)) (n mod 8)"

lemma byte_full: "(b :: u8) = 0xFF \<longleftrightarrow> (\<forall>i < 8. bit b i)"
proof -
  have "(0xFF :: u8) = mask 8" by (simp add: mask_eq_exp_minus_1)
  then have "bit (0xFF :: u8) i \<longleftrightarrow> i < 8" for i by (simp only: bit_mask_iff) auto
  then show ?thesis by (auto simp: bit_eq_iff dest: bit_imp_le_length)
qed

lemma zero_bit_spec:
  assumes "i < 8" "\<not> bit b i" "k \<le> i"
  shows "zero_bit b k < 8 \<and> \<not> bit b (zero_bit b k) \<and> k \<le> zero_bit b k \<and> (\<forall>j. k \<le> j \<and> j < zero_bit b k \<longrightarrow> bit b j)"
  using assms
proof (induction b k rule: zero_bit.induct)
  case (1 b k)
  show ?case
  proof (cases "bit b k")
    case True
    with 1(3,4) have "k + 1 \<le> i" by (cases "k = i") auto
    note IH = 1(1) [OF True 1(2,3) this]
    have eq: "zero_bit b k = zero_bit b (k + 1)" using True by (subst zero_bit.simps) simp
    have "bit b j" if "k \<le> j" "j < zero_bit b (k + 1)" for j
      using IH True that by (cases "j = k") auto
    with IH show ?thesis unfolding eq by auto
  next
    case False
    then have "zero_bit b k = k" by (subst zero_bit.simps) simp
    with 1(2-4) False show ?thesis by auto
  qed
qed

lemma bit_push_1 [simp]: "bit (push_bit k (1 :: 'a::len word)) i \<longleftrightarrow> i = k \<and> k < LENGTH('a)"
  by (auto simp: bit_simps)

lemma byte_index: "k < 8 \<Longrightarrow> m = 8 * j + k \<longleftrightarrow> m div 8 = j \<and> m mod 8 = (k :: nat)"
  by auto

lemma bit_at_set:
  assumes "length bs = 512" "j < 512" "k < 8"
  shows "bit_at (bs[j := bs ! j OR push_bit k 1]) m \<longleftrightarrow> bit_at bs m \<or> m = 8 * j + k"
  unfolding byte_index [OF assms(3)] using assms by (cases "m div 8 = j") (auto simp: bit_at_def bit_simps)

lemma bit_at_clear:
  assumes "length bs = 512" "j < 512" "k < 8"
  shows "bit_at (bs[j := bs ! j AND NOT (push_bit k 1)]) m \<longleftrightarrow> bit_at bs m \<and> m \<noteq> 8 * j + k"
  unfolding byte_index [OF assms(3)] using assms
  by (cases "m div 8 = j") (auto simp: bit_at_def bit_simps)

lemma find_first:
  "List.find P [0..<n] = Some j \<longleftrightarrow> j < n \<and> P j \<and> (\<forall>i < j. \<not> P i)"
  by (auto simp: find_Some_iff)

lemma find_none: "List.find P [0..<n] = None \<longleftrightarrow> (\<forall>i < n. \<not> P i)"
  by (auto simp: find_None_iff)

lemma sdiv_nat: "int a sdiv int b = int (a div b)" "int a smod int b = int (a mod b)"
  by (simp_all add: signed_divide_int_def signed_modulo_int_def sgn_if zdiv_int zmod_int minus_div_mult_eq_mod)

section \<open>The inode map\<close>

lemma imap_sector_ok:
  assumes l: "fs_layout s sb"
  shows "valid_sect s 2"
proof -
  have "2 < unat (nr_sectors sb)" using l first_sector [OF l] unfolding fs_layout_def by linarith
  with l show ?thesis by (simp add: fs_layout_def)
qed

lemma alloc_imap_bit_ok:
  assumes "fs_layout s sb"
  shows "\<exists>n s'. alloc_imap_bit ROOT_DEV s = Inr (int n, s') \<and> io_frame s s' \<and> (\<forall>k. k \<noteq> 2 \<longrightarrow> sect s' k = sect s k)
    \<and> (if \<forall>i \<in> {..<4096}. bit_at (sect s 2) i then n = 0 \<and> sect s' 2 = sect s 2
       else n < 4096 \<and> \<not> bit_at (sect s 2) n \<and> (\<forall>i \<in> {..<n}. bit_at (sect s 2) i)
         \<and> (\<forall>i \<in> {..<4096}. bit_at (sect s' 2) i \<longleftrightarrow> bit_at (sect s 2) i \<or> i = n))"
proof -
  let ?bs = "sect s 2"
  have v: "valid_sect s 2" by (rule imap_sector_ok [OF assms])
  have rd: "RD_SECT ROOT_DEV 2 s = Inr (set_buf ?bs s)" using RD_SECT_root [OF v] by simp
  have sb: "get_super_block ROOT_DEV s = Inr sb" "nr_imap_sectors sb \<noteq> 0" using assms by (auto simp: fs_layout_def)
  show ?thesis
  proof (cases "List.find (\<lambda>j. ?bs ! j \<noteq> 0xFF) [0..<512]")
    case None
    have full: "bit_at ?bs i" if "i < 4096" for i
    proof -
      from that have "i div 8 < 512" by auto
      with None have "?bs ! (i div 8) = 0xFF" by (auto simp: find_none)
      then show ?thesis unfolding byte_full bit_at_def by simp
    qed
    from None have "alloc_imap_bit ROOT_DEV s = Inr (int 0, set_buf ?bs s)"
      by (simp add: alloc_imap_bit_def sb rd SECTOR_SIZE_def)
    with full show ?thesis by (intro exI [of _ 0] exI [of _ "set_buf ?bs s"]) simp
  next
    case (Some j)
    then have j: "j < 512" "?bs ! j \<noteq> 0xFF" "\<And>i. i < j \<Longrightarrow> ?bs ! i = 0xFF" by (auto simp: find_first)
    then obtain i where "i < 8" "\<not> bit (?bs ! j) i" by (auto simp: byte_full)
    note z = zero_bit_spec [OF this, of 0, simplified]
    let ?k = "zero_bit (?bs ! j) 0"
    let ?new = "?bs[j := ?bs ! j OR push_bit ?k 1]"
    have below: "bit_at ?bs i" if "i < 8 * j + ?k" for i
    proof (cases "i div 8 = j")
      case True
      then have "i mod 8 < ?k" using that by (metis add_less_cancel_left mult_div_mod_eq)
      with z True show ?thesis by (simp add: bit_at_def)
    next
      case False
      with that z have "i div 8 < j" by auto
      with j(3) have "?bs ! (i div 8) = 0xFF" by simp
      then show ?thesis unfolding byte_full bit_at_def by simp
    qed
    have n: "8 * j + ?k < 4096" "\<not> bit_at ?bs (8 * j + ?k)" using j z by (auto simp: bit_at_def)
    have "WR_SECT ROOT_DEV 2 (set_buf ?new s) = Inr (put_sect 2 ?new (set_buf ?new s))"
      using WR_SECT_root [of "set_buf ?new s" 2] v by simp
    then have "alloc_imap_bit ROOT_DEV s = Inr (int (8 * j + ?k), put_sect 2 ?new (set_buf ?new s))"
      using Some by (simp add: alloc_imap_bit_def sb rd SECTOR_SIZE_def Let_def mult.commute)
    moreover have "\<forall>i \<in> {..<4096}. bit_at ?new i \<longleftrightarrow> bit_at ?bs i \<or> i = 8 * j + ?k"
      using bit_at_set [of ?bs j ?k] j(1) z by simp
    moreover have nf: "\<not> (\<forall>i \<in> {..<4096}. bit_at ?bs i)" using n by auto
    ultimately show ?thesis unfolding if_not_P [OF nf] using n below
      by (intro exI [of _ "8 * j + ?k"] exI [of _ "put_sect 2 ?new (set_buf ?new s)"]) (simp add: sect_put_sect)
  qed
qed

text \<open>
  C29: the number of a new inode is the lowest one whose bit in the map is clear; exactly this bit is set on the
  disk. When all 4096 bits are set, the function returns 0 instead of reaching its \<open>panic\<close>, because the
  loop over the sectors of the map returns in its first pass.
\<close>

theorem alloc_imap_bit_spec:
  assumes "fs_layout s sb"
  shows "\<exists>n s'. alloc_imap_bit ROOT_DEV s = Inr (int n, s') \<and> io_frame s s' \<and> (\<forall>k. k \<noteq> 2 \<longrightarrow> sect s' k = sect s k)
    \<and> (if \<forall>i \<in> {..<4096}. bit_at (sect s 2) i then n = 0 \<and> sect s' 2 = sect s 2
       else n < 4096 \<and> \<not> bit_at (sect s 2) n \<and> (\<forall>i \<in> {..<n}. bit_at (sect s 2) i)
         \<and> (\<forall>i \<in> {..<4096}. bit_at (sect s' 2) i \<longleftrightarrow> bit_at (sect s 2) i \<or> i = n))"
  by (rule alloc_imap_bit_ok [OF assms])

text \<open>The bit of an inode.\<close>

lemma free_imap_bit_ok:
  assumes "fs_layout s sb" "n < 4096" "bit_at (sect s 2) n"
  shows "\<exists>s'. free_imap_bit ROOT_DEV (int n) s = Inr s' \<and> io_frame s s' \<and> (\<forall>k. k \<noteq> 2 \<longrightarrow> sect s' k = sect s k)
    \<and> (\<forall>i < 4096. bit_at (sect s' 2) i \<longleftrightarrow> bit_at (sect s 2) i \<and> i \<noteq> n)"
proof -
  let ?bs = "sect s 2"
  let ?new = "?bs[n div 8 := ?bs ! (n div 8) AND NOT (push_bit (n mod 8) 1)]"
  have v: "valid_sect s 2" by (rule imap_sector_ok [OF assms(1)])
  have d: "n div 8 < 512" using assms(2) by auto
  have idx: "int n sdiv 8 = int (n div 8)" "int n smod 8 = int (n mod 8)" "int (n div 8) smod int SECTOR_SIZE = int (n div 8)"
    using sdiv_nat [of n 8] sdiv_nat(2) [of "n div 8" 512] d by (simp_all add: SECTOR_SIZE_def)
  have "WR_SECT ROOT_DEV 2 (set_buf ?new s) = Inr (put_sect 2 ?new (set_buf ?new s))"
    using WR_SECT_root [of "set_buf ?new s" 2] v by simp
  then have "free_imap_bit ROOT_DEV (int n) s = Inr (put_sect 2 ?new (set_buf ?new s))"
    using RD_SECT_root [OF v] assms(3) d unfolding free_imap_bit_def Let_def idx
    by (simp add: SECTOR_SIZE_def bit_at_def del: push_bit_of_1)
  moreover have "bit_at ?new i \<longleftrightarrow> bit_at ?bs i \<and> i \<noteq> n" for i
    using bit_at_clear [of ?bs "n div 8" "n mod 8"] d by simp
  ultimately show ?thesis by (intro exI [of _ "put_sect 2 ?new (set_buf ?new s)"]) (simp add: sect_put_sect)
qed

end
