(* ===== verification/Fs_Slots.thy ===== *)
theory Fs_Slots
  imports Fs_Map
begin

text \<open>
  The sector map. \<open>alloc_smap_bit\<close> and the freeing code of \<open>do_unlink\<close> walk over the bytes and sectors of the map;
  the lemmas follow their loops and end in their effect on the set of used bits, \<open>sector_map\<close>. As every file
  takes 2048 sectors, a map that \<open>mkfs\<close> started stays a union of slots, and no two files share a sector.
\<close>

section \<open>The sector map\<close>

lemma take_bits_ok:
  assumes "k \<le> 8" "\<And>i. k \<le> i \<Longrightarrow> i < 8 \<Longrightarrow> i < k + N \<Longrightarrow> \<not> bit b i" "0 < N"
  shows "\<exists>b'. take_bits k b (int N) = Inr (b', int (N - (8 - k)))
    \<and> (\<forall>i < 8. bit b' i \<longleftrightarrow> bit b i \<or> (k \<le> i \<and> i < k + N))"
  using assms
proof (induction "8 - k" arbitrary: k b N)
  case 0
  then show ?case by (subst take_bits.simps) auto
next
  case (Suc d)
  then have k: "k < 8" "\<not> bit b k" by auto
  let ?b = "b OR push_bit k 1"
  have b: "bit ?b i \<longleftrightarrow> bit b i \<or> i = k" for i using k(1) by (auto simp: bit_or_iff bit_push_1 simp del: push_bit_of_1)
  have eq: "take_bits k b (int N) = (if N = 1 then Inr (?b, 0) else take_bits (k + 1) ?b (int (N - 1)))"
    using k Suc.prems(3) by (subst take_bits.simps) (auto simp: Let_def of_nat_diff)
  show ?case
  proof (cases "N = 1")
    case True
    with eq b k(1) show ?thesis by (intro exI [of _ ?b]) auto
  next
    case False
    have "\<exists>b'. take_bits (k + 1) ?b (int (N - 1)) = Inr (b', int (N - 1 - (8 - (k + 1))))
      \<and> (\<forall>i < 8. bit b' i \<longleftrightarrow> bit ?b i \<or> (k + 1 \<le> i \<and> i < k + 1 + (N - 1)))"
      using Suc.hyps(2) k(1) False Suc.prems by (intro Suc.hyps(1)) (auto simp: b simp del: push_bit_of_1)
    then obtain b' where b': "take_bits (k + 1) ?b (int (N - 1)) = Inr (b', int (N - 1 - (8 - (k + 1))))"
      "\<forall>i < 8. bit b' i \<longleftrightarrow> bit ?b i \<or> (k + 1 \<le> i \<and> i < k + 1 + (N - 1))" by blast
    have "N - 1 - (8 - (k + 1)) = N - (8 - k)" using k(1) by simp
    with eq b' False b k(1) Suc.prems(3) show ?thesis by (intro exI [of _ b']) auto
  qed
qed

lemma bit_at_upd:
  assumes "length bs = 512" "j < 512"
  shows "bit_at (bs[j := b]) m \<longleftrightarrow> (if m div 8 = j then bit b (m mod 8) else bit_at bs m)"
  using assms by (auto simp: bit_at_def)

lemma smap_bytes_started:
  assumes "free \<noteq> 0" "length bs = 512" "j \<le> 512" "\<And>m. 8 * j \<le> m \<Longrightarrow> m < 4096 \<Longrightarrow> m < 8 * j + N \<Longrightarrow> \<not> bit_at bs m"
  shows "\<exists>bs'. smap_bytes sb i [j..<512] free (int N) bs = Inr (free, int (N - (4096 - 8 * j)), bs') \<and> length bs' = 512
    \<and> (\<forall>m < 4096. bit_at bs' m \<longleftrightarrow> bit_at bs m \<or> (8 * j \<le> m \<and> m < 8 * j + N))"
  using assms(2-)
proof (induction "512 - j" arbitrary: j bs N)
  case 0
  then show ?case by auto
next
  case (Suc d)
  then have j: "j < 512" by simp
  have upt: "[j..<512] = j # [Suc j..<512]" using j by (simp add: upt_conv_Cons)
  show ?case
  proof (cases "N = 0")
    case True
    with Suc.prems show ?thesis unfolding upt by auto
  next
    case False
    have "\<exists>b'. take_bits 0 (bs ! j) (int N) = Inr (b', int (N - (8 - 0)))
      \<and> (\<forall>i < 8. bit b' i \<longleftrightarrow> bit (bs ! j) i \<or> (0 \<le> i \<and> i < 0 + N))"
    proof (rule take_bits_ok)
      fix i :: nat
      assume "i < 8" "i < 0 + N"
      with Suc.prems(3) [of "8 * j + i"] j show "\<not> bit (bs ! j) i" by (simp add: bit_at_def)
    qed (use False in auto)
    then obtain b' where b': "take_bits 0 (bs ! j) (int N) = Inr (b', int (N - 8))"
      "\<And>i. i < 8 \<Longrightarrow> bit b' i \<longleftrightarrow> bit (bs ! j) i \<or> i < N" by auto
    let ?bs = "bs[j := b']"
    have at: "bit_at ?bs m \<longleftrightarrow> bit_at bs m \<or> (m div 8 = j \<and> m mod 8 < N)" for m
      using b'(2) [of "m mod 8"] bit_at_upd [OF Suc.prems(1) j, of b' m]
      by (cases "m div 8 = j") (simp_all add: bit_at_def)
    have "\<exists>bs'. smap_bytes sb i [Suc j..<512] free (int (N - 8)) ?bs = Inr (free, int (N - 8 - (4096 - 8 * Suc j)), bs') \<and> length bs' = 512
      \<and> (\<forall>m < 4096. bit_at bs' m \<longleftrightarrow> bit_at ?bs m \<or> (8 * Suc j \<le> m \<and> m < 8 * Suc j + (N - 8)))"
    proof (rule Suc.hyps(1))
      fix m
      assume "8 * Suc j \<le> m" "m < 4096" "m < 8 * Suc j + (N - 8)"
      with Suc.prems(3) [of m] at [of m] show "\<not> bit_at ?bs m" by auto
    qed (use Suc j in auto)
    then obtain bs' where bs': "smap_bytes sb i [Suc j..<512] free (int (N - 8)) ?bs = Inr (free, int (N - 8 - (4096 - 8 * Suc j)), bs')"
      "length bs' = 512" "\<And>m. m < 4096 \<Longrightarrow> bit_at bs' m \<longleftrightarrow> bit_at ?bs m \<or> (8 * Suc j \<le> m \<and> m < 8 * Suc j + (N - 8))" by blast
    have "smap_bytes sb i [j..<512] free (int N) bs = Inr (free, int (N - (4096 - 8 * j)), bs')"
      using False assms(1) b'(1) bs'(1) j unfolding upt by (simp add: diff_diff_eq algebra_simps)
    moreover have "bit_at bs' m \<longleftrightarrow> bit_at bs m \<or> (8 * j \<le> m \<and> m < 8 * j + N)" if "m < 4096" for m
    proof -
      have "(m div 8 = j \<and> m mod 8 < N) \<or> (8 * Suc j \<le> m \<and> m < 8 * Suc j + (N - 8)) \<longleftrightarrow> 8 * j \<le> m \<and> m < 8 * j + N"
        by (cases "m div 8 = j") (auto, presburger+)
      then show ?thesis using bs'(3) [OF that] at [of m] by blast
    qed
    ultimately show ?thesis using bs'(2) by blast
  qed
qed

lemma zero_bit_least:
  assumes "f < 8" "\<not> bit b f" "\<forall>i < f. bit b i"
  shows "zero_bit b 0 = f"
  using zero_bit_spec [of f b 0] assms by (metis le0 linorder_neqE_nat not_less_zero)

lemma smap_bytes_first:
  assumes len: "length bs = 512" and f: "f < 4096" "\<not> bit_at bs f" "\<And>m. m < f \<Longrightarrow> bit_at bs m" and N: "0 < N"
    and run: "\<And>m. f \<le> m \<Longrightarrow> m < 4096 \<Longrightarrow> m < f + N \<Longrightarrow> \<not> bit_at bs m"
    and F: "F = sint (word_of_int (i * 4096 + int f - 1) + n_1st_sector sb)" "F \<noteq> 0" and j: "j \<le> f div 8"
  shows "\<exists>bs'. smap_bytes sb i [j..<512] 0 (int N) bs = Inr (F, int (N - (4096 - f)), bs') \<and> length bs' = 512
    \<and> (\<forall>m < 4096. bit_at bs' m \<longleftrightarrow> bit_at bs m \<or> (f \<le> m \<and> m < f + N))"
  using j
proof (induction "f div 8 - j" arbitrary: j)
  case (Suc d)
  then have j: "j < f div 8" by simp
  have "bit_at bs (8 * j + k)" if "k < 8" for k using f(3) [of "8 * j + k"] j that by auto
  then have full: "bs ! j = 0xFF" unfolding byte_full by (auto simp: bit_at_def)
  have "[j..<512] = j # [Suc j..<512]" using j f(1) by (simp add: upt_conv_Cons)
  moreover have "\<exists>bs'. smap_bytes sb i [Suc j..<512] 0 (int N) bs = Inr (F, int (N - (4096 - f)), bs') \<and> length bs' = 512
    \<and> (\<forall>m < 4096. bit_at bs' m \<longleftrightarrow> bit_at bs m \<or> (f \<le> m \<and> m < f + N))" by (rule Suc.hyps(1)) (use Suc in auto)
  ultimately show ?case using full N by simp
next
  case 0
  from 0 have j: "j = f div 8" "j < 512" using f(1) by auto
  define k where k: "k = f mod 8"
  have k8: "k < 8" and fj: "f = 8 * j + k" unfolding j(1) k by simp_all
  have low: "\<forall>i < k. bit (bs ! j) i" 
  proof (intro allI impI)
    fix i assume "i < k"
    then have "bit_at bs (8 * j + i)" using fj by (intro f(3)) simp
    with \<open>i < k\<close> k8 show "bit (bs ! j) i" by (simp add: bit_at_def)
  qed
  have kf: "\<not> bit (bs ! j) k" using f(2) by (simp add: bit_at_def j(1) k)
  have z: "zero_bit (bs ! j) 0 = k" by (rule zero_bit_least [OF k8 kf low])
  have nf: "bs ! j \<noteq> 0xFF" using kf unfolding byte_full by (auto intro!: exI [of _ k] k8)
  have "\<exists>b'. take_bits k (bs ! j) (int N) = Inr (b', int (N - (8 - k)))
    \<and> (\<forall>i < 8. bit b' i \<longleftrightarrow> bit (bs ! j) i \<or> (k \<le> i \<and> i < k + N))"
  proof (rule take_bits_ok)
    fix i assume "k \<le> i" "i < 8" "i < k + N"
    with run [of "8 * j + i"] fj j(2) k8 show "\<not> bit (bs ! j) i" by (simp add: bit_at_def)
  qed (use N k8 in auto)
  then obtain b' where b': "take_bits k (bs ! j) (int N) = Inr (b', int (N - (8 - k)))"
    "\<And>i. i < 8 \<Longrightarrow> bit b' i \<longleftrightarrow> bit (bs ! j) i \<or> (k \<le> i \<and> i < k + N)" by auto
  let ?bs = "bs[j := b']"
  have at: "bit_at ?bs m \<longleftrightarrow> bit_at bs m \<or> (m div 8 = j \<and> k \<le> m mod 8 \<and> m mod 8 < k + N)" for m
    using b'(2) [of "m mod 8"] bit_at_upd [OF len j(2), of b' m] by (cases "m div 8 = j") (simp_all add: bit_at_def)
  have "\<exists>bs'. smap_bytes sb i [Suc j..<512] F (int (N - (8 - k))) ?bs = Inr (F, int (N - (8 - k) - (4096 - 8 * Suc j)), bs') \<and> length bs' = 512
    \<and> (\<forall>m < 4096. bit_at bs' m \<longleftrightarrow> bit_at ?bs m \<or> (8 * Suc j \<le> m \<and> m < 8 * Suc j + (N - (8 - k))))"
  proof (rule smap_bytes_started [OF F(2)])
    fix m assume m: "8 * Suc j \<le> m" "m < 4096" "m < 8 * Suc j + (N - (8 - k))"
    then have "f \<le> m \<and> m < f + N" using fj k8 by auto
    moreover have "m div 8 \<noteq> j" using m(1) by auto
    ultimately show "\<not> bit_at ?bs m" using run [of m] at [of m] m by auto
  qed (use len j in auto)
  then obtain bs' where bs': "smap_bytes sb i [Suc j..<512] F (int (N - (8 - k))) ?bs = Inr (F, int (N - (8 - k) - (4096 - 8 * Suc j)), bs')"
    "length bs' = 512" "\<And>m. m < 4096 \<Longrightarrow> bit_at bs' m \<longleftrightarrow> bit_at ?bs m \<or> (8 * Suc j \<le> m \<and> m < 8 * Suc j + (N - (8 - k)))" by blast
  have "F = sint (word_of_int ((i * int SECTOR_SIZE + int j) * 8 + int k - 1) + n_1st_sector sb)"
    unfolding F(1) by (subst fj) (simp add: SECTOR_SIZE_def algebra_simps)
  moreover have "8 - k + (4096 - 8 * Suc j) = 4096 - f" using fj j(2) k8 by auto
  then have "N - (8 - k) - (4096 - 8 * Suc j) = N - (4096 - f)" by (simp only: diff_diff_left)
  moreover have "[j..<512] = j # [Suc j..<512]" using j by (simp add: upt_conv_Cons)
  ultimately have "smap_bytes sb i [j..<512] 0 (int N) bs = Inr (F, int (N - (4096 - f)), bs')"
    using N nf z b'(1) bs'(1) by (simp add: Let_def)
  moreover have "bit_at bs' m \<longleftrightarrow> bit_at bs m \<or> (f \<le> m \<and> m < f + N)" if "m < 4096" for m
  proof -
    have "(m div 8 = j \<and> k \<le> m mod 8 \<and> m mod 8 < k + N) \<or> (8 * Suc j \<le> m \<and> m < 8 * Suc j + (N - (8 - k))) \<longleftrightarrow> f \<le> m \<and> m < f + N"
      using fj k8 mod_less_divisor [of 8 m, simplified] mult_div_mod_eq [of 8 m]
      by (cases "m div 8 = j") (simp, linarith)+
    then show ?thesis using bs'(3) [OF that] at [of m] by blast
  qed
  ultimately show ?case using bs'(2) by blast
qed

lemma smap_bytes_full:
  assumes "length bs = 512" "\<And>m. m < 4096 \<Longrightarrow> bit_at bs m" "0 < n" "\<forall>j \<in> set js. j < 512"
  shows "smap_bytes sb i js 0 n bs = Inr (0, n, bs)"
  using assms(4)
proof (induction js)
  case (Cons j js)
  then have "j < 512" by simp
  have "bs ! j = 0xFF"
    unfolding byte_full
  proof (intro allI impI)
    fix k :: nat assume "k < 8"
    with assms(2) [of "8 * j + k"] \<open>j < 512\<close> show "bit (bs ! j) k" by (simp add: bit_at_def)
  qed
  with Cons assms(3) show ?case by simp
qed simp

section \<open>Allocation over the sectors of the map\<close>

definition used :: "fstate \<Rightarrow> nat \<Rightarrow> bool" where
  "used s m \<longleftrightarrow> bit_at (sect s (3 + m div 4096)) (m mod 4096)"

text \<open>From \<open>s\<close> to \<open>s'\<close> only the sector map changes, by the given operation on its bits.\<close>

definition map_step :: "fstate \<Rightarrow> fstate \<Rightarrow> (nat \<Rightarrow> bool \<Rightarrow> bool) \<Rightarrow> bool" where
  "map_step s s' f \<longleftrightarrow> io_frame s s' \<and> (\<forall>k < 3. sect s' k = sect s k) \<and> (\<forall>m. used s' m \<longleftrightarrow> f m (used s m))"

lemma map_step_trans:
  "map_step s t f \<Longrightarrow> map_step t u g \<Longrightarrow> (\<And>m b. h m b \<longleftrightarrow> g m (f m b)) \<Longrightarrow> map_step s u h"
  by (auto simp: map_step_def intro: io_frame_trans)

lemma used_put: "length bs = 512 \<Longrightarrow> used (put_sect (3 + i) bs s) m \<longleftrightarrow> (if m div 4096 = i then bit_at bs (m mod 4096) else used s m)"
  by (simp add: used_def sect_put_sect)

lemma used_set_buf [simp]: "used (set_buf bs s) = used s" by (simp add: used_def fun_eq_iff)

lemma map_step_put:
  assumes "length bs = 512" "length cs = 512"
    "\<And>m. m < 4096 \<Longrightarrow> bit_at bs m \<longleftrightarrow> f (4096 * i + m) (bit_at (sect s (3 + i)) m)"
    "\<And>m b. m div 4096 \<noteq> i \<Longrightarrow> f m b = b"
  shows "map_step s (put_sect (3 + i) bs (set_buf cs s)) f"
proof -
  have "used (put_sect (3 + i) bs (set_buf cs s)) m \<longleftrightarrow> f m (used s m)" for m
    using assms(3) [of "m mod 4096"] assms(4) [of m] mult_div_mod_eq [of 4096 m]
    by (cases "m div 4096 = i") (simp_all add: used_def sect_put_sect assms(1))
  with assms(1,2) show ?thesis by (simp add: map_step_def sect_put_sect)
qed

lemma smap_blk:
  assumes "fs_layout s sb"
  shows "sint (1 + 1 + nr_imap_sectors sb) + int i = int (3 + i)" "i < unat (nr_smap_sectors sb) \<Longrightarrow> valid_sect s (3 + i)"
proof -
  from assms first_sector [OF assms] show "sint (1 + 1 + nr_imap_sectors sb) + int i = int (3 + i)" "i < unat (nr_smap_sectors sb) \<Longrightarrow> valid_sect s (3 + i)"
    by (auto simp: fs_layout_def)
qed

text \<open>One pass of the outer loop, up to the next one.\<close>

lemma smap_loop_pass:
  assumes l: "fs_layout s sb" and i: "i < unat (nr_smap_sectors sb)"
    and b: "smap_bytes sb (int i) [0..<512] free n (sect s (3 + i)) = Inr (free', n', bs')" "length bs' = 512"
  shows "smap_loop ROOT_DEV sb (int i) free n s =
    (let s' = if free' \<noteq> 0 then put_sect (3 + i) bs' (set_buf bs' s) else set_buf bs' s in
     if n' = 0 then Inr (free', n', s') else smap_loop ROOT_DEV sb (int (Suc i)) free' n' s')"
proof -
  have v: "valid_sect s (3 + i)" by (rule smap_blk(2) [OF l i])
  have "WR_SECT ROOT_DEV (int (3 + i)) (set_buf bs' s) = Inr (put_sect (3 + i) bs' (set_buf bs' s))"
    using WR_SECT_root [of "set_buf bs' s" "3 + i"] v b(2) by simp
  moreover have "int i < uint (nr_smap_sectors sb)" using i by (simp only: uint_nat of_nat_less_iff)
  ultimately show ?thesis
    using RD_SECT_root [OF v] b unfolding smap_loop.simps [of _ _ "int i"] smap_blk(1) [OF l]
    by (simp add: Let_def SECTOR_SIZE_def add.commute)
qed

lemma smap_loop_started:
  assumes "fs_layout s sb" "free \<noteq> 0" "0 < N" "4096 * i + N \<le> 4096 * unat (nr_smap_sectors sb)"
    "\<And>m. 4096 * i \<le> m \<Longrightarrow> m < 4096 * i + N \<Longrightarrow> \<not> used s m"
  shows "\<exists>s'. smap_loop ROOT_DEV sb (int i) free (int N) s = Inr (free, 0, s')
    \<and> map_step s s' (\<lambda>m b. b \<or> (4096 * i \<le> m \<and> m < 4096 * i + N))"
  using assms
proof (induction "unat (nr_smap_sectors sb) - i" arbitrary: i N s)
  case (Suc d)
  then have i: "i < unat (nr_smap_sectors sb)" by simp
  let ?bs = "sect s (3 + i)"
  have "\<exists>bs'. smap_bytes sb (int i) [0..<512] free (int N) ?bs = Inr (free, int (N - (4096 - 8 * 0)), bs') \<and> length bs' = 512
    \<and> (\<forall>m < 4096. bit_at bs' m \<longleftrightarrow> bit_at ?bs m \<or> (8 * 0 \<le> m \<and> m < 8 * 0 + N))"
  proof (rule smap_bytes_started [OF Suc.prems(2)])
    fix m assume "m < 4096" "m < 8 * 0 + N"
    with Suc.prems(5) [of "4096 * i + m"] show "\<not> bit_at ?bs m" by (simp add: used_def)
  qed auto
  then obtain bs' where bs': "smap_bytes sb (int i) [0..<512] free (int N) ?bs = Inr (free, int (N - 4096), bs')" "length bs' = 512"
    "\<And>m. m < 4096 \<Longrightarrow> bit_at bs' m \<longleftrightarrow> bit_at ?bs m \<or> m < N" by auto
  let ?s = "put_sect (3 + i) bs' (set_buf bs' s)"
  have step: "map_step s ?s (\<lambda>m b. b \<or> (m div 4096 = i \<and> m < 4096 * i + N))"
    by (rule map_step_put) (use bs' i in auto)
  have pass: "smap_loop ROOT_DEV sb (int i) free (int N) s =
     (if N \<le> 4096 then Inr (free, 0, ?s) else smap_loop ROOT_DEV sb (int (Suc i)) free (int (N - 4096)) ?s)"
    using smap_loop_pass [OF Suc.prems(1) i bs'(1,2)] Suc.prems(2) by (auto simp: Let_def)
  show ?case
  proof (cases "N \<le> 4096")
    case True
    then have "(m div 4096 = i \<and> m < 4096 * i + N) \<longleftrightarrow> 4096 * i \<le> m \<and> m < 4096 * i + N" for m by auto
    with step pass True show ?thesis by (intro exI [of _ ?s]) simp
  next
    case False
    have "\<exists>s'. smap_loop ROOT_DEV sb (int (Suc i)) free (int (N - 4096)) ?s = Inr (free, 0, s')
      \<and> map_step ?s s' (\<lambda>m b. b \<or> (4096 * Suc i \<le> m \<and> m < 4096 * Suc i + (N - 4096)))"
    proof (rule Suc.hyps(1))
      fix m assume "4096 * Suc i \<le> m" "m < 4096 * Suc i + (N - 4096)"
      moreover from this have "m div 4096 \<noteq> i" by auto
      ultimately show "\<not> used ?s m" using Suc.prems(5) [of m] by (auto simp: used_put bs'(2))
    qed (use Suc False in auto)
    then obtain s' where s': "smap_loop ROOT_DEV sb (int (Suc i)) free (int (N - 4096)) ?s = Inr (free, 0, s')"
      "map_step ?s s' (\<lambda>m b. b \<or> (4096 * Suc i \<le> m \<and> m < 4096 * Suc i + (N - 4096)))" by blast
    have "b \<or> (4096 * i \<le> m \<and> m < 4096 * i + N) \<longleftrightarrow>
      (b \<or> (m div 4096 = i \<and> m < 4096 * i + N)) \<or> (4096 * Suc i \<le> m \<and> m < 4096 * Suc i + (N - 4096))" for m b
      using False by auto
    from map_step_trans [OF step s'(2) this] show ?thesis using pass False s'(1) by auto
  qed
qed auto

lemma smap_loop_first:
  assumes "fs_layout s sb" "0 < N" "f + N \<le> 4096 * unat (nr_smap_sectors sb)" "\<And>m. m < f \<Longrightarrow> used s m"
    "\<And>m. f \<le> m \<Longrightarrow> m < f + N \<Longrightarrow> \<not> used s m" "i \<le> f div 4096"
    and F: "F = sint (word_of_int (int f - 1) + n_1st_sector sb)" "F \<noteq> 0"
  shows "\<exists>s'. smap_loop ROOT_DEV sb (int i) 0 (int N) s = Inr (F, 0, s')
    \<and> map_step s s' (\<lambda>m b. b \<or> (f \<le> m \<and> m < f + N))"
  using assms(1-6)
proof (induction "f div 4096 - i" arbitrary: i s)
  case (Suc d)
  then have i: "i < f div 4096" by simp
  let ?bs = "sect s (3 + i)"
  have inr: "i < unat (nr_smap_sectors sb)" using i Suc.prems(2,3) by (auto simp: less_mult_imp_div_less)
  have "bit_at ?bs m" if "m < 4096" for m
    using Suc.prems(4) [of "4096 * i + m"] i that by (auto simp: used_def)
  then have "smap_bytes sb (int i) [0..<512] 0 (int N) ?bs = Inr (0, int N, ?bs)"
    using Suc.prems(2) by (intro smap_bytes_full) auto
  from smap_loop_pass [OF Suc.prems(1) inr this] Suc.prems(2)
  have pass: "smap_loop ROOT_DEV sb (int i) 0 (int N) s = smap_loop ROOT_DEV sb (int (Suc i)) 0 (int N) (set_buf ?bs s)"
    by simp
  have "\<exists>s'. smap_loop ROOT_DEV sb (int (Suc i)) 0 (int N) (set_buf ?bs s) = Inr (F, 0, s')
    \<and> map_step (set_buf ?bs s) s' (\<lambda>m b. b \<or> (f \<le> m \<and> m < f + N))"
    by (rule Suc.hyps(1)) (use Suc in auto)
  then obtain s' where s': "smap_loop ROOT_DEV sb (int (Suc i)) 0 (int N) (set_buf ?bs s) = Inr (F, 0, s')"
    "map_step (set_buf ?bs s) s' (\<lambda>m b. b \<or> (f \<le> m \<and> m < f + N))" by blast
  have "map_step s (set_buf ?bs s) (\<lambda>m b. b)" by (simp add: map_step_def)
  from map_step_trans [OF this s'(2)] pass s'(1) show ?case by auto
next
  case 0
  let ?j = "f mod 4096" and ?bs = "sect s (3 + i)"
  from 0 have i: "i = f div 4096" "i < unat (nr_smap_sectors sb)" by (auto simp: less_mult_imp_div_less)
  have fi: "f = 4096 * i + ?j" and j: "?j < 4096" unfolding i(1) by simp_all
  have "\<exists>bs'. smap_bytes sb (int i) [0..<512] 0 (int N) ?bs = Inr (F, int (N - (4096 - ?j)), bs') \<and> length bs' = 512
    \<and> (\<forall>m < 4096. bit_at bs' m \<longleftrightarrow> bit_at ?bs m \<or> (?j \<le> m \<and> m < ?j + N))"
  proof (rule smap_bytes_first)
    show "\<not> bit_at ?bs ?j" using 0(6) [of f] 0(3) by (simp add: used_def i(1))
    show "bit_at ?bs m" if "m < ?j" for m 
      using 0(5) [of "4096 * i + m"] fi that j by (simp add: used_def)
    show "\<not> bit_at ?bs m" if "?j \<le> m" "m < 4096" "m < ?j + N" for m
      using 0(6) [of "4096 * i + m"] fi that by (simp add: used_def)
    have "int i * 4096 + int ?j - 1 = int f - 1" using arg_cong [OF fi, of int] unfolding of_nat_add of_nat_mult by simp
    then show "F = sint (word_of_int (int i * 4096 + int ?j - 1) + n_1st_sector sb)" using F(1) by simp
  qed (use F(2) 0 in auto)
  then obtain bs' where bs': "smap_bytes sb (int i) [0..<512] 0 (int N) ?bs = Inr (F, int (N - (4096 - ?j)), bs')" "length bs' = 512"
    "\<And>m. m < 4096 \<Longrightarrow> bit_at bs' m \<longleftrightarrow> bit_at ?bs m \<or> (?j \<le> m \<and> m < ?j + N)" by blast
  let ?s = "put_sect (3 + i) bs' (set_buf bs' s)" and ?n = "N - (4096 - ?j)"
  have step: "map_step s ?s (\<lambda>m b. b \<or> (m div 4096 = i \<and> f \<le> m \<and> m < f + N))"
  proof (rule map_step_put)
    fix m :: nat assume "m < 4096"
    with bs'(3) [OF this] fi show "bit_at bs' m \<longleftrightarrow> bit_at ?bs m \<or> ((4096 * i + m) div 4096 = i \<and> f \<le> 4096 * i + m \<and> 4096 * i + m < f + N)"
      by auto
  qed (use bs' i in auto)
  have pass: "smap_loop ROOT_DEV sb (int i) 0 (int N) s =
     (if N \<le> 4096 - ?j then Inr (F, 0, ?s) else smap_loop ROOT_DEV sb (int (Suc i)) F (int ?n) ?s)"
    using smap_loop_pass [OF 0(2) i(2) bs'(1,2)] F(2) by (auto simp: Let_def)
  show ?case
  proof (cases "N \<le> 4096 - ?j")
    case True
    have "(m div 4096 = i \<and> f \<le> m \<and> m < f + N) \<longleftrightarrow> f \<le> m \<and> m < f + N" for m using True fi by auto
    with step pass True show ?thesis by (intro exI [of _ ?s]) simp
  next
    case False
    have "\<exists>s'. smap_loop ROOT_DEV sb (int (Suc i)) F (int ?n) ?s = Inr (F, 0, s')
      \<and> map_step ?s s' (\<lambda>m b. b \<or> (4096 * Suc i \<le> m \<and> m < 4096 * Suc i + ?n))"
    proof (rule smap_loop_started)
      fix m assume m: "4096 * Suc i \<le> m" "m < 4096 * Suc i + ?n"
      then have "m div 4096 \<noteq> i" by auto
      moreover have "f \<le> m \<and> m < f + N" using m fi j False by auto
      ultimately show "\<not> used ?s m" using 0(6) [of m] by (auto simp: used_put bs'(2))
    qed (use 0 False F(2) fi j in auto)
    then obtain s' where s': "smap_loop ROOT_DEV sb (int (Suc i)) F (int ?n) ?s = Inr (F, 0, s')"
      "map_step ?s s' (\<lambda>m b. b \<or> (4096 * Suc i \<le> m \<and> m < 4096 * Suc i + ?n))" by blast
    have "4096 * Suc i + ?n = f + N" using fi j False by auto
    moreover have "f \<le> m \<and> m div 4096 \<noteq> i \<longleftrightarrow> 4096 * Suc i \<le> m" for m using fi j by auto
    ultimately have "b \<or> (f \<le> m \<and> m < f + N) \<longleftrightarrow>
      (b \<or> (m div 4096 = i \<and> f \<le> m \<and> m < f + N)) \<or> (4096 * Suc i \<le> m \<and> m < 4096 * Suc i + ?n)" for m b
      by (metis)
    from map_step_trans [OF step s'(2) this] show ?thesis using pass False s'(1) by auto
  qed
qed

lemma bit_at_ext:
  assumes "length bs = 512" "length cs = 512" "\<And>m. m < 4096 \<Longrightarrow> bit_at bs m \<longleftrightarrow> bit_at cs m"
  shows "bs = cs"
proof (rule nth_equalityI)
  fix j assume j: "j < length bs"
  have "bit (bs ! j) k \<longleftrightarrow> bit (cs ! j) k" for k
    using assms(3) [of "8 * j + k"] j assms(1) by (cases "k < 8") (auto simp: bit_at_def dest: bit_imp_le_length)
  then show "bs ! j = cs ! j" by (simp add: bit_eq_iff)
qed (simp add: assms)

definition sector_map :: "super_block \<Rightarrow> fstate \<Rightarrow> nat set" where
  "sector_map sb s = {m. m < 4096 * unat (nr_smap_sectors sb) \<and> used s m}"

lemma map_step_result:
  assumes "map_step s s' f" "\<And>m b. 4096 * unat (nr_smap_sectors sb) \<le> m \<Longrightarrow> f m b = b"
    "k < 3 \<or> 3 + unat (nr_smap_sectors sb) \<le> k"
  shows "sect s' k = sect s k"
proof (cases "k < 3")
  case False
  with assms(3) obtain i where i: "k = 3 + i" "unat (nr_smap_sectors sb) \<le> i" by (metis add_le_cancel_left le_Suc_ex not_less)
  have "bit_at (sect s' k) m \<longleftrightarrow> bit_at (sect s k) m" if "m < 4096" for m
  proof -
    have "used s' (4096 * i + m) \<longleftrightarrow> used s (4096 * i + m)"
      using assms(1) assms(2) [of "4096 * i + m"] i(2) by (simp add: map_step_def)
    with that show ?thesis by (simp add: used_def i(1))
  qed
  then show ?thesis by (intro bit_at_ext) auto
qed (use assms(1) in \<open>simp add: map_step_def\<close>)

lemma sector_number:
  assumes "fs_layout s sb" "f \<le> 2 ^ 28"
  shows "sint (word_of_int (int f - 1) + n_1st_sector sb) = int (unat (n_1st_sector sb)) + int f - 1"
proof -
  let ?n = "258 + unat (nr_smap_sectors sb) + f"
  have "n_1st_sector sb = of_nat (259 + unat (nr_smap_sectors sb))" using assms(1) by (simp add: fs_layout_def)
  then have "word_of_int (int f - 1) + n_1st_sector sb = (of_nat ?n :: u32)" by simp
  moreover have "sint (of_nat ?n :: u32) = int ?n"
    using assms by (intro sint_of_nat_small) (simp add: fs_layout_def)
  ultimately show ?thesis using first_sector [OF assms(1)] by (simp only:)
qed

text \<open>With a run of clear bits behind the lowest clear bit, exactly the run is taken.\<close>

lemma alloc_smap_bit_ok:
  assumes "fs_layout s sb" "0 < N" "f + N \<le> 4096 * unat (nr_smap_sectors sb)"
    "{..<f} \<subseteq> sector_map sb s" "{f..<f + N} \<inter> sector_map sb s = {}"
  shows "\<exists>s'. alloc_smap_bit ROOT_DEV (int N) s = Inr (int (unat (n_1st_sector sb)) + int f - 1, s')
    \<and> sector_map sb s' = sector_map sb s \<union> {f..<f + N} \<and> io_frame s s'
    \<and> (\<forall>k \<in> - {3..<3 + unat (nr_smap_sectors sb)}. sect s' k = sect s k)"
proof -
  let ?F = "int (unat (n_1st_sector sb)) + int f - 1"
  have nr: "unat (nr_smap_sectors sb) \<le> 2 ^ 16" and sb: "get_super_block ROOT_DEV s = Inr sb" using assms(1) by (auto simp: fs_layout_def)
  have f: "f \<le> 2 ^ 28" using nr assms(2,3) by simp
  have "?F \<noteq> 0" using first_sector [OF assms(1)] by linarith
  then have "\<exists>s'. smap_loop ROOT_DEV sb (int 0) 0 (int N) s = Inr (?F, 0, s') \<and> map_step s s' (\<lambda>m b. b \<or> (f \<le> m \<and> m < f + N))"
  proof (intro smap_loop_first [OF assms(1-3)])
    show "used s m" if "m < f" for m using assms(4) that by (auto simp: sector_map_def)
    show "\<not> used s m" if "f \<le> m" "m < f + N" for m using assms(3,5) that by (auto simp: sector_map_def)
  qed (use sector_number [OF assms(1) f] in simp_all)
  then obtain s' where s': "smap_loop ROOT_DEV sb 0 0 (int N) s = Inr (?F, 0, s')" "map_step s s' (\<lambda>m b. b \<or> (f \<le> m \<and> m < f + N))" by auto
  have "\<forall>k \<in> - {3..<3 + unat (nr_smap_sectors sb)}. sect s' k = sect s k"
    using assms(3) by (intro ballI map_step_result [OF s'(2), of sb]) auto
  moreover have "sector_map sb s' = sector_map sb s \<union> {f..<f + N}"
    using s'(2) assms(3) by (auto simp: sector_map_def map_step_def)
  moreover have "alloc_smap_bit ROOT_DEV (int N) s = Inr (?F, s')" by (simp add: alloc_smap_bit_def sb s'(1))
  ultimately show ?thesis using s'(2) by (auto simp: map_step_def)
qed

section \<open>Freeing sectors\<close>

text \<open>The map with the contents of the buffer in place of sector \<open>i\<close> of the map.\<close>

definition seen :: "nat \<Rightarrow> fstate \<Rightarrow> nat \<Rightarrow> bool" where
  "seen i s m \<longleftrightarrow> (if m div 4096 = i then bit_at (buf s) (m mod 4096) else used s m)"

definition buf_step :: "nat \<Rightarrow> fstate \<Rightarrow> nat \<Rightarrow> fstate \<Rightarrow> (nat \<Rightarrow> bool \<Rightarrow> bool) \<Rightarrow> bool" where
  "buf_step i s i' s' f \<longleftrightarrow> io_frame s s' \<and> (\<forall>k < 3. sect s' k = sect s k) \<and> (\<forall>m. seen i' s' m \<longleftrightarrow> f m (seen i s m))"

lemma buf_step_trans:
  "buf_step i s j t f \<Longrightarrow> buf_step j t k u g \<Longrightarrow> (\<And>m b. h m b \<longleftrightarrow> g m (f m b)) \<Longrightarrow> buf_step i s k u h"
  by (auto simp: buf_step_def intro: io_frame_trans)

lemma seen_read: "seen i (set_buf (sect s (3 + i)) s) = used s"
  by (auto simp: seen_def fun_eq_iff used_def)

lemma buf_step_set:
  assumes "length bs = 512" "\<And>m. m < 4096 \<Longrightarrow> bit_at bs m \<longleftrightarrow> f (4096 * i + m) (bit_at (buf s) m)"
    "\<And>m b. m div 4096 \<noteq> i \<Longrightarrow> f m b = b"
  shows "buf_step i s i (set_buf bs s) f"
proof -
  have "seen i (set_buf bs s) m \<longleftrightarrow> f m (seen i s m)" for m
    using assms(2) [of "m mod 4096"] assms(3) [of m] mult_div_mod_eq [of 4096 m]
    by (cases "m div 4096 = i") (simp_all add: seen_def assms(1))
  with assms(1) show ?thesis by (simp add: buf_step_def)
qed

lemma buf_step_write:
  assumes "valid_sect s (3 + i)"
  shows "WR_SECT ROOT_DEV (int (3 + i)) s = Inr (put_sect (3 + i) (buf s) s)"
    "used (put_sect (3 + i) (buf s) s) = seen i s"
  using WR_SECT_root [OF assms] by (simp_all add: used_put fun_eq_iff seen_def)

lemma next_map_sector_step:
  assumes "valid_sect s (3 + i)" "j = 512 \<longrightarrow> valid_sect s (3 + Suc i)" "j \<le> 512"
  shows "\<exists>i' j' s'. next_map_sector ROOT_DEV j (int (3 + i)) s = Inr (j', int (3 + i'), s') \<and> j' < 512
    \<and> 4096 * i' + 8 * j' = 4096 * i + 8 * j \<and> buf_step i s i' s' (\<lambda>m b. b)"
proof (cases "j = 512")
  case True
  let ?w = "put_sect (3 + i) (buf s) s"
  let ?s = "set_buf (sect ?w (3 + Suc i)) ?w"
  have "RD_SECT ROOT_DEV (int (3 + i) + 1) ?w = Inr ?s"
    using RD_SECT_root [of ?w "3 + Suc i"] assms True by (simp add: add.commute)
  then have "next_map_sector ROOT_DEV j (int (3 + i)) s = Inr (0, int (3 + Suc i), ?s)"
    using True buf_step_write(1) [OF assms(1)] by (simp add: next_map_sector_def SECTOR_SIZE_def)
  moreover have "seen (Suc i) ?s = seen i s" unfolding seen_read by (rule buf_step_write(2) [OF assms(1)])
  then have "buf_step i s (Suc i) ?s (\<lambda>m b. b)"
    using io_frame_trans [OF io_frame_put_sect [of s "3 + i" "buf s"] io_frame_set_buf [of "sect ?w (3 + Suc i)" ?w]]
    by (simp add: buf_step_def sect_put_sect)
  ultimately show ?thesis using True by (intro exI [of _ "Suc i"] exI [of _ 0] exI [of _ ?s]) simp
next
  case False
  then have "next_map_sector ROOT_DEV j (int (3 + i)) s = Inr (j, int (3 + i), s)" by (simp add: next_map_sector_def SECTOR_SIZE_def)
  with False assms(3) show ?thesis by (intro exI [of _ i] exI [of _ j] exI [of _ s]) (simp add: buf_step_def)
qed

lemma drop_bits_ok:
  assumes "k \<le> 8" "\<And>i. k \<le> i \<Longrightarrow> i < 8 \<Longrightarrow> i < k + N \<Longrightarrow> bit b i"
  shows "\<exists>b'. drop_bits k b (int N) = Inr (b', int (N - (8 - k)))
    \<and> (\<forall>i < 8. bit b' i \<longleftrightarrow> bit b i \<and> \<not> (k \<le> i \<and> i < k + N))"
  using assms
proof (induction "8 - k" arbitrary: k b N)
  case 0
  then show ?case by (subst drop_bits.simps) auto
next
  case (Suc d)
  then have k: "k < 8" by simp
  show ?case
  proof (cases "N = 0")
    case True
    then show ?thesis by (subst drop_bits.simps) auto
  next
    case False
    with k Suc.prems(2) have b: "bit b k" by simp
    let ?b = "b AND NOT (push_bit k 1)"
    have b': "bit ?b i \<longleftrightarrow> bit b i \<and> i \<noteq> k" if "i < 8" for i
      using k that by (auto simp: bit_and_iff bit_not_iff bit_push_1 simp del: push_bit_of_1)
    have eq: "drop_bits k b (int N) = drop_bits (k + 1) ?b (int (N - 1))"
      using k b False by (subst drop_bits.simps) (auto simp: of_nat_diff)
    have "\<exists>b'. drop_bits (k + 1) ?b (int (N - 1)) = Inr (b', int (N - 1 - (8 - (k + 1))))
      \<and> (\<forall>i < 8. bit b' i \<longleftrightarrow> bit ?b i \<and> \<not> (k + 1 \<le> i \<and> i < k + 1 + (N - 1)))"
    proof (rule Suc.hyps(1))
      fix i assume "k + 1 \<le> i" "i < 8" "i < k + 1 + (N - 1)"
      with Suc.prems(2) [of i] b' [of i] show "bit ?b i" by auto
    qed (use Suc.hyps(2) k in auto)
    then obtain c where c: "drop_bits (k + 1) ?b (int (N - 1)) = Inr (c, int (N - 1 - (8 - (k + 1))))"
      "\<And>i. i < 8 \<Longrightarrow> bit c i \<longleftrightarrow> bit ?b i \<and> \<not> (k + 1 \<le> i \<and> i < k + 1 + (N - 1))" by blast
    have "N - 1 - (8 - (k + 1)) = N - (8 - k)" using k by simp
    moreover have "bit c i \<longleftrightarrow> bit b i \<and> \<not> (k \<le> i \<and> i < k + N)" if "i < 8" for i
      using c(2) [OF that] b' [OF that] False by auto
    ultimately show ?thesis using eq c(1) by auto
  qed
qed

lemma free_bytes_ok:
  assumes "\<forall>k < 3 + Suc M. valid_sect s k" "i < M" "j \<le> 512" "4096 * i + 8 * j + 8 * cnt \<le> 4096 * M"
    "\<And>m. 4096 * i + 8 * j \<le> m \<Longrightarrow> m < 4096 * i + 8 * j + 8 * cnt \<Longrightarrow> seen i s m"
  shows "\<exists>i' j' s'. free_bytes ROOT_DEV cnt j (int (3 + i)) left s = Inr (j', int (3 + i'), left - 8 * int cnt, s') \<and> j' \<le> 512
    \<and> i' < M \<and> 4096 * i' + 8 * j' = 4096 * i + 8 * j + 8 * cnt
    \<and> buf_step i s i' s' (\<lambda>m b. b \<and> \<not> (4096 * i + 8 * j \<le> m \<and> m < 4096 * i + 8 * j + 8 * cnt))"
  using assms
proof (induction cnt arbitrary: i j left s)
  case 0
  then show ?case by (intro exI [of _ i] exI [of _ j] exI [of _ s]) (simp add: buf_step_def)
next
  case (Suc cnt)
  have "\<exists>i' j' s'. next_map_sector ROOT_DEV j (int (3 + i)) s = Inr (j', int (3 + i'), s') \<and> j' < 512
    \<and> 4096 * i' + 8 * j' = 4096 * i + 8 * j \<and> buf_step i s i' s' (\<lambda>m b. b)"
    using Suc.prems(1-3) by (intro next_map_sector_step) auto
  then obtain i1 j1 s1 where n: "next_map_sector ROOT_DEV j (int (3 + i)) s = Inr (j1, int (3 + i1), s1)" "j1 < 512"
    "4096 * i1 + 8 * j1 = 4096 * i + 8 * j" "buf_step i s i1 s1 (\<lambda>m b. b)" by blast
  have i1: "i1 < M" using n(3) Suc.prems(4) by auto
  have byte: "(4096 * i1 + m) div 4096 = i1" "(4096 * i1 + m) mod 4096 = m" if "m < 4096" for m using that by auto
  have "buf s1 ! j1 = 0xFF"
    unfolding byte_full
  proof (intro allI impI)
    fix k :: nat assume k: "k < 8"
    then have "seen i s (4096 * i1 + (8 * j1 + k))" using n(3) by (intro Suc.prems(5)) auto
    then have "seen i1 s1 (4096 * i1 + (8 * j1 + k))" using n(4) by (simp add: buf_step_def)
    moreover have "8 * j1 + k < 4096" using k n(2) by simp
    ultimately show "bit (buf s1 ! j1) k" using k by (simp add: seen_def byte bit_at_def)
  qed
  then have eq: "free_bytes ROOT_DEV (Suc cnt) j (int (3 + i)) left s =
      free_bytes ROOT_DEV cnt (j1 + 1) (int (3 + i1)) (left - 8) (set_buf ((buf s1)[j1 := 0]) s1)"
    using n(1) by (simp add:)
  let ?s = "set_buf ((buf s1)[j1 := 0]) s1"
  have clear: "buf_step i1 s1 i1 ?s (\<lambda>m b. b \<and> \<not> (4096 * i1 + 8 * j1 \<le> m \<and> m < 4096 * i1 + 8 * j1 + 8))"
  proof (rule buf_step_set)
    fix m :: nat
    show "bit_at ((buf s1)[j1 := 0]) m \<longleftrightarrow> bit_at (buf s1) m \<and> \<not> (4096 * i1 + 8 * j1 \<le> 4096 * i1 + m \<and> 4096 * i1 + m < 4096 * i1 + 8 * j1 + 8)"
      using n(2) by (auto simp: bit_at_upd)
    show "m div 4096 \<noteq> i1 \<Longrightarrow> (b \<and> \<not> (4096 * i1 + 8 * j1 \<le> m \<and> m < 4096 * i1 + 8 * j1 + 8)) = b" for b
      using n(2) by auto
  qed simp
  have both: "buf_step i s i1 ?s (\<lambda>m b. b \<and> \<not> (4096 * i + 8 * j \<le> m \<and> m < 4096 * i + 8 * j + 8))"
    by (rule buf_step_trans [OF n(4) clear]) (simp add: n(3))
  have "\<exists>i' j' s'. free_bytes ROOT_DEV cnt (j1 + 1) (int (3 + i1)) (left - 8) ?s = Inr (j', int (3 + i'), left - 8 - 8 * int cnt, s') \<and> j' \<le> 512
    \<and> i' < M \<and> 4096 * i' + 8 * j' = 4096 * i1 + 8 * (j1 + 1) + 8 * cnt
    \<and> buf_step i1 ?s i' s' (\<lambda>m b. b \<and> \<not> (4096 * i1 + 8 * (j1 + 1) \<le> m \<and> m < 4096 * i1 + 8 * (j1 + 1) + 8 * cnt))"
  proof (rule Suc.IH)
    have "io_frame s ?s" using both by (simp add: buf_step_def)
    from io_frame_simps(10) [OF this] show "\<forall>k < 3 + Suc M. valid_sect ?s k" using Suc.prems(1) by simp
    fix m assume m: "4096 * i1 + 8 * (j1 + 1) \<le> m" "m < 4096 * i1 + 8 * (j1 + 1) + 8 * cnt"
    then have "seen i s m" using n(3) by (intro Suc.prems(5)) auto
    with both m n(3) show "seen i1 ?s m" by (auto simp: buf_step_def)
  qed (use i1 n(2,3) Suc.prems(4) in auto)
  then obtain i' j' s' where r: "free_bytes ROOT_DEV cnt (j1 + 1) (int (3 + i1)) (left - 8) ?s = Inr (j', int (3 + i'), left - 8 - 8 * int cnt, s')" "j' \<le> 512"
    "i' < M" "4096 * i' + 8 * j' = 4096 * i1 + 8 * (j1 + 1) + 8 * cnt"
    "buf_step i1 ?s i' s' (\<lambda>m b. b \<and> \<not> (4096 * i1 + 8 * (j1 + 1) \<le> m \<and> m < 4096 * i1 + 8 * (j1 + 1) + 8 * cnt))" by blast
  have "buf_step i s i' s' (\<lambda>m b. b \<and> \<not> (4096 * i + 8 * j \<le> m \<and> m < 4096 * i + 8 * j + 8 * Suc cnt))"
    by (rule buf_step_trans [OF both r(5)]) (use n(3) in auto)
  with eq r n(3) show ?case by (intro exI [of _ i'] exI [of _ j'] exI [of _ s']) simp
qed

lemma bit_high: "bit (push_bit L (NOT 0) :: u8) i \<longleftrightarrow> L \<le> i \<and> i < 8"
  by (auto simp: bit_not_iff bit_mask_iff)

lemma low_bits: "(b :: u8) AND NOT (push_bit L (NOT 0)) = NOT (push_bit L (NOT 0)) \<longleftrightarrow> (\<forall>i < 8. i < L \<longrightarrow> bit b i)"
proof -
  have "\<not> bit b i" if "8 \<le> i" for b :: u8 and i using that by (auto dest: bit_imp_le_length)
  then show ?thesis by (auto simp: bit_eq_iff bit_and_iff bit_mask_iff)
qed

lemma sdiv_8: "k \<le> 8 \<Longrightarrow> nat ((int N - (8 - int k)) sdiv 8) = (N - (8 - k)) div 8"
proof (cases "8 - k \<le> N")
  case True
  moreover assume "k \<le> 8"
  ultimately have eq: "int N - (8 - int k) = int (N - (8 - k))" by (simp add: of_nat_diff)
  show ?thesis unfolding eq using sdiv_nat(1) [of "N - (8 - k)" 8] by (simp only: of_nat_numeral nat_int)
next
  case False
  moreover assume "k \<le> 8"
  ultimately obtain d where d: "8 - k - N = d" "0 < d" "d \<le> 8" "int N - (8 - int k) = - int d" by (auto simp: of_nat_diff)
  with False have "nat ((- int d) sdiv 8) = 0" by (auto simp: signed_divide_int_def sgn_if)
  with d False show ?thesis by simp
qed

lemma buf_step_used: "buf_step i s i' s' f \<Longrightarrow> valid_sect s' = valid_sect s"
  by (auto simp: buf_step_def dest: io_frame_simps(10))

lemma map_index:
  assumes "fs_layout s sb" "f < 4096 * unat (nr_smap_sectors sb)" "start = n_1st_sector sb + of_nat f - 1"
  shows "sint (start - n_1st_sector sb + 1) = int f"
    "sint (2 + nr_imap_sectors sb + word_of_int (int f sdiv 8 sdiv int SECTOR_SIZE)) = int (3 + f div 4096)"
proof -
  have f: "f < 2 ^ 28" using assms(1,2) by (simp add: fs_layout_def)
  then have "sint (of_nat f :: u32) = int f" by (intro sint_of_nat_small) simp
  then show "sint (start - n_1st_sector sb + 1) = int f" by (simp add: assms(3))
  have "int f sdiv 8 sdiv int SECTOR_SIZE = int (f div 4096)"
    using sdiv_nat(1) [of f 8] sdiv_nat(1) [of "f div 8" 512] by (simp add: SECTOR_SIZE_def div_mult2_eq [symmetric])
  then have "2 + nr_imap_sectors sb + word_of_int (int f sdiv 8 sdiv int SECTOR_SIZE) = (of_nat (3 + f div 4096) :: u32)"
    using assms(1) by (simp add: fs_layout_def)
  moreover have "sint (of_nat (3 + f div 4096) :: u32) = int (3 + f div 4096)"
    using f by (intro sint_of_nat_small) simp
  ultimately show "sint (2 + nr_imap_sectors sb + word_of_int (int f sdiv 8 sdiv int SECTOR_SIZE)) = int (3 + f div 4096)" by (simp only:)
qed

lemma byte_cases:
  obtains "m div 8 \<noteq> j" | r where "m = 8 * j + r" "r < (8 :: nat)"
  by (metis mod_less_divisor mult_div_mod_eq zero_less_numeral)

text \<open>The first byte.\<close>

lemma first_byte:
  assumes f: "f = 4096 * i + 8 * j + k" "j < 512" "k < 8" and s: "\<And>m. f \<le> m \<Longrightarrow> m < f + N \<Longrightarrow> seen i s m"
  shows "\<exists>b. drop_bits k (buf s ! j) (int N) = Inr (b, int (N - (8 - k)))
    \<and> buf_step i s i (set_buf ((buf s)[j := b]) s) (\<lambda>m c. c \<and> \<not> (f \<le> m \<and> m < f + N \<and> m < 4096 * i + 8 * (j + 1)))"
proof -
  have "\<exists>b'. drop_bits k (buf s ! j) (int N) = Inr (b', int (N - (8 - k)))
    \<and> (\<forall>i < 8. bit b' i \<longleftrightarrow> bit (buf s ! j) i \<and> \<not> (k \<le> i \<and> i < k + N))"
  proof (rule drop_bits_ok)
    fix a assume a: "k \<le> a" "a < 8" "a < k + N"
    have "(4096 * i + (8 * j + a)) div 4096 = i" "(4096 * i + (8 * j + a)) mod 4096 = 8 * j + a" using a f(2) by auto
    moreover have "seen i s (4096 * i + (8 * j + a))" using a f by (intro s) auto
    ultimately show "bit (buf s ! j) a" using a by (simp add: seen_def bit_at_def)
  qed (use f in simp)
  then obtain b where b: "drop_bits k (buf s ! j) (int N) = Inr (b, int (N - (8 - k)))"
    "\<And>i. i < 8 \<Longrightarrow> bit b i \<longleftrightarrow> bit (buf s ! j) i \<and> \<not> (k \<le> i \<and> i < k + N)" by blast
  have "buf_step i s i (set_buf ((buf s)[j := b]) s) (\<lambda>m c. c \<and> \<not> (f \<le> m \<and> m < f + N \<and> m < 4096 * i + 8 * (j + 1)))"
  proof (rule buf_step_set)
    fix m :: nat assume "m < 4096"
    have "m div 8 \<noteq> j \<Longrightarrow> \<not> (f \<le> 4096 * i + m \<and> 4096 * i + m < 4096 * i + 8 * (j + 1))" using f by auto
    then show "bit_at ((buf s)[j := b]) m \<longleftrightarrow> bit_at (buf s) m \<and>
        \<not> (f \<le> 4096 * i + m \<and> 4096 * i + m < f + N \<and> 4096 * i + m < 4096 * i + 8 * (j + 1))"
      using b(2) f by (cases m j rule: byte_cases) (auto simp: bit_at_upd bit_at_def)
  qed (use f in auto)
  with b(1) show ?thesis by blast
qed

text \<open>The last byte.\<close>

lemma last_byte:
  assumes "valid_sect s (3 + i)" "j < 512" "L < 8" "\<And>m. 4096 * i + 8 * j \<le> m \<Longrightarrow> m < 4096 * i + 8 * j + L \<Longrightarrow> seen i s m"
  shows "\<exists>s'. buf s ! j AND NOT (push_bit L (NOT 0)) = NOT (push_bit L (NOT 0))
    \<and> WR_SECT ROOT_DEV (int (3 + i)) (set_buf ((buf s)[j := buf s ! j AND push_bit L (NOT 0)]) s) = Inr s'
    \<and> io_frame s s' \<and> (\<forall>k < 3. sect s' k = sect s k)
    \<and> (\<forall>m. used s' m \<longleftrightarrow> seen i s m \<and> \<not> (4096 * i + 8 * j \<le> m \<and> m < 4096 * i + 8 * j + L))"
proof -
  let ?bs = "(buf s)[j := buf s ! j AND push_bit L (NOT 0)]"
  let ?s = "set_buf ?bs s"
  have "bit (buf s ! j) a" if "a < 8" "a < L" for a
  proof -
    have "(4096 * i + (8 * j + a)) div 4096 = i" "(4096 * i + (8 * j + a)) mod 4096 = 8 * j + a" using that assms(2) by auto
    moreover have "seen i s (4096 * i + (8 * j + a))" using that by (intro assms(4)) auto
    ultimately show ?thesis using that by (simp add: seen_def bit_at_def)
  qed
  then have mask: "buf s ! j AND NOT (push_bit L (NOT 0)) = NOT (push_bit L (NOT 0))" unfolding low_bits by blast
  have step: "buf_step i s i ?s (\<lambda>m c. c \<and> \<not> (4096 * i + 8 * j \<le> m \<and> m < 4096 * i + 8 * j + L))"
  proof (rule buf_step_set)
    fix m :: nat assume "m < 4096"
    have "m div 8 \<noteq> j \<Longrightarrow> \<not> (8 * j \<le> m \<and> m < 8 * j + L)" using assms(3) by auto
    then show "bit_at ?bs m \<longleftrightarrow> bit_at (buf s) m \<and> \<not> (4096 * i + 8 * j \<le> 4096 * i + m \<and> 4096 * i + m < 4096 * i + 8 * j + L)"
      using assms(2,3) by (cases m j rule: byte_cases) (auto simp: bit_at_upd bit_at_def bit_and_iff bit_not_iff bit_mask_iff)
  qed (use assms in auto)
  have v: "valid_sect ?s (3 + i)" using assms(1) by simp
  have "io_frame s (put_sect (3 + i) (buf ?s) ?s)"
    using step io_frame_put_sect by (auto simp: buf_step_def intro: io_frame_trans)
  then show ?thesis
    using buf_step_write [OF v] step mask by (intro exI [of _ "put_sect (3 + i) (buf ?s) ?s"]) (auto simp: buf_step_def sect_put_sect)
qed

text \<open>Freeing a run of used bits clears exactly these.\<close>

text \<open>Bit \<open>f\<close> of the map: its sector, its byte in the sector and its place in the byte.\<close>

lemma bit_place:
  "f = 4096 * (f div 4096) + 8 * (f div 8 mod 512) + f mod 8" "f div 8 mod 512 < 512" "f mod 8 < (8 :: nat)"
proof -
  have "f div 8 = 512 * (f div 4096) + f div 8 mod 512" "f = 8 * (f div 8) + f mod 8"
    using mult_div_mod_eq [of 512 "f div 8"] by (simp_all add: div_mult2_eq [symmetric])
  then show "f = 4096 * (f div 4096) + 8 * (f div 8 mod 512) + f mod 8" by linarith
qed simp_all

text \<open>\<open>N\<close> bits from bit \<open>k\<close> of a byte on: the rest of the byte, \<open>cnt\<close> whole bytes and \<open>L\<close> bits of one more.\<close>

lemma bit_counts:
  fixes N :: nat
  assumes "k < 8" "0 < N" "L0 = N - (8 - k)" "cnt = L0 div 8" "L = L0 mod 8"
  shows "int L0 - 8 * int cnt = int L" "L < 8" "(cnt = 0 \<and> L = 0 \<and> k + N \<le> 8) \<or> 8 + 8 * cnt + L = k + N"
proof -
  have "8 * cnt + L = L0" unfolding assms(4,5) by simp
  then show "int L0 - 8 * int cnt = int L" "(cnt = 0 \<and> L = 0 \<and> k + N \<le> 8) \<or> 8 + 8 * cnt + L = k + N" using assms(1-3) by linarith+
qed (simp add: assms(5))

lemma free_middle:
  assumes v: "\<forall>k < 3 + Suc M. valid_sect s k" and i: "i < M" "j \<le> 512" "4096 * i + 8 * j + 8 * cnt \<le> 4096 * M"
    and bits: "\<And>m. 4096 * i + 8 * j \<le> m \<Longrightarrow> m < 4096 * i + 8 * j + 8 * cnt \<Longrightarrow> seen i s m"
  shows "\<exists>i2 j2 s2 i3 j3 s3. free_bytes ROOT_DEV cnt j (int (3 + i)) left s = Inr (j2, int (3 + i2), left - 8 * int cnt, s2)
    \<and> next_map_sector ROOT_DEV j2 (int (3 + i2)) s2 = Inr (j3, int (3 + i3), s3) \<and> j3 < 512 \<and> valid_sect s3 (3 + i3)
    \<and> 4096 * i3 + 8 * j3 = 4096 * i + 8 * j + 8 * cnt
    \<and> buf_step i s i3 s3 (\<lambda>m c. c \<and> \<not> (4096 * i + 8 * j \<le> m \<and> m < 4096 * i + 8 * j + 8 * cnt))"
proof -
  from free_bytes_ok [OF v i bits, of left] obtain i2 j2 s2 where
    s2: "free_bytes ROOT_DEV cnt j (int (3 + i)) left s = Inr (j2, int (3 + i2), left - 8 * int cnt, s2)" "j2 \<le> 512"
    "i2 < M" "4096 * i2 + 8 * j2 = 4096 * i + 8 * j + 8 * cnt"
    "buf_step i s i2 s2 (\<lambda>m c. c \<and> \<not> (4096 * i + 8 * j \<le> m \<and> m < 4096 * i + 8 * j + 8 * cnt))" by blast
  have v2: "valid_sect s2 = valid_sect s" using buf_step_used [OF s2(5)] by (simp add: fun_eq_iff)
  obtain i3 j3 s3 where s3: "next_map_sector ROOT_DEV j2 (int (3 + i2)) s2 = Inr (j3, int (3 + i3), s3)" "j3 < 512"
    "4096 * i3 + 8 * j3 = 4096 * i2 + 8 * j2" "buf_step i2 s2 i3 s3 (\<lambda>m b. b)"
    using next_map_sector_step [of s2 i2 j2] s2(2,3) v v2 by fastforce
  have "valid_sect s3 (3 + i3)" using buf_step_used [OF s3(4)] v2 v s2(2,3) s3(3) by auto
  moreover have "buf_step i s i3 s3 (\<lambda>m c. c \<and> \<not> (4096 * i + 8 * j \<le> m \<and> m < 4096 * i + 8 * j + 8 * cnt))"
    by (rule buf_step_trans [OF s2(5) s3(4)]) simp
  ultimately show ?thesis using s2(1,4) s3(1-3) by auto
qed

text \<open>The computation of the code on the way to these.\<close>

lemma free_smap_bits_eq:
  assumes l: "fs_layout s sb" and f: "f < 4096 * unat (nr_smap_sectors sb)" "N \<le> 2 ^ 28" "start = n_1st_sector sb + of_nat f - 1"
    and i: "i = f div 4096" "j = f div 8 mod 512" "k = f mod 8" "L0 = N - (8 - k)" "cnt = L0 div 8" "L = L0 mod 8" "0 < N" "r = set_buf (sect s (3 + i)) s"
    and st: "drop_bits k (buf r ! j) (int N) = Inr (b, int L0)"
      "free_bytes ROOT_DEV cnt (j + 1) (int (3 + i)) (int L0) (set_buf ((buf r)[j := b]) r) = Inr (j2, int (3 + i2), int L0 - 8 * int cnt, s2)"
      "next_map_sector ROOT_DEV j2 (int (3 + i2)) s2 = Inr (j3, int (3 + i3), s3)"
      "buf s3 ! j3 AND NOT (push_bit L (NOT 0)) = NOT (push_bit L (NOT 0))"
      "WR_SECT ROOT_DEV (int (3 + i3)) (set_buf ((buf s3)[j3 := buf s3 ! j3 AND push_bit L (NOT 0)]) s3) = Inr s'"
  shows "free_smap_bits ROOT_DEV sb start (of_nat N) s = Inr s'"
proof -
  have nk: "nat (int f smod 8) = k" "nat (int f sdiv 8 smod int SECTOR_SIZE) = j" "0 \<le> int f sdiv 8"
    using sdiv_nat [of f 8] sdiv_nat(2) [of "f div 8" 512] by (simp_all add: i(2,3) SECTOR_SIZE_def)
  have n: "sint (of_nat N :: u32) = int N" using f(2) by (intro sint_of_nat_small) simp
  have k8: "k < 8" by (simp add: i(3))
  have c: "nat ((int N - (8 - int f smod 8)) sdiv 8) = cnt"
    using sdiv_8 [of k N] sdiv_nat(2) [of f 8] k8 by (simp add: i(3-5))
  note L = bit_counts [OF k8 i(7,4,5,6)]
  have "\<forall>k < 3 + Suc (unat (nr_smap_sectors sb)). valid_sect s k" using l first_sector [OF l] by (simp add: fs_layout_def)
  moreover have "i < unat (nr_smap_sectors sb)" using f(1) by (simp add: i(1) less_mult_imp_div_less)
  ultimately have rd: "RD_SECT ROOT_DEV (int (3 + i)) s = Inr r" using RD_SECT_root [of s "3 + i"] by (simp add: i(8))
  show ?thesis
    unfolding free_smap_bits_def Let_def map_index [OF l f(1,3)] i(1) [symmetric] rd ebind_simps nk n c st(1) prod.case st(2,3) L(1)
    using st(4,5) by (simp del: push_bit_of_1)
qed

lemma free_smap_bits_ok:
  assumes l: "fs_layout s sb" and N: "0 < N" "f + N \<le> 4096 * unat (nr_smap_sectors sb)" "{f..<f + N} \<subseteq> sector_map sb s"
    and st: "start = n_1st_sector sb + of_nat f - 1"
  shows "\<exists>s'. free_smap_bits ROOT_DEV sb start (of_nat N) s = Inr s'
    \<and> sector_map sb s' = sector_map sb s - {f..<f + N} \<and> io_frame s s'
    \<and> (\<forall>k \<in> - {3..<3 + unat (nr_smap_sectors sb)}. sect s' k = sect s k)"
proof -
  let ?M = "unat (nr_smap_sectors sb)"
  have v: "\<forall>k < 3 + Suc ?M. valid_sect s k" using l first_sector [OF l] by (simp add: fs_layout_def)
  have small: "f < 4096 * ?M" "N \<le> 2 ^ 28" using N(1,2) l by (auto simp: fs_layout_def)
  define i where "i = f div 4096"
  define j where "j = f div 8 mod 512"
  define k where "k = f mod 8"
  have fd: "f = 4096 * i + 8 * j + k" "j < 512" "k < 8" unfolding i_def j_def k_def by (rule bit_place)+
  have i: "i < ?M" using small(1) by (simp add: i_def less_mult_imp_div_less)
  define L0 where "L0 = N - (8 - k)"
  define cnt where "cnt = L0 div 8"
  define L where "L = L0 mod 8"
  define P where "P = 4096 * i + 8 * (j + 1)"
  note L = bit_counts [OF fd(3) N(1) L0_def cnt_def L_def]
  have parts: "(cnt = 0 \<and> L = 0 \<and> f + N \<le> P) \<or> P + 8 * cnt + L = f + N" "f \<le> P" using L(3) fd by (auto simp: P_def)
  define r where "r = set_buf (sect s (3 + i)) s"
  have seen: "seen i r = used s" unfolding r_def by (rule seen_read)
  have u: "used s m" if "f \<le> m" "m < f + N" for m using N(3) that by (auto simp: sector_map_def)
  obtain b where b: "drop_bits k (buf r ! j) (int N) = Inr (b, int L0)"
    "buf_step i r i (set_buf ((buf r)[j := b]) r) (\<lambda>m c. c \<and> \<not> (f \<le> m \<and> m < f + N \<and> m < P))"
    using first_byte [OF fd, of N r] u unfolding seen L0_def P_def by auto
  let ?s1 = "set_buf ((buf r)[j := b]) r"
  have v1: "\<forall>k < 3 + Suc ?M. valid_sect ?s1 k" using v by (simp add: r_def)
  have "P + 8 * cnt \<le> 4096 * ?M" using parts N(2) i fd(2) by (auto simp: P_def)
  moreover have "seen i ?s1 m" if "P \<le> m" "m < P + 8 * cnt" for m
    using u [of m] b(2) that parts unfolding buf_step_def seen by auto
  ultimately obtain i2 j2 s2 i3 j3 s3 where s3: "free_bytes ROOT_DEV cnt (j + 1) (int (3 + i)) (int L0) ?s1 = Inr (j2, int (3 + i2), int L0 - 8 * int cnt, s2)"
    "next_map_sector ROOT_DEV j2 (int (3 + i2)) s2 = Inr (j3, int (3 + i3), s3)" "j3 < 512" "valid_sect s3 (3 + i3)" "4096 * i3 + 8 * j3 = P + 8 * cnt"
    "buf_step i ?s1 i3 s3 (\<lambda>m c. c \<and> \<not> (P \<le> m \<and> m < P + 8 * cnt))"
    using free_middle [OF v1 i, of "j + 1" cnt "int L0"] fd(2) unfolding P_def by auto
  have b3: "buf_step i r i3 s3 (\<lambda>m c. c \<and> \<not> (f \<le> m \<and> m < f + N \<and> m < P + 8 * cnt))"
    by (rule buf_step_trans [OF b(2) s3(6)]) (use parts in auto)
  have "seen i3 s3 m" if "P + 8 * cnt \<le> m" "m < P + 8 * cnt + L" for m
    using u [of m] that parts b3 unfolding buf_step_def seen by auto
  with last_byte [OF s3(4,3) L(2), unfolded s3(5)] obtain s' where s': "buf s3 ! j3 AND NOT (push_bit L (NOT 0)) = NOT (push_bit L (NOT 0))"
    "WR_SECT ROOT_DEV (int (3 + i3)) (set_buf ((buf s3)[j3 := buf s3 ! j3 AND push_bit L (NOT 0)]) s3) = Inr s'"
    "io_frame s3 s'" "\<forall>k < 3. sect s' k = sect s3 k" "\<And>m. used s' m \<longleftrightarrow> seen i3 s3 m \<and> \<not> (P + 8 * cnt \<le> m \<and> m < P + 8 * cnt + L)" by blast
  have step: "map_step s s' (\<lambda>m c. c \<and> \<not> (f \<le> m \<and> m < f + N))"
    unfolding map_step_def
  proof (intro conjI allI)
    have "io_frame s r" by (simp add: r_def)
    with b3 s'(3) show "io_frame s s'" unfolding buf_step_def by (blast intro: io_frame_trans)
    show "k < 3 \<longrightarrow> sect s' k = sect s k" for k using b3 s'(4) by (simp add: buf_step_def r_def)
    show "used s' m \<longleftrightarrow> used s m \<and> \<not> (f \<le> m \<and> m < f + N)" for m unfolding s'(5) using b3 parts by (auto simp: buf_step_def seen)
  qed
  have "free_smap_bits ROOT_DEV sb start (of_nat N) s = Inr s'"
    by (rule free_smap_bits_eq [OF l small st i_def j_def k_def L0_def cnt_def L_def N(1) r_def b(1) s3(1,2) s'(1,2)])
  moreover have "sector_map sb s' = sector_map sb s - {f..<f + N}" using step by (auto simp: sector_map_def map_step_def)
  moreover have "\<forall>k \<in> - {3..<3 + ?M}. sect s' k = sect s k" using N(2) by (intro ballI map_step_result [OF step, of sb]) auto
  ultimately show ?thesis using step unfolding map_step_def by blast
qed

section \<open>Slots\<close>

text \<open>
  Files get 2048 sectors each. The bit 0 of the map is never free, so a map that only grew by whole files consists of
  bit 0 and runs of 2048 bits behind it: the slots \<open>K\<close>.
\<close>

definition slots :: "nat set \<Rightarrow> nat set" where
  "slots K = insert 0 {m. 0 < m \<and> (m - 1) div 2048 \<in> K}"

lemma slot_range: "1 + 2048 * k \<le> m \<and> m < 1 + 2048 * k + 2048 \<longleftrightarrow> 0 < m \<and> (m - 1) div 2048 = (k :: nat)"
  by (cases m) auto

lemma slots_insert: "slots K \<union> {1 + 2048 * k..<1 + 2048 * k + 2048} = slots (insert k K)"
  using slot_range [of k] by (auto simp: slots_def set_eq_iff)

lemma slots_remove: "slots K - {1 + 2048 * k..<1 + 2048 * k + 2048} = slots (K - {k})"
  using slot_range [of k] by (auto simp: slots_def set_eq_iff)

lemma alloc_slot:
  assumes "fs_layout s sb" "sector_map sb s = slots K" "k \<notin> K" "{..<k} \<subseteq> K" "2048 * k + 2049 \<le> 4096 * unat (nr_smap_sectors sb)"
  shows "\<exists>s'. alloc_smap_bit ROOT_DEV NR_DEFAULT_FILE_SECTS s = Inr (int (unat (n_1st_sector sb) + 2048 * k), s')
    \<and> sector_map sb s' = slots (insert k K) \<and> io_frame s s'
    \<and> (\<forall>j \<in> - {3..<3 + unat (nr_smap_sectors sb)}. sect s' j = sect s j)"
proof -
  define f where "f = 1 + 2048 * k"
  have "m \<in> slots K" if "m < f" for m
  proof (cases m)
    case (Suc n)
    with that have "n div 2048 < k" by (auto simp: f_def)
    with assms(4) Suc show ?thesis by (auto simp: slots_def)
  qed (simp add: slots_def)
  moreover have "{f..<f + 2048} \<inter> slots K = {}"
    using slot_range [of k] assms(3) by (fastforce simp: slots_def f_def)
  moreover have "slots K \<union> {f..<f + 2048} = slots (insert k K)" unfolding f_def by (rule slots_insert)
  moreover have "int (unat (n_1st_sector sb)) + int f - 1 = int (unat (n_1st_sector sb) + 2048 * k)" by (simp add: f_def)
  ultimately show ?thesis
    using alloc_smap_bit_ok [of s sb 2048 f] assms(1,2,5) unfolding NR_DEFAULT_FILE_SECTS_def by (auto simp: f_def)
qed

lemma free_slot:
  assumes "fs_layout s sb" "sector_map sb s = slots K" "k \<in> K" "2048 * k + 2049 \<le> 4096 * unat (nr_smap_sectors sb)"
    and st: "unat start = unat (n_1st_sector sb) + 2048 * k"
  shows "\<exists>s'. free_smap_bits ROOT_DEV sb start (of_int NR_DEFAULT_FILE_SECTS) s = Inr s'
    \<and> sector_map sb s' = slots (K - {k}) \<and> io_frame s s'
    \<and> (\<forall>j \<in> - {3..<3 + unat (nr_smap_sectors sb)}. sect s' j = sect s j)"
proof -
  define f where "f = 1 + 2048 * k"
  have "m \<in> slots K" if "f \<le> m" "m < f + 2048" for m
    using slot_range [of k m] assms(3) that unfolding f_def slots_def by simp
  then have "{f..<f + 2048} \<subseteq> slots K" by auto
  moreover have "slots K - {f..<f + 2048} = slots (K - {k})" unfolding f_def by (rule slots_remove)
  moreover have "start = n_1st_sector sb + of_nat f - 1"
  proof -
    have "start = of_nat (unat (n_1st_sector sb) + 2048 * k)" unfolding st [symmetric] by simp
    then show ?thesis by (simp add: f_def)
  qed
  ultimately show ?thesis
    using free_smap_bits_ok [of s sb 2048 f start] assms(1,2,4) unfolding NR_DEFAULT_FILE_SECTS_def by (auto simp: f_def)
qed

text \<open>
  Creating and removing a file gives its sectors back: allocating the sectors of a file in a map made of slots
  and freeing them again ends with every sector of the disk, the map included, as it was. Neither loop meets one of
  its assertions, also where the slot crosses into the next sector of the map.
\<close>

theorem slot_alloc_free_roundtrip:
  assumes "fs_layout s sb" "sector_map sb s = slots K" "k \<notin> K" "{..<k} \<subseteq> K" "2048 * k + 2049 \<le> 4096 * unat (nr_smap_sectors sb)"
  shows "\<exists>s'. ebind (alloc_smap_bit ROOT_DEV NR_DEFAULT_FILE_SECTS s)
      (\<lambda>(start, s). free_smap_bits ROOT_DEV sb (of_int start) (of_int NR_DEFAULT_FILE_SECTS) s) = Inr s'
    \<and> sector_map sb s' = sector_map sb s \<and> io_frame s s' \<and> (\<forall>j. sect s' j = sect s j)"
proof -
  from alloc_slot [OF assms] obtain s1 where s1: "alloc_smap_bit ROOT_DEV NR_DEFAULT_FILE_SECTS s = Inr (int (unat (n_1st_sector sb) + 2048 * k), s1)"
    "sector_map sb s1 = slots (insert k K)" "io_frame s s1" "\<forall>j \<in> - {3..<3 + unat (nr_smap_sectors sb)}. sect s1 j = sect s j" by blast
  let ?start = "of_nat (unat (n_1st_sector sb) + 2048 * k) :: u32"
  have l: "fs_layout s1 sb" using assms(1) io_frame_simps(11) [OF s1(3)] by simp
  have "unat ?start = unat (n_1st_sector sb) + 2048 * k"
    using assms(1,5) first_sector [OF assms(1)] by (intro unat_of_nat_small) (simp add: fs_layout_def)
  from free_slot [OF l s1(2) _ assms(5) this] obtain s' where s': "free_smap_bits ROOT_DEV sb ?start (of_int NR_DEFAULT_FILE_SECTS) s1 = Inr s'"
    "sector_map sb s' = slots (insert k K - {k})" "io_frame s1 s'" "\<forall>j \<in> - {3..<3 + unat (nr_smap_sectors sb)}. sect s' j = sect s1 j" by auto
  have sm: "sector_map sb s' = sector_map sb s" using s'(2) assms(2,3) by simp
  have same: "sect s' j = sect s j" for j
  proof (cases "j \<in> {3..<3 + unat (nr_smap_sectors sb)}")
    case True
    then obtain i where i: "j = 3 + i" "i < unat (nr_smap_sectors sb)" by (metis atLeastLessThan_iff le_Suc_ex nat_add_left_cancel_less)
    show ?thesis
    proof (rule bit_at_ext)
      fix m :: nat assume m: "m < 4096"
      then have "4096 * i + m \<in> sector_map sb s' \<longleftrightarrow> 4096 * i + m \<in> sector_map sb s" using sm by simp
      with m i show "bit_at (sect s' j) m \<longleftrightarrow> bit_at (sect s j) m" by (simp add: sector_map_def used_def)
    qed simp_all
  qed (use s1(4) s'(4) in simp)
  have "of_int (int (unat (n_1st_sector sb) + 2048 * k)) = ?start" by simp
  with s1(1) s'(1) sm same io_frame_trans [OF s1(3) s'(3)] show ?thesis by (intro exI [of _ s']) (simp only: ebind_simps prod.case simp_thms)
qed

end
