(* ===== verification/Fs_Dir.thy ===== *)
theory Fs_Dir
  imports Fs_Slots
begin

text \<open>
  The root directory: path names, the search for an entry, new entries (\<^verbatim>\<open>fs/open.c\<close>) and the removal of an
  entry (\<^verbatim>\<open>fs/link.c\<close>). An entry has 16 bytes, the inode number and a name of up to 12 characters. A path
  is the list of its characters without the terminating zero.
\<close>

section \<open>Path names\<close>

text \<open>The loop of \<open>strip_path\<close>: \<open>n\<close> characters have been copied; at 12 the rest of the path is ignored.\<close>

fun strip_loop :: "nat \<Rightarrow> u8 list \<Rightarrow> u8 list option" where
  "strip_loop n [] = Some []"
| "strip_loop n (c # cs) =
     (if c = 0x2F then None
      else if n + 1 \<ge> MAX_FILENAME_LEN then Some [c]
      else map_option ((#) c) (strip_loop (n + 1) cs))"

definition strip_path :: "u8 list \<Rightarrow> u8 list option" where
  "strip_path path = strip_loop 0 (case path of c # cs \<Rightarrow> if c = 0x2F then cs else path | [] \<Rightarrow> [])"

section \<open>Search\<close>

text \<open>The text of a name field: \<open>kmemcmp\<close> compares up to 12 bytes or a zero byte (see \<open>compare_bytes_eq_0_iff\<close>).\<close>

definition entry_name :: "u8 list \<Rightarrow> nat \<Rightarrow> u8 list" where
  "entry_name bs j = takeWhile (\<lambda>c. c \<noteq> 0) (take MAX_FILENAME_LEN (drop (DIR_ENTRY_SIZE * j + 4) bs))"

definition entry_nr :: "u8 list \<Rightarrow> nat \<Rightarrow> u32" where
  "entry_nr bs j = list32 bs (DIR_ENTRY_SIZE * j)"

text \<open>The entries of one sector: the comparison comes before the count, so one entry too many is examined.\<close>

fun search_entries :: "u8 list \<Rightarrow> u8 list \<Rightarrow> nat \<Rightarrow> nat list \<Rightarrow> nat \<Rightarrow> u32 option \<times> nat" where
  "search_entries bs name nr [] m = (None, m)"
| "search_entries bs name nr (j # js) m =
     (if entry_name bs j = name then (Some (entry_nr bs j), m)
      else if m + 1 > nr then (None, m + 1) else search_entries bs name nr js (m + 1))"

definition dir_blks :: "inode \<Rightarrow> nat" where
  "dir_blks d = unat ((i_size d + of_nat SECTOR_SIZE - 1) div of_nat SECTOR_SIZE)"

definition dir_entries :: "inode \<Rightarrow> nat" where
  "dir_entries d = unat (i_size d div of_nat DIR_ENTRY_SIZE)"

fun search_blocks :: "inode \<Rightarrow> u8 list \<Rightarrow> nat list \<Rightarrow> nat \<Rightarrow> fstate \<Rightarrow> fault + u32 \<times> fstate" where
  "search_blocks d name [] m s = Inr (0, s)"
| "search_blocks d name (i # is) m s =
     (if m \<le> dir_entries d then
        ebind (RD_SECT (i_dev d) (sint (i_start_sector d) + int i) s) (\<lambda>s.
        case search_entries (buf s) name (dir_entries d) [0..<SECTOR_SIZE div DIR_ENTRY_SIZE] m of
          (Some nr, _) \<Rightarrow> Inr (nr, s)
        | (None, m) \<Rightarrow> search_blocks d name is m s)
      else Inr (0, s))"

text \<open>The directory is always the root directory; a null pointer there is dereferenced.\<close>

definition dir_inode :: "fstate \<Rightarrow> fault + nat" where
  "dir_inode s = (case root_inode s of Some r \<Rightarrow> Inr r | None \<Rightarrow> Inl (Wild ''root_inode''))"

definition search_file :: "u8 list \<Rightarrow> fstate \<Rightarrow> fault + u32 \<times> fstate" where
  "search_file path s =
     (case strip_path path of
        None \<Rightarrow> Inr (0, s)
      | Some name \<Rightarrow> ebind (dir_inode s) (\<lambda>r.
          let d = inode_table s r in search_blocks d name [0..<dir_blks d] 0 s))"

section \<open>New entries\<close>

text \<open>
  The loops of \<open>new_dir_entry\<close>: the first free entry of a sector, if there is one before the end of the directory,
  and the entry behind the last one that was looked at, which is the 33rd of the buffer when the
  sector is full.
\<close>

fun free_entry :: "u8 list \<Rightarrow> nat \<Rightarrow> nat list \<Rightarrow> nat \<Rightarrow> nat option \<times> nat \<times> nat" where
  "free_entry bs nr [] m = (None, SECTOR_SIZE div DIR_ENTRY_SIZE, m)"
| "free_entry bs nr (j # js) m =
     (if m + 1 > nr then (None, j, m + 1)
      else if entry_nr bs j = 0 then (Some j, j, m + 1)
      else free_entry bs nr js (m + 1))"

text \<open>The outer loop: the sector it stops in, the free entry and the pointer \<open>pde\<close>, as an index.\<close>

fun new_entry_loop :: "inode \<Rightarrow> nat list \<Rightarrow> nat \<Rightarrow> nat option \<Rightarrow> fstate \<Rightarrow> fault + nat \<times> nat option \<times> nat option \<times> fstate" where
  "new_entry_loop d [] m pde s = Inr (dir_blks d, None, pde, s)"
| "new_entry_loop d (i # is) m pde s =
     ebind (RD_SECT (i_dev d) (sint (i_start_sector d) + int i) s) (\<lambda>s.
     case free_entry (buf s) (dir_entries d) [0..<SECTOR_SIZE div DIR_ENTRY_SIZE] m of
       (new_de, pde, m) \<Rightarrow>
         if m > dir_entries d \<or> new_de \<noteq> None then Inr (i, new_de, Some pde, s)
         else new_entry_loop d is m (Some pde) s)"

text \<open>The entry is written into the buffer by its index; its name is terminated whatever its length is.\<close>

definition put_entry :: "nat \<Rightarrow> u32 \<Rightarrow> u8 list \<Rightarrow> fstate \<Rightarrow> fstate" where
  "put_entry j nr name s =
     (let a = fsb s + of_nat (DIR_ENTRY_SIZE * j) in upd_mem (store_bytes (a + 4) (name @ [0]) \<circ> store32 a nr) s)"

definition new_dir_entry :: "nat \<Rightarrow> int \<Rightarrow> u8 list \<Rightarrow> fstate \<Rightarrow> fault + fstate" where
  "new_dir_entry r inode_nr filename s =
     (let d = inode_table s r; dir_blk0_nr = sint (i_start_sector d) in
      ebind (new_entry_loop d [0..<dir_blks d] 0 None s) (\<lambda>(i, new_de, pde, s).
      ebind (case new_de of
               Some j \<Rightarrow> Inr (j, s)
             | None \<Rightarrow> (case pde of None \<Rightarrow> Inl (Wild ''pde'')
                 | Some j \<Rightarrow> Inr (j, upd_inode r (\<lambda>d. d\<lparr>i_size := i_size d + of_nat DIR_ENTRY_SIZE\<rparr>) s))) (\<lambda>(j, s).
      let s = put_entry j (word_of_int inode_nr) filename s in
      ebind (WR_SECT (i_dev d) (dir_blk0_nr + int i) s) (sync_inode r))))"

section \<open>Removing an entry\<close>

text \<open>
  The loop of \<open>do_unlink\<close>: \<open>dsize\<close> adds up the entries in use in front of the one that is looked for. The
  result is the sector, if the entry was found and cleared in it, with the counts.
\<close>

fun unlink_entries :: "u8 list \<Rightarrow> u32 \<Rightarrow> nat \<Rightarrow> nat list \<Rightarrow> nat \<Rightarrow> nat \<Rightarrow> nat option \<times> nat \<times> nat" where
  "unlink_entries bs inode_nr nr [] m dsize = (None, m, dsize)"
| "unlink_entries bs inode_nr nr (j # js) m dsize =
     (if m + 1 > nr then (None, m + 1, dsize)
      else if entry_nr bs j = inode_nr then (Some j, m + 1, dsize)
      else unlink_entries bs inode_nr nr js (m + 1)
             (if entry_nr bs j \<noteq> INVALID_INODE then dsize + DIR_ENTRY_SIZE else dsize))"

fun unlink_blocks :: "inode \<Rightarrow> u32 \<Rightarrow> nat list \<Rightarrow> nat \<Rightarrow> nat \<Rightarrow> fstate \<Rightarrow> fault + bool \<times> nat \<times> nat \<times> fstate" where
  "unlink_blocks d inode_nr [] m dsize s = Inr (False, m, dsize, s)"
| "unlink_blocks d inode_nr (i # is) m dsize s =
     ebind (RD_SECT (i_dev d) (sint (i_start_sector d) + int i) s) (\<lambda>s.
     case unlink_entries (buf s) inode_nr (dir_entries d) [0..<SECTOR_SIZE div DIR_ENTRY_SIZE] m dsize of
       (Some j, m, dsize) \<Rightarrow>
         ebind (WR_SECT (i_dev d) (sint (i_start_sector d) + int i)
                  (set_buf (put_list (DIR_ENTRY_SIZE * j) (replicate DIR_ENTRY_SIZE 0) (buf s)) s)) (\<lambda>s.
           Inr (True, m, dsize, s))
     | (None, m, dsize) \<Rightarrow>
         if m > dir_entries d then Inr (False, m, dsize, s) else unlink_blocks d inode_nr is m dsize s)"

definition unlink_entry :: "nat \<Rightarrow> u32 \<Rightarrow> fstate \<Rightarrow> fault + fstate" where
  "unlink_entry r inode_nr s =
     (let d = inode_table s r in
      ebind (unlink_blocks d inode_nr [0..<dir_blks d] 0 0 s) (\<lambda>(flag, m, dir_size, s).
      ebind (asserts ''link.c'' [(148, flag)]) (\<lambda>_.
      if m = dir_entries d
      then sync_inode r (upd_inode r (\<lambda>d. d\<lparr>i_size := of_nat dir_size\<rparr>) s)
      else Inr s)))"

end
