(* ===== verification/Fs_Search.thy ===== *)
theory Fs_Search
  imports Fs_Dir
begin

text \<open>
  The root directory as a list of entries, and \<open>search_file\<close> as a linear search through it.
\<close>

section \<open>The directory as a list of entries\<close>

text \<open>
  Entry \<open>e\<close> lies in sector \<open>e div 32\<close> of the directory. A directory of \<open>n\<close> entries on the root device, of which the
  sectors can be addressed; it lies behind the inodes.
\<close>

definition dstart :: "inode \<Rightarrow> nat" where
  "dstart d = unat (i_start_sector d)"

definition dent_nr :: "fstate \<Rightarrow> nat \<Rightarrow> nat \<Rightarrow> u32" where
  "dent_nr s a e = entry_nr (sect s (a + e div 32)) (e mod 32)"

definition dent_name :: "fstate \<Rightarrow> nat \<Rightarrow> nat \<Rightarrow> u8 list" where
  "dent_name s a e = entry_name (sect s (a + e div 32)) (e mod 32)"

definition dir_ok :: "fstate \<Rightarrow> super_block \<Rightarrow> inode \<Rightarrow> nat \<Rightarrow> bool" where
  "dir_ok s sb d n \<longleftrightarrow> fs_layout s sb \<and> i_dev d = ROOT_DEV \<and> i_size d = of_nat (16 * n) \<and> n < 2 ^ 16
     \<and> 1 \<le> i_num d \<and> i_num d \<le> 4096 \<and> unat (n_1st_sector sb) \<le> dstart d \<and> dstart d + n div 32 < unat (nr_sectors sb)"

lemma dir_size:
  assumes "dir_ok s sb d n"
  shows "dir_entries d = n" "dir_blks d = (n + 31) div 32"
proof -
  have n: "16 * n < 2 ^ 20" using assms by (simp add: dir_ok_def)
  then have u: "unat (of_nat (16 * n) :: u32) = 16 * n" by (intro unat_of_nat_small) simp
  show "dir_entries d = n"
    using assms u by (simp add: dir_entries_def dir_ok_def DIR_ENTRY_SIZE_def unat_div)
  have e: "(of_nat (16 * n) + 512 - 1 :: u32) = of_nat (16 * n + 511)" by simp
  have "unat (of_nat (16 * n + 511) :: u32) = 16 * n + 511" using n by (intro unat_of_nat_small) simp
  then have "dir_blks d = (16 * n + 511) div 512"
    using assms unfolding dir_blks_def dir_ok_def SECTOR_SIZE_def by (simp add: unat_div e del: of_nat_add of_nat_mult)
  also have "\<dots> = (n + 31) div 32" using div_mult2_eq [of "16 * n + 511" 16 32] by simp
  finally show "dir_blks d = (n + 31) div 32" .
qed

lemma RD_dir:
  assumes "dir_ok s sb d n" "i \<le> n div 32"
  shows "RD_SECT (i_dev d) (sint (i_start_sector d) + int i) s = Inr (set_buf (sect s (dstart d + i)) s)"
    "valid_sect s (dstart d + i)" "sint (i_start_sector d) + int i = int (dstart d + i)"
proof -
  have "dstart d + i < unat (nr_sectors sb)" using assms by (simp add: dir_ok_def)
  with assms show v: "valid_sect s (dstart d + i)" by (simp add: dir_ok_def fs_layout_def)
  then have "dstart d < 2 ^ 31" by (simp add: valid_sect_def)
  then have "sint (of_nat (dstart d) :: u32) = int (dstart d)" by (rule sint_of_nat_small)
  then have "sint (i_start_sector d) = int (dstart d)" by (simp add: dstart_def)
  then show eq: "sint (i_start_sector d) + int i = int (dstart d + i)" by simp
  from RD_SECT_root [OF v] show "RD_SECT (i_dev d) (sint (i_start_sector d) + int i) s = Inr (set_buf (sect s (dstart d + i)) s)"
    unfolding eq using assms(1) by (simp add: dir_ok_def)
qed

lemma dir_ok_simps [simp]:
  "dir_ok (set_buf bs s) sb d n = dir_ok s sb d n" "dir_ok (put_sect k bs s) sb d n = dir_ok s sb d n"
  by (simp_all add: dir_ok_def)

lemma dent_set_buf [simp]: "dent_nr (set_buf bs s) = dent_nr s" "dent_name (set_buf bs s) = dent_name s"
  by (simp_all add: dent_nr_def dent_name_def fun_eq_iff)

section \<open>Search\<close>

text \<open>The entries of one sector from \<open>j\<close> on, of which \<open>32 * i + j\<close> precede.\<close>

lemma find_upt_step:
  "a < b \<Longrightarrow> List.find P [a..<b] = (if P a then Some a else List.find P [Suc a..<b])"
  by (simp add: upt_conv_Cons)

lemma search_entries_eq:
  assumes "j \<le> 32" "32 * i + j \<le> n"
  shows "search_entries bs name n [j..<32] (32 * i + j) =
    (case List.find (\<lambda>k. entry_name bs k = name) [j..<min 32 (n + 1 - 32 * i)] of
       Some k \<Rightarrow> (Some (entry_nr bs k), 32 * i + k) | None \<Rightarrow> (None, min (32 * i + 32) (n + 1)))"
  using assms
proof (induction "32 - j" arbitrary: j)
  case (Suc d)
  then have j: "j < 32" by simp
  have "j < min 32 (n + 1 - 32 * i)" using j Suc.prems by simp
  note f = find_upt_step [OF this]
  show ?case
  proof (cases "32 * i + j = n")
    case True
    then have "min 32 (n + 1 - 32 * i) = Suc j" using j by auto
    with True j show ?thesis by (auto simp: upt_conv_Cons [of j 32])
  next
    case False
    with Suc.prems j have "32 * i + Suc j \<le> n" by simp
    with Suc.hyps(1) [of "Suc j"] Suc.hyps(2) j have "search_entries bs name n [Suc j..<32] (32 * i + Suc j) =
      (case List.find (\<lambda>k. entry_name bs k = name) [Suc j..<min 32 (n + 1 - 32 * i)] of
         Some k \<Rightarrow> (Some (entry_nr bs k), 32 * i + k) | None \<Rightarrow> (None, min (32 * i + 32) (n + 1)))" by simp
    then show ?thesis unfolding f using j False Suc.prems by (simp add: upt_conv_Cons [of j 32])
  qed
qed auto

text \<open>A search through a segment of the entries, split by sectors.\<close>

lemma find_segment:
  assumes "a \<le> b"
  shows "List.find P [c + a..<c + b] = map_option ((+) c) (List.find (\<lambda>k. P (c + k)) [a..<b])"
proof -
  have "[c + a..<c + b] = map ((+) c) [a..<b]" using assms by (induction b rule: dec_induct) (auto)
  moreover have "List.find P (map ((+) c) xs) = map_option ((+) c) (List.find (\<lambda>k. P (c + k)) xs)" for xs by (induction xs) auto
  ultimately show ?thesis by simp
qed

lemma find_append: "List.find P (xs @ ys) = (case List.find P xs of Some x \<Rightarrow> Some x | None \<Rightarrow> List.find P ys)"
  by (induction xs) auto

lemma search_blocks_eq:
  assumes "dir_ok s sb d n" "B = (n + 31) div 32" "i \<le> B" "32 * i \<le> n + 1"
  shows "\<exists>s'. search_blocks d name [i..<B] (32 * i) s =
      Inr (case List.find (\<lambda>e. dent_name s (dstart d) e = name) [32 * i..<min (32 * B) (n + 1)] of
             Some e \<Rightarrow> dent_nr s (dstart d) e | None \<Rightarrow> 0, s')
    \<and> io_frame s s' \<and> sect s' = sect s"
  using assms
proof (induction "B - i" arbitrary: i s)
  case 0
  then show ?case by simp
next
  case (Suc x)
  then have i: "i < B" by simp
  then have in_dir: "32 * i < n" using Suc.prems(2) by auto
  then have idiv: "i \<le> n div 32" by auto
  let ?bs = "sect s (dstart d + i)" and ?r = "set_buf (sect s (dstart d + i)) s"
  let ?P = "\<lambda>e. dent_name s (dstart d) e = name" and ?h = "min (32 * i + 32) (n + 1)"
  have at: "dent_name s (dstart d) (32 * i + k) = entry_name ?bs k" "dent_nr s (dstart d) (32 * i + k) = entry_nr ?bs k" if "k < 32" for k
    using that by (simp_all add: dent_name_def dent_nr_def)
  let ?f = "List.find (\<lambda>k. entry_name ?bs k = name) [0..<min 32 (n + 1 - 32 * i)]"
  have "List.find (\<lambda>k. ?P (32 * i + k)) [0..<min 32 (n + 1 - 32 * i)] = ?f"
    by (rule find_cong) (auto simp: at)
  moreover have "32 * i + min 32 (n + 1 - 32 * i) = ?h" using in_dir by simp
  ultimately have here: "List.find ?P [32 * i..<?h] = map_option ((+) (32 * i)) ?f"
    using find_segment [of 0 "min 32 (n + 1 - 32 * i)" ?P "32 * i"] by simp
  have seg: "[32 * i..<min (32 * B) (n + 1)] = [32 * i..<?h] @ [?h..<min (32 * B) (n + 1)]"
    using i in_dir upt_add_eq_append [of "32 * i" ?h "min (32 * B) (n + 1) - ?h"] by simp
  have split: "List.find ?P [32 * i..<min (32 * B) (n + 1)] =
      (case List.find ?P [32 * i..<?h] of Some e \<Rightarrow> Some e | None \<Rightarrow> List.find ?P [?h..<min (32 * B) (n + 1)])"
    unfolding seg find_append ..
  have se: "search_entries ?bs name n [0..<32] (32 * i) =
    (case ?f of Some k \<Rightarrow> (Some (entry_nr ?bs k), 32 * i + k) | None \<Rightarrow> (None, ?h))"
    using search_entries_eq [of 0 i n ?bs name] in_dir by (simp del: upt_rec_numeral)
  have step: "search_blocks d name [i..<B] (32 * i) s =
    (case ?f of Some k \<Rightarrow> Inr (entry_nr ?bs k, ?r) | None \<Rightarrow> search_blocks d name [Suc i..<B] ?h ?r)"
    using i in_dir se RD_dir(1) [OF Suc.prems(1) idiv] dir_size(1) [OF Suc.prems(1)]
    by (simp add: upt_conv_Cons [OF i] SECTOR_SIZE_def DIR_ENTRY_SIZE_def del: upt_rec_numeral split: option.splits)
  show ?case
  proof (cases ?f)
    case (Some k)
    then have "k < 32" by (auto simp: find_Some_iff)
    with Some here split step at(2) show ?thesis by (intro exI [of _ ?r]) (simp add: fun_eq_iff)
  next
    case None
    show ?thesis
    proof (cases "Suc i < B")
      case True
      then have h: "?h = 32 * Suc i" "32 * Suc i \<le> n + 1" using Suc.prems(2) by auto
      have "\<exists>s'. search_blocks d name [Suc i..<B] (32 * Suc i) ?r =
          Inr (case List.find (\<lambda>e. dent_name ?r (dstart d) e = name) [32 * Suc i..<min (32 * B) (n + 1)] of
             Some e \<Rightarrow> dent_nr ?r (dstart d) e | None \<Rightarrow> 0, s')
        \<and> io_frame ?r s' \<and> sect s' = sect ?r"
        by (rule Suc.hyps(1)) (use Suc True h in auto)
      then obtain s' where s': "search_blocks d name [Suc i..<B] (32 * Suc i) ?r =
          Inr (case List.find ?P [32 * Suc i..<min (32 * B) (n + 1)] of Some e \<Rightarrow> dent_nr s (dstart d) e | None \<Rightarrow> 0, s')"
        "io_frame ?r s'" "sect s' = sect ?r" unfolding dent_set_buf by blast
      have "io_frame s s'" by (rule io_frame_trans [OF io_frame_set_buf s'(2)]) simp
      with s'(1,3) None here split step show ?thesis unfolding h(1) by (intro exI [of _ s']) (simp add: fun_eq_iff)
    next
      case False
      with i have "Suc i = B" by simp
      then have "[?h..<min (32 * B) (n + 1)] = []" by auto
      then have e: "List.find ?P [?h..<min (32 * B) (n + 1)] = None" by (simp only: List.find.simps)
      have "search_blocks d name [Suc i..<B] ?h ?r = Inr (0, ?r)" using \<open>Suc i = B\<close> by simp
      with None here split step e show ?thesis by (intro exI [of _ ?r]) (simp add: fun_eq_iff)
    qed
  qed
qed

lemma search_file_ok:
  assumes "root_inode s = Some r" "dir_ok s sb (inode_table s r) n" "strip_path path = Some name"
  shows "\<exists>s'. search_file path s =
      Inr (case List.find (\<lambda>e. dent_name s (dstart (inode_table s r)) e = name) [0..<min (32 * ((n + 31) div 32)) (n + 1)] of
             Some e \<Rightarrow> dent_nr s (dstart (inode_table s r)) e | None \<Rightarrow> 0, s')
    \<and> io_frame s s' \<and> sect s' = sect s"
  using search_blocks_eq [OF assms(2) refl, of 0 name] dir_size(2) [OF assms(2)] assms(1,3)
  by (simp add: search_file_def dir_inode_def Let_def)

text \<open>
  C20: the two nested loops of \<open>search_file\<close> are a linear search through the entries of the directory. As the name is
  compared before the entries are counted, the entry behind the last one is searched too, unless it would begin a
  sector.
\<close>

theorem search_file_linear:
  assumes "root_inode s = Some r" "dir_ok s sb (inode_table s r) n" "strip_path path = Some name"
  shows "\<exists>s'. search_file path s =
      Inr (case List.find (\<lambda>e. dent_name s (dstart (inode_table s r)) e = name) [0..<min (32 * ((n + 31) div 32)) (n + 1)] of
             Some e \<Rightarrow> dent_nr s (dstart (inode_table s r)) e | None \<Rightarrow> 0, s')
    \<and> io_frame s s' \<and> sect s' = sect s"
  using assms by (rule search_file_ok)

end
