(* ===== verification/Fs_Ops.thy ===== *)
theory Fs_Ops
  imports Fs_Dir
begin

text \<open>
  The requests of the file system task: \<^verbatim>\<open>fs/fs.c\<close> and \<open>do_unlink\<close> of \<^verbatim>\<open>fs/link.c\<close>. What they print on the
  console is not modelled.
\<close>

section \<open>Messages\<close>

definition SYSCALL_RET :: int where "SYSCALL_RET = 6"
definition OPEN :: int where "OPEN = 7"
definition CLOSE :: int where "CLOSE = 8"
definition READ :: int where "READ = 9"
definition WRITE :: int where "WRITE = 10"
definition UNLINK :: int where "UNLINK = 11"

lemmas fs_msg_consts = SYSCALL_RET_def OPEN_def CLOSE_def READ_def WRITE_def UNLINK_def

text \<open>A message to a driver of which only type and device matter.\<close>

definition driver_msg :: "int \<Rightarrow> int \<Rightarrow> message" where
  "driver_msg type device = \<lparr>m_source = int TASK_FS, m_type = type, m_RETVAL = 0, m_DEVICE = device, m_CNT = 0,
     m_PROC_NR = int TASK_FS, m_REQUEST = 0, m_FLAGS = 0, m_NAME_LEN = 0, m_FD = 0, m_PATHNAME = 0,
     m_POSITION = 0, m_BUF = 0\<rparr>"

section \<open>Path of the caller\<close>

text \<open>
  The path is copied from the caller into an array of 64 bytes. The length is not checked for being positive: a
  length of 0 makes \<open>kmemcpy\<close> copy without end, a negative one indexes in front of the array.
\<close>

definition get_path :: "string \<Rightarrow> nat \<Rightarrow> fstate \<Rightarrow> fault + u8 list" where
  "get_path src line s =
     (let name_len = m_NAME_LEN (fs_msg s) in
      ebind (asserts src [(line, name_len < MAX_PATH)]) (\<lambda>_.
      ebind (ldt_proc_id2base (m_source (fs_msg s)) (hk (hs s))) (\<lambda>base.
      if name_len \<le> 0 then Inl (Wild ''pathname'')
      else Inr (takeWhile (\<lambda>c. c \<noteq> 0)
             (load_bytes (fmem s) (vir2linear base (m_PATHNAME (fs_msg s))) (nat name_len))))))"

section \<open>Open and close\<close>

definition upd_filp :: "nat \<Rightarrow> nat option \<Rightarrow> fstate \<Rightarrow> fstate" where
  "upd_filp fd d s = s\<lparr>hs := (hs s)\<lparr>hk := upd_proc (pcaller s) (\<lambda>p. p\<lparr>filp := (filp p)(fd := d)\<rparr>) (hk (hs s))\<rparr>\<rparr>"

definition upd_desc :: "nat \<Rightarrow> (file_desc \<Rightarrow> file_desc) \<Rightarrow> fstate \<Rightarrow> fstate" where
  "upd_desc i f s = s\<lparr>f_desc_table := (f_desc_table s)(i := f (f_desc_table s i))\<rparr>"

definition caller_filp :: "fstate \<Rightarrow> nat \<Rightarrow> nat option" where
  "caller_filp s fd = filp (procs (hk (hs s)) (pcaller s)) fd"

definition create_file :: "u8 list \<Rightarrow> fstate \<Rightarrow> fault + nat option \<times> fstate" where
  "create_file path s =
     (case strip_path path of
        None \<Rightarrow> Inr (None, s)
      | Some filename \<Rightarrow>
          ebind (dir_inode s) (\<lambda>r.
          ebind (alloc_imap_bit (i_dev (inode_table s r)) s) (\<lambda>(inode_nr, s).
          ebind (alloc_smap_bit (i_dev (inode_table s r)) NR_DEFAULT_FILE_SECTS s) (\<lambda>(free_sect_nr, s).
          ebind (new_inode (i_dev (inode_table s r)) inode_nr free_sect_nr s) (\<lambda>(newino, s).
          ebind (new_dir_entry r (i_num (inode_table s newino)) filename s) (\<lambda>s.
          Inr (Some newino, s)))))))"

text \<open>The inode that is opened: a new one with \<open>O_CREAT\<close>, otherwise that of the directory entry.\<close>

definition open_inode :: "u8 list \<Rightarrow> u32 \<Rightarrow> u32 \<Rightarrow> fstate \<Rightarrow> fault + nat option \<times> fstate" where
  "open_inode path flags inode_nr s =
     (if flags AND O_CREAT \<noteq> 0
      then if inode_nr \<noteq> 0 then Inr (None, s) else create_file path s
      else ebind (asserts ''fs.c'' [(149, flags AND O_RDWR \<noteq> 0)]) (\<lambda>_.
           case strip_path path of
             None \<Rightarrow> Inr (None, s)
           | Some _ \<Rightarrow> ebind (dir_inode s) (\<lambda>r. get_inode (i_dev (inode_table s r)) (sint inode_nr) s)))"

text \<open>Opening a terminal sends a message to its driver; the root directory is the only directory.\<close>

definition open_check :: "inode \<Rightarrow> fstate \<Rightarrow> fault + fstate" where
  "open_check p s =
     (let imode = i_mode p AND I_TYPE_MASK in
      if imode = I_CHAR_SPECIAL then
        let dev = sint (i_start_sector p) in
        ebind (asserts ''fs.c'' [(171, MAJOR dev = 4)]) (\<lambda>_. call_driver 172 dev (driver_msg DEV_OPEN (MINOR dev)) s)
      else if imode = I_DIRECTORY then ebind (asserts ''fs.c'' [(177, i_num p = ROOT_INODE)]) (\<lambda>_. Inr s)
      else ebind (asserts ''fs.c'' [(180, i_mode p = I_REGULAR)]) (\<lambda>_. Inr s))"

definition do_open :: "fstate \<Rightarrow> fault + int \<times> fstate" where
  "do_open s =
     (let flags = m_FLAGS (fs_msg s) in
      ebind (get_path ''fs.c'' 111 s) (\<lambda>pathname.
      case List.find (\<lambda>i. caller_filp s i = None) [0..<NR_FILES] of
        None \<Rightarrow> Inl (Halted (ascii ''filp[] is full''))
      | Some fd \<Rightarrow>
      (case List.find (\<lambda>i. fd_inode (f_desc_table s i) = None) [0..<NR_FILE_DESC] of
        None \<Rightarrow> Inl (Halted (ascii ''f_desc_table[] is full''))
      | Some i \<Rightarrow>
        ebind (search_file pathname s) (\<lambda>(inode_nr, s).
        ebind (open_inode pathname flags inode_nr s) (\<lambda>(pin, s).
        case pin of
          None \<Rightarrow> Inr (-1, s)
        | Some p \<Rightarrow>
            ebind (open_check (inode_table s p)
                    (upd_desc i (\<lambda>_. \<lparr>fd_mode = flags, fd_pos = 0, fd_inode = Some p\<rparr>) (upd_filp fd (Some i) s)))
              (\<lambda>s. Inr (int fd, s)))))))"

text \<open>Neither the range of the descriptor nor its pointers are checked when a file is closed.\<close>

definition do_close :: "fstate \<Rightarrow> fault + int \<times> fstate" where
  "do_close s =
     (let fd = m_FD (fs_msg s) in
      if fd < 0 \<or> fd \<ge> int NR_FILES then Inl (Wild ''filp'')
      else case caller_filp s (nat fd) of
        None \<Rightarrow> Inl (Wild ''filp'')
      | Some i \<Rightarrow>
        (case fd_inode (f_desc_table s i) of
           None \<Rightarrow> Inl (Wild ''fd_inode'')
         | Some p \<Rightarrow> ebind (put_inode p s) (\<lambda>s.
             Inr (0, upd_filp (nat fd) None (upd_desc i (\<lambda>d. d\<lparr>fd_inode := None\<rparr>) s)))))"

section \<open>Read and write\<close>

text \<open>
  The loop of \<open>do_rdwt\<close> over chunks of sectors: the chunk is read into the buffer, the bytes are copied, and
  a write puts the chunk back. \<open>user\<close> is the linear address of the caller's buffer.
\<close>

function rdwt_loop :: "int \<Rightarrow> nat \<Rightarrow> inode \<Rightarrow> u32 \<Rightarrow> int \<Rightarrow> int \<Rightarrow> int \<Rightarrow> int \<Rightarrow> int \<Rightarrow> int \<Rightarrow> fstate \<Rightarrow> fault + int \<times> fstate" where
  "rdwt_loop type d pin user rw_sect_max chunk i off bytes_rw bytes_left s =
     (if i \<le> rw_sect_max \<and> 0 < chunk then
        let bytes = min bytes_left (chunk * int SECTOR_SIZE - off); pos = sect_pos i in
        ebind (rw_sector DEV_READ (i_dev pin) pos (chunk * int SECTOR_SIZE) s) (\<lambda>s.
        let fs_addr = fsb s + word_of_int off; user_addr = user + word_of_int bytes_rw in
        ebind (if type = READ then Inr (upd_mem (kmemcpy fs_addr user_addr (word_of_int bytes)) s)
               else rw_sector DEV_WRITE (i_dev pin) pos (chunk * int SECTOR_SIZE)
                      (upd_mem (kmemcpy user_addr fs_addr (word_of_int bytes)) s)) (\<lambda>s.
        rdwt_loop type d pin user rw_sect_max chunk (i + chunk) 0 (bytes_rw + bytes) (bytes_left - bytes)
          (upd_desc d (\<lambda>f. f\<lparr>fd_pos := fd_pos f + bytes\<rparr>) s)))
      else Inr (bytes_rw, s))"
  by auto
termination
  by (relation "measure (\<lambda>(type, d, pin, user, rw_sect_max, chunk, i, off, bytes_rw, bytes_left, s). nat (rw_sect_max - i + 1))") auto

declare rdwt_loop.simps [simp del]

text \<open>A transfer on a regular file or the directory; the size grows with the position.\<close>

definition rdwt_file :: "int \<Rightarrow> nat \<Rightarrow> nat \<Rightarrow> u32 \<Rightarrow> int \<Rightarrow> fstate \<Rightarrow> fault + int \<times> fstate" where
  "rdwt_file type d p user len s =
     (let pin = inode_table s p; pos = fd_pos (f_desc_table s d);
          pos_end = (if type = READ then min (wrap_int (pos + len)) (sint (i_size pin))
                     else min (wrap_int (pos + len)) (sint (i_nr_sectors pin * of_nat SECTOR_SIZE)));
          off = pos smod int SECTOR_SIZE;
          rw_sect_min = sint (i_start_sector pin + word_of_int (pos div int SECTOR_SIZE));
          rw_sect_max = sint (i_start_sector pin + word_of_int (pos_end div int SECTOR_SIZE));
          chunk = min (rw_sect_max - rw_sect_min + 1) (FSBUF_SIZE div int SECTOR_SIZE) in
      ebind (rdwt_loop type d pin user rw_sect_max chunk rw_sect_min off 0 len s) (\<lambda>(bytes_rw, s).
      let pos = word_of_int (fd_pos (f_desc_table s d)) :: u32 in
      if pos > i_size (inode_table s p)
      then ebind (sync_inode p (upd_inode p (\<lambda>p. p\<lparr>i_size := pos\<rparr>) s)) (\<lambda>s. Inr (bytes_rw, s))
      else Inr (bytes_rw, s)))"

text \<open>A terminal: the request is passed on to its driver, after an assertion on the device number.\<close>

definition rdwt_tty :: "nat \<Rightarrow> fstate \<Rightarrow> fault + int \<times> fstate" where
  "rdwt_tty p s =
     (let dev = sint (i_start_sector (inode_table s p)); len = m_CNT (fs_msg s);
          msg = (fs_msg s)\<lparr>m_type := (if m_type (fs_msg s) = READ then DEV_READ else DEV_WRITE),
                  m_DEVICE := MINOR dev, m_PROC_NR := m_source (fs_msg s)\<rparr> in
      ebind (asserts ''fs.c'' [(223, MAJOR dev = int TASK_TTY)]) (\<lambda>_.
      ebind (call_driver 229 dev msg s) (\<lambda>s. Inr (len, s\<lparr>fs_msg := msg\<rparr>))))"

definition do_rdwt :: "fstate \<Rightarrow> fault + int \<times> fstate" where
  "do_rdwt s =
     (let fd = m_FD (fs_msg s); type = m_type (fs_msg s) in
      if fd < 0 \<or> fd \<ge> int NR_FILES then Inl (Wild ''filp'')
      else case caller_filp s (nat fd) of
        None \<Rightarrow> Inl (Assertion ''fs.c'' 208)
      | Some d \<Rightarrow>
        if fd_mode (f_desc_table s d) AND O_RDWR = 0 then Inr (-1, s)
        else case fd_inode (f_desc_table s d) of
          None \<Rightarrow> Inl (Assertion ''fs.c'' 215)
        | Some p \<Rightarrow>
          (let mode = i_mode (inode_table s p) in
           if mode AND I_TYPE_MASK = I_CHAR_SPECIAL then rdwt_tty p s
           else ebind (asserts ''fs.c'' [(236, mode = I_REGULAR \<or> mode = I_DIRECTORY), (237, type = READ \<or> type = WRITE)]) (\<lambda>_.
                ebind (ldt_proc_id2base (m_source (fs_msg s)) (hk (hs s))) (\<lambda>base.
                rdwt_file type d p (vir2linear base (m_BUF (fs_msg s))) (m_CNT (fs_msg s)) s))))"

section \<open>Unlink\<close>

definition do_unlink :: "fstate \<Rightarrow> fault + int \<times> fstate" where
  "do_unlink s =
     ebind (get_path ''link.c'' 21 s) (\<lambda>pathname.
     if pathname = [0x2F] then Inr (-1, s)
     else
       ebind (search_file pathname s) (\<lambda>(inode_nr, s).
       if inode_nr = INVALID_INODE then Inr (-1, s)
       else case strip_path pathname of
         None \<Rightarrow> Inr (-1, s)
       | Some _ \<Rightarrow>
         ebind (dir_inode s) (\<lambda>r.
         ebind (get_inode (i_dev (inode_table s r)) (sint inode_nr) s) (\<lambda>(q, s).
         case q of None \<Rightarrow> Inl (Wild ''pin'')
         | Some q \<Rightarrow>
           (let pin = inode_table s q in
            if i_mode pin \<noteq> I_REGULAR then Inr (-1, s)
            else if i_cnt pin > 1 then Inr (-1, s)
            else
              ebind (get_super_block (i_dev pin) s) (\<lambda>sb.
              ebind (free_imap_bit (i_dev pin) (sint inode_nr) s) (\<lambda>s.
              ebind (free_smap_bits (i_dev pin) sb (i_start_sector pin) (i_nr_sectors pin) s) (\<lambda>s.
              let s = upd_inode q (\<lambda>p. p\<lparr>i_mode := 0, i_size := 0, i_start_sector := 0, i_nr_sectors := 0\<rparr>) s in
              ebind (sync_inode q s) (\<lambda>s.
              ebind (put_inode q s) (\<lambda>s.
              ebind (unlink_entry r inode_nr s) (\<lambda>s. Inr (0, s))))))))))))"

end
