(* ===== verification/Fs_Init.thy ===== *)
theory Fs_Init
  imports Fs_Ops Console
begin

text \<open>
  The start of the file system task: \<open>mkfs\<close> writes an empty file system to the root device at every boot,
  \<open>read_super_block\<close> and \<open>get_inode\<close> load it. \<open>geo_ptr\<close> is the address of the local variable \<open>geo\<close> of \<open>mkfs\<close>.
  After that the task serves one request at a time; the messages of the clients are those of
  \<^verbatim>\<open>kernel/api.c\<close>.
\<close>

section \<open>mkfs\<close>

text \<open>The 56 bytes of a super block on the disk, in the order of its fields.\<close>

definition sb_bytes :: "super_block \<Rightarrow> u8 list" where
  "sb_bytes sb = concat (map bytes32 [magic sb, nr_inodes sb, nr_sectors sb, nr_imap_sectors sb, nr_smap_sectors sb,
     n_1st_sector sb, nr_inode_sectors sb, sb_root_inode sb, inode_size sb, inode_isize_off sb, inode_start_off sb,
     dir_ent_size sb, dir_ent_inode_off sb, dir_ent_fname_off sb])"

definition new_super_block :: "u32 \<Rightarrow> super_block" where
  "new_super_block geo_size =
     (let bits_per_sector = 512 * 8; smap = geo_size div bits_per_sector + 1;
          inode_sects = bits_per_sector * of_nat INODE_SIZE div of_nat SECTOR_SIZE in
      \<lparr>magic = MAGIC_V1, nr_inodes = bits_per_sector, nr_sectors = geo_size, nr_imap_sectors = 1,
       nr_smap_sectors = smap, n_1st_sector = 1 + 1 + 1 + smap + inode_sects, nr_inode_sectors = inode_sects,
       sb_root_inode = word_of_int ROOT_INODE, inode_size = of_nat INODE_SIZE, inode_isize_off = 4, inode_start_off = 8,
       dir_ent_size = of_nat DIR_ENTRY_SIZE, dir_ent_inode_off = 0, dir_ent_fname_off = 4, sb_dev = NO_DEV\<rparr>)"

text \<open>A write whose sector number is an unsigned expression of the super block.\<close>

definition WR_SECT_u :: "int \<Rightarrow> u32 \<Rightarrow> fstate \<Rightarrow> fault + fstate" where
  "WR_SECT_u dev n = rw_sector DEV_WRITE dev (ucast (n * of_nat SECTOR_SIZE)) (int SECTOR_SIZE)"

definition fill :: "u8 list \<Rightarrow> u8 list" where
  "fill bs = bs @ replicate (512 - length bs) 0"

definition imap_sector :: "u8 list" where
  "imap_sector = fill [foldl (\<lambda>b i. b OR push_bit i 1) 0 [0..<NR_CONSOLES + 2]]"

definition smap_sector :: "u8 list" where
  "smap_sector = (let nr = nat NR_DEFAULT_FILE_SECTS + 1 in
     fill (replicate (nr div 8) 0xFF @ [foldl (\<lambda>b j. b OR push_bit j 1) 0 [0..<nr mod 8]]))"

text \<open>The first sector of inodes: the root directory and the terminals.\<close>

definition disk_inode :: "u32 \<Rightarrow> u32 \<Rightarrow> u32 \<Rightarrow> u32 \<Rightarrow> u8 list" where
  "disk_inode mode sz start nr = bytes32 mode @ bytes32 sz @ bytes32 start @ bytes32 nr @ replicate 16 0"

definition inode_sector :: "super_block \<Rightarrow> u8 list" where
  "inode_sector sb = fill
     (disk_inode I_DIRECTORY (of_nat (DIR_ENTRY_SIZE * 4)) (n_1st_sector sb) (word_of_int NR_DEFAULT_FILE_SECTS)
      @ concat (map (\<lambda>i. disk_inode I_CHAR_SPECIAL 0 (word_of_int (MAKE_DEV DEV_CHAR_TTY (int i))) 0) [0..<NR_CONSOLES]))"

text \<open>The names are those that \<open>sprintf(pde->name, "dev_tty%d", i)\<close> writes.\<close>

definition disk_entry :: "u32 \<Rightarrow> u8 list \<Rightarrow> u8 list" where
  "disk_entry nr name = bytes32 nr @ name @ replicate (MAX_FILENAME_LEN - length name) 0"

definition tty_name :: "nat \<Rightarrow> u8 list" where
  "tty_name i = ascii ''dev_tty'' @ [0x30 + of_nat i]"

lemma tty_name_sprintf: "i < 3 \<Longrightarrow> vsprintf (fmt_string ''dev_tty%d'') [Word (of_nat i)] = Inr (tty_name i)"
proof -
  assume "i < 3"
  then have "i = 0 \<or> i = 1 \<or> i = 2" by auto
  moreover have f: "fmt_string ''dev_tty%d'' = ascii ''dev_tty'' @ 0x25 # 0x64 # [0]" by (simp add: fmt_string_def ascii_def)
  have p: "plain (ascii ''dev_tty'')" by (simp add: plain_def ascii_def)
  have d: "integer2char 0 10 = Some [0x30]" "integer2char 1 10 = Some [0x31]" "integer2char 2 10 = Some [0x32]"
    by (simp_all add: integer2char.simps signed_divide_int_def signed_modulo_int_def Let_def)
  have "vsprintf (fmt_string ''dev_tty%d'') [Word w] = ebind (or_spin (integer2char (sint w) 10)) (\<lambda>cs. Inr (ascii ''dev_tty'' @ cs))" for w
    unfolding f vsprintf_plain [OF p] vsprintf_d by (cases "integer2char (sint w) 10") simp_all
  ultimately show ?thesis by (elim disjE) (simp_all add: tty_name_def d)
qed

definition dir_sector :: "u8 list" where
  "dir_sector = fill (disk_entry 1 (ascii ''.'')
     @ concat (map (\<lambda>i. disk_entry (of_nat i + 2) (tty_name i)) [0..<NR_CONSOLES]))"

text \<open>\<open>for (i = 1; i < sb.nr_smap_sectors; i++) WR_SECT(ROOT_DEV, 2 + sb.nr_imap_sectors + i)\<close>\<close>

fun zero_smap :: "super_block \<Rightarrow> nat list \<Rightarrow> fstate \<Rightarrow> fault + fstate" where
  "zero_smap sb [] s = Inr s"
| "zero_smap sb (i # is) s = ebind (WR_SECT_u ROOT_DEV (2 + nr_imap_sectors sb + of_nat i) s) (zero_smap sb is)"

definition mkfs :: "u32 \<Rightarrow> fstate \<Rightarrow> fault + fstate" where
  "mkfs geo_ptr s =
     ebind (call_driver 316 ROOT_DEV ((driver_msg DEV_IOCTL (MINOR ROOT_DEV))
              \<lparr>m_REQUEST := DIOCTL_GET_GEO, m_BUF := geo_ptr\<rparr>) s) (\<lambda>s.
     let geo_size = load32 (fmem s) (lin (hk (hs s)) TASK_FS geo_ptr + 4); sb = new_super_block geo_size in
     ebind (WR_SECT ROOT_DEV 1 (set_buf (put_list 0 (sb_bytes sb) (replicate 512 0x90)) s)) (\<lambda>s.
     let s = set_buf imap_sector s in
     ebind (asserts ''fs.c'' [(358, buf s ! 0 = 0x1F)]) (\<lambda>_.
     ebind (WR_SECT ROOT_DEV 2 s) (\<lambda>s.
     ebind (WR_SECT_u ROOT_DEV (2 + nr_imap_sectors sb) (set_buf smap_sector s)) (\<lambda>s.
     ebind (zero_smap sb [1..<unat (nr_smap_sectors sb)] (set_buf (fill []) s)) (\<lambda>s.
     ebind (WR_SECT_u ROOT_DEV (2 + nr_imap_sectors sb + nr_smap_sectors sb) (set_buf (inode_sector sb) s)) (\<lambda>s.
     WR_SECT_u ROOT_DEV (n_1st_sector sb) (set_buf dir_sector s))))))))"

section \<open>Loading\<close>

definition sb_of_bytes :: "u8 list \<Rightarrow> int \<Rightarrow> super_block" where
  "sb_of_bytes bs dev = \<lparr>magic = list32 bs 0, nr_inodes = list32 bs 4, nr_sectors = list32 bs 8,
     nr_imap_sectors = list32 bs 12, nr_smap_sectors = list32 bs 16, n_1st_sector = list32 bs 20,
     nr_inode_sectors = list32 bs 24, sb_root_inode = list32 bs 28, inode_size = list32 bs 32,
     inode_isize_off = list32 bs 36, inode_start_off = list32 bs 40, dir_ent_size = list32 bs 44,
     dir_ent_inode_off = list32 bs 48, dir_ent_fname_off = list32 bs 52, sb_dev = dev\<rparr>"

definition read_super_block :: "int \<Rightarrow> fstate \<Rightarrow> fault + fstate" where
  "read_super_block dev s =
     ebind (rw_request 434 DEV_READ dev (of_nat SECTOR_SIZE) (int SECTOR_SIZE) s) (\<lambda>s.
     case List.find (\<lambda>i. sb_dev (super_blocks s i) = NO_DEV) [0..<NR_SUPER_BLOCK] of
       None \<Rightarrow> Inl (Halted (ascii ''super block slots used up''))
     | Some i \<Rightarrow> ebind (asserts ''fs.c'' [(444, i = 0)]) (\<lambda>_.
         Inr (s\<lparr>super_blocks := (super_blocks s)(i := sb_of_bytes (buf s) dev)\<rparr>)))"

definition init_fs :: "u32 \<Rightarrow> fstate \<Rightarrow> fault + fstate" where
  "init_fs geo_ptr s =
     (let s = s\<lparr>f_desc_table := (\<lambda>_. \<lparr>fd_mode = 0, fd_pos = 0, fd_inode = None\<rparr>),
                inode_table := (\<lambda>_. \<lparr>i_mode = 0, i_size = 0, i_start_sector = 0, i_nr_sectors = 0,
                                     i_dev = 0, i_cnt = 0, i_num = 0\<rparr>),
                super_blocks := (\<lambda>i. (super_blocks s i)\<lparr>sb_dev := NO_DEV\<rparr>)\<rparr> in
      ebind (call_driver 91 ROOT_DEV (driver_msg DEV_OPEN (MINOR ROOT_DEV)) s) (\<lambda>s.
      ebind (mkfs geo_ptr s) (\<lambda>s.
      ebind (read_super_block ROOT_DEV s) (\<lambda>s.
      ebind (get_super_block ROOT_DEV s) (\<lambda>sb.
      ebind (asserts ''fs.c'' [(97, magic sb = MAGIC_V1)]) (\<lambda>_.
      ebind (get_inode ROOT_DEV ROOT_INODE s) (\<lambda>(p, s). Inr (s\<lparr>root_inode := p\<rparr>))))))))"

section \<open>Requests\<close>

text \<open>A pass of \<open>task_fs\<close>: the request of a message, and the reply.\<close>

definition task_fs_request :: "message \<Rightarrow> fstate \<Rightarrow> fault + message \<times> fstate" where
  "task_fs_request msg s =
     (let s = s\<lparr>fs_msg := msg, pcaller := nat (m_source msg)\<rparr>; type = m_type msg in
      ebind (if type = OPEN then ebind (do_open s) (\<lambda>(r, s). Inr (s\<lparr>fs_msg := (fs_msg s)\<lparr>m_FD := r\<rparr>\<rparr>))
        else if type = CLOSE then ebind (do_close s) (\<lambda>(r, s). Inr (s\<lparr>fs_msg := (fs_msg s)\<lparr>m_RETVAL := r\<rparr>\<rparr>))
        else if type = READ \<or> type = WRITE then ebind (do_rdwt s) (\<lambda>(r, s). Inr (s\<lparr>fs_msg := (fs_msg s)\<lparr>m_CNT := r\<rparr>\<rparr>))
        else if type = UNLINK then ebind (do_unlink s) (\<lambda>(r, s). Inr (s\<lparr>fs_msg := (fs_msg s)\<lparr>m_RETVAL := r\<rparr>\<rparr>))
        else Inr s) (\<lambda>s.
      let reply = (fs_msg s)\<lparr>m_type := SYSCALL_RET\<rparr> in Inr (reply, s\<lparr>fs_msg := reply\<rparr>)))"

text \<open>
  The functions of \<^verbatim>\<open>api.c\<close> for process \<open>p\<close>: each fills in its fields of a message on the stack (\<open>msg\<close> is what
  was there), and returns a field of the reply. The length of a path is that of the string at \<open>pathname\<close>.
\<close>

definition api_open :: "message \<Rightarrow> nat \<Rightarrow> u32 \<Rightarrow> u32 \<Rightarrow> fstate \<Rightarrow> fault + int \<times> fstate" where
  "api_open msg p pathname flags s =
     ebind (or_spin (strlen (\<lambda>a. fmem s (lin (hk (hs s)) p a)) pathname)) (\<lambda>len.
     ebind (task_fs_request (msg\<lparr>m_source := int p, m_type := OPEN, m_PATHNAME := pathname, m_FLAGS := flags,
              m_NAME_LEN := sint len\<rparr>) s) (\<lambda>(reply, s).
     ebind (asserts ''api.c'' [(35, m_type reply = SYSCALL_RET)]) (\<lambda>_. Inr (m_FD reply, s))))"

definition api_close :: "message \<Rightarrow> nat \<Rightarrow> int \<Rightarrow> fstate \<Rightarrow> fault + fstate" where
  "api_close msg p fd s =
     ebind (task_fs_request (msg\<lparr>m_source := int p, m_type := CLOSE, m_FD := fd\<rparr>) s) (\<lambda>(reply, s). Inr s)"

definition api_file_read :: "message \<Rightarrow> nat \<Rightarrow> int \<Rightarrow> u32 \<Rightarrow> int \<Rightarrow> fstate \<Rightarrow> fault + int \<times> fstate" where
  "api_file_read msg p fd b count s =
     ebind (task_fs_request (msg\<lparr>m_source := int p, m_type := READ, m_FD := fd, m_BUF := b, m_CNT := count\<rparr>) s)
       (\<lambda>(reply, s). Inr (m_CNT reply, s))"

definition api_file_write :: "message \<Rightarrow> nat \<Rightarrow> int \<Rightarrow> u32 \<Rightarrow> int \<Rightarrow> fstate \<Rightarrow> fault + int \<times> fstate" where
  "api_file_write msg p fd b count s =
     ebind (task_fs_request (msg\<lparr>m_source := int p, m_type := WRITE, m_FD := fd, m_BUF := b, m_CNT := count\<rparr>) s)
       (\<lambda>(reply, s). Inr (m_CNT reply, s))"

definition api_unlink :: "message \<Rightarrow> nat \<Rightarrow> u32 \<Rightarrow> fstate \<Rightarrow> fault + int \<times> fstate" where
  "api_unlink msg p pathname s =
     ebind (or_spin (strlen (\<lambda>a. fmem s (lin (hk (hs s)) p a)) pathname)) (\<lambda>len.
     ebind (task_fs_request (msg\<lparr>m_source := int p, m_type := UNLINK, m_PATHNAME := pathname,
              m_NAME_LEN := sint len\<rparr>) s) (\<lambda>(reply, s). Inr (m_RETVAL reply, s)))"

end
