(* ===== verification/Fs_Refs.thy ===== *)
theory Fs_Refs
  imports Fs_Init Fs_Map
begin

text \<open>
  References to inodes. A descriptor in use holds a reference to its inode, and \<open>i_cnt\<close> counts at least the
  descriptors: \<open>refs_ok\<close>. The lemmas say for every operation what it does to descriptors and counts, as facts
  about the states in which it returns: \<open>quiet\<close> for those that touch neither, \<open>counted\<close> for the others.
\<close>

section \<open>What holds after an operation that returns\<close>

definition post :: "fault + 'a \<Rightarrow> ('a \<Rightarrow> bool) \<Rightarrow> bool" where
  "post r Q \<longleftrightarrow> (case r of Inl e \<Rightarrow> True | Inr x \<Rightarrow> Q x)"

lemma post_Inl [simp]: "post (Inl e) Q" by (simp add: post_def)

lemma post_Inr [simp]: "post (Inr x) Q = Q x" by (simp add: post_def)

lemma post_bind: "post r P \<Longrightarrow> (\<And>x. P x \<Longrightarrow> post (f x) Q) \<Longrightarrow> post (ebind r f) Q"
  by (cases r) simp_all

lemma post_bind_any: "(\<And>x. r = Inr x \<Longrightarrow> post (f x) Q) \<Longrightarrow> post (ebind r f) Q"
  by (cases r) simp_all

lemma post_mono: "post r P \<Longrightarrow> (\<And>x. P x \<Longrightarrow> Q x) \<Longrightarrow> post r Q"
  by (cases r) simp_all

lemma post_conj: "post r P \<Longrightarrow> post r Q \<Longrightarrow> post r (\<lambda>x. P x \<and> Q x)"
  by (cases r) simp_all

lemma postD: "post r Q \<Longrightarrow> r = Inr x \<Longrightarrow> Q x" by simp

section \<open>Operations that leave the descriptors and the reference counts alone\<close>

definition quiet :: "fstate \<Rightarrow> fstate \<Rightarrow> bool" where
  "quiet s s' \<longleftrightarrow> (\<forall>i. fd_inode (f_desc_table s' i) = fd_inode (f_desc_table s i))
     \<and> (\<forall>q. i_cnt (inode_table s' q) = i_cnt (inode_table s q))"

lemma quiet_refl [simp]: "quiet s s" by (simp add: quiet_def)

lemma quiet_simps [simp]:
  "quiet s (upd_mem f t) = quiet s t" "quiet s (set_buf bs t) = quiet s t" "quiet s (t\<lparr>hs := h\<rparr>) = quiet s t"
  "quiet s (t\<lparr>fs_msg := m\<rparr>) = quiet s t" "quiet s (upd_filp fd x t) = quiet s t"
  by (simp_all add: quiet_def upd_filp_def)

lemma quiet_upd_inode: "quiet s t \<Longrightarrow> (\<And>p. i_cnt (f p) = i_cnt p) \<Longrightarrow> quiet s (upd_inode q f t)"
  by (simp add: quiet_def)

lemma quiet_upd_desc: "quiet s t \<Longrightarrow> (\<And>p. fd_inode (f p) = fd_inode p) \<Longrightarrow> quiet s (upd_desc i f t)"
  by (simp add: quiet_def upd_desc_def)

lemma quiet_call_driver: "quiet s t \<Longrightarrow> post (call_driver line dev msg t) (quiet s)"
  unfolding call_driver_def Let_def by (auto intro!: post_bind_any)

lemma quiet_rw:
  assumes "quiet s t"
  shows "post (rw_sector io dev pos n t) (quiet s)" "post (RD_SECT dev k t) (quiet s)" "post (WR_SECT dev k t) (quiet s)"
  using quiet_call_driver [OF assms] by (simp_all add: rw_sector_def rw_request_def RD_SECT_def WR_SECT_def)

lemma quiet_sync_inode: "quiet s t \<Longrightarrow> post (sync_inode q t) (quiet s)"
  unfolding sync_inode_def Let_def
  by (rule post_bind_any, rule post_bind, erule quiet_rw, rule post_bind_any, rule quiet_rw) simp

lemma quiet_search_blocks: "quiet s t \<Longrightarrow> post (search_blocks d name is m t) (\<lambda>r. quiet s (snd r))"
proof (induction "is" arbitrary: m t)
  case (Cons i "is")
  then show ?case by (auto intro!: post_bind [OF quiet_rw(2)] split: option.split prod.split)
qed simp

lemma quiet_search_file: "quiet s t \<Longrightarrow> post (search_file path t) (\<lambda>r. quiet s (snd r))"
  by (auto simp: search_file_def Let_def intro!: post_bind_any quiet_search_blocks split: option.split)

lemma quiet_unlink_blocks: "quiet s t \<Longrightarrow> post (unlink_blocks d nr is m c t) (\<lambda>r. quiet s (snd (snd (snd r))))"
proof (induction "is" arbitrary: m c t)
  case (Cons i "is")
  then show ?case by (auto intro!: post_bind [OF quiet_rw(2)] post_bind [OF quiet_rw(3)] split: option.split prod.split)
qed simp

lemma quiet_unlink_entry: "quiet s t \<Longrightarrow> post (unlink_entry r nr t) (quiet s)"
  unfolding unlink_entry_def Let_def
  by (rule post_bind, erule quiet_unlink_blocks) (auto simp: split_beta intro!: post_bind_any [of "asserts _ _"] quiet_sync_inode quiet_upd_inode)

lemma quiet_free_imap_bit: "quiet s t \<Longrightarrow> post (free_imap_bit dev nr t) (quiet s)"
  unfolding free_imap_bit_def Let_def
  by (rule post_bind_any, rule post_bind, erule quiet_rw) (auto intro!: post_bind_any quiet_rw)

lemma quiet_next_map_sector: "quiet s t \<Longrightarrow> post (next_map_sector dev i blk t) (\<lambda>r. quiet s (snd (snd r)))"
  unfolding next_map_sector_def by (auto intro!: post_bind [OF quiet_rw(3)] post_bind [OF quiet_rw(2)])

lemma quiet_free_bytes: "quiet s t \<Longrightarrow> post (free_bytes dev cnt i blk left t) (\<lambda>r. quiet s (snd (snd (snd r))))"
proof (induction cnt arbitrary: i blk left t)
  case (Suc cnt)
  then show ?case by (auto simp: split_beta intro!: post_bind [OF quiet_next_map_sector] post_bind_any [of "asserts _ _"] Suc.IH)
qed simp

lemma quiet_free_smap_bits: "quiet s t \<Longrightarrow> post (free_smap_bits dev sb st nr t) (quiet s)"
  unfolding free_smap_bits_def Let_def
  by (rule post_bind, erule quiet_rw) (auto simp: split_beta intro!: post_bind_any [of "drop_bits _ _ _"] post_bind [OF quiet_free_bytes]
    post_bind [OF quiet_next_map_sector] post_bind_any [of "asserts _ _"] quiet_rw)

lemma quiet_rdwt_loop:
  "quiet s t \<Longrightarrow> post (rdwt_loop type d pin user mx chunk i off rw left t) (\<lambda>r. quiet s (snd r))"
proof (induction type d pin user mx chunk i off rw left t rule: rdwt_loop.induct)
  case (1 type d pin user mx chunk i off rw left t)
  show ?case
  proof (cases "i \<le> mx \<and> 0 < chunk")
    case True
    show ?thesis
      unfolding rdwt_loop.simps [of _ _ _ _ _ _ _ _ _ _ t] if_P [OF True] Let_def
    proof (rule post_bind_any)
      fix t1 assume t1: "rw_sector DEV_READ (i_dev pin) (sect_pos i) (chunk * int SECTOR_SIZE) t = Inr t1"
      have q1: "quiet s t1" using quiet_rw(1) [OF 1(2)] t1 by (rule postD)
      let ?r = "if type = READ then Inr (upd_mem (kmemcpy (fsb t1 + word_of_int off) (user + word_of_int rw) (word_of_int (min left (chunk * int SECTOR_SIZE - off)))) t1)
        else rw_sector DEV_WRITE (i_dev pin) (sect_pos i) (chunk * int SECTOR_SIZE)
          (upd_mem (kmemcpy (user + word_of_int rw) (fsb t1 + word_of_int off) (word_of_int (min left (chunk * int SECTOR_SIZE - off)))) t1)"
      show "post (ebind ?r (\<lambda>s. rdwt_loop type d pin user mx chunk (i + chunk) 0 (rw + min left (chunk * int SECTOR_SIZE - off))
          (left - min left (chunk * int SECTOR_SIZE - off)) (upd_desc d (\<lambda>f. f\<lparr>fd_pos := fd_pos f + min left (chunk * int SECTOR_SIZE - off)\<rparr>) s)))
        (\<lambda>r. quiet s (snd r))"
      proof (rule post_bind_any)
        fix t2 assume t2: "?r = Inr t2"
        have "post ?r (quiet s)" using q1 by (auto intro!: quiet_rw)
        then have "quiet s t2" using t2 by (rule postD)
        then show "post (rdwt_loop type d pin user mx chunk (i + chunk) 0 (rw + min left (chunk * int SECTOR_SIZE - off))
          (left - min left (chunk * int SECTOR_SIZE - off)) (upd_desc d (\<lambda>f. f\<lparr>fd_pos := fd_pos f + min left (chunk * int SECTOR_SIZE - off)\<rparr>) t2))
        (\<lambda>r. quiet s (snd r))"
          by (intro 1(1) [OF True refl refl refl refl] quiet_upd_desc) simp_all
      qed
    qed
  next
    case False
    show ?thesis unfolding rdwt_loop.simps [of _ _ _ _ _ _ _ _ _ _ t] if_not_P [OF False] using 1(2) by simp
  qed
qed

lemma quiet_do_rdwt: "quiet s t \<Longrightarrow> post (do_rdwt t) (\<lambda>r. quiet s (snd r))"
proof -
  assume q: "quiet s t"
  have fil: "post (rdwt_file type d p user len t) (\<lambda>r. quiet s (snd r))" for type d p user len
    unfolding rdwt_file_def Let_def using q
    by (auto simp: split_beta intro!: post_bind [OF quiet_rdwt_loop] post_bind [OF quiet_sync_inode] quiet_upd_inode)
  have tty: "post (rdwt_tty p t) (\<lambda>r. quiet s (snd r))" for p
    unfolding rdwt_tty_def Let_def using q by (auto intro!: post_bind_any [of "asserts _ _"] post_bind [OF quiet_call_driver])
  show ?thesis unfolding do_rdwt_def Let_def using q fil tty by (auto intro!: post_bind_any split: option.split)
qed

section \<open>Reference counts\<close>

text \<open>
  Every descriptor in use holds a reference to its inode: an inode has at least as many references as there are
  descriptors for it. The table of descriptors ends at \<open>NR_FILE_DESC\<close>.
\<close>

definition holders :: "fstate \<Rightarrow> nat \<Rightarrow> nat set" where
  "holders s q = {i. fd_inode (f_desc_table s i) = Some q}"

definition refs_ok :: "fstate \<Rightarrow> bool" where
  "refs_ok s \<longleftrightarrow> (\<forall>i. fd_inode (f_desc_table s i) \<noteq> None \<longrightarrow> i < NR_FILE_DESC)
     \<and> (\<forall>q. int (card (holders s q)) \<le> i_cnt (inode_table s q))"

lemma finite_holders: "refs_ok s \<Longrightarrow> finite (holders s q)"
  by (rule finite_subset [of _ "{..<NR_FILE_DESC}"]) (auto simp: refs_ok_def holders_def)

text \<open>The counts change by \<open>c\<close>, the descriptors not at all.\<close>

definition counted :: "(nat \<Rightarrow> int) \<Rightarrow> fstate \<Rightarrow> fstate \<Rightarrow> bool" where
  "counted c s s' \<longleftrightarrow> (\<forall>i. fd_inode (f_desc_table s' i) = fd_inode (f_desc_table s i))
     \<and> (\<forall>q. i_cnt (inode_table s' q) = i_cnt (inode_table s q) + c q)"

lemma quiet_counted: "quiet s s' \<longleftrightarrow> counted (\<lambda>_. 0) s s'"
  by (simp add: quiet_def counted_def)

lemma counted_quiet: "counted c s t \<Longrightarrow> quiet t u \<Longrightarrow> counted c s u"
  by (simp add: quiet_def counted_def)

lemma quiet_counted_trans: "quiet s t \<Longrightarrow> counted c t u \<Longrightarrow> counted c s u"
  by (simp add: quiet_def counted_def)

lemma refs_ok_counted: "refs_ok s \<Longrightarrow> counted c s s' \<Longrightarrow> (\<And>q. 0 \<le> c q) \<Longrightarrow> refs_ok s'"
  unfolding refs_ok_def counted_def holders_def by (simp add: add_increasing2)

lemma refs_ok_quiet: "refs_ok s \<Longrightarrow> quiet s s' \<Longrightarrow> refs_ok s'"
  unfolding quiet_counted by (rule refs_ok_counted [of s "\<lambda>_. 0"]) simp_all

definition one :: "nat option \<Rightarrow> nat \<Rightarrow> int" where
  "one r q = (if r = Some q then 1 else 0)"

lemma one_nonneg [simp]: "0 \<le> one r q" by (simp add: one_def)

lemma get_inode_counted: "post (get_inode dev num s) (\<lambda>r. counted (one (fst r)) s (snd r))"
proof (cases "num = 0")
  case True
  then show ?thesis by (simp add: get_inode_def counted_def one_def)
next
  case False
  obtain hit q where scan: "scan_inodes (inode_table s) dev num [0..<NR_INODE] None = (hit, q)" by fastforce
  show ?thesis
  proof (cases hit)
    case (Some p)
    then show ?thesis using False scan by (simp add: get_inode_def counted_def one_def)
  next
    case None
    show ?thesis
    proof (cases q)
      case (Some p)
      with scan None scan_inodes_miss(3) [of "inode_table s" dev num _ None q p] have p: "i_cnt (inode_table s p) = 0" by simp
      let ?t = "upd_inode p (\<lambda>x. x\<lparr>i_dev := dev, i_num := num, i_cnt := 1\<rparr>) s"
      have t: "counted (one (Some p)) s ?t" using p by (simp add: counted_def one_def)
      have "post (ebind (get_super_block dev ?t) (\<lambda>sb. ebind (RD_SECT dev (inode_blk sb num) ?t) (\<lambda>s. ebind (inode_off num) (\<lambda>off.
           Inr (Some p, upd_inode p (read_inode (buf s) off) s))))) (\<lambda>r. counted (one (fst r)) s (snd r))"
        by (rule post_bind_any, rule post_bind, rule quiet_rw(2) [of ?t], simp, rule post_bind_any)
          (use t in \<open>auto simp: counted_def quiet_def read_inode_def\<close>)
      then show ?thesis using False scan None Some by (simp add: get_inode_def Let_def)
    qed (use False scan None in \<open>simp add: get_inode_def\<close>)
  qed
qed

lemma put_inode_counted: "post (put_inode q s) (\<lambda>t. counted (\<lambda>x. - one (Some q) x) s t)"
  unfolding put_inode_def by (rule post_bind_any) (simp add: counted_def one_def)

section \<open>The requests keep the references\<close>

lemma refs_close:
  assumes "refs_ok s" "fd_inode (f_desc_table s i) = Some p"
  shows "0 < i_cnt (inode_table s p)"
    "refs_ok (upd_filp fd None (upd_desc i (\<lambda>d. d\<lparr>fd_inode := None\<rparr>) (upd_inode p (\<lambda>p. p\<lparr>i_cnt := i_cnt p - 1\<rparr>) s)))"
proof -
  have i: "i \<in> holders s p" using assms(2) by (simp add: holders_def)
  have fin: "finite (holders s q)" for q using assms(1) by (rule finite_holders)
  from i fin have "0 < card (holders s p)" by (auto simp: card_gt_0_iff)
  moreover have le: "int (card (holders s p)) \<le> i_cnt (inode_table s p)" using assms(1) by (simp add: refs_ok_def)
  ultimately show "0 < i_cnt (inode_table s p)" by linarith
  let ?t = "upd_filp fd None (upd_desc i (\<lambda>d. d\<lparr>fd_inode := None\<rparr>) (upd_inode p (\<lambda>p. p\<lparr>i_cnt := i_cnt p - 1\<rparr>) s))"
  have h: "holders ?t q = (if q = p then holders s p - {i} else holders s q)" for q
    using assms(2) by (auto simp: holders_def upd_filp_def upd_desc_def)
  have c: "int (card (holders s p - {i})) \<le> i_cnt (inode_table s p) - 1"
    using le \<open>0 < card (holders s p)\<close> card_Diff_singleton [OF i] by simp
  have "int (card (holders ?t q)) \<le> i_cnt (inode_table ?t q)" for q
    using c assms(1) by (cases "q = p") (simp_all add: h refs_ok_def, simp_all add: upd_filp_def upd_desc_def)
  moreover have "fd_inode (f_desc_table ?t i) \<noteq> None \<longrightarrow> i < NR_FILE_DESC" for i
    using assms(1) by (simp add: refs_ok_def upd_filp_def upd_desc_def)
  ultimately show "refs_ok ?t" unfolding refs_ok_def by blast
qed

lemma do_close_refs:
  assumes "refs_ok s"
  shows "do_close s \<noteq> Inl (Assertion ''open.c'' 230)" "post (do_close s) (\<lambda>r. refs_ok (snd r))"
proof -
  have "do_close s \<noteq> Inl (Assertion ''open.c'' 230) \<and> post (do_close s) (\<lambda>r. refs_ok (snd r))"
    using refs_close [OF assms] unfolding do_close_def Let_def by (auto simp: put_inode_def split: option.split)
  then show "do_close s \<noteq> Inl (Assertion ''open.c'' 230)" "post (do_close s) (\<lambda>r. refs_ok (snd r))" by simp_all
qed

text \<open>Opening: the descriptor is a free one, so it becomes one more holder of the inode.\<close>

lemma refs_open:
  assumes "refs_ok s" "fd_inode (f_desc_table s i) = None" "i < NR_FILE_DESC" "counted (one (Some p)) s t" "fd_inode d = Some p"
  shows "refs_ok (upd_desc i (\<lambda>_. d) (upd_filp fd x t))"
proof -
  let ?t = "upd_desc i (\<lambda>_. d) (upd_filp fd x t)"
  have fin: "finite (holders s q)" for q using assms(1) by (rule finite_holders)
  have h: "holders ?t q = (if q = p then insert i (holders s p) else holders s q)" for q
    using assms(2,4,5) by (auto simp: holders_def upd_filp_def upd_desc_def counted_def)
  have "i \<notin> holders s p" using assms(2) by (simp add: holders_def)
  then have "card (holders ?t q) = card (holders s q) + (if q = p then 1 else 0)" for q using fin by (simp add: h)
  then show ?thesis
    using assms(1,3,4) unfolding refs_ok_def
    by (auto simp: upd_filp_def upd_desc_def counted_def one_def)
qed

lemma quiet_fd: "quiet s t \<Longrightarrow> fd_inode (f_desc_table t i) = fd_inode (f_desc_table s i)"
  by (simp add: quiet_def)

lemma open_inode_counted:
  assumes "flags AND O_CREAT = 0"
  shows "post (open_inode path flags nr t) (\<lambda>r. counted (one (fst r)) t (snd r))"
  unfolding open_inode_def using assms
  by (auto intro!: post_bind_any [of "asserts _ _"] post_bind_any [of "dir_inode _"] get_inode_counted split: option.split)
    (simp add: counted_def one_def)

lemma open_check_quiet: "quiet s t \<Longrightarrow> post (open_check p t) (quiet s)"
  unfolding open_check_def Let_def by (auto intro!: post_bind_any [of "asserts _ _"] quiet_call_driver)

lemma open_rest_refs:
  assumes "refs_ok s" "fd_inode (f_desc_table s i) = None" "i < NR_FILE_DESC" "counted (one pin) s t"
  shows "post (case pin of None \<Rightarrow> Inr (-1, t)
       | Some p \<Rightarrow> ebind (open_check (inode_table t p)
                   (upd_desc i (\<lambda>_. \<lparr>fd_mode = flags, fd_pos = 0, fd_inode = Some p\<rparr>) (upd_filp fd (Some i) t)))
             (\<lambda>s. Inr (r, s))) (\<lambda>r. refs_ok (snd r))"
proof (cases pin)
  case None
  with assms show ?thesis by (auto intro: refs_ok_counted)
next
  case (Some p)
  let ?t = "upd_desc i (\<lambda>_. \<lparr>fd_mode = flags, fd_pos = 0, fd_inode = Some p\<rparr>) (upd_filp fd (Some i) t)"
  have "refs_ok ?t" by (rule refs_open [OF assms(1-3)]) (use assms(4) Some in simp_all)
  then have "quiet ?t u \<Longrightarrow> refs_ok u" for u by (rule refs_ok_quiet)
  then show ?thesis unfolding Some option.case
    by (intro post_bind [OF open_check_quiet [OF quiet_refl]]) simp
qed

lemma unlink_rest_refs:
  assumes "refs_ok s" "counted (one (Some q)) s t"
  shows "post (if i_mode (inode_table t q) \<noteq> I_REGULAR then Inr (-1, t)
            else if i_cnt (inode_table t q) > 1 then Inr (-1, t)
            else
              ebind (get_super_block (i_dev (inode_table t q)) t) (\<lambda>sb.
              ebind (free_imap_bit (i_dev (inode_table t q)) nr t) (\<lambda>s.
              ebind (free_smap_bits (i_dev (inode_table t q)) sb (i_start_sector (inode_table t q)) (i_nr_sectors (inode_table t q)) s) (\<lambda>s.
              ebind (sync_inode q (upd_inode q (\<lambda>p. p\<lparr>i_mode := 0, i_size := 0, i_start_sector := 0, i_nr_sectors := 0\<rparr>) s)) (\<lambda>s.
              ebind (put_inode q s) (\<lambda>s.
              ebind (unlink_entry r entry s) (\<lambda>s. Inr (0 :: int, s)))))))) (\<lambda>r. refs_ok (snd r))"
proof -
  have ok: "refs_ok t" using assms by (rule refs_ok_counted) simp
  have "post (ebind (get_super_block (i_dev (inode_table t q)) t) (\<lambda>sb.
              ebind (free_imap_bit (i_dev (inode_table t q)) nr t) (\<lambda>s.
              ebind (free_smap_bits (i_dev (inode_table t q)) sb (i_start_sector (inode_table t q)) (i_nr_sectors (inode_table t q)) s) (\<lambda>s.
              ebind (sync_inode q (upd_inode q (\<lambda>p. p\<lparr>i_mode := 0, i_size := 0, i_start_sector := 0, i_nr_sectors := 0\<rparr>) s)) (\<lambda>s.
              ebind (put_inode q s) (\<lambda>s.
              ebind (unlink_entry r entry s) (\<lambda>s. Inr (0 :: int, s)))))))) (\<lambda>r. refs_ok (snd r))"
  proof (rule post_bind_any, rule post_bind [OF quiet_free_imap_bit [OF quiet_refl]],
      rule post_bind [OF quiet_free_smap_bits], assumption, rule post_bind [OF quiet_sync_inode [OF quiet_upd_inode]], assumption, simp,
      rule post_bind [OF put_inode_counted], rule post_bind [OF quiet_unlink_entry [OF quiet_refl]])
    fix sb s1 s2 s3 s4 s5
    assume q3: "quiet t s3" and c4: "counted (\<lambda>x. - one (Some q) x) s3 s4" and q5: "quiet s4 s5"
    from quiet_counted_trans [OF q3 c4] have "counted (\<lambda>x. - one (Some q) x) t s4" .
    with assms(2) have "quiet s s4" by (simp add: counted_def quiet_def)
    with q5 have "quiet s s5" by (simp add: quiet_def)
    with assms(1) have "refs_ok s5" by (rule refs_ok_quiet)
    then show "post (Inr (0 :: int, s5)) (\<lambda>r. refs_ok (snd r))" by simp
  qed
  with ok show ?thesis by simp
qed

lemma do_unlink_refs:
  assumes "refs_ok s"
  shows "post (do_unlink s) (\<lambda>r. refs_ok (snd r))"
proof -
  have step: "refs_ok t" if "quiet s t" for t using assms that by (rule refs_ok_quiet)
  show ?thesis
    unfolding do_unlink_def Let_def
    apply (rule post_bind_any)
    apply (split if_split, intro conjI impI, simp add: assms)
    apply (rule post_bind [OF quiet_search_file [OF quiet_refl]])
    apply (simp only: split_beta)
    apply (split if_split, intro conjI impI, simp add: step)
    apply (split option.split, intro conjI allI impI, simp add: step)
    apply (rule post_bind_any)
    apply (rule post_bind [OF get_inode_counted])
    apply (simp only: split_beta)
    apply (split option.split, intro conjI allI impI, simp)
    apply (rule unlink_rest_refs [OF assms])
     apply (auto intro: quiet_counted_trans)
    done
qed

definition same_disk :: "fstate \<Rightarrow> fstate \<Rightarrow> bool" where
  "same_disk s s' \<longleftrightarrow> root_inode s' = root_inode s \<and> inode_table s' = inode_table s \<and> super_blocks s' = super_blocks s \<and> platter (hs s') = platter (hs s)
     \<and> hd0 (hs s') = hd0 (hs s) \<and> ready (hs s') = ready (hs s)"

lemma same_disk_refl [simp]: "same_disk s s" by (simp add: same_disk_def)

lemma same_disk_sect:
  assumes "same_disk s t"
  shows "fs_layout t sb = fs_layout s sb" "sect t = sect s"
proof -
  from assms have "valid_sect t = valid_sect s" by (simp add: same_disk_def valid_sect_def rbase_def fun_eq_iff)
  with assms show "fs_layout t sb = fs_layout s sb" by (intro fs_layout_cong) (simp_all add: same_disk_def)
  from assms show "sect t = sect s" by (intro ext) (simp add: same_disk_def sect_def rbase_def)
qed

lemma hd_read_only:
  "m_type p = DEV_READ \<Longrightarrow> post (hd_rdwt p h) (\<lambda>h'. platter h' = platter h \<and> hd0 h' = hd0 h \<and> ready h' = ready h)"
  unfolding hd_rdwt_def Let_def by (auto intro!: post_bind_any)

lemma same_disk_read:
  assumes "same_disk s t"
  shows "post (RD_SECT dev k t) (same_disk s)"
proof -
  have "post (task_hd_request msg (hs t)) (\<lambda>h. same_disk s (t\<lparr>hs := h\<rparr>))" if "m_type msg = DEV_READ" for msg
    using post_mono [OF hd_read_only [OF that, of "hs t"]] assms that
    by (simp add: task_hd_request_def same_disk_def dev_msg_consts)
  then show ?thesis
    by (auto simp: RD_SECT_def rw_sector_def rw_request_def call_driver_def Let_def intro!: post_bind_any [of "asserts _ _"] post_bind)
qed

lemma same_disk_search_blocks: "same_disk s t \<Longrightarrow> post (search_blocks d name is m t) (\<lambda>r. same_disk s (snd r))"
proof (induction "is" arbitrary: m t)
  case (Cons i "is")
  then show ?case by (auto intro!: post_bind [OF same_disk_read] split: option.split prod.split)
qed simp

lemma same_disk_search_file: "same_disk s t \<Longrightarrow> post (search_file path t) (\<lambda>r. same_disk s (snd r))"
  by (auto simp: search_file_def Let_def intro!: post_bind_any same_disk_search_blocks split: option.split)

text \<open>Every inode in use has its bit in the inode map.\<close>

definition mapped :: "fstate \<Rightarrow> bool" where
  "mapped s \<longleftrightarrow> (\<forall>p. in_use s p \<longrightarrow> i_dev (inode_table s p) = ROOT_DEV \<and> 0 \<le> i_num (inode_table s p)
     \<and> bit_at (sect s 2) (nat (i_num (inode_table s p))))"

text \<open>The sector map is allocated without a look at the tables.\<close>

definition still :: "fstate \<Rightarrow> fstate \<Rightarrow> bool" where
  "still s s' \<longleftrightarrow> inode_table s' = inode_table s \<and> f_desc_table s' = f_desc_table s"

lemma still_simps [simp]: "still s s" "still s (set_buf bs t) = still s t"
  by (simp_all add: still_def)

lemma still_rw:
  assumes "still s t"
  shows "post (RD_SECT dev k t) (still s)" "post (WR_SECT dev k t) (still s)"
  using assms by (auto simp: RD_SECT_def WR_SECT_def rw_sector_def rw_request_def call_driver_def Let_def still_def intro!: post_bind_any)

lemma still_smap_loop: "still s t \<Longrightarrow> post (smap_loop dev sb i free n t) (\<lambda>r. still s (snd (snd r)))"
proof (induction dev sb i free n t rule: smap_loop.induct)
  case (1 dev sb i free n t)
  show ?case
  proof (cases "i < uint (nr_smap_sectors sb)")
    case True
    show ?thesis
      unfolding smap_loop.simps [of _ _ _ _ _ t] if_P [OF True] Let_def
    proof (rule post_bind [OF still_rw(1) [OF 1(2)]], rule post_bind_any)
      fix t1 x assume t1: "still s t1" and "smap_bytes sb i [0..<SECTOR_SIZE] free n (buf t1) = Inr x"
      obtain fr n' bs where x: "x = (fr, n', bs)" by (cases x)
      have w: "post (if fr \<noteq> 0 then WR_SECT dev (sint (1 + 1 + nr_imap_sectors sb) + i) (set_buf bs t1) else Inr (set_buf bs t1)) (still s)"
        using t1 by (auto intro!: still_rw)
      show "post (case x of (free, n, bs) \<Rightarrow>
            ebind (if free \<noteq> 0 then WR_SECT dev (sint (1 + 1 + nr_imap_sectors sb) + i) (set_buf bs t1) else Inr (set_buf bs t1))
             (\<lambda>s. if n = 0 then Inr (free, n, s) else smap_loop dev sb (i + 1) free n s)) (\<lambda>r. still s (snd (snd r)))"
        unfolding x prod.case
        by (rule post_bind [OF w]) (use 1(1) [OF True] in auto)
    qed
  next
    case False
    show ?thesis unfolding smap_loop.simps [of _ _ _ _ _ t] if_not_P [OF False] using 1(2) by simp
  qed
qed

lemma still_alloc_smap_bit: "still s t \<Longrightarrow> post (alloc_smap_bit dev n t) (\<lambda>r. still s (snd r))"
  unfolding alloc_smap_bit_def
  by (rule post_bind_any, rule post_bind, erule still_smap_loop) (auto simp: split_beta intro!: post_bind_any)

lemma quiet_new_entry_loop: "quiet s t \<Longrightarrow> post (new_entry_loop d is m pde t) (\<lambda>r. quiet s (snd (snd (snd r))))"
proof (induction "is" arbitrary: m pde t)
  case (Cons i "is")
  then show ?case by (auto intro!: post_bind [OF quiet_rw(2)] split: prod.split)
qed simp

lemma quiet_new_dir_entry: "quiet s t \<Longrightarrow> post (new_dir_entry r nr name t) (quiet s)"
  unfolding new_dir_entry_def Let_def
  by (rule post_bind, erule quiet_new_entry_loop)
    (auto simp: split_beta put_entry_def Let_def intro!: post_bind [OF quiet_rw(3)] quiet_sync_inode quiet_upd_inode split: option.split)

lemma new_inode_counted:
  assumes "\<And>p. in_use s p \<Longrightarrow> i_dev (inode_table s p) = dev \<Longrightarrow> i_num (inode_table s p) \<noteq> nr"
  shows "post (new_inode dev nr st s) (\<lambda>r. counted (one (Some (fst r))) s (snd r))"
proof -
  have "post (get_inode dev nr s) (\<lambda>r. counted (one (fst r)) s (snd r) \<and> (\<forall>q. fst r = Some q \<longrightarrow> i_cnt (inode_table s q) = 0))"
  proof (cases "nr = 0")
    case False
    obtain hit q where scan: "scan_inodes (inode_table s) dev nr [0..<NR_INODE] None = (hit, q)" by fastforce
    have "hit = None"
      using scan scan_inodes_hit [of "inode_table s" dev nr "[0..<NR_INODE]" None _ q] assms by (cases hit) (auto simp: in_use_def)
    with scan scan_inodes_miss(3) [of "inode_table s" dev nr _ None q]
    have "post (get_inode dev nr s) (\<lambda>r. \<forall>q. fst r = Some q \<longrightarrow> i_cnt (inode_table s q) = 0)"
      using False by (auto simp: get_inode_def Let_def intro!: post_bind_any split: option.split)
    then show ?thesis using get_inode_counted [of dev nr s] by (cases "get_inode dev nr s") simp_all
  qed (simp add: get_inode_def counted_def one_def)
  then show ?thesis
    unfolding new_inode_def Let_def
    apply (rule post_bind)
    apply (simp only: split_beta)
    apply (split option.split, intro conjI allI impI, simp)
    apply (rule post_bind [OF quiet_sync_inode [OF quiet_refl]])
    apply (auto simp: counted_def quiet_def one_def)
    done
qed

lemma counted_none: "counted (one None) s s" by (simp add: counted_def one_def)

lemma create_file_counted:
  assumes "fs_layout s sb" "mapped s" "\<And>r. root_inode s = Some r \<Longrightarrow> i_dev (inode_table s r) = ROOT_DEV"
  shows "post (create_file path s) (\<lambda>r. counted (one (fst r)) s (snd r))"
proof -
  obtain n t where a: "alloc_imap_bit ROOT_DEV s = Inr (int n, t)" "io_frame s t" "n = 0 \<or> \<not> bit_at (sect s 2) n"
    using alloc_imap_bit_ok [OF assms(1)] by (auto split: if_splits)
  have t: "inode_table t = inode_table s" "f_desc_table t = f_desc_table s" using io_frame_simps [OF a(2)] by simp_all
  have new: "post (new_inode ROOT_DEV (int n) st u) (\<lambda>x. counted (one (Some (fst x))) s (snd x))" if "still t u" for st u
  proof (cases "n = 0")
    case True
    then show ?thesis by (simp add: new_inode_def get_inode_def)
  next
    case False
    have eq: "inode_table u = inode_table s" "f_desc_table u = f_desc_table s" using that t by (simp_all add: still_def)
    then have "counted (one q) u v = counted (one q) s v" for q v by (simp add: counted_def)
    moreover have "post (new_inode ROOT_DEV (int n) st u) (\<lambda>x. counted (one (Some (fst x))) u (snd x))"
      by (rule new_inode_counted) (use assms(2) a(3) False eq in \<open>auto simp: mapped_def in_use_def\<close>)
    ultimately show ?thesis by simp
  qed
  have smap: "post (alloc_smap_bit dev k t) (\<lambda>x. still t (snd x))" for dev k by (rule still_alloc_smap_bit) simp
  have rest: "post (ebind (new_inode (i_dev (inode_table u r)) (int n) st u) (\<lambda>(q, s). ebind (new_dir_entry r (i_num (inode_table s q)) name s)
        (\<lambda>s. Inr (Some q, s)))) (\<lambda>r. counted (one (fst r)) s (snd r))"
    if u: "still t u" and r: "root_inode s = Some r" for u r st name
  proof -
    have dev: "i_dev (inode_table u r) = ROOT_DEV" using assms(3) [OF r] u t by (simp add: still_def)
    show ?thesis
      unfolding dev
      by (rule post_bind [OF new [OF u]]) (auto simp: split_beta intro!: post_bind [OF quiet_new_dir_entry [OF quiet_refl]] intro: counted_quiet)
  qed
  have dev: "i_dev (inode_table s r) = ROOT_DEV" if "dir_inode s = Inr r" for r
    using that assms(3) by (simp add: dir_inode_def split: option.splits)
  show ?thesis
    unfolding create_file_def
    by (auto simp: a(1) dev t counted_none dir_inode_def split: option.split intro!: post_bind [OF smap] rest)
qed

text \<open>What creating a file needs.\<close>

definition can_create :: "fstate \<Rightarrow> bool" where
  "can_create s \<longleftrightarrow> (\<exists>sb. fs_layout s sb) \<and> mapped s
     \<and> (case root_inode s of None \<Rightarrow> True | Some r \<Rightarrow> i_dev (inode_table s r) = ROOT_DEV)"

lemma can_create_search:
  assumes "can_create s" "same_disk s t"
  shows "can_create t"
  using assms same_disk_sect [OF assms(2)] by (auto simp: can_create_def mapped_def in_use_def same_disk_def split: option.splits)

lemma open_inode_refs:
  assumes "flags AND O_CREAT \<noteq> 0 \<longrightarrow> can_create t"
  shows "post (open_inode path flags nr t) (\<lambda>r. counted (one (fst r)) t (snd r))"
proof (cases "flags AND O_CREAT = 0")
  case True
  then show ?thesis by (rule open_inode_counted)
next
  case False
  with assms show ?thesis
    by (auto simp: open_inode_def can_create_def counted_none split: option.splits intro!: create_file_counted)
qed

lemma do_open_keeps:
  assumes "refs_ok s" "m_FLAGS (fs_msg s) AND O_CREAT \<noteq> 0 \<longrightarrow> can_create s"
  shows "post (do_open s) (\<lambda>r. refs_ok (snd r))"
proof -
  have search: "post (search_file path s) (\<lambda>r. quiet s (snd r) \<and> same_disk s (snd r))" for path
    by (rule post_conj [OF quiet_search_file [OF quiet_refl] same_disk_search_file [OF same_disk_refl]])
  have create: "m_FLAGS (fs_msg s) AND O_CREAT \<noteq> 0 \<longrightarrow> can_create t" if "same_disk s t" for t
    using assms(2) can_create_search [OF _ that] by blast
  show ?thesis
    unfolding do_open_def Let_def
    apply (rule post_bind_any)
    apply (split option.split, intro conjI allI impI, simp)
    apply (split option.split, intro conjI allI impI, simp)
    apply (rule post_bind [OF search])
    apply (simp only: split_beta)
    apply (rule post_bind [OF open_inode_refs [OF create]], simp)
    apply (simp only: split_beta)
    apply (rule open_rest_refs [OF assms(1)])
      apply (auto simp: find_first intro: quiet_counted_trans)
    done
qed

lemma refs_ok_msg [simp]: "refs_ok (s\<lparr>fs_msg := m\<rparr>) = refs_ok s" "refs_ok (s\<lparr>fs_msg := m, pcaller := p\<rparr>) = refs_ok s"
  by (simp_all add: refs_ok_def holders_def)

lemma can_create_msg [simp]: "can_create (s\<lparr>fs_msg := m, pcaller := p\<rparr>) = can_create s"
proof -
  have "same_disk s (s\<lparr>fs_msg := m, pcaller := p\<rparr>)" "same_disk (s\<lparr>fs_msg := m, pcaller := p\<rparr>) s" by (simp_all add: same_disk_def)
  then show ?thesis using can_create_search by blast
qed

text \<open>
  C12: an inode never has fewer references than descriptors that are open on it, whatever is requested. Every
  request that returns keeps this, and a close never releases an inode that is not in use. A request that creates a
  file needs the inode map to have a bit for every inode in use, as \<open>new_inode\<close> sets the count to 1.
\<close>

theorem fs_request_keeps_references:
  assumes "refs_ok s" "m_type msg = OPEN \<and> m_FLAGS msg AND O_CREAT \<noteq> 0 \<longrightarrow> can_create s"
  shows "case task_fs_request msg s of
      Inl e \<Rightarrow> m_type msg = CLOSE \<longrightarrow> e \<noteq> Assertion ''open.c'' 230
    | Inr (reply, s') \<Rightarrow> m_type reply = SYSCALL_RET \<and> refs_ok s'"
proof -
  let ?s = "s\<lparr>fs_msg := msg, pcaller := nat (m_source msg)\<rparr>"
  have r: "refs_ok ?s" using assms(1) by simp
  have o: "m_type msg = OPEN \<Longrightarrow> post (do_open ?s) (\<lambda>r. refs_ok (snd r))"
    using assms by (intro do_open_keeps) auto
  have rw: "post (do_rdwt ?s) (\<lambda>x. refs_ok (snd x))"
    by (rule post_mono [OF quiet_do_rdwt [OF quiet_refl]]) (rule refs_ok_quiet [OF r])
  have "post (task_fs_request msg s) (\<lambda>x. m_type (fst x) = SYSCALL_RET \<and> refs_ok (snd x))"
    unfolding task_fs_request_def Let_def
    by (rule post_bind [where P = refs_ok])
      (use o rw r do_close_refs(2) [OF r] do_unlink_refs [OF r] in \<open>auto intro!: post_bind\<close>)
  moreover have "task_fs_request msg s \<noteq> Inl (Assertion ''open.c'' 230)" if "m_type msg = CLOSE"
    using that do_close_refs(1) [OF r] by (cases "do_close ?s") (auto simp: task_fs_request_def Let_def fs_msg_consts)
  ultimately show ?thesis by (cases "task_fs_request msg s") auto
qed

end
