(* ===== verification/Fs_Boot.thy ===== *)
theory Fs_Boot
  imports Fs_Search Fs_Slots Fs_Refs
begin

text \<open>
  What \<open>init_fs\<close> leaves behind: the sectors that \<open>mkfs\<close> writes, their contents as the other theories read them, and the
  state in which the task begins to serve requests.
\<close>

section \<open>Writing the disk\<close>

text \<open>The disk as the function of its sectors, after writes that began in \<open>s\<close>.\<close>

definition imaged :: "fstate \<Rightarrow> fstate \<Rightarrow> (nat \<Rightarrow> u8 list) \<Rightarrow> bool" where
  "imaged s t f \<longleftrightarrow> io_frame s t \<and> sect t = f"

lemma imaged_set_buf: "imaged s t f \<Longrightarrow> length bs = 512 \<Longrightarrow> imaged s (set_buf bs t) f"
  by (auto simp: imaged_def fun_eq_iff intro: io_frame_trans)

lemma u32_sector:
  assumes "n < 2 ^ 22"
  shows "ucast (of_nat n * of_nat SECTOR_SIZE :: u32) = (of_nat (512 * n) :: u64)"
proof -
  have "512 * n < 2 ^ 32" using assms by simp
  then have "unat (of_nat (512 * n) :: u32) = 512 * n" by (intro unat_of_nat_small) simp
  moreover have "of_nat n * of_nat SECTOR_SIZE = (of_nat (512 * n) :: u32)" by (simp add: SECTOR_SIZE_def mult.commute)
  moreover have "ucast (of_nat (512 * n) :: u32) = (of_nat (unat (of_nat (512 * n) :: u32)) :: u64)" by (rule of_nat_unat [symmetric])
  ultimately show ?thesis by (simp only:)
qed

lemma WR_SECT_u_root:
  assumes "valid_sect s n" "w = of_nat n"
  shows "WR_SECT_u ROOT_DEV w s = WR_SECT ROOT_DEV (int n) s"
proof -
  have n: "n < 2 ^ 22" using assms(1) by (simp add: valid_sect_def)
  show ?thesis unfolding WR_SECT_u_def WR_SECT_def assms(2) u32_sector [OF n] sect_pos_nat [OF n] ..
qed

lemma imaged_write:
  assumes "imaged s t f" "valid_sect s n" "w = of_nat n"
  shows "\<exists>t'. WR_SECT_u ROOT_DEV w t = Inr t' \<and> imaged s t' (f(n := buf t)) \<and> buf t' = buf t"
proof -
  have v: "valid_sect t n" using assms(1,2) io_frame_simps(10) [of s t] by (simp add: imaged_def)
  have "WR_SECT_u ROOT_DEV w t = Inr (put_sect n (buf t) t)" using WR_SECT_root [OF v] by (simp add: WR_SECT_u_root [OF v assms(3)])
  moreover have "io_frame s (put_sect n (buf t) t)" using assms(1) by (auto simp: imaged_def intro: io_frame_trans)
  moreover have "sect (put_sect n (buf t) t) = f(n := buf t)" using assms(1) by (simp add: imaged_def sect_put_sect fun_eq_iff)
  ultimately show ?thesis by (intro exI [of _ "put_sect n (buf t) t"]) (simp add: imaged_def)
qed

lemma zero_smap_ok:
  assumes "imaged s t f" "\<forall>i \<in> set is. valid_sect s (3 + i)" "nr_imap_sectors sb = 1" "buf t = bs"
  shows "\<exists>t'. zero_smap sb is t = Inr t' \<and> imaged s t' (\<lambda>n. if 3 \<le> n \<and> n - 3 \<in> set is then bs else f n)"
  using assms
proof (induction "is" arbitrary: t f)
  case Nil
  then show ?case by auto
next
  case (Cons i "is")
  have "2 + nr_imap_sectors sb + of_nat i = of_nat (3 + i)" using Cons.prems(3) by simp
  from imaged_write [OF Cons.prems(1) _ this] Cons.prems(2,4) obtain t1 where t1: "WR_SECT_u ROOT_DEV (2 + nr_imap_sectors sb + of_nat i) t = Inr t1"
    "imaged s t1 (f(3 + i := bs))" "buf t1 = bs" by auto
  from Cons.IH [OF t1(2) _ Cons.prems(3) t1(3)] Cons.prems(2) obtain t' where t': "zero_smap sb is t1 = Inr t'"
    "imaged s t' (\<lambda>n. if 3 \<le> n \<and> n - 3 \<in> set is then bs else (f(3 + i := bs)) n)" by auto
  have "(\<lambda>n. if 3 \<le> n \<and> n - 3 \<in> set is then bs else (f(3 + i := bs)) n) = (\<lambda>n. if 3 \<le> n \<and> n - 3 \<in> set (i # is) then bs else f n)"
    by (auto simp: fun_eq_iff)
  with t1 t' show ?case by auto
qed

section \<open>The geometry\<close>

lemma get_geo:
  assumes "part = logical (hd0 (hs s)) 16" "a = lin (hk (hs s)) TASK_FS geo"
  shows "call_driver 316 ROOT_DEV ((driver_msg DEV_IOCTL (MINOR ROOT_DEV))\<lparr>m_REQUEST := DIOCTL_GET_GEO, m_BUF := geo\<rparr>) s =
    Inr (upd_mem (store32 (a + 4) (part_size part) \<circ> store32 a (part_base part)) s)"
proof -
  have q: "TASK_FS < nr_proc_table" by (simp add: TASK_FS_def NR_TASKS_def NR_PROCS_def)
  then show ?thesis
    by (simp add: call_driver_def root_dev dev_drv_map_def TASK_HD_def driver_msg_def task_hd_request_def dev_msg_consts hd_ioctl_def
      DIOCTL_GET_GEO_def ldt_proc_id2base_valid assms lin_def upd_mem_def Let_def)
qed

definition super_sector :: "super_block \<Rightarrow> u8 list" where
  "super_sector sb = put_list 0 (sb_bytes sb) (replicate 512 0x90)"

lemma sector_lengths [simp]:
  "length (super_sector sb) = 512" "length imap_sector = 512" "length smap_sector = 512" "length (fill []) = 512"
  "length (inode_sector sb) = 512" "length dir_sector = 512"
  by (simp_all add: super_sector_def sb_bytes_def bytes32_def imap_sector_def smap_sector_def fill_def inode_sector_def dir_sector_def
      disk_inode_def disk_entry_def tty_name_def NR_CONSOLES_def MAX_FILENAME_LEN_def NR_DEFAULT_FILE_SECTS_def Let_def upt_rec ascii_def)

lemma imap_first: "imap_sector ! 0 = 0x1F"
  by (simp add: imap_sector_def fill_def NR_CONSOLES_def upt_rec)

lemma new_super_block_fields:
  assumes "g \<le> 2 ^ 22" "sb = new_super_block (of_nat g)" "k = g div 4096 + 1"
  shows "nr_smap_sectors sb = of_nat k" "n_1st_sector sb = of_nat (259 + k)" "nr_imap_sectors sb = 1" "nr_sectors sb = of_nat g"
    "k \<le> 1025" "magic sb = MAGIC_V1"
proof -
  have u: "unat (of_nat g :: u32) = g" using assms(1) by (intro unat_of_nat_small) simp
  have "(of_nat g :: u32) div 4096 = of_nat (g div 4096)"
  proof (subst word_unat_eq_iff)
    have "g div 4096 \<le> g" by simp
    with assms(1) have "unat (of_nat (g div 4096) :: u32) = g div 4096" by (intro unat_of_nat_small) simp
    then show "unat ((of_nat g :: u32) div 4096) = unat (of_nat (g div 4096) :: u32)" using u by (simp add: unat_div)
  qed
  then show "nr_smap_sectors sb = of_nat k" "n_1st_sector sb = of_nat (259 + k)" "nr_imap_sectors sb = 1" "nr_sectors sb = of_nat g" "magic sb = MAGIC_V1"
    by (simp_all add: assms new_super_block_def Let_def INODE_SIZE_def SECTOR_SIZE_def)
  show "k \<le> 1025" using div_le_mono [OF assms(1), of 4096] by (simp add: assms(3))
qed

text \<open>The sectors that \<open>mkfs\<close> writes, over those that were there.\<close>

definition new_disk :: "super_block \<Rightarrow> nat \<Rightarrow> (nat \<Rightarrow> u8 list) \<Rightarrow> nat \<Rightarrow> u8 list" where
  "new_disk sb k f = (\<lambda>n. if 3 \<le> n \<and> n - 3 \<in> {1..<k} then fill [] else (f(1 := super_sector sb, 2 := imap_sector, 3 := smap_sector)) n)
     (3 + k := inode_sector sb, 259 + k := dir_sector)"

lemma mkfs_ok:
  assumes part: "part = logical (hd0 (hs s)) 16" "part_size part = of_nat g" and g: "g \<le> 2 ^ 22" "k = g div 4096 + 1"
    and valid: "\<forall>n \<le> 259 + k. valid_sect s n" and a: "a = lin (hk (hs s)) TASK_FS geo"
    and t0: "t0 = upd_mem (store32 (a + 4) (part_size part) \<circ> store32 a (part_base part)) s"
  shows "\<exists>t. mkfs geo s = Inr t \<and> imaged t0 t (new_disk (new_super_block (of_nat g)) k (sect s))"
proof -
  let ?sb = "new_super_block (of_nat g)"
  note sb = new_super_block_fields [OF g(1) refl g(2)]
  have a0: "lin (hk (hs t0)) TASK_FS geo = a" by (simp add: t0 upd_mem_def a lin_def)
  have size: "load32 (fmem t0) (a + 4) = of_nat g" by (simp add: t0 part(2))
  have v: "valid_sect t0 n" if "n \<le> 259 + k" for n using valid that by (simp add: t0)
  have k: "unat (nr_smap_sectors ?sb) = k" using sb(1,5) by (simp add: unat_of_nat_small)
  have i0: "imaged t0 t0 (sect s)" by (simp add: imaged_def t0 fun_eq_iff)
  have w: "\<exists>t'. WR_SECT ROOT_DEV (int n) (set_buf bs t) = Inr t' \<and> imaged t0 t' (f(n := bs)) \<and> buf t' = bs"
    if "imaged t0 t f" "n \<le> 259 + k" "length bs = 512" for t f n bs
  proof -
    have i: "imaged t0 (set_buf bs t) f" using that by (intro imaged_set_buf)
    then have "valid_sect (set_buf bs t) n" using v [OF that(2)] io_frame_simps(10) [of t0 "set_buf bs t"] by (simp add: imaged_def)
    then have "WR_SECT_u ROOT_DEV (of_nat n) (set_buf bs t) = WR_SECT ROOT_DEV (int n) (set_buf bs t)" by (rule WR_SECT_u_root) simp
    with imaged_write [OF i v [OF that(2)] refl] that(3) show ?thesis by simp
  qed
  have wu: "\<exists>t'. WR_SECT_u ROOT_DEV m (set_buf bs t) = Inr t' \<and> imaged t0 t' (f(n := bs)) \<and> buf t' = bs"
    if "imaged t0 t f" "n \<le> 259 + k" "length bs = 512" "m = of_nat n" for t f n bs m
    using imaged_write [OF imaged_set_buf [OF that(1,3)] v [OF that(2)] that(4)] that(3) by simp
  obtain t1 where t1: "WR_SECT ROOT_DEV 1 (set_buf (super_sector ?sb) t0) = Inr t1" "imaged t0 t1 ((sect s)(1 := super_sector ?sb))"
    using w [OF i0, of 1 "super_sector ?sb"] by auto
  obtain t2 where t2: "WR_SECT ROOT_DEV 2 (set_buf imap_sector t1) = Inr t2" "imaged t0 t2 ((sect s)(1 := super_sector ?sb, 2 := imap_sector))"
    using w [OF t1(2), of 2 imap_sector] by auto
  obtain t3 where t3: "WR_SECT_u ROOT_DEV (2 + nr_imap_sectors ?sb) (set_buf smap_sector t2) = Inr t3"
    "imaged t0 t3 ((sect s)(1 := super_sector ?sb, 2 := imap_sector, 3 := smap_sector))"
    using wu [OF t2(2), of 3 smap_sector "2 + nr_imap_sectors ?sb"] sb(3) by auto
  obtain t4 where t4: "zero_smap ?sb [1..<k] (set_buf (fill []) t3) = Inr t4"
    "imaged t0 t4 (\<lambda>n. if 3 \<le> n \<and> n - 3 \<in> {1..<k} then fill [] else ((sect s)(1 := super_sector ?sb, 2 := imap_sector, 3 := smap_sector)) n)"
    using zero_smap_ok [OF imaged_set_buf [OF t3(2), of "fill []"], of "[1..<k]" ?sb "fill []"] sb(3) v by auto
  obtain t5 where t5: "WR_SECT_u ROOT_DEV (2 + nr_imap_sectors ?sb + nr_smap_sectors ?sb) (set_buf (inode_sector ?sb) t4) = Inr t5"
    "imaged t0 t5 ((\<lambda>n. if 3 \<le> n \<and> n - 3 \<in> {1..<k} then fill [] else ((sect s)(1 := super_sector ?sb, 2 := imap_sector, 3 := smap_sector)) n)(3 + k := inode_sector ?sb))"
    using wu [OF t4(2), of "3 + k" "inode_sector ?sb" "2 + nr_imap_sectors ?sb + nr_smap_sectors ?sb"] sb(1,3) by auto
  obtain t6 where t6: "WR_SECT_u ROOT_DEV (n_1st_sector ?sb) (set_buf dir_sector t5) = Inr t6" "imaged t0 t6 (new_disk ?sb k (sect s))"
    using wu [OF t5(2), of "259 + k" dir_sector "n_1st_sector ?sb"] sb(2) by (auto simp: new_disk_def)
  have b: "buf (set_buf imap_sector t1) ! 0 = 0x1F" by (simp add: imap_first)
  have "mkfs geo s = Inr t6"
    unfolding mkfs_def get_geo [OF part(1) a] t0 [symmetric] ebind_simps(2) Let_def a0 size super_sector_def [symmetric] t1(1) b
    by (simp add: t2(1) t3(1) t4(1) t5(1) t6(1) k del: One_nat_def)
  with t6(2) show ?thesis by blast
qed

section \<open>Reading it back\<close>

lemma nth_concat_bytes32: "i < length ws \<Longrightarrow> k < 4 \<Longrightarrow> concat (map bytes32 ws) ! (4 * i + k) = bytes32 (ws ! i) ! k"
proof (induction ws arbitrary: i)
  case (Cons w ws)
  then show ?case by (cases i) (simp_all add: nth_append)
qed simp

lemma length_concat_bytes32: "length (concat (map bytes32 ws)) = 4 * length ws"
  by (induction ws) simp_all

lemma list32_concat:
  assumes "i < length ws" "4 * length ws \<le> length bs"
  shows "list32 (put_list 0 (concat (map bytes32 ws)) bs) (4 * i) = ws ! i"
proof (rule list32_bytes32)
  fix k :: nat assume k: "k < 4"
  then have "4 * i + k < 4 * length ws" using assms(1) by simp
  with k assms show "put_list 0 (concat (map bytes32 ws)) bs ! (4 * i + k) = bytes32 (ws ! i) ! k"
    by (simp add: nth_put_list length_concat_bytes32 nth_concat_bytes32)
qed

lemma sb_of_super_sector: "sb_of_bytes (super_sector sb) dev = sb\<lparr>sb_dev := dev\<rparr>"
proof -
  define ws where "ws = [magic sb, nr_inodes sb, nr_sectors sb, nr_imap_sectors sb, nr_smap_sectors sb,
     n_1st_sector sb, nr_inode_sectors sb, sb_root_inode sb, inode_size sb, inode_isize_off sb, inode_start_off sb,
     dir_ent_size sb, dir_ent_inode_off sb, dir_ent_fname_off sb]"
  have l: "length ws = 14" by (simp add: ws_def)
  have at: "list32 (super_sector sb) (4 * i) = ws ! i" if "i < 14" for i
    unfolding super_sector_def sb_bytes_def ws_def [symmetric] by (rule list32_concat) (use that l in simp_all)
  note at = at [of 0, simplified] at [of 1, simplified] at [of 2, simplified] at [of 3, simplified] at [of 4, simplified] at [of 5, simplified]
    at [of 6, simplified] at [of 7, simplified] at [of 8, simplified] at [of 9, simplified] at [of 10, simplified] at [of 11, simplified]
    at [of 12, simplified] at [of 13, simplified]
  show ?thesis by (simp add: sb_of_bytes_def at) (simp add: ws_def)
qed

lemma root_fields: "fields_at (inode_sector sb) 0 = (I_DIRECTORY, 64, n_1st_sector sb, 2048)"
proof -
  have eq: "inode_sector sb = put_list 0 (concat (map bytes32 [I_DIRECTORY, 64, n_1st_sector sb, 2048])) (inode_sector sb)"
    by (simp add: inode_sector_def fill_def disk_inode_def put_list_def bytes32_def DIR_ENTRY_SIZE_def NR_DEFAULT_FILE_SECTS_def NR_CONSOLES_def)
  have at: "list32 (inode_sector sb) (4 * i) = [I_DIRECTORY, 64, n_1st_sector sb, 2048] ! i" if "i < 4" for i
    by (subst eq, rule list32_concat) (use that in simp_all)
  show ?thesis using at [of 0] at [of 1] at [of 2] at [of 3] by (simp add: fields_at_def)
qed

lemma tty_fields:
  assumes "i < 3"
  shows "fst (fields_at (inode_sector sb) (32 * (i + 1))) = I_CHAR_SPECIAL"
proof -
  have "i = 0 \<or> i = 1 \<or> i = 2" using assms by auto
  then have b: "inode_sector sb ! (32 * (i + 1) + k) = bytes32 I_CHAR_SPECIAL ! k" if "k < 4" for k
    using that by (elim disjE) (simp_all add: inode_sector_def fill_def disk_inode_def NR_CONSOLES_def upt_rec numeral_2_eq_2 numeral_3_eq_3 nth_append)
  show ?thesis unfolding fields_at_def fst_conv by (rule list32_bytes32) (rule b)
qed

text \<open>The first sector of the root directory.\<close>

definition boot_name :: "nat \<Rightarrow> u8 list" where
  "boot_name i = (if i = 0 then ascii ''.'' else tty_name (i - 1))"

lemma entry_of_bytes:
  assumes "drop (16 * i) bs = disk_entry nr name @ rest" "length name \<le> 12" "0 \<notin> set name"
  shows "entry_nr bs i = nr" "entry_name bs i = name"
proof -
  have ext: "bs ! (16 * i + k) = drop (16 * i) bs ! k" if "k < 16" for k
  proof -
    have "length (drop (16 * i) bs) = 16 + length rest" unfolding assms(1) using assms(2) by (simp add: disk_entry_def MAX_FILENAME_LEN_def)
    then have "16 * i \<le> length bs" by simp
    then show ?thesis by simp
  qed
  show "entry_nr bs i = nr"
    unfolding entry_nr_def DIR_ENTRY_SIZE_def
    by (rule list32_bytes32) (simp add: ext assms(1) disk_entry_def nth_append)
  have "drop (16 * i + 4) bs = drop 4 (drop (16 * i) bs)" by (simp add: add.commute)
  also have "\<dots> = name @ replicate (12 - length name) 0 @ rest" unfolding assms(1) by (simp add: disk_entry_def MAX_FILENAME_LEN_def)
  finally have "entry_name bs i = takeWhile (\<lambda>c. c \<noteq> 0) (name @ replicate (12 - length name) 0)"
    using assms(2) by (simp add: entry_name_def DIR_ENTRY_SIZE_def MAX_FILENAME_LEN_def)
  also have "\<dots> = name"
    using assms(3) by (subst takeWhile_append2) (auto simp: takeWhile_eq_Nil_iff)
  finally show "entry_name bs i = name" .
qed

lemma boot_name_ok: "i < 4 \<Longrightarrow> length (boot_name i) \<le> 12 \<and> 0 \<notin> set (boot_name i)"
proof -
  assume "i < 4"
  then have "i = 0 \<or> i = 1 \<or> i = 2 \<or> i = 3" by auto
  then show ?thesis by (auto simp: boot_name_def tty_name_def ascii_def)
qed

lemma dir_sector_parts:
  defines "e j \<equiv> disk_entry (of_nat j + 1) (boot_name j)"
  shows "dir_sector = e 0 @ e 1 @ e 2 @ e 3 @ replicate 448 0" "j < 4 \<Longrightarrow> length (e j) = 16"
proof -
  show l: "length (e j) = 16" if "j < 4" for j
    using boot_name_ok [OF that] by (simp add: e_def disk_entry_def MAX_FILENAME_LEN_def)
  show "dir_sector = e 0 @ e 1 @ e 2 @ e 3 @ replicate 448 0"
    using l [of 0] l [of 1] l [of 2] l [of 3]
    by (simp add: dir_sector_def fill_def e_def boot_name_def NR_CONSOLES_def upt_rec numeral_2_eq_2 numeral_3_eq_3)
qed

lemma dir_sector_drop: "i < 4 \<Longrightarrow> \<exists>rest. drop (16 * i) dir_sector = disk_entry (of_nat i + 1) (boot_name i) @ rest"
proof -
  assume "i < 4"
  then have "i = 0 \<or> i = 1 \<or> i = 2 \<or> i = 3" by auto
  then show ?thesis
    unfolding dir_sector_parts(1) using dir_sector_parts(2) [of 0] dir_sector_parts(2) [of 1] dir_sector_parts(2) [of 2] dir_sector_parts(2) [of 3] by auto
qed

text \<open>The entries behind the last one are empty.\<close>

lemma dir_sector_rest:
  assumes "4 \<le> m" "m < 32"
  shows "entry_nr dir_sector m = 0" "entry_name dir_sector m = []"
proof -
  have l: "length (disk_entry (of_nat j + 1) (boot_name j)) = 16" if "j < 4" for j by (rule dir_sector_parts(2) [OF that])
  have len: "length dir_sector = 512" unfolding dir_sector_parts(1) using l [of 0] l [of 1] l [of 2] l [of 3] by simp
  have d: "drop 64 dir_sector = replicate 448 0" unfolding dir_sector_parts(1) using l [of 0] l [of 1] l [of 2] l [of 3] by simp
  have z: "dir_sector ! j = 0" if "64 \<le> j" "j < 512" for j
    using arg_cong [OF d, of "\<lambda>bs. bs ! (j - 64)"] that len by simp
  have zero: "bytes32 0 ! k = 0" if "k < 4" for k using that by (cases k) (simp_all add: bytes32_def nth_Cons split: nat.split)
  show "entry_nr dir_sector m = 0"
    unfolding entry_nr_def DIR_ENTRY_SIZE_def by (rule list32_bytes32) (use assms in \<open>simp add: z zero\<close>)
  have "16 * m + 4 < length dir_sector" using assms len by simp
  then have "drop (16 * m + 4) dir_sector = dir_sector ! (16 * m + 4) # drop (Suc (16 * m + 4)) dir_sector" by (rule Cons_nth_drop_Suc [symmetric])
  moreover have "dir_sector ! (16 * m + 4) = 0" using assms by (simp add: z)
  ultimately show "entry_name dir_sector m = []" by (simp add: entry_name_def DIR_ENTRY_SIZE_def MAX_FILENAME_LEN_def)
qed

lemma dir_sector_entries:
  assumes "i < 4"
  shows "entry_nr dir_sector i = of_nat i + 1" "entry_name dir_sector i = boot_name i"
proof -
  from dir_sector_drop [OF assms] obtain rest where "drop (16 * i) dir_sector = disk_entry (of_nat i + 1) (boot_name i) @ rest" by blast
  from entry_of_bytes [OF this] boot_name_ok [OF assms] show "entry_nr dir_sector i = of_nat i + 1" "entry_name dir_sector i = boot_name i"
    by simp_all
qed

text \<open>The maps: five inodes are in use, and the first slot of sectors.\<close>

lemma imap_bits: "i < 4096 \<Longrightarrow> bit_at imap_sector i \<longleftrightarrow> i < 5"
proof -
  assume i: "i < 4096"
  have eq: "imap_sector = (0x1F :: u8) # replicate 511 0" by (simp add: imap_sector_def fill_def NR_CONSOLES_def upt_rec)
  have m: "(0x1F :: u8) = mask 5" by (simp add: mask_eq_exp_minus_1)
  show ?thesis
  proof (cases "i div 8")
    case 0
    then have "i < 8" by simp
    then show ?thesis unfolding bit_at_def eq 0 by (simp add: m bit_mask_iff)
  next
    case (Suc j)
    then have "j < 511" "\<not> i < 5" using i by auto
    then show ?thesis unfolding bit_at_def eq Suc by simp
  qed
qed

lemma smap_bits: "i < 4096 \<Longrightarrow> bit_at smap_sector i \<longleftrightarrow> i < 2049"
proof -
  assume i: "i < 4096"
  have eq: "smap_sector = replicate 256 (0xFF :: u8) @ 1 # replicate 255 0"
    by (simp add: smap_sector_def fill_def NR_DEFAULT_FILE_SECTS_def upt_rec Let_def)
  have m: "(0xFF :: u8) = mask 8" by (simp add: mask_eq_exp_minus_1)
  have "i div 8 < 256 \<or> i div 8 = 256 \<or> 256 < i div 8 \<and> i div 8 < 512" using i by auto
  then consider "i < 2048" "i div 8 < 256" | "i div 8 = 256" | "2056 \<le> i" "256 < i div 8" "i div 8 < 512" by (auto simp: less_eq_div_iff_mult_less_eq)
  then show ?thesis
  proof cases
    case 1
    then show ?thesis unfolding bit_at_def eq by (simp add: nth_append m bit_mask_iff)
  next
    case 2
    then have "i = 2048 + i mod 8" by (metis mult_div_mod_eq numeral_times_numeral semiring_norm)
    then have "i mod 8 = 0 \<longleftrightarrow> i < 2049" by linarith
    then show ?thesis unfolding bit_at_def eq 2 by (simp add: nth_append bit_1_iff)
  next
    case 3
    define j where "j = i div 8 - 257"
    then have j: "i div 8 = 257 + j" "j < 255" using 3 by simp_all
    have "smap_sector ! (257 + j) = 0" unfolding eq using j(2) by (simp add: nth_append)
    then have "\<not> bit_at smap_sector i" by (simp add: bit_at_def j(1))
    with 3 show ?thesis by simp
  qed
qed

lemma bit_at_zero: "i < 4096 \<Longrightarrow> \<not> bit_at (fill []) i"
proof -
  assume "i < 4096"
  then have "i div 8 < 512" by auto
  then show ?thesis by (simp add: bit_at_def fill_def)
qed

lemma new_disk_sectors:
  assumes "0 < k"
  shows "new_disk sb k f 1 = super_sector sb" "new_disk sb k f 2 = imap_sector" "new_disk sb k f 3 = smap_sector"
    "0 < j \<Longrightarrow> j < k \<Longrightarrow> new_disk sb k f (3 + j) = fill []" "new_disk sb k f (3 + k) = inode_sector sb"
    "new_disk sb k f (259 + k) = dir_sector"
  using assms by (auto simp: new_disk_def)

lemma new_sector_map:
  assumes "sect s = new_disk sb k f" "0 < k" "unat (nr_smap_sectors sb') = k"
  shows "sector_map sb' s = slots {0}"
proof -
  have "used s m \<longleftrightarrow> m < 2049" if m: "m < 4096 * k" for m
  proof (cases "m div 4096 = 0")
    case True
    then have "m < 4096" by auto
    then show ?thesis using smap_bits [of m] new_disk_sectors(3) [OF assms(2)] by (simp add: used_def assms(1))
  next
    case False
    moreover have "m div 4096 < k" using m by (simp add: less_mult_imp_div_less mult.commute)
    ultimately have "sect s (3 + m div 4096) = fill []" using new_disk_sectors(4) [OF assms(2)] by (simp add: assms(1))
    then have "\<not> used s m" using bit_at_zero [of "m mod 4096"] by (simp add: used_def)
    moreover have "\<not> m < 2049" using False by auto
    ultimately show ?thesis by simp
  qed
  moreover have "m < 4096 * k" if "m < 2049" for m using that assms(2) by simp
  ultimately have "sector_map sb' s = {..<2049}" by (auto simp: sector_map_def assms(3))
  moreover have "slots {0} = {..<2049}" by (auto simp: slots_def)
  ultimately show ?thesis by simp
qed

text \<open>The super block is read into the first entry of the table.\<close>

lemma read_super_block_ok:
  assumes "valid_sect t 1" "sect t 1 = super_sector sb" "\<forall>i < NR_SUPER_BLOCK. sb_dev (super_blocks t i) = NO_DEV"
  shows "read_super_block ROOT_DEV t = Inr ((set_buf (super_sector sb) t)\<lparr>super_blocks := (super_blocks t)(0 := sb\<lparr>sb_dev := ROOT_DEV\<rparr>)\<rparr>)"
proof -
  have f: "List.find (\<lambda>i. sb_dev (super_blocks t i) = NO_DEV) [0..<NR_SUPER_BLOCK] = Some 0"
    unfolding find_first using assms(3) by (simp add: NR_SUPER_BLOCK_def)
  have "rw_request 434 DEV_READ ROOT_DEV (of_nat SECTOR_SIZE) (int SECTOR_SIZE) t = Inr (set_buf (super_sector sb) t)"
    using rw_request_root(1) [of t 1 1 "of_nat (512 * 1)" 434] assms(1,2) by (simp add: valid_sect_def SECTOR_SIZE_def sect_def)
  then show ?thesis by (simp add: read_super_block_def f sb_of_super_sector)
qed


text \<open>An empty file system: the state in which the task begins to serve requests.\<close>

definition fresh_fs :: "fstate \<Rightarrow> super_block \<Rightarrow> nat \<Rightarrow> bool" where
  "fresh_fs s sb r \<longleftrightarrow> fs_layout s sb \<and> root_inode s = Some r \<and> dir_ok s sb (inode_table s r) 4
    \<and> dstart (inode_table s r) = unat (n_1st_sector sb) \<and> i_mode (inode_table s r) = I_DIRECTORY \<and> i_cnt (inode_table s r) = 1
    \<and> (\<forall>i < 4. dent_nr s (dstart (inode_table s r)) i = of_nat i + 1 \<and> dent_name s (dstart (inode_table s r)) i = boot_name i)
    \<and> (\<forall>m \<in> {4..<32}. dent_nr s (dstart (inode_table s r)) m = 0 \<and> dent_name s (dstart (inode_table s r)) m = [])
    \<and> (\<forall>i \<in> {2..4}. fst (disk_fields s sb i) = I_CHAR_SPECIAL) \<and> i_num (inode_table s r) = 1 \<and> f_desc_table s = (\<lambda>_. \<lparr>fd_mode = 0, fd_pos = 0, fd_inode = None\<rparr>)
    \<and> (\<forall>i < 4096. bit_at (sect s 2) i \<longleftrightarrow> i < 5) \<and> sector_map sb s = slots {0}
    \<and> inodes_ok s \<and> (\<forall>p. in_use s p \<longleftrightarrow> p = r) \<and> refs_ok s \<and> can_create s"

abbreviation empty_inode :: inode where
  "empty_inode \<equiv> \<lparr>i_mode = 0, i_size = 0, i_start_sector = 0, i_nr_sectors = 0, i_dev = 0, i_cnt = 0, i_num = 0\<rparr>"

abbreviation empty_desc :: file_desc where
  "empty_desc \<equiv> \<lparr>fd_mode = 0, fd_pos = 0, fd_inode = None\<rparr>"

lemma load_root:
  assumes t: "sect t = new_disk sb0 k f" "\<forall>n < g. valid_sect t n" "inode_table t = (\<lambda>_. empty_inode)"
      "\<forall>i. sb_dev (super_blocks t i) = NO_DEV"
    and g: "g \<le> 2 ^ 22" "259 + k < g" "k = g div 4096 + 1" and sb0: "sb0 = new_super_block (of_nat g)" and sb: "sb = sb0\<lparr>sb_dev := ROOT_DEV\<rparr>"
  shows "\<exists>u r bs. read_super_block ROOT_DEV t = Inr u \<and> get_super_block ROOT_DEV u = Inr sb \<and> fs_layout u sb \<and> sect u = sect t
    \<and> f_desc_table u = f_desc_table t \<and> procs (hk (hs u)) = procs (hk (hs t)) \<and> r < NR_INODE
    \<and> get_inode ROOT_DEV 1 u = Inr (Some r, upd_inode r (\<lambda>_. \<lparr>i_mode = I_DIRECTORY, i_size = 64, i_start_sector = of_nat (259 + k),
         i_nr_sectors = 2048, i_dev = ROOT_DEV, i_cnt = 1, i_num = 1\<rparr>) (set_buf bs u)) \<and> inode_table u = inode_table t"
proof -
  note nsb = new_super_block_fields [OF g(1) sb0 g(3)]
  have k0: "0 < k" by (simp add: g(3))
  note nd = new_disk_sectors [where k = k and sb = sb0 and f = f, folded t(1)]
  define u where "u = (set_buf (super_sector sb0) t)\<lparr>super_blocks := (super_blocks t)(0 := sb)\<rparr>"
  have rsb: "read_super_block ROOT_DEV t = Inr u"
    unfolding u_def sb by (rule read_super_block_ok [OF _ nd(1) [OF k0]]) (use g(2) t in simp_all)
  have u: "sect u = sect t" "inode_table u = inode_table t" "f_desc_table u = f_desc_table t" "valid_sect u = valid_sect t"
    "procs (hk (hs u)) = procs (hk (hs t))"
    by (simp_all add: u_def fun_eq_iff sect_def valid_sect_def rbase_def set_buf_def upd_mem_def)
  have gsb: "get_super_block ROOT_DEV u = Inr sb"
  proof -
    have "List.find (\<lambda>i. sb_dev (super_blocks u i) = ROOT_DEV) [0..<NR_SUPER_BLOCK] = Some 0"
      unfolding find_first by (simp add: u_def sb NR_SUPER_BLOCK_def)
    then show ?thesis by (simp add: get_super_block_def u_def)
  qed
  have un: "unat (of_nat (259 + k) :: u32) = 259 + k" "unat (of_nat k :: u32) = k" "unat (of_nat g :: u32) = g"
    using nsb(5) g(1) by (intro unat_of_nat_small, simp)+
  have sbf: "nr_smap_sectors sb = of_nat k" "n_1st_sector sb = of_nat (259 + k)" "nr_imap_sectors sb = 1" "nr_sectors sb = of_nat g"
    using nsb by (simp_all add: sb)
  have lay: "fs_layout u sb"
    unfolding fs_layout_def gsb sbf un using k0 nsb(5) g(2) t(2) u(4) by simp
  have nu: "\<not> in_use u p" for p by (simp add: in_use_def u(2) t(3))
  then have free: "\<exists>p < NR_INODE. \<not> in_use u p" "\<forall>p. \<not> holds u ROOT_DEV 1 p" by (auto simp: holds_def NR_INODE_def intro: exI [of _ 0])
  obtain q bs where q: "q < NR_INODE"
    and get: "get_inode ROOT_DEV 1 u = Inr (Some q, upd_inode q (\<lambda>p. read_inode (sect u (iblk sb 1)) (ioff 1) (p\<lparr>i_dev := ROOT_DEV, i_num := 1, i_cnt := 1\<rparr>))
          (set_buf bs u))"
    using get_inode_new [OF lay _ _ free(2,1)] by auto
  have ib: "iblk sb 1 = 3 + k" "ioff 1 = 0" by (simp_all add: iblk_def ioff_def sbf un)
  note rf = root_fields [of sb0, unfolded fields_at_def prod.inject]
  have "upd_inode q (\<lambda>p. read_inode (sect u (iblk sb 1)) (ioff 1) (p\<lparr>i_dev := ROOT_DEV, i_num := 1, i_cnt := 1\<rparr>)) (set_buf bs u) =
    upd_inode q (\<lambda>_. \<lparr>i_mode = I_DIRECTORY, i_size = 64, i_start_sector = of_nat (259 + k), i_nr_sectors = 2048, i_dev = ROOT_DEV,
      i_cnt = 1, i_num = 1\<rparr>) (set_buf bs u)"
    using rf nd(5) [OF k0] nsb(2) by (cases "inode_table u q") (simp add: ib u(1) read_inode_def upd_inode_def)
  with get q rsb gsb lay u show ?thesis by (intro exI [of _ u] exI [of _ q] exI [of _ bs]) simp
qed

lemma fresh_state:
  assumes lay: "fs_layout u sb" and s: "sect u = new_disk sb0 k f" "inode_table u = (\<lambda>_. empty_inode)" "f_desc_table u = (\<lambda>_. empty_desc)"
    and g: "g \<le> 2 ^ 22" "259 + k < g" "k = g div 4096 + 1" and sb0: "sb0 = new_super_block (of_nat g)" and sb: "sb = sb0\<lparr>sb_dev := ROOT_DEV\<rparr>"
    and q: "q < NR_INODE" and w: "w = (upd_inode q (\<lambda>_. \<lparr>i_mode = I_DIRECTORY, i_size = 64, i_start_sector = of_nat (259 + k),
         i_nr_sectors = 2048, i_dev = ROOT_DEV, i_cnt = 1, i_num = 1\<rparr>) (set_buf bs u))\<lparr>root_inode := Some q\<rparr>"
  shows "fresh_fs w sb q"
proof -
  note nsb = new_super_block_fields [OF g(1) sb0 g(3)]
  have k0: "0 < k" by (simp add: g(3))
  note nd = new_disk_sectors [where k = k and sb = sb0 and f = f, folded s(1)]
  have un: "unat (of_nat (259 + k) :: u32) = 259 + k" "unat (of_nat k :: u32) = k" "unat (of_nat g :: u32) = g"
    using nsb(5) g(1) by (intro unat_of_nat_small, simp)+
  note un' = un un(1) [simplified]
  have sbf: "nr_smap_sectors sb = of_nat k" "n_1st_sector sb = of_nat (259 + k)" "nr_imap_sectors sb = 1" "nr_sectors sb = of_nat g"
    using nsb by (simp_all add: sb)
  have wq: "inode_table w q = \<lparr>i_mode = I_DIRECTORY, i_size = 64, i_start_sector = of_nat (259 + k), i_nr_sectors = 2048,
      i_dev = ROOT_DEV, i_cnt = 1, i_num = 1\<rparr>" by (simp add: w)
  have wo: "inode_table w p = empty_inode" if "p \<noteq> q" for p using that by (simp add: w s(2))
  have ws: "sect w = sect u" "valid_sect w = valid_sect u" "super_blocks w = super_blocks u" "f_desc_table w = f_desc_table u"
    by (simp_all add: w fun_eq_iff sect_def valid_sect_def rbase_def set_buf_def upd_mem_def upd_inode_def)
  have lw: "fs_layout w sb" using lay fs_layout_cong [OF ws(3,2), of sb] by simp
  have d: "dstart (inode_table w q) = 259 + k" by (simp only: dstart_def wq inode.simps un)
  have dir: "dir_ok w sb (inode_table w q) 4"
    unfolding dir_ok_def d using lw g(2) by (simp add: wq sbf un')
  have ents: "dent_nr w (259 + k) i = of_nat i + 1 \<and> dent_name w (259 + k) i = boot_name i" if "i < 4" for i
    using dir_sector_entries [OF that] that nd(6) [OF k0] by (simp add: dent_nr_def dent_name_def ws(1))
  have last: "dent_nr w (259 + k) m = 0 \<and> dent_name w (259 + k) m = []" if "4 \<le> m" "m < 32" for m
    using dir_sector_rest [OF that] that nd(6) [OF k0] by (simp add: dent_nr_def dent_name_def ws(1))
  have ttys: "fst (disk_fields w sb i) = I_CHAR_SPECIAL" if "2 \<le> i" "i \<le> 4" for i
  proof -
    have "nat (i - 1) = Suc (nat (i - 2))" "nat (i - 2) < 3" using that by linarith+
    then show ?thesis using tty_fields [of "nat (i - 2)" sb0] nd(5) [OF k0] by (simp add: disk_fields_def iblk_def ioff_def sbf un ws(1) mult.commute)
  qed
  have imap: "bit_at (sect w 2) i \<longleftrightarrow> i < 5" if "i < 4096" for i using imap_bits [OF that] nd(2) [OF k0] by (simp add: ws(1))
  have smap: "sector_map sb w = slots {0}"
    by (rule new_sector_map [of _ sb0 k f, OF _ k0]) (simp_all add: ws(1) s(1) sbf un)
  have iu: "in_use w p \<longleftrightarrow> p = q" for p using q by (cases "p = q") (simp_all add: in_use_def wq wo)
  have cnt: "0 \<le> i_cnt (inode_table w p)" for p by (cases "p = q") (simp_all add: wq wo)
  then have iok: "inodes_ok w" by (simp add: inodes_ok_def holds_def iu)
  have "holders w p = {}" for p by (simp add: holders_def ws(4) s(3))
  with cnt have rok: "refs_ok w" by (simp add: refs_ok_def ws(4) s(3))
  have rw: "root_inode w = Some q" by (simp add: w)
  have "mapped w" using imap [of 1] by (simp add: mapped_def iu wq)
  with lw have cc: "can_create w" by (auto simp: can_create_def rw wq)
  show ?thesis
    unfolding fresh_fs_def d by (intro conjI lw rw dir smap iok rok cc) (use ents last ttys imap iu s(3) ws(4) in \<open>simp_all add: wq sbf un' del: of_nat_add\<close>)
qed

lemma init_fs_ok:
  assumes drv: "task_hd_request (driver_msg DEV_OPEN (MINOR ROOT_DEV)) (hs s) = Inr h" "ready h"
    and part: "logical (hd0 h) 16 = \<lparr>part_base = b, part_size = of_nat g\<rparr>" "unat b + g \<le> 2 ^ 28"
    and g: "261 \<le> g" "g \<le> 2 ^ 22"
  shows "\<exists>s' r. init_fs geo s = Inr s' \<and> fresh_fs s' ((new_super_block (of_nat g))\<lparr>sb_dev := ROOT_DEV\<rparr>) r \<and> procs (hk (hs s')) = procs (hk h)"
proof -
  define s0 where "s0 = s\<lparr>f_desc_table := (\<lambda>_. empty_desc), inode_table := (\<lambda>_. empty_inode),
                super_blocks := (\<lambda>i. (super_blocks s i)\<lparr>sb_dev := NO_DEV\<rparr>)\<rparr>"
  define s1 where "s1 = s0\<lparr>hs := h\<rparr>"
  define k where "k = g div 4096 + 1"
  define sb0 where "sb0 = new_super_block (of_nat g)"
  have opn: "call_driver 91 ROOT_DEV (driver_msg DEV_OPEN (MINOR ROOT_DEV)) s0 = Inr s1"
    using drv(1) by (simp add: call_driver_def root_dev(1) dev_drv_map_def TASK_HD_def s0_def s1_def)
  have kg: "259 + k < g" unfolding k_def using g(1) by linarith
  have v1: "valid_sect s1 n" if "n < g" for n
    using that g(2) part drv(2) by (simp add: valid_sect_def s1_def rbase_def)
  obtain t where t: "mkfs geo s1 = Inr t" "sect t = new_disk sb0 k (sect s1)"
    and fr: "io_frame (upd_mem (store32 (lin (hk (hs s1)) TASK_FS geo + 4) (of_nat g) \<circ> store32 (lin (hk (hs s1)) TASK_FS geo) b) s1) t"
    using mkfs_ok [of _ s1 g k _ geo, OF refl _ g(2) k_def _ refl refl] v1 kg part(1) by (auto simp: imaged_def sb0_def s1_def)
  have tv: "\<forall>n < g. valid_sect t n" using io_frame_simps(10) [OF fr] v1 by simp
  have tt: "inode_table t = (\<lambda>_. empty_inode)" "f_desc_table t = (\<lambda>_. empty_desc)" "\<forall>i. sb_dev (super_blocks t i) = NO_DEV"
    using io_frame_simps(1-3) [OF fr] by (simp_all add: s1_def s0_def)
  from load_root [OF t(2) tv tt(1,3) g(2) kg k_def sb0_def refl] obtain u q bs where
    rsb: "read_super_block ROOT_DEV t = Inr u" and gsb: "get_super_block ROOT_DEV u = Inr (sb0\<lparr>sb_dev := ROOT_DEV\<rparr>)"
    and lay: "fs_layout u (sb0\<lparr>sb_dev := ROOT_DEV\<rparr>)" and u: "sect u = sect t" "f_desc_table u = f_desc_table t" "inode_table u = inode_table t" "q < NR_INODE"
    "procs (hk (hs u)) = procs (hk (hs t))"
    and get: "get_inode ROOT_DEV 1 u = Inr (Some q, upd_inode q (\<lambda>_. \<lparr>i_mode = I_DIRECTORY, i_size = 64, i_start_sector = of_nat (259 + k),
         i_nr_sectors = 2048, i_dev = ROOT_DEV, i_cnt = 1, i_num = 1\<rparr>) (set_buf bs u))" by blast
  note fresh = fresh_state [OF lay _ _ _ g(2) kg k_def sb0_def refl u(4) refl, of "sect s1"]
  have m: "magic (sb0\<lparr>sb_dev := ROOT_DEV\<rparr>) = MAGIC_V1" using new_super_block_fields(6) [OF g(2) sb0_def k_def] by simp
  have "init_fs geo s = Inr ((upd_inode q (\<lambda>_. \<lparr>i_mode = I_DIRECTORY, i_size = 64, i_start_sector = of_nat (259 + k),
         i_nr_sectors = 2048, i_dev = ROOT_DEV, i_cnt = 1, i_num = 1\<rparr>) (set_buf bs u))\<lparr>root_inode := Some q\<rparr>)"
    unfolding init_fs_def Let_def s0_def [symmetric] opn ebind_simps(2) t(1) rsb gsb m
    by (simp add: ROOT_INODE_def get)
  moreover have "procs (hk (hs t)) = procs (hk h)" using io_frame_simps(7) [OF fr] by (simp add: s1_def)
  ultimately show ?thesis using fresh [of bs] u t(2) tt unfolding sb0_def by (intro exI conjI) (assumption, (auto simp: upd_inode_def)+)
qed

text \<open>
  C11: \<open>init_fs\<close> makes an empty file system of the partition of the root device, whatever was on the disk: when the
  driver opens the drive and the partition has at least 261 sectors, the super block, the maps and the root directory are on
  the disk where the rest of the file system looks for them, the directory is in the table of inodes and holds itself and the
  terminals, and every invariant of the theories of the file system holds.
\<close>

theorem init_fs_establishes:
  assumes "task_hd_request (driver_msg DEV_OPEN (MINOR ROOT_DEV)) (hs s) = Inr h" "ready h"
    and "logical (hd0 h) 16 = \<lparr>part_base = b, part_size = of_nat g\<rparr>" "unat b + g \<le> 2 ^ 28"
    and "261 \<le> g" "g \<le> 2 ^ 22"
  shows "\<exists>s' sb r. init_fs geo s = Inr s' \<and> fs_layout s' sb \<and> root_inode s' = Some r \<and> dir_ok s' sb (inode_table s' r) 4
    \<and> (\<forall>i \<in> {..<4}. dent_nr s' (dstart (inode_table s' r)) i = of_nat i + 1 \<and> dent_name s' (dstart (inode_table s' r)) i = boot_name i)
    \<and> (\<forall>i \<in> {..<4096}. bit_at (sect s' 2) i \<longleftrightarrow> i < 5) \<and> sector_map sb s' = slots {0}
    \<and> inodes_ok s' \<and> refs_ok s' \<and> can_create s'"
proof -
  obtain s' r where s': "init_fs geo s = Inr s'" and f: "fresh_fs s' ((new_super_block (of_nat g))\<lparr>sb_dev := ROOT_DEV\<rparr>) r"
    using init_fs_ok [OF assms] by blast
  from s' f [unfolded fresh_fs_def] show ?thesis by (intro exI [of _ s'] exI [of _ "(new_super_block (of_nat g))\<lparr>sb_dev := ROOT_DEV\<rparr>"] exI [of _ r]) auto
qed

end
