(* ===== verification/Fs_Entries.thy ===== *)
theory Fs_Entries
  imports Fs_Search
begin

text \<open>
  New directory entries: where \<open>new_dir_entry\<close> puts a name, that it is found there, and what happens when the last
  sector of the directory is full.
\<close>

section \<open>New entries\<close>

lemma store32_bytes32: "store32 a v = store_bytes a (bytes32 v)"
  by (simp add: store32_def bytes32_def fun_eq_iff add.assoc)

lemma offset_range:
  fixes y :: u32
  assumes "k + n \<le> 2 ^ 32" "n < 2 ^ 32" "k < 2 ^ 32"
  shows "unat (y - of_nat k) < n \<longleftrightarrow> k \<le> unat y \<and> unat y < k + n"
    "k \<le> unat y \<Longrightarrow> unat (y - of_nat k) = unat y - k"
proof -
  have k: "unat (of_nat k :: u32) = k" using assms by (intro unat_of_nat_small) simp
  have u: "unat y < 2 ^ 32" using unsigned_less [of y] by simp
  show "unat (y - of_nat k) < n \<longleftrightarrow> k \<le> unat y \<and> unat y < k + n" using assms u k by (auto simp: unat_sub_if')
  show "k \<le> unat y \<Longrightarrow> unat (y - of_nat k) = unat y - k" using k by (simp add: unat_sub_if')
qed

lemma store_in_buf:
  assumes "k + length xs \<le> 512"
  shows "upd_mem (store_bytes (fsb s + of_nat k) xs) s = set_buf (put_list k xs (buf s)) s"
proof -
  have "store_bytes (fsb s + of_nat k) xs (fmem s) x = store_bytes (fsb s) (put_list k xs (buf s)) (fmem s) x" for x
  proof -
    let ?d = "unat (x - fsb s)"
    have len: "length (put_list k xs (buf s)) = 512" using assms by simp
    have eq: "x - (fsb s + of_nat k) = x - fsb s - of_nat k" by simp
    have "store_bytes (fsb s + of_nat k) xs (fmem s) x = (if k \<le> ?d \<and> ?d < k + length xs then xs ! (?d - k) else fmem s x)"
      using offset_range [of k "length xs" "x - fsb s"] assms unfolding eq by (auto simp: store_bytes_apply eq)
    moreover have "buf s ! ?d = fmem s x" if "?d < 512" using that by (simp add: buf_def nth_load_bytes del: load_bytes.simps)
    ultimately show ?thesis using assms len by (auto simp: store_bytes_apply nth_put_list)
  qed
  then show ?thesis by (simp add: set_buf_def upd_mem_def set_kmem_def fun_eq_iff)
qed

definition entry_bytes :: "u32 \<Rightarrow> u8 list \<Rightarrow> u8 list" where
  "entry_bytes nr name = bytes32 nr @ name @ [0]"

lemma put_entry_store: "put_entry j nr name s = upd_mem (store_bytes (fsb s + of_nat (16 * j)) (entry_bytes nr name)) s"
proof -
  let ?a = "fsb s + of_nat (16 * j)"
  have "store_bytes (?a + 4) (name @ [0]) \<circ> store_bytes ?a (bytes32 nr) = store_bytes ?a (entry_bytes nr name)"
    using store_bytes_append [of ?a "bytes32 nr" "name @ [0]"] unfolding entry_bytes_def by (intro ext) simp
  then show ?thesis by (simp only: put_entry_def Let_def DIR_ENTRY_SIZE_def store32_bytes32)
qed

lemma put_entry_simps [simp]:
  "valid_sect (put_entry j nr name s) = valid_sect s" "sect (put_entry j nr name s) = sect s"
  "inode_table (put_entry j nr name s) = inode_table s" "fs_layout (put_entry j nr name s) sb = fs_layout s sb"
  by (simp_all add: put_entry_store fun_eq_iff)

lemma put_entry_buf:
  assumes "j < 32" "length name < 12"
  shows "put_entry j nr name s = set_buf (put_list (16 * j) (entry_bytes nr name) (buf s)) s"
  unfolding put_entry_store using assms by (intro store_in_buf) (simp add: entry_bytes_def)

lemma entry_put:
  assumes "length bs = 512" "j < 32" "i < 32" "length name < 12" "0 \<notin> set name"
  shows "entry_nr (put_list (16 * j) (entry_bytes nr name) bs) i = (if i = j then nr else entry_nr bs i)"
    "entry_name (put_list (16 * j) (entry_bytes nr name) bs) i = (if i = j then name else entry_name bs i)"
proof -
  let ?new = "put_list (16 * j) (entry_bytes nr name) bs"
  have len: "length (entry_bytes nr name) = 5 + length name" by (simp add: entry_bytes_def)
  have n: "?new ! m = (if 16 * j \<le> m \<and> m < 16 * j + 5 + length name then entry_bytes nr name ! (m - 16 * j) else bs ! m)" if "m < 512" for m
    using that assms len by (simp add: nth_put_list)
  show "entry_nr ?new i = (if i = j then nr else entry_nr bs i)"
  proof (cases "i = j")
    case True
    have "entry_bytes nr name ! k = bytes32 nr ! k" if "k < 4" for k using that by (simp add: entry_bytes_def nth_append)
    then show ?thesis using assms True by (auto intro!: list32_bytes32 simp: entry_nr_def DIR_ENTRY_SIZE_def n)
  next
    case False
    then have "i + 1 \<le> j \<or> j + 1 \<le> i" by auto
    then have "16 * i + 4 \<le> 16 * j \<or> 16 * j + (5 + length name) \<le> 16 * i" using assms(4) by auto
    then show ?thesis using assms False
      by (auto simp: entry_nr_def DIR_ENTRY_SIZE_def len intro: list32_put_other)
  qed
  let ?f = "\<lambda>bs. take 12 (drop (16 * i + 4) bs)"
  have f: "length (?f ?new) = 12" "length (?f bs) = 12" using assms len by auto
  show "entry_name ?new i = (if i = j then name else entry_name bs i)"
  proof (cases "i = j")
    case True
    have e: "entry_bytes nr name ! (4 + m) = (name @ [0]) ! m" for m by (simp add: entry_bytes_def nth_append)
    have "?f ?new = name @ 0 # drop (length name + 1) (?f bs)"
    proof (rule nth_equalityI)
      fix m assume "m < length (?f ?new)"
      with f have m: "m < 12" by simp
      then show "?f ?new ! m = (name @ 0 # drop (length name + 1) (?f bs)) ! m"
        using assms True len by (auto simp: n nth_append e [simplified] nth_Cons')
    qed (use f assms in auto)
    then have "entry_name ?new i = takeWhile (\<lambda>c. c \<noteq> 0) (name @ 0 # drop (length name + 1) (?f bs))"
      by (simp add: entry_name_def MAX_FILENAME_LEN_def DIR_ENTRY_SIZE_def add.commute)
    also have "\<dots> = name" using assms(5) by (subst takeWhile_append2) auto
    finally show ?thesis using True by simp
  next
    case False
    then have d: "i + 1 \<le> j \<or> j + 1 \<le> i" by auto
    have "?f ?new = ?f bs"
    proof (rule nth_equalityI)
      fix m assume "m < length (?f ?new)"
      with f have m: "m < 12" by simp
      with d assms len show "?f ?new ! m = ?f bs ! m" by (auto simp: n)
    qed (use f in auto)
    with False show ?thesis by (simp add: entry_name_def MAX_FILENAME_LEN_def DIR_ENTRY_SIZE_def)
  qed
qed

lemma free_entry_full:
  assumes "j \<le> 32" "\<And>k. j \<le> k \<Longrightarrow> k < 32 \<Longrightarrow> entry_nr bs k \<noteq> 0" "32 * i + 32 \<le> n"
  shows "free_entry bs n [j..<32] (32 * i + j) = (None, 32, 32 * i + 32)"
  using assms
proof (induction "32 - j" arbitrary: j)
  case 0
  then show ?case by (simp add: SECTOR_SIZE_def DIR_ENTRY_SIZE_def)
next
  case (Suc d)
  then have j: "j < 32" by simp
  have "free_entry bs n [Suc j..<32] (32 * i + Suc j) = (None, 32, 32 * i + 32)"
    by (rule Suc.hyps(1)) (use Suc in auto)
  with j Suc.prems show ?case by (simp add: upt_conv_Cons [OF j])
qed

lemma free_entry_hit:
  assumes "j \<le> k" "k < 32" "\<And>l. j \<le> l \<Longrightarrow> l < k \<Longrightarrow> entry_nr bs l \<noteq> 0" "32 * i + k \<le> n" "32 * i + k < n \<Longrightarrow> entry_nr bs k = 0"
  shows "free_entry bs n [j..<32] (32 * i + j) = (if 32 * i + k < n then Some k else None, k, 32 * i + k + 1)"
  using assms
proof (induction "k - j" arbitrary: j)
  case 0
  then show ?case by (auto simp: upt_conv_Cons [of j 32])
next
  case (Suc d)
  then have j: "j < k" by simp
  have "free_entry bs n [Suc j..<32] (32 * i + Suc j) = (if 32 * i + k < n then Some k else None, k, 32 * i + k + 1)"
    by (rule Suc.hyps(1)) (use Suc in auto)
  with j Suc.prems(1,2,4) Suc.prems(3) [of j] show ?case by (simp add: upt_conv_Cons [of j 32])
qed

text \<open>The entry for a new name: the first free one, or the one behind the last.\<close>

definition new_slot :: "fstate \<Rightarrow> nat \<Rightarrow> nat \<Rightarrow> nat \<Rightarrow> bool" where
  "new_slot s a n e \<longleftrightarrow> e \<le> n \<and> (\<forall>k < e. dent_nr s a k \<noteq> 0) \<and> (e < n \<longrightarrow> dent_nr s a e = 0)"

lemma new_entry_loop_hit:
  assumes "dir_ok s sb d n" "new_slot s (dstart d) n e" "B = (n + 31) div 32" "i \<le> e div 32" "e = n \<longrightarrow> n mod 32 \<noteq> 0"
  shows "\<exists>s'. new_entry_loop d [i..<B] (32 * i) pde s =
      Inr (e div 32, if e < n then Some (e mod 32) else None, Some (e mod 32), s')
    \<and> s' = set_buf (sect s (dstart d + e div 32)) s"
  using assms
proof (induction "e div 32 - i" arbitrary: i s pde)
  case 0
  then have i: "i = e div 32" by simp
  have e: "e \<le> n" using 0 by (simp add: new_slot_def)
  have iB: "i < B" unfolding i 0(4)
  proof (cases "e = n")
    case True
    with 0(6) have "0 < n mod 32" by simp
    moreover have "32 * Suc q \<le> n + 31" if "n = 32 * q + r" "0 < r" for q r using that by simp
    ultimately have "32 * Suc (n div 32) \<le> n + 31" by (metis mult_div_mod_eq)
    from div_le_mono [OF this, of 32] True show "e div 32 < (n + 31) div 32" by simp
  next
    case False
    with e have "e + 32 \<le> n + 31" by simp
    from div_le_mono [OF this, of 32] show "e div 32 < (n + 31) div 32" by simp
  qed
  have idiv: "i \<le> n div 32" using e by (simp add: i div_le_mono)
  let ?bs = "sect s (dstart d + i)"
  have ie: "32 * i + e mod 32 = e" by (simp add: i)
  have at: "dent_nr s (dstart d) (32 * i + k) = entry_nr ?bs k" if "k < 32" for k
    using that by (simp add: dent_nr_def)
  have "free_entry ?bs n [0..<32] (32 * i + 0) = (if 32 * i + e mod 32 < n then Some (e mod 32) else None, e mod 32, 32 * i + e mod 32 + 1)"
  proof (rule free_entry_hit)
    fix l assume "l < e mod 32"
    then have "l < 32" "32 * i + l < e" using ie by auto
    with 0(3) at [of l] show "entry_nr ?bs l \<noteq> 0" by (auto simp: new_slot_def)
  next
    assume "32 * i + e mod 32 < n"
    with 0(3) at [of "e mod 32"] ie show "entry_nr ?bs (e mod 32) = 0" by (auto simp: new_slot_def)
  qed (use e ie in auto)
  then have fe: "free_entry ?bs n [0..<32] (32 * i) = (if e < n then Some (e mod 32) else None, e mod 32, e + 1)" using ie by simp
  show ?case
    unfolding upt_conv_Cons [OF iB] using fe RD_dir(1) [OF 0(2) idiv] dir_size(1) [OF 0(2)] e
    by (auto simp: SECTOR_SIZE_def DIR_ENTRY_SIZE_def i simp del: upt_rec_numeral)
next
  case (Suc x)
  then have i: "i < e div 32" by simp
  have e: "e \<le> n" using Suc.prems by (simp add: new_slot_def)
  have i32: "32 * i + 32 \<le> e" using i by (simp add: less_eq_div_iff_mult_less_eq [of 32, symmetric] Suc_le_eq [symmetric])
  have idiv: "i \<le> n div 32" using i e div_le_mono [OF e, of 32] by simp
  have iB: "i < B" using i32 e Suc.prems(3) by auto
  let ?bs = "sect s (dstart d + i)" and ?r = "set_buf (sect s (dstart d + i)) s"
  have "free_entry ?bs n [0..<32] (32 * i + 0) = (None, 32, 32 * i + 32)"
  proof (rule free_entry_full)
    fix k :: nat assume "k < 32"
    with Suc.prems(2) i32 show "entry_nr ?bs k \<noteq> 0" 
      using spec [of "\<lambda>k. k < e \<longrightarrow> dent_nr s (dstart d) k \<noteq> 0" "32 * i + k"] by (auto simp: new_slot_def dent_nr_def)
  qed (use i32 e in auto)
  then have "new_entry_loop d [i..<B] (32 * i) pde s = new_entry_loop d [Suc i..<B] (32 * Suc i) (Some 32) ?r"
    unfolding upt_conv_Cons [OF iB] using RD_dir(1) [OF Suc.prems(1) idiv] dir_size(1) [OF Suc.prems(1)] e i32
    by (simp add: SECTOR_SIZE_def DIR_ENTRY_SIZE_def add.commute del: upt_rec_numeral)
  moreover have "\<exists>s'. new_entry_loop d [Suc i..<B] (32 * Suc i) (Some 32) ?r =
      Inr (e div 32, if e < n then Some (e mod 32) else None, Some (e mod 32), s')
    \<and> s' = set_buf (sect ?r (dstart d + e div 32)) ?r"
    by (rule Suc.hyps(1)) (use Suc i in \<open>auto simp: new_slot_def\<close>)
  ultimately show ?case by simp
qed

lemma iblk_below: "fs_layout s sb \<Longrightarrow> num \<le> 4096 \<Longrightarrow> iblk sb num < unat (n_1st_sector sb)"
proof -
  assume l: "fs_layout s sb" and n: "num \<le> 4096"
  have "nat (num - 1) div 16 < 256" using n by (simp add: less_mult_imp_div_less)
  then show ?thesis using first_sector [OF l] unfolding iblk_def by linarith
qed

lemma dent_put_other: "k < a \<Longrightarrow> length bs = 512 \<Longrightarrow> dent_nr (put_sect k bs s) a = dent_nr s a \<and> dent_name (put_sect k bs s) a = dent_name s a"
  by (simp add: dent_nr_def dent_name_def fun_eq_iff sect_put_sect)

lemma dent_put_entry:
  assumes "length name < 12" "0 \<notin> set name" "bs = put_list (16 * (e mod 32)) (entry_bytes nr name) (sect s (a + e div 32))"
  shows "dent_nr (put_sect (a + e div 32) bs s) a k = (if k = e then nr else dent_nr s a k)"
    "dent_name (put_sect (a + e div 32) bs s) a k = (if k = e then name else dent_name s a k)"
proof -
  have len: "length bs = 512" using assms by (simp add: entry_bytes_def)
  have eq: "k = e \<longleftrightarrow> k div 32 = e div 32 \<and> k mod 32 = e mod 32" by (metis div_mult_mod_eq)
  note put = entry_put [of "sect s (a + e div 32)" "e mod 32" "k mod 32" name nr, folded assms(3)]
  show "dent_nr (put_sect (a + e div 32) bs s) a k = (if k = e then nr else dent_nr s a k)"
    using put(1) assms(1,2) by (cases "k div 32 = e div 32") (simp_all add: dent_nr_def sect_put_sect len eq)
  show "dent_name (put_sect (a + e div 32) bs s) a k = (if k = e then name else dent_name s a k)"
    using put(2) assms(1,2) by (cases "k div 32 = e div 32") (simp_all add: dent_name_def sect_put_sect len eq)
qed

lemma new_entry_size:
  assumes d: "inode_table s r = d" "dir_ok s sb d n" and e: "e \<le> n"
    and d': "d' = d\<lparr>i_size := of_nat (16 * max n (e + 1))\<rparr>"
  shows "(if e < n then set_buf bs s else upd_inode r (\<lambda>d. d\<lparr>i_size := i_size d + of_nat DIR_ENTRY_SIZE\<rparr>) (set_buf bs s)) =
    set_buf bs (upd_inode r (\<lambda>_. d') s)"
proof (cases "e < n")
  case True
  with d' d(2) have "d' = d" by (simp add: dir_ok_def)
  with True show ?thesis by (simp add: upd_inode_def set_buf_def upd_mem_def fsb_def d(1) [symmetric])
next
  case False
  with e d' d(2) have "d' = d\<lparr>i_size := i_size d + 16\<rparr>" by (simp add: dir_ok_def algebra_simps)
  with False show ?thesis by (simp add: upd_inode_def set_buf_def upd_mem_def fsb_def d(1) DIR_ENTRY_SIZE_def)
qed

lemma new_dir_entry_ok:
  assumes d: "d = inode_table s r" "dir_ok s sb d n" and e: "new_slot s (dstart d) n e" "e = n \<longrightarrow> n mod 32 \<noteq> 0"
    and name: "length name < 12" "0 \<notin> set name"
    and d': "d' = d\<lparr>i_size := of_nat (16 * max n (e + 1))\<rparr>"
  shows "\<exists>s'. new_dir_entry r nr name s = Inr s' \<and> io_frame (upd_inode r (\<lambda>_. d') s) s'
    \<and> (\<forall>k. dent_nr s' (dstart d) k = (if k = e then word_of_int nr else dent_nr s (dstart d) k)
         \<and> dent_name s' (dstart d) k = (if k = e then name else dent_name s (dstart d) k))
    \<and> (\<forall>num \<in> {1..4096}. disk_fields s' sb num = (if num = i_num d then fields d' else disk_fields s sb num))
    \<and> (\<forall>k. k \<noteq> iblk sb (i_num d) \<and> k \<noteq> dstart d + e div 32 \<longrightarrow> sect s' k = sect s k)"
proof -
  let ?a = "dstart d" and ?c = "dstart d + e div 32" and ?b = "iblk sb (i_num d)"
  have l: "fs_layout s sb" and dev: "i_dev d = ROOT_DEV" and num: "1 \<le> i_num d" "i_num d \<le> 4096" using d(2) by (simp_all add: dir_ok_def)
  have en: "e \<le> n" using e(1) by (simp add: new_slot_def)
  have b: "?b < ?a" using iblk_below [OF l num(2)] d(2) by (simp add: dir_ok_def)
  have idiv: "e div 32 \<le> n div 32" using en by (rule div_le_mono)
  let ?s1 = "set_buf (sect s ?c) s"
  have loop: "new_entry_loop d [0..<dir_blks d] 0 None s = Inr (e div 32, if e < n then Some (e mod 32) else None, Some (e mod 32), ?s1)"
    using new_entry_loop_hit [OF d(2) e(1) refl, of 0 None] e(2) dir_size(2) [OF d(2)] by simp
  define new where "new = put_list (16 * (e mod 32)) (entry_bytes (word_of_int nr) name) (sect s ?c)"
  have len: "length new = 512" using name(1) by (simp add: new_def entry_bytes_def)
  let ?u = "upd_inode r (\<lambda>_. d') s"
  let ?s4 = "put_sect ?c new (set_buf new ?u)"
  note sz = new_entry_size [OF d(1) [symmetric] d(2) en d', of "sect s ?c"]
  have put: "put_entry (e mod 32) (word_of_int nr) name (set_buf (sect s ?c) ?u) = set_buf new ?u"
    using name(1) len by (simp add: put_entry_buf new_def)
  have v: "valid_sect (set_buf new ?u) ?c" using RD_dir(2) [OF d(2) idiv] by simp
  have wr: "WR_SECT (i_dev d) (sint (i_start_sector d) + int (e div 32)) (set_buf new ?u) = Inr ?s4"
    using WR_SECT_root [OF v] unfolding RD_dir(3) [OF d(2) idiv] dev by (simp add: len)
  have tab: "inode_table ?s4 r = d'" by simp
  have d'f: "i_dev d' = ROOT_DEV" "i_num d' = i_num d" using d' dev by simp_all
  let ?new = "put_list (ioff (i_num d)) (inode_bytes d') (sect ?s4 ?b)"
  have l4: "fs_layout ?s4 sb" using l by simp
  have sync: "sync_inode r ?s4 = Inr (put_sect ?b ?new (set_buf ?new ?s4))"
    using sync_inode_eq [OF l4, of r ?b ?new] tab d'f num by simp
  let ?s5 = "put_sect ?b ?new (set_buf ?new ?s4)"
  have nl: "length ?new = 512" using ioff_le [of "i_num d"] by simp
  have "new_dir_entry r nr name s = Inr ?s5"
  proof -
    have "(case if e < n then Some (e mod 32) else None of
             Some j \<Rightarrow> Inr (j, ?s1)
           | None \<Rightarrow> (case Some (e mod 32) of None \<Rightarrow> Inl (Wild ''pde'')
               | Some j \<Rightarrow> Inr (j, upd_inode r (\<lambda>d. d\<lparr>i_size := i_size d + of_nat DIR_ENTRY_SIZE\<rparr>) ?s1))) =
        Inr (e mod 32, set_buf (sect s ?c) ?u)" unfolding sz [symmetric] by simp
    then show ?thesis
      unfolding new_dir_entry_def Let_def d(1) [symmetric] loop ebind_simps prod.case put wr sync by (simp add: put wr sync)
  qed
  moreover have "io_frame ?u ?s5"
    by (rule io_frame_trans [OF io_frame_put_set [OF len, of ?u ?c new]]) (rule io_frame_put_set [OF nl])
  moreover have "dent_nr ?s5 ?a k = (if k = e then word_of_int nr else dent_nr s ?a k) \<and> dent_name ?s5 ?a k = (if k = e then name else dent_name s ?a k)" for k
  proof -
    have s4: "?s4 = set_buf new (upd_inode r (\<lambda>_. d') (put_sect ?c new s))"
      by (simp add: upd_inode_def put_sect_def set_buf_def upd_mem_def set_kmem_def rbase_def fsb_def lin_def)
    have same: "dent_nr (upd_inode r (\<lambda>_. d') t) = dent_nr t" "dent_name (upd_inode r (\<lambda>_. d') t) = dent_name t" for t
      by (simp_all add: dent_nr_def dent_name_def fun_eq_iff)
    have "dent_nr ?s5 ?a = dent_nr ?s4 ?a \<and> dent_name ?s5 ?a = dent_name ?s4 ?a"
      using dent_put_other [OF b nl, of "set_buf ?new ?s4"] by simp
    then show ?thesis
      using dent_put_entry [OF name new_def] by (simp add: s4 same)
  qed
  moreover have "disk_fields ?s5 sb k = (if k = i_num d then fields d' else disk_fields s sb k)" if "1 \<le> k" "k \<le> 4096" for k
  proof -
    have "iblk sb k \<noteq> ?c" using iblk_below [OF l that(2)] d(2) by (simp add: dir_ok_def)
    then have "disk_fields ?s4 sb k = disk_fields s sb k" using len by (simp add: disk_fields_def sect_put_sect)
    then show ?thesis using disk_fields_sync(2) [OF l4 _ _ _ sync that(1)] tab d'f num by simp
  qed
  moreover have "sect ?s5 k = sect s k" if "k \<noteq> ?b" "k \<noteq> ?c" for k
    using that nl len by (simp add: sect_put_sect)
  ultimately show ?thesis by (intro exI [of _ ?s5]) simp
qed

lemma dir_insert_dir_ok:
  assumes d: "d = inode_table s r" "dir_ok s sb d n" and e: "new_slot s (dstart d) n e"
    and room: "n + 1 < 2 ^ 16" "dstart d + (n + 1) div 32 < unat (nr_sectors sb)"
    and d': "d' = d\<lparr>i_size := of_nat (16 * max n (e + 1))\<rparr>" and f: "io_frame (upd_inode r (\<lambda>_. d') s) s'"
  shows "inode_table s' r = d'" "dir_ok s' sb d' (max n (e + 1))" "dstart d' = dstart d" "root_inode s' = root_inode s"
proof -
  have n: "max n (e + 1) \<le> n + 1" using e by (auto simp: new_slot_def)
  show "inode_table s' r = d'" "root_inode s' = root_inode s" "dstart d' = dstart d" using io_frame_simps(1,4) [OF f] by (simp_all add: d' dstart_def)
  have "dstart d + max n (e + 1) div 32 < unat (nr_sectors sb)"
    by (rule le_less_trans [OF add_left_mono [OF div_le_mono [OF n]] room(2)])
  with d(2) io_frame_simps(11) [OF f] n room(1) show "dir_ok s' sb d' (max n (e + 1))"
    by (simp add: dir_ok_def d' dstart_def)
qed

lemma le_sectors: "n \<le> 32 * ((n + 31) div (32 :: nat))"
proof -
  have "n + 31 < 32 * ((n + 31) div 32) + 32" by (metis add.commute mult.commute dividend_less_div_times zero_less_numeral)
  then show ?thesis by simp
qed

text \<open>
  C19: a name that is entered into the root directory is found under its number.
\<close>

theorem dir_insert_lookup:
  assumes "root_inode s = Some r" "dir_ok s sb (inode_table s r) n" and a: "a = dstart (inode_table s r)"
    and e: "new_slot s a n e" "e = n \<longrightarrow> n mod 32 \<noteq> 0" and room: "n + 1 < 2 ^ 16" "a + (n + 1) div 32 < unat (nr_sectors sb)"
    and name: "strip_path path = Some name" "length name < 12" "0 \<notin> set name" and fresh: "\<forall>k \<in> {..<e}. dent_name s a k \<noteq> name"
  shows "\<exists>s' s''. new_dir_entry r nr name s = Inr s' \<and> search_file path s' = Inr (word_of_int nr, s'')
    \<and> (\<forall>k. k \<noteq> e \<longrightarrow> dent_nr s' a k = dent_nr s a k \<and> dent_name s' a k = dent_name s a k)"
proof -
  let ?d = "inode_table s r"
  define d' where "d' = ?d\<lparr>i_size := of_nat (16 * max n (e + 1))\<rparr>"
  from new_dir_entry_ok [OF refl assms(2) e(1) [unfolded a] e(2) name(2,3) d'_def, of nr] obtain s'
    where s': "new_dir_entry r nr name s = Inr s'" "io_frame (upd_inode r (\<lambda>_. d') s) s'"
      "\<And>k. dent_nr s' a k = (if k = e then word_of_int nr else dent_nr s a k)"
      "\<And>k. dent_name s' a k = (if k = e then name else dent_name s a k)" unfolding a by blast
  note ok = dir_insert_dir_ok [OF refl assms(2) e(1) [unfolded a] room(1) room(2) [unfolded a] d'_def s'(2)]
  let ?n = "max n (e + 1)"
  have "e < ?n" by simp
  also have "?n \<le> 32 * ((?n + 31) div 32)" by (rule le_sectors)
  finally have "List.find (\<lambda>e. dent_name s' a e = name) [0..<min (32 * ((?n + 31) div 32)) (?n + 1)] = Some e"
    unfolding find_first s'(4) using fresh by simp
  with search_file_ok [of s' r sb ?n path name] ok name(1) assms(1) a obtain s'' where "search_file path s' = Inr (dent_nr s' a e, s'')" by auto
  with s'(1,3,4) show ?thesis by auto
qed

text \<open>A directory whose last sector is full.\<close>

lemma new_entry_loop_full:
  assumes "dir_ok s sb d (32 * B)" "\<forall>k < 32 * B. dent_nr s (dstart d) k \<noteq> 0" "i \<le> B"
  shows "new_entry_loop d [i..<B] (32 * i) pde s =
      Inr (B, None, if i < B then Some 32 else pde, if i < B then set_buf (sect s (dstart d + (B - 1))) s else s)"
  using assms
proof (induction "B - i" arbitrary: i s pde)
  case 0
  then show ?case by (simp add: dir_size)
next
  case (Suc x)
  then have i: "i < B" by simp
  let ?bs = "sect s (dstart d + i)" and ?r = "set_buf (sect s (dstart d + i)) s"
  have "free_entry ?bs (32 * B) [0..<32] (32 * i + 0) = (None, 32, 32 * i + 32)"
  proof (rule free_entry_full)
    fix k :: nat assume k: "k < 32"
    have "dent_nr s (dstart d) (32 * i + k) \<noteq> 0" using Suc.prems(2) i k by auto
    with k show "entry_nr ?bs k \<noteq> 0" by (simp add: dent_nr_def)
  qed (use i in auto)
  then have "new_entry_loop d [i..<B] (32 * i) pde s = new_entry_loop d [Suc i..<B] (32 * Suc i) (Some 32) ?r"
    unfolding upt_conv_Cons [OF i] using RD_dir(1) [OF Suc.prems(1), of i] dir_size(1) [OF Suc.prems(1)] i
    by (simp add: SECTOR_SIZE_def DIR_ENTRY_SIZE_def add.commute del: upt_rec_numeral)
  also have "\<dots> = Inr (B, None, if Suc i < B then Some 32 else Some 32, if Suc i < B then set_buf (sect ?r (dstart d + (B - 1))) ?r else ?r)"
    by (rule Suc.hyps(1)) (use Suc i in auto)
  also have "\<dots> = Inr (B, None, Some 32, set_buf (sect s (dstart d + (B - 1))) s)"
    using i by (auto simp: not_less le_Suc_eq)
  finally show ?case using i by simp
qed

lemma buf_put_behind:
  assumes "length name < 12"
  shows "buf (put_entry 32 nr name s) = buf s"
proof -
  let ?a = "fsb s + of_nat (16 * 32)"
  have "put_entry 32 nr name s = upd_mem (store_bytes ?a (entry_bytes nr name)) s" by (rule put_entry_store)
  moreover have "store_bytes ?a (entry_bytes nr name) (fmem s) (fsb s + of_nat i) = fmem s (fsb s + of_nat i)" if "i < 512" for i
  proof -
    have u: "unat (of_nat i :: u32) = i" using that by (intro unat_of_nat_small) simp
    have "fsb s + of_nat i - ?a = of_nat i - of_nat 512" by simp
    with offset_range(1) [of 512 "length (entry_bytes nr name)" "of_nat i"] u that assms show ?thesis
      by (simp add: store_bytes_apply entry_bytes_def)
  qed
  ultimately show ?thesis
    by (intro nth_equalityI) (simp_all add: buf_def nth_load_bytes del: load_bytes.simps)
qed

text \<open>
  C31: in a directory of which the last sector is full, a new name is lost: the directory grows by one entry, but its new
  sector is a copy of the sector before it, so that the new entry is a second one for the file 32 entries in front of it.
\<close>

theorem new_dir_entry_full_sector:
  assumes d: "d = inode_table s r" "dir_ok s sb d (32 * B)" and B: "0 < B" and full: "\<forall>k \<in> {..<32 * B}. dent_nr s (dstart d) k \<noteq> 0"
    and name: "length name < 12"
  shows "\<exists>s'. new_dir_entry r nr name s = Inr s' \<and> i_size (inode_table s' r) = of_nat (16 * (32 * B + 1))
    \<and> (\<forall>k \<in> {..<32 * B}. dent_nr s' (dstart d) k = dent_nr s (dstart d) k \<and> dent_name s' (dstart d) k = dent_name s (dstart d) k)
    \<and> dent_nr s' (dstart d) (32 * B) = dent_nr s (dstart d) (32 * (B - 1))
    \<and> dent_name s' (dstart d) (32 * B) = dent_name s (dstart d) (32 * (B - 1))"
proof -
  let ?a = "dstart d" and ?b = "iblk sb (i_num d)" and ?last = "sect s (dstart d + (B - 1))"
  have l: "fs_layout s sb" and dev: "i_dev d = ROOT_DEV" and num: "1 \<le> i_num d" "i_num d \<le> 4096" using d(2) by (simp_all add: dir_ok_def)
  have b: "?b < ?a" using iblk_below [OF l num(2)] d(2) by (simp add: dir_ok_def)
  let ?s1 = "set_buf ?last s"
  have loop: "new_entry_loop d [0..<dir_blks d] 0 None s = Inr (B, None, Some 32, ?s1)"
    using new_entry_loop_full [OF d(2), of 0 None] full B dir_size(2) [OF d(2)] by simp
  let ?s2 = "upd_inode r (\<lambda>d. d\<lparr>i_size := i_size d + of_nat DIR_ENTRY_SIZE\<rparr>) ?s1"
  let ?s3 = "put_entry 32 (word_of_int nr) name ?s2"
  have s3: "buf ?s3 = ?last" "valid_sect ?s3 = valid_sect s" "sect ?s3 = sect s" "inode_table ?s3 = inode_table ?s2" "fs_layout ?s3 sb"
    using l by (simp_all add: buf_put_behind name fun_eq_iff)
  have v: "valid_sect ?s3 (?a + B)" unfolding s3(2) using RD_dir(2) [OF d(2), of B] by simp
  define s4 where "s4 = put_sect (?a + B) ?last ?s3"
  have wr: "WR_SECT (i_dev d) (sint (i_start_sector d) + int B) ?s3 = Inr s4"
    using WR_SECT_root [OF v] unfolding RD_dir(3) [OF d(2), of B, simplified] dev s3(1) s4_def by simp
  define d' where "d' = d\<lparr>i_size := i_size d + 16\<rparr>"
  have tab: "inode_table s4 r = d'" by (simp add: s4_def s3(4) d'_def d(1) DIR_ENTRY_SIZE_def)
  have d'f: "i_dev d' = ROOT_DEV" "i_num d' = i_num d" using dev by (simp_all add: d'_def)
  have l4: "fs_layout s4 sb" using s3(5) by (simp add: s4_def)
  have sect4: "sect s4 k = (if k = ?a + B then ?last else sect s k)" for k by (simp add: s4_def sect_put_sect s3(3))
  define new where "new = put_list (ioff (i_num d)) (inode_bytes d') (sect s4 ?b)"
  define s5 where "s5 = put_sect ?b new (set_buf new s4)"
  have nl: "length new = 512" using ioff_le [of "i_num d"] by (simp add: new_def)
  have sync: "sync_inode r s4 = Inr s5"
    using sync_inode_eq [OF l4, of r ?b new] tab d'f num by (simp add: new_def s5_def)
  have "new_dir_entry r nr name s = Inr s5"
    unfolding new_dir_entry_def Let_def d(1) [symmetric] loop ebind_simps prod.case option.case wr by (rule sync)
  moreover have "i_size (inode_table s5 r) = of_nat (16 * (32 * B + 1))" using tab d(2) by (simp add: d'_def dir_ok_def s5_def)
  moreover have at: "dent_nr s5 ?a k = entry_nr (if k div 32 = B then ?last else sect s (?a + k div 32)) (k mod 32)"
     "dent_name s5 ?a k = entry_name (if k div 32 = B then ?last else sect s (?a + k div 32)) (k mod 32)" for k
    using b nl by (simp_all add: dent_nr_def dent_name_def sect_put_sect sect4 s5_def)
  moreover have "k div 32 \<noteq> B" if "k < 32 * B" for k using that by auto
  moreover have "dent_nr s5 ?a (32 * B) = dent_nr s ?a (32 * (B - 1)) \<and> dent_name s5 ?a (32 * B) = dent_name s ?a (32 * (B - 1))"
    unfolding at by (simp add: dent_nr_def dent_name_def)
  ultimately show ?thesis by (intro exI [of _ s5]) (simp add: dent_nr_def dent_name_def)
qed

end
