(* ===== verification/Fs_Files.thy ===== *)
theory Fs_Files
  imports Fs_Entries Fs_Ops
begin

text \<open>
  Reading and writing files: a file as a sequence of bytes, the one pass that the loop of \<open>do_rdwt\<close> makes for a
  request of up to 256 sectors, and what the requests do to the caller's memory, to the file and to its descriptor.
\<close>

section \<open>One pass of the transfer loop\<close>

text \<open>
  A file in the data area: \<open>S\<close> is its first sector, \<open>nr\<close> the number of its sectors; the sector behind it can be
  addressed too.
\<close>

definition file_ok :: "fstate \<Rightarrow> super_block \<Rightarrow> inode \<Rightarrow> nat \<Rightarrow> nat \<Rightarrow> nat \<Rightarrow> bool" where
  "file_ok s sb p S nr sz \<longleftrightarrow> fs_layout s sb \<and> i_dev p = ROOT_DEV \<and> 1 \<le> i_num p \<and> i_num p \<le> 4096
     \<and> i_start_sector p = of_nat S \<and> i_nr_sectors p = of_nat nr \<and> i_size p = of_nat sz
     \<and> unat (n_1st_sector sb) \<le> S \<and> S + nr < unat (nr_sectors sb) \<and> nr \<le> 2048 \<and> sz \<le> 512 * nr"

text \<open>The caller's buffer of \<open>c\<close> bytes does not meet the buffer of the file system.\<close>

definition apart :: "fstate \<Rightarrow> u32 \<Rightarrow> nat \<Rightarrow> bool" where
  "apart s user c \<longleftrightarrow> 2 ^ 20 \<le> unat (user - fsb s) \<and> unat (user - fsb s) + c \<le> 2 ^ 32"

lemma sectors_addressable:
  assumes "fs_layout s sb" "n + k \<le> unat (nr_sectors sb)" "0 < k"
  shows "ready (hs s)" "rbase s + n + k \<le> 2 ^ 28" "n < 2 ^ 22"
proof -
  have "valid_sect s (n + k - 1)" using assms by (simp add: fs_layout_def)
  then show "ready (hs s)" "rbase s + n + k \<le> 2 ^ 28" "n < 2 ^ 22" using assms(3) by (auto simp: valid_sect_def)
qed

lemma apart_disjoint:
  assumes "apart s user c" "off < 512" "off + c \<le> 2 ^ 19"
  shows "disjoint_ranges (fsb s + of_nat off) user c" "disjoint_ranges user (fsb s + of_nat off) c"
proof -
  have u: "unat (of_nat off :: u32) = off" using assms(2) by (intro unat_of_nat_small) simp
  let ?D = "unat (user - fsb s)"
  have "user - (fsb s + of_nat off) = (user - fsb s) - of_nat off" by simp
  moreover have "unat ((user - fsb s) - of_nat off) = ?D - off"
    using assms(1,2) u by (simp add: unat_sub_if' apart_def)
  ultimately have d: "unat (user - (fsb s + of_nat off)) = ?D - off" by (simp only:)
  then have "user \<noteq> fsb s + of_nat off" using assms(1,2) by (auto simp: apart_def)
  from unat_diff_swap [OF this] d have "unat (fsb s + of_nat off - user) = 2 ^ 32 - (?D - off)" by simp
  with d assms show "disjoint_ranges (fsb s + of_nat off) user c" "disjoint_ranges user (fsb s + of_nat off) c"
    by (auto simp: disjoint_ranges_def apart_def)
qed

definition moved :: "nat \<Rightarrow> int \<Rightarrow> fstate \<Rightarrow> fstate" where
  "moved d n s = upd_desc d (\<lambda>f. f\<lparr>fd_pos := fd_pos f + n\<rparr>) s"

lemma pass_read:
  assumes "fs_layout s sb" "i_dev pin = ROOT_DEV" "i + k \<le> unat (nr_sectors sb)" "0 < k" "k \<le> 256"
  shows "rw_sector DEV_READ (i_dev pin) (sect_pos (int i)) (int k * 512) s
     = Inr (set_buf (disk_bytes (platter (hs s)) (rbase s + i) k) s)"
  using rw_sector_root(1) [OF sectors_addressable(1,2) [OF assms(1,3,4)] assms(4,5) _ sect_pos_nat] sectors_addressable(3) [OF assms(1,3,4)]
  by (simp add: assms(2) mult.commute)

lemma pass_write:
  assumes "fs_layout s sb" "i_dev pin = ROOT_DEV" "i + k \<le> unat (nr_sectors sb)" "0 < k" "k \<le> 256"
  shows "rw_sector DEV_WRITE (i_dev pin) (sect_pos (int i)) (int k * 512) s
     = Inr (s\<lparr>hs := (hs s)\<lparr>platter := put_bytes (512 * (rbase s + i)) (load_bytes (fmem s) (fsb s) (512 * k)) (platter (hs s))\<rparr>\<rparr>)"
  using rw_sector_root(2) [OF sectors_addressable(1,2) [OF assms(1,3,4)] assms(4,5) _ sect_pos_nat] sectors_addressable(3) [OF assms(1,3,4)]
  by (simp add: assms(2) mult.commute)

lemma read_pass:
  assumes "fs_layout s sb" "i_dev pin = ROOT_DEV" "i + k \<le> unat (nr_sectors sb)" "0 < k" "k \<le> 256"
    and n: "n = min len (int k * 512 - int off)"
  shows "rdwt_loop READ d pin user (int (i + k) - 1) (int k) (int i) (int off) 0 len s =
     Inr (n, moved d n (upd_mem (kmemcpy (fsb s + of_nat off) user (word_of_int n))
       (set_buf (disk_bytes (platter (hs s)) (rbase s + i) k) s)))"
  using assms(4) pass_read [OF assms(1-5)]
  by (subst rdwt_loop.simps, subst rdwt_loop.simps) (simp add: n SECTOR_SIZE_def moved_def Let_def)

lemma write_pass:
  assumes "fs_layout s sb" "i_dev pin = ROOT_DEV" "i + k \<le> unat (nr_sectors sb)" "0 < k" "k \<le> 256"
    and n: "n = min len (int k * 512 - int off)"
    and s1: "s1 = upd_mem (kmemcpy user (fsb s + of_nat off) (word_of_int n)) (set_buf (disk_bytes (platter (hs s)) (rbase s + i) k) s)"
  shows "rdwt_loop WRITE d pin user (int (i + k) - 1) (int k) (int i) (int off) 0 len s =
     Inr (n, moved d n (s1\<lparr>hs := (hs s1)\<lparr>platter :=
       put_bytes (512 * (rbase s + i)) (load_bytes (fmem s1) (fsb s) (512 * k)) (platter (hs s))\<rparr>\<rparr>))"
proof -
  have l: "fs_layout s1 sb" and f: "fsb s1 = fsb s" "rbase s1 = rbase s" "platter (hs s1) = platter (hs s)"
    using assms(1) by (simp_all add: s1)
  have neq: "WRITE \<noteq> READ" by (simp add: fs_msg_consts)
  show ?thesis
    using assms(4) pass_read [OF assms(1-5)] pass_write [OF l assms(2-5)] neq
    by (subst rdwt_loop.simps, subst rdwt_loop.simps) (simp add: n [symmetric] s1 [symmetric] f SECTOR_SIZE_def moved_def Let_def del: load_bytes.simps)
qed

section \<open>Files as sequences of bytes\<close>

definition file_byte :: "fstate \<Rightarrow> nat \<Rightarrow> nat \<Rightarrow> u8" where
  "file_byte s S a = sect s (S + a div 512) ! (a mod 512)"

lemma file_byte_platter: "file_byte s S a = platter (hs s) (512 * (rbase s + S) + a)"
proof -
  have "sect s (S + a div 512) ! (a mod 512) = platter (hs s) (512 * (rbase s + (S + a div 512)) + a mod 512)"
    by (simp add: sect_def disk_bytes_def algebra_simps)
  moreover have "512 * (rbase s + (S + a div 512)) + a mod 512 = 512 * (rbase s + S) + a"
    using mult_div_mod_eq [of 512 a] by (simp only: distrib_left add.assoc)
  ultimately show ?thesis by (simp only: file_byte_def)
qed

lemma disk_bytes_nth: "j < 512 * k \<Longrightarrow> disk_bytes p n k ! j = p (512 * n + j)"
  by (simp add: disk_bytes_def algebra_simps)

text \<open>The parameters of the loop, for a transfer from position \<open>P\<close> to \<open>E\<close>.\<close>

lemma sector_of:
  assumes "S + x div 512 < 2 ^ 31"
  shows "sint (of_nat S + word_of_int (int x div int SECTOR_SIZE) :: u32) = int (S + x div 512)"
proof -
  have "(of_nat S + word_of_int (int x div int SECTOR_SIZE) :: u32) = of_nat (S + x div 512)"
    by (simp add: SECTOR_SIZE_def zdiv_int [symmetric, of x 512, simplified])
  then show ?thesis using sint_of_nat_small [OF assms] by (simp only:)
qed

lemma rdwt_file_eq:
  assumes "file_ok s sb pin S nr sz" "pin = inode_table s p" "fd_pos (f_desc_table s d) = int P" "P + L < 2 ^ 31"
    and E: "E = min (P + L) (if type = READ then sz else 512 * nr)" "P \<le> E" and k: "k = E div 512 - P div 512 + 1" "k \<le> 256"
    and loop: "rdwt_loop type d pin user (int (S + P div 512 + k) - 1) (int k) (int (S + P div 512)) (int (P mod 512)) 0 (int L) s = Inr (int N, moved d (int N) t)"
    and t: "fd_pos (f_desc_table t d) = int P" "inode_table t = inode_table s" "P + N < 2 ^ 31"
  shows "rdwt_file type d p user (int L) s =
    (if sz < P + N then ebind (sync_inode p (upd_inode p (\<lambda>p. p\<lparr>i_size := of_nat (P + N)\<rparr>) (moved d (int N) t))) (\<lambda>s. Inr (int N, s))
     else Inr (int N, moved d (int N) t))"
proof -
  have f: "i_start_sector pin = of_nat S" "i_nr_sectors pin = of_nat nr" "i_size pin = of_nat sz" "nr \<le> 2048" "sz \<le> 512 * nr"
    "S + nr < unat (nr_sectors sb)" using assms(1) by (simp_all add: file_ok_def)
  have S: "S + nr < 2 ^ 22" using assms(1) sectors_addressable(3) [of s sb "S + nr" 1] by (simp add: file_ok_def)
  have szi: "sint (i_size pin) = int sz" "sint (i_nr_sectors pin * of_nat SECTOR_SIZE) = int (512 * nr)"
  proof -
    show "sint (i_size pin) = int sz" unfolding f(3) using f(4,5) by (intro sint_of_nat_small) simp
    have "i_nr_sectors pin * of_nat SECTOR_SIZE = of_nat (512 * nr)" by (simp add: f(2) SECTOR_SIZE_def)
    moreover have "sint (of_nat (512 * nr) :: u32) = int (512 * nr)" using f(4) by (intro sint_of_nat_small) simp
    ultimately show "sint (i_nr_sectors pin * of_nat SECTOR_SIZE) = int (512 * nr)" by (simp only:)
  qed
  have pe: "(if type = READ then min (wrap_int (int P + int L)) (int sz) else min (wrap_int (int P + int L)) (int (512 * nr))) = int E"
    using assms(4) by (auto simp: wrap_int_id E(1) min_def)
  have En: "E \<le> 512 * nr" using E(1) f(5) by (auto split: if_splits)
  then have Ed: "E div 512 \<le> nr" "P div 512 \<le> E div 512" using div_le_mono [OF En, of 512] div_le_mono [OF E(2), of 512] by simp_all
  have mn: "sint (i_start_sector pin + word_of_int (int P div int SECTOR_SIZE)) = int (S + P div 512)"
    "sint (i_start_sector pin + word_of_int (int E div int SECTOR_SIZE)) = int (S + E div 512)"
    unfolding f(1) using S Ed by (intro sector_of, simp)+
  have mx: "int (S + E div 512) = int (S + P div 512 + k) - 1" using k(1) Ed(2) by simp
  have ch: "min (int (S + P div 512 + k) - 1 - int (S + P div 512) + 1) (FSBUF_SIZE div int SECTOR_SIZE) = int k"
    using k(2) by (simp add: FSBUF_SIZE_def SECTOR_SIZE_def)
  have off: "int P smod int SECTOR_SIZE = int (P mod 512)" using sdiv_nat(2) [of P 512] by (simp add: SECTOR_SIZE_def)
  have pos: "fd_pos (f_desc_table (moved d (int N) t) d) = int (P + N)" using t(1) by (simp add: moved_def upd_desc_def)
  have ino: "inode_table (moved d (int N) t) p = pin" using t(2) assms(2) by (simp add: moved_def upd_desc_def)
  have "sz < 2 ^ 32" using f(4,5) by simp
  then have cmp: "of_nat (P + N) > i_size pin \<longleftrightarrow> sz < P + N"
    unfolding f(3) using t(3) by (simp add: word_less_nat_alt unat_of_nat_small del: of_nat_add)
  show ?thesis
    unfolding rdwt_file_def Let_def assms(2) [symmetric] assms(3) szi pe mn off mx ch loop ebind_simps prod.case pos ino
    using cmp by simp
qed

lemma grow_ok:
  assumes "fs_layout t sb" "i_dev (inode_table t p) = ROOT_DEV" "1 \<le> i_num (inode_table t p)" "i_num (inode_table t p) \<le> 4096"
  shows "\<exists>s'. sync_inode p (upd_inode p (\<lambda>p. p\<lparr>i_size := v\<rparr>) t) = Inr s' \<and> io_frame (upd_inode p (\<lambda>p. p\<lparr>i_size := v\<rparr>) t) s'
    \<and> (\<forall>k. unat (n_1st_sector sb) \<le> k \<longrightarrow> sect s' k = sect t k)
    \<and> disk_fields s' sb (i_num (inode_table t p)) = Fs_Inode.fields ((inode_table t p)\<lparr>i_size := v\<rparr>)"
proof -
  let ?u = "upd_inode p (\<lambda>p. p\<lparr>i_size := v\<rparr>) t" and ?num = "i_num (inode_table t p)"
  define new where "new = put_list (ioff ?num) (inode_bytes (inode_table ?u p)) (sect ?u (iblk sb ?num))"
  let ?s = "put_sect (iblk sb ?num) new (set_buf new ?u)"
  have u: "fs_layout ?u sb" "i_dev (inode_table ?u p) = ROOT_DEV" "1 \<le> i_num (inode_table ?u p)" "i_num (inode_table ?u p) \<le> 4096"
    using assms by simp_all
  have len: "length new = 512" using ioff_le [of ?num] by (simp add: new_def)
  have sync: "sync_inode p ?u = Inr ?s" using sync_inode_eq [OF u, of "iblk sb ?num" new] by (simp add: new_def)
  have "disk_fields ?s sb ?num = Fs_Inode.fields ((inode_table t p)\<lparr>i_size := v\<rparr>)"
    using disk_fields_sync(2) [OF u sync, of ?num] assms(3) by simp
  moreover have "io_frame ?u ?s" using len by (rule io_frame_put_set)
  moreover have "sect ?s k = sect t k" if "unat (n_1st_sector sb) \<le> k" for k
    using that iblk_below [OF assms(1,4)] len by (simp add: sect_put_sect)
  ultimately show ?thesis using sync by blast
qed

lemma moved_simps [simp]:
  "inode_table (moved d n s) = inode_table s" "fsb (moved d n s) = fsb s" "fmem (moved d n s) = fmem s"
  "sect (moved d n s) = sect s" "fs_layout (moved d n s) sb = fs_layout s sb" "hs (moved d n s) = hs s"
  "pcaller (moved d n s) = pcaller s" "super_blocks (moved d n s) = super_blocks s" "valid_sect (moved d n s) = valid_sect s"
  by (auto simp: moved_def upd_desc_def fsb_def sect_def fun_eq_iff rbase_def valid_sect_def intro!: fs_layout_cong)

lemma apart_mono: "apart s user c \<Longrightarrow> c' \<le> c \<Longrightarrow> apart s user c'"
  by (simp add: apart_def)

lemma copied_nat:
  assumes "N < 2 ^ 32"
  shows "copied_bytes (word_of_int (int N)) = 4 * ((N + 3) div 4)"
  using unat_of_nat_small [of N, where ?'a = 32] assms by (simp add: copied_bytes_def)

text \<open>Processes, super blocks and the geometry of the disk are the same.\<close>

definition same_system :: "fstate \<Rightarrow> fstate \<Rightarrow> bool" where
  "same_system s t \<longleftrightarrow> procs (hk (hs t)) = procs (hk (hs s)) \<and> pcaller t = pcaller s \<and> fsb t = fsb s
     \<and> super_blocks t = super_blocks s \<and> valid_sect t = valid_sect s"

lemma same_system_refl: "same_system s s" by (simp add: same_system_def)

lemma same_system_layout: "same_system s t \<Longrightarrow> fs_layout t sb = fs_layout s sb"
  by (intro fs_layout_cong) (simp_all add: same_system_def)

text \<open>The state after a transfer of \<open>N\<close> bytes, but for the disk and the buffer: \<open>z\<close> is the new size.\<close>

definition advanced :: "nat \<Rightarrow> nat \<Rightarrow> nat \<Rightarrow> nat \<Rightarrow> fstate \<Rightarrow> fstate" where
  "advanced d p N z s = upd_inode p (\<lambda>p. p\<lparr>i_size := of_nat z\<rparr>) (moved d (int N) s)"

text \<open>An update of the tables commutes with input and output.\<close>

lemma io_frame_map:
  assumes "io_frame s t" "\<And>h. F (s\<lparr>hs := h\<rparr>) = (F s)\<lparr>hs := h\<rparr>" "hs (F s) = hs s"
  shows "io_frame (F s) (F t)"
proof -
  from assms(1) obtain p m where t: "t = s\<lparr>hs := (hs s)\<lparr>platter := p, hk := (hk (hs s))\<lparr>kmem := m\<rparr>\<rparr>\<rparr>"
    and m: "\<forall>x. 2 ^ 20 \<le> unat (x - fsb s) \<longrightarrow> m x = fmem s x" unfolding io_frame_def by blast
  show ?thesis unfolding io_frame_def by (rule exI [of _ p], rule exI [of _ m]) (use m assms(2,3) in \<open>simp add: t fsb_def\<close>)
qed

lemma io_frame_advanced: "io_frame s t \<Longrightarrow> io_frame (advanced d p N z s) (advanced d p N z t)"
  by (erule io_frame_map) (simp_all add: advanced_def moved_def upd_desc_def upd_inode_def)

lemma advanced_simps [simp]:
  "hs (advanced d p N z s) = hs s" "fsb (advanced d p N z s) = fsb s" "root_inode (advanced d p N z s) = root_inode s"
  "super_blocks (advanced d p N z s) = super_blocks s" "pcaller (advanced d p N z s) = pcaller s"
  "inode_table (advanced d p N z s) = (inode_table s)(p := (inode_table s p)\<lparr>i_size := of_nat z\<rparr>)"
  "f_desc_table (advanced d p N z s) = (f_desc_table s)(d := (f_desc_table s d)\<lparr>fd_pos := fd_pos (f_desc_table s d) + int N\<rparr>)"
  "valid_sect (advanced d p N z s) = valid_sect s" "fs_msg (advanced d p N z s) = fs_msg s"
  "fs_layout (advanced d p N z s) sb = fs_layout s sb"
  by (auto simp: advanced_def moved_def upd_desc_def upd_inode_def fsb_def valid_sect_def rbase_def fun_eq_iff intro!: fs_layout_cong)

text \<open>What the transfer of \<open>N\<close> bytes leaves behind: position, size, and a file system that still has its layout.\<close>

definition transferred :: "nat \<Rightarrow> nat \<Rightarrow> nat \<Rightarrow> nat \<Rightarrow> nat \<Rightarrow> fstate \<Rightarrow> fstate \<Rightarrow> bool" where
  "transferred d p P N sz s s' \<longleftrightarrow> f_desc_table s' = (f_desc_table s)(d := (f_desc_table s d)\<lparr>fd_pos := int (P + N)\<rparr>)
     \<and> inode_table s' = (inode_table s)(p := (inode_table s p)\<lparr>i_size := of_nat (max sz (P + N))\<rparr>) \<and> same_system s s'"

lemma transferredI:
  assumes "fd_pos (f_desc_table s d) = int P" "inode_table t = inode_table s" "f_desc_table t = f_desc_table s" "same_system s t"
    and "io_frame (advanced d p N (max sz (P + N)) t) s'"
  shows "transferred d p P N sz s s'"
  using assms(1-4) io_frame_simps [OF assms(5)] by (simp add: transferred_def same_system_def fun_eq_iff)

lemma finish_ok:
  assumes f: "file_ok s sb pin S nr sz" "pin = inode_table s p" and t: "inode_table t = inode_table s" "fs_layout t sb"
  shows "\<exists>s'. (if sz < P + N then ebind (sync_inode p (upd_inode p (\<lambda>p. p\<lparr>i_size := of_nat (P + N)\<rparr>) (moved d (int N) t))) (\<lambda>s. Inr (int N, s))
     else Inr (int N, moved d (int N) t)) = Inr (int N, s')
    \<and> io_frame (advanced d p N (max sz (P + N)) t) s' \<and> (\<forall>k. unat (n_1st_sector sb) \<le> k \<longrightarrow> sect s' k = sect t k)
    \<and> (sz < P + N \<longrightarrow> disk_fields s' sb (i_num pin) = Fs_Inode.fields (inode_table s' p))"
proof (cases "sz < P + N")
  case True
  let ?t = "moved d (int N) t" let ?u = "upd_inode p (\<lambda>p. p\<lparr>i_size := of_nat (P + N)\<rparr>) ?t"
  have "max sz (P + N) = P + N" using True by simp
  then have u: "?u = advanced d p N (max sz (P + N)) t" by (simp only: advanced_def)
  from grow_ok [of ?t sb p "of_nat (P + N)"] t f obtain s' where s': "sync_inode p ?u = Inr s'" "io_frame ?u s'"
    "\<And>k. unat (n_1st_sector sb) \<le> k \<Longrightarrow> sect s' k = sect ?t k"
    "disk_fields s' sb (i_num pin) = Fs_Inode.fields (pin\<lparr>i_size := of_nat (P + N)\<rparr>)" by (auto simp: file_ok_def)
  have "inode_table s' p = pin\<lparr>i_size := of_nat (P + N)\<rparr>" using io_frame_simps(1) [OF s'(2)] t(1) f(2) by simp
  with True s' show ?thesis by (intro exI [of _ s']) (simp add: u del: of_nat_add max_def)
next
  case False
  have "pin\<lparr>i_size := of_nat sz\<rparr> = pin" using f(1) by (simp add: file_ok_def)
  then have "advanced d p N (max sz (P + N)) t = moved d (int N) t"
    using False t(1) f(2) by (simp add: advanced_def upd_inode_def moved_def upd_desc_def max_absorb1 not_less)
  with False show ?thesis by (intro exI [of _ "moved d (int N) t"]) simp
qed

text \<open>The range of a transfer: \<open>N\<close> bytes of the \<open>k\<close> sectors that are read, from \<open>off\<close> on.\<close>

lemma transfer_range:
  fixes off :: nat
  assumes "N = min L (512 * k - off)" "0 < L" "0 < k" "k \<le> 256" "off < 512"
  shows "0 < N" "off + N \<le> 512 * k" "int N = min (int L) (int k * 512 - int off)" "N + 3 \<le> 131075"
  using assms by (auto simp: of_nat_diff)

lemma apart_far:
  assumes "apart s user c" "i < c"
  shows "2 ^ 20 \<le> unat (user + of_nat i - fsb s)"
proof -
  have "i < 2 ^ 32" using assms by (simp add: apart_def)
  then have "unat (of_nat i :: u32) = i" by (intro unat_of_nat_small) simp
  then have "unat (user - fsb s + of_nat i) = unat (user - fsb s) + i" using assms by (simp add: apart_def unat_word_ariths)
  moreover have "user + of_nat i - fsb s = user - fsb s + of_nat i" by simp
  ultimately show ?thesis using assms(1) by (simp only: apart_def) linarith
qed

text \<open>The number of bytes that \<open>kmemcpy\<close> moves: the length in whole words.\<close>

lemma words_copied:
  assumes "c = 4 * ((N + 3) div 4)" "N + 3 \<le> 131075" "off < 512" "apart s user (N + 3)"
  shows "copied_bytes (word_of_int (int N)) = c" "N \<le> c" "c \<le> 131075" "apart s user c"
    "disjoint_ranges (fsb s + of_nat off) user c" "disjoint_ranges user (fsb s + of_nat off) c"
proof -
  show "copied_bytes (word_of_int (int N)) = c" unfolding assms(1) using assms(2) by (intro copied_nat) simp
  show "N \<le> c" unfolding assms(1) by presburger
  have c: "c \<le> N + 3" unfolding assms(1) by presburger
  with assms(2) show c': "c \<le> 131075" by (rule order_trans [rotated])
  from assms(4) c show a: "apart s user c" by (rule apart_mono)
  have "off + c \<le> 2 ^ 19" using c' assms(3) by simp
  with a assms(3) show "disjoint_ranges (fsb s + of_nat off) user c" "disjoint_ranges user (fsb s + of_nat off) c"
    by (rule apart_disjoint)+
qed

lemma word_of_length_pos: "0 < N \<Longrightarrow> N < 2 ^ 32 \<Longrightarrow> (word_of_int (int N) :: u32) \<noteq> 0"
  using unat_of_nat_small [of N, where ?'a = 32] by (auto simp: unat_eq_zero [symmetric])

text \<open>What the reader gets.\<close>

lemma read_image:
  assumes "length bs = 512 * k" "k \<le> 256" "off + N \<le> 512 * k" "off < 512" "0 < N" "apart s user (N + 3)" "i < N"
  shows "kmemcpy (fsb s + of_nat off) user (word_of_int (int N)) (fmem (set_buf bs s)) (user + of_nat i) = bs ! (off + i)"
proof -
  define c where "c = 4 * ((N + 3) div 4)"
  have "N + 3 \<le> 131075" using assms(2,3) by simp
  note w = words_copied [OF c_def this assms(4,6)]
  have lt: "off + i < 512 * k" using assms(3,7) by simp
  have nz: "(word_of_int (int N) :: u32) \<noteq> 0" using assms(2,3,5) by (intro word_of_length_pos) simp_all
  have "kmemcpy (fsb s + of_nat off) user (word_of_int (int N)) (fmem (set_buf bs s)) (user + of_nat i) = fmem (set_buf bs s) (fsb s + of_nat off + of_nat i)"
    by (rule kmemcpy_nth [OF nz]) (use w assms(7) in simp_all)
  also have "\<dots> = bs ! (off + i)"
  proof -
    have u: "unat (of_nat (off + i) :: u32) = off + i" using lt assms(2) by (intro unat_of_nat_small) simp
    have "fsb s + of_nat off + of_nat i - fsb s = (of_nat (off + i) :: u32)" by simp
    with u lt assms(1,2) show ?thesis by (simp add: store_bytes_apply del: of_nat_add)
  qed
  finally show ?thesis .
qed

text \<open>What the writer puts into the buffer, and where memory stays as it was.\<close>

lemma write_image:
  assumes bs: "length bs = 512 * k" "k \<le> 256" and N: "off + N \<le> 512 * k" "off < 512" "0 < N" "apart s user (N + 3)"
    and c: "c = 4 * ((N + 3) div 4)" and m: "m = kmemcpy user (fsb s + of_nat off) (word_of_int (int N)) (fmem (set_buf bs s))"
  shows "j < 512 * k \<Longrightarrow> m (fsb s + of_nat j) = (if off \<le> j \<and> j < off + c then fmem s (user + of_nat (j - off)) else bs ! j)"
    "2 ^ 20 \<le> unat (x - fsb s) \<Longrightarrow> m x = fmem s x"
proof -
  have N3: "N + 3 \<le> 131075" using bs(2) N(1) by simp
  note w = words_copied [OF c N3 N(2,4)]
  have nz: "(word_of_int (int N) :: u32) \<noteq> 0" using bs(2) N(1,3) by (intro word_of_length_pos) simp_all
  have k18: "512 * k \<le> 2 ^ 17" using bs(2) by simp
  have far: "fmem (set_buf bs s) x = fmem s x" if "2 ^ 20 \<le> unat (x - fsb s)" for x
    using that k18 bs(1) by (simp add: store_bytes_outside)
  have eq: "m x = (if off \<le> unat (x - fsb s) \<and> unat (x - fsb s) < off + c then fmem (set_buf bs s) (user + (x - (fsb s + of_nat off)))
      else fmem (set_buf bs s) x)" for x
  proof -
    have "unat (x - fsb s - of_nat off) < c \<longleftrightarrow> off \<le> unat (x - fsb s) \<and> unat (x - fsb s) < off + c"
      using w(3) N(2) by (intro offset_range(1)) simp_all
    moreover have "x - (fsb s + of_nat off) = x - fsb s - of_nat off" by simp
    ultimately show ?thesis using kmemcpy_apply [OF nz, of user "fsb s + of_nat off"] w(1,6) by (simp only: m)
  qed
  show "m x = fmem s x" if "2 ^ 20 \<le> unat (x - fsb s)" for x
  proof -
    have "off + c \<le> 2 ^ 20" using w(3) N(2) by simp
    with that have "\<not> (off \<le> unat (x - fsb s) \<and> unat (x - fsb s) < off + c)" by linarith
    then show ?thesis using eq [of x] far [OF that] by (simp only: if_False)
  qed
  show "m (fsb s + of_nat j) = (if off \<le> j \<and> j < off + c then fmem s (user + of_nat (j - off)) else bs ! j)" if j: "j < 512 * k"
  proof (cases "off \<le> j \<and> j < off + c")
    case True
    have uj: "unat (fsb s + of_nat j - fsb s) = j" using j k18 by (simp add: unat_of_nat_small)
    from True have "j - off < c" by (simp add: less_diff_conv2)
    note f = far [OF apart_far [OF w(4) this]]
    have "fsb s + of_nat j - (fsb s + of_nat off) = of_nat (j - off)" using True by (simp add: of_nat_diff)
    with eq [of "fsb s + of_nat j"] f True show ?thesis by (simp only: uj if_True simp_thms)
  next
    case False
    have uj: "unat (fsb s + of_nat j - fsb s) = j" using j k18 by (simp add: unat_of_nat_small)
    have "fmem (set_buf bs s) (fsb s + of_nat j) = bs ! j" using j bs uj by (simp add: store_bytes_apply)
    with eq [of "fsb s + of_nat j"] False show ?thesis by (simp only: uj if_False)
  qed
qed

text \<open>The sectors that a transfer of bytes \<open>P\<close> up to \<open>E\<close> of a file touches.\<close>

lemma transfer_sectors:
  assumes "file_ok s sb pin S nr sz" "P \<le> E" "E \<le> 512 * nr" "k = E div 512 - P div 512 + 1"
  shows "S + P div 512 + k \<le> unat (nr_sectors sb)" "0 < k"
  using assms div_le_mono [OF assms(2), of 512] div_le_mono [OF assms(3), of 512] by (simp_all add: file_ok_def)

lemma file_read_ok:
  assumes f: "file_ok s sb pin S nr sz" "pin = inode_table s p" "fd_pos (f_desc_table s d) = int P" "P \<le> sz" "0 < L" "P + L < 2 ^ 31"
    and E: "E = min (P + L) sz" "k = E div 512 - P div 512 + 1" "k \<le> 256" and N: "N = min L (512 * k - P mod 512)"
    and a: "apart s user (N + 3)"
  shows "\<exists>s'. rdwt_file READ d p user (int L) s = Inr (int N, s') \<and> transferred d p P N sz s s'
    \<and> (\<forall>i < N. fmem s' (user + of_nat i) = file_byte s S (P + i)) \<and> (\<forall>a. file_byte s' S a = file_byte s S a)"
proof -
  let ?off = "P mod 512" and ?i = "S + P div 512" let ?bs = "disk_bytes (platter (hs s)) (rbase s + ?i) k"
  have l: "fs_layout s sb" "i_dev pin = ROOT_DEV" "unat (n_1st_sector sb) \<le> S" using f(1) by (simp_all add: file_ok_def)
  have "sz \<le> 512 * nr" using f(1) by (simp add: file_ok_def)
  then have PE: "P \<le> E" "E \<le> 512 * nr" using E(1) f(4) by simp_all
  note sec = transfer_sectors [OF f(1) PE E(2)]
  note r = transfer_range [OF N f(5) sec(2) E(3), simplified]
  define t where "t = upd_mem (kmemcpy (fsb s + of_nat ?off) user (word_of_int (int N))) (set_buf ?bs s)"
  have t: "inode_table t = inode_table s" "f_desc_table t = f_desc_table s" "same_system s t" "fs_layout t sb" "fsb t = fsb s"
    "fd_pos (f_desc_table t d) = int P" "sect t = sect s"
    using l(1) f(3) by (simp_all add: t_def same_system_def fun_eq_iff)
  have loop: "rdwt_loop READ d pin user (int (?i + k) - 1) (int k) (int ?i) (int ?off) 0 (int L) s = Inr (int N, moved d (int N) t)"
    unfolding t_def using read_pass [OF l(1,2) sec E(3) r(3)] by simp
  have PN: "P + N < 2 ^ 31" using N f(6) by simp
  have eq: "rdwt_file READ d p user (int L) s =
    (if sz < P + N then ebind (sync_inode p (upd_inode p (\<lambda>p. p\<lparr>i_size := of_nat (P + N)\<rparr>) (moved d (int N) t))) (\<lambda>s. Inr (int N, s))
     else Inr (int N, moved d (int N) t))"
    by (rule rdwt_file_eq [OF f(1,2,3,6) _ PE(1) E(2,3) loop t(6,1) PN]) (simp add: E(1))
  from finish_ok [OF f(1,2) t(1,4), of P N d, folded eq] obtain s' where s': "rdwt_file READ d p user (int L) s = Inr (int N, s')"
    "io_frame (advanced d p N (max sz (P + N)) t) s'" "\<And>k. unat (n_1st_sector sb) \<le> k \<Longrightarrow> sect s' k = sect t k" by blast
  have "fmem s' (user + of_nat i) = file_byte s S (P + i)" if i: "i < N" for i
  proof -
    have "2 ^ 20 \<le> unat (user + of_nat i - fsb s)" using a i by (intro apart_far [of s user "N + 3"]) simp_all
    then have "fmem s' (user + of_nat i) = fmem t (user + of_nat i)" using io_frame_simps(12) [OF s'(2)] t(5) by simp
    also have "\<dots> = ?bs ! (?off + i)"
      unfolding t_def upd_mem_simps by (rule read_image [OF _ E(3) r(2) _ r(1) a i]) (simp_all add: disk_bytes_def)
    also have "\<dots> = platter (hs s) (512 * (rbase s + ?i) + (?off + i))" using i r(2) by (intro disk_bytes_nth) simp
    also have "512 * (rbase s + ?i) + (?off + i) = 512 * (rbase s + S) + (P + i)"
      using mult_div_mod_eq [of 512 P] by (simp only: distrib_left add.assoc [symmetric])
    finally show ?thesis by (simp only: file_byte_platter)
  qed
  moreover have "file_byte s' S a = file_byte s S a" for a using s'(3) [of "S + a div 512"] l(3) t(7) by (simp add: file_byte_def)
  ultimately show ?thesis using s'(1) transferredI [OF f(3) t(1-3) s'(2)] by blast
qed

text \<open>The bytes of the file after its sectors from \<open>b\<close> on are replaced.\<close>

lemma put_file_bytes:
  assumes "length img = 512 * k" "rbase t = rbase s" "platter (hs t) = put_bytes (512 * (rbase s + (S + b))) img (platter (hs s))"
  shows "file_byte t S x = (if 512 * b \<le> x \<and> x < 512 * (b + k) then img ! (x - 512 * b) else file_byte s S x)"
    "n < S + b \<or> S + b + k \<le> n \<Longrightarrow> sect t n = sect s n"
proof -
  have base: "512 * (rbase s + (S + b)) = 512 * (rbase s + S) + 512 * b" by (simp add: distrib_left)
  show "file_byte t S x = (if 512 * b \<le> x \<and> x < 512 * (b + k) then img ! (x - 512 * b) else file_byte s S x)"
    unfolding file_byte_platter assms(2,3) put_bytes_def base assms(1) by (auto simp: distrib_left)
  assume n: "n < S + b \<or> S + b + k \<le> n"
  have "\<not> (512 * (rbase s + (S + b)) \<le> x \<and> x < 512 * (rbase s + (S + b)) + 512 * k)"
    if "x \<in> {512 * (rbase s + n)..<512 * (rbase s + n) + 512}" for x
    using n that by auto
  then have "platter (hs t) x = platter (hs s) x" if "x \<in> {512 * (rbase s + n)..<512 * (rbase s + n) + 512}" for x
    using that unfolding assms(3) put_bytes_def assms(1) by (intro if_not_P)
  then show "sect t n = sect s n" by (simp add: sect_def disk_bytes_def assms(2) del: distrib_left_numeral)
qed

lemma written_bytes:
  fixes P S k c :: nat and w :: "nat \<Rightarrow> u8"
  defines "off \<equiv> P mod 512" and "b \<equiv> P div 512"
  assumes t: "file_byte t S x = (if 512 * b \<le> x \<and> x < 512 * (b + k) then img ! (x - 512 * b) else file_byte s S x)"
    and img: "\<And>j. j < 512 * k \<Longrightarrow> img ! j = (if off \<le> j \<and> j < off + c then w (j - off) else disk_bytes (platter (hs s)) (rbase s + (S + b)) k ! j)"
  shows "file_byte t S x = (if P \<le> x \<and> x < P + c \<and> x < 512 * (b + k) then w (x - P) else file_byte s S x)"
proof (cases "512 * b \<le> x \<and> x < 512 * (b + k)")
  case True
  then obtain j where j: "x = 512 * b + j" "j < 512 * k" by (metis le_Suc_ex nat_add_left_cancel_less distrib_left)
  have "disk_bytes (platter (hs s)) (rbase s + (S + b)) k ! j = file_byte s S x"
    using disk_bytes_nth [OF j(2)] by (simp add: file_byte_platter j(1) distrib_left add.assoc del: mult_div_mod_eq)
  moreover have "P = 512 * b + off" by (simp add: b_def off_def)
  then have "P \<le> x \<longleftrightarrow> off \<le> j" "x < P + c \<longleftrightarrow> j < off + c" "x - P = j - off" "x - 512 * b = j"
    using j(1) by linarith+
  ultimately show ?thesis unfolding t if_P [OF True] using True img [OF j(2)] by (simp only: simp_thms)
next
  case False
  moreover have "512 * b \<le> P" by (simp add: b_def)
  ultimately have "\<not> (P \<le> x \<and> x < P + c \<and> x < 512 * (b + k))" by linarith
  with False show ?thesis unfolding t by (simp only: if_False)
qed

lemma hk_platter: "h\<lparr>hk := a, platter := b\<rparr> = h\<lparr>platter := b, hk := a\<rparr>"
  by (cases h) simp

lemma file_write_ok:
  assumes f: "file_ok s sb pin S nr sz" "pin = inode_table s p" "fd_pos (f_desc_table s d) = int P" "P \<le> 512 * nr" "0 < L" "P + L < 2 ^ 31"
    and E: "E = min (P + L) (512 * nr)" "k = E div 512 - P div 512 + 1" "k \<le> 256" and N: "N = min L (512 * k - P mod 512)"
    and a: "apart s user (N + 3)" and c: "c = 4 * ((N + 3) div 4)"
  shows "\<exists>s'. rdwt_file WRITE d p user (int L) s = Inr (int N, s') \<and> io_frame (advanced d p N (max sz (P + N)) s) s'
    \<and> (\<forall>a. file_byte s' S a = (if P \<le> a \<and> a < P + c \<and> a < 512 * (P div 512 + k)
         then fmem s (user + of_nat (a - P)) else file_byte s S a))
    \<and> (\<forall>n. unat (n_1st_sector sb) \<le> n \<and> n < S \<longrightarrow> sect s' n = sect s n)
    \<and> (sz < P + N \<longrightarrow> disk_fields s' sb (i_num pin) = Fs_Inode.fields (inode_table s' p))"
proof -
  let ?off = "P mod 512" and ?b = "P div 512" let ?i = "S + ?b" let ?bs = "disk_bytes (platter (hs s)) (rbase s + ?i) k"
  have l: "fs_layout s sb" "i_dev pin = ROOT_DEV" "unat (n_1st_sector sb) \<le> S" using f(1) by (simp_all add: file_ok_def)
  have PE: "P \<le> E" "E \<le> 512 * nr" using E(1) f(4) by simp_all
  note sec = transfer_sectors [OF f(1) PE E(2)]
  note r = transfer_range [OF N f(5) sec(2) E(3), simplified]
  define m where "m = kmemcpy user (fsb s + of_nat ?off) (word_of_int (int N)) (fmem (set_buf ?bs s))"
  have len: "length ?bs = 512 * k" "?off < 512" by (simp_all add: disk_bytes_def)
  note image = write_image [OF len(1) E(3) r(2) len(2) r(1) a c m_def]
  define img where "img = load_bytes m (fsb s) (512 * k)"
  define t where "t = s\<lparr>hs := (hs s)\<lparr>platter := put_bytes (512 * (rbase s + ?i)) img (platter (hs s)), hk := (hk (hs s))\<lparr>kmem := m\<rparr>\<rparr>\<rparr>"
  have fr: "io_frame s t" unfolding io_frame_def t_def using image(2) by blast
  note t = io_frame_simps [OF fr]
  have fields: "inode_table t = inode_table s" "fd_pos (f_desc_table t d) = int P" "fs_layout t sb" using t(1,2,11) f(3) l(1) by simp_all
  have loop: "rdwt_loop WRITE d pin user (int (?i + k) - 1) (int k) (int ?i) (int ?off) 0 (int L) s = Inr (int N, moved d (int N) t)"
    using write_pass [OF l(1,2) sec E(3) r(3) refl, of d user] by (simp add: t_def img_def m_def set_buf_def upd_mem_def set_kmem_def hk_platter del: load_bytes.simps)
  have PN: "P + N < 2 ^ 31" using N f(6) by simp
  have neq: "WRITE \<noteq> READ" by (simp add: fs_msg_consts)
  have eq: "rdwt_file WRITE d p user (int L) s =
    (if sz < P + N then ebind (sync_inode p (upd_inode p (\<lambda>p. p\<lparr>i_size := of_nat (P + N)\<rparr>) (moved d (int N) t))) (\<lambda>s. Inr (int N, s))
     else Inr (int N, moved d (int N) t))"
    by (rule rdwt_file_eq [OF f(1,2,3,6) _ PE(1) E(2,3) loop fields(2,1) PN]) (simp add: E(1) neq)
  from finish_ok [OF f(1,2) fields(1,3), of P N d, folded eq] obtain s' where s': "rdwt_file WRITE d p user (int L) s = Inr (int N, s')"
    "io_frame (advanced d p N (max sz (P + N)) t) s'" "\<And>k. unat (n_1st_sector sb) \<le> k \<Longrightarrow> sect s' k = sect t k"
    "sz < P + N \<longrightarrow> disk_fields s' sb (i_num pin) = Fs_Inode.fields (inode_table s' p)" by blast
  have img: "length img = 512 * k" "\<And>j. j < 512 * k \<Longrightarrow> img ! j = m (fsb s + of_nat j)" by (simp_all add: img_def nth_load_bytes del: load_bytes.simps)
  have plat: "platter (hs t) = put_bytes (512 * (rbase s + (S + ?b))) img (platter (hs s))" by (simp add: t_def)
  note put = put_file_bytes [OF img(1) t(9) plat]
  have "file_byte s' S x = (if P \<le> x \<and> x < P + c \<and> x < 512 * (?b + k) then fmem s (user + of_nat (x - P)) else file_byte s S x)" for x
    using s'(3) [of "S + x div 512"] l(3) written_bytes [OF put(1) img(2) [THEN trans, OF _ image(1)], of x] by (simp add: file_byte_def)
  moreover have "sect s' n = sect s n" if "unat (n_1st_sector sb) \<le> n" "n < S" for n
    using s'(3) [OF that(1)] put(2) [of n] that(2) by simp
  ultimately show ?thesis using s'(1,4) io_frame_trans [OF io_frame_advanced [OF fr] s'(2)] by blast
qed

section \<open>The system calls read and write\<close>

text \<open>The descriptor \<open>fd\<close> of the request refers to the regular file with the inode \<open>p\<close>, opened for reading and writing.\<close>

definition opened :: "fstate \<Rightarrow> nat \<Rightarrow> nat \<Rightarrow> u32 \<Rightarrow> bool" where
  "opened s d p base \<longleftrightarrow> 0 \<le> m_FD (fs_msg s) \<and> m_FD (fs_msg s) < int NR_FILES \<and> caller_filp s (nat (m_FD (fs_msg s))) = Some d
     \<and> fd_mode (f_desc_table s d) AND O_RDWR \<noteq> 0 \<and> fd_inode (f_desc_table s d) = Some p
     \<and> i_mode (inode_table s p) = I_REGULAR \<and> ldt_proc_id2base (m_source (fs_msg s)) (hk (hs s)) = Inr base"

lemma do_rdwt_file:
  assumes "opened s d p base" "m_type (fs_msg s) = type" "type = READ \<or> type = WRITE"
  shows "do_rdwt s = rdwt_file type d p (vir2linear base (m_BUF (fs_msg s))) (m_CNT (fs_msg s)) s"
  using assms by (auto simp: opened_def do_rdwt_def Let_def I_REGULAR_def I_TYPE_MASK_def I_CHAR_SPECIAL_def)

lemma within_sector: "x mod n + l \<le> n \<Longrightarrow> x + l \<le> n * (x div n) + (n :: nat)"
  by (metis add.assoc add_le_cancel_left mult_div_mod_eq)

lemma read_within:
  assumes o: "opened s d p base" "m_type (fs_msg s) = READ" "m_CNT (fs_msg s) = int L" "user = vir2linear base (m_BUF (fs_msg s))"
    and f: "file_ok s sb (inode_table s p) S nr sz" "fd_pos (f_desc_table s d) = int P" "0 < L" "P + L \<le> sz"
    and k: "(P + L) div 512 - P div 512 < 256" and a: "apart s user (L + 3)"
  shows "\<exists>s'. do_rdwt s = Inr (int L, s') \<and> (\<forall>i \<in> {..<L}. fmem s' (user + of_nat i) = file_byte s S (P + i))
    \<and> fd_pos (f_desc_table s' d) = int (P + L) \<and> inode_table s' = inode_table s \<and> (\<forall>a. file_byte s' S a = file_byte s S a)
    \<and> transferred d p P L sz s s'"
proof -
  let ?k = "(P + L) div 512 - P div 512 + 1"
  have sz: "sz \<le> 2 ^ 20" and sz32: "i_size (inode_table s p) = of_nat sz" using f(1) by (simp_all add: file_ok_def)
  have le: "P div 512 \<le> (P + L) div 512" by (rule div_le_mono) simp
  have end_k: "P + L < 512 * (P div 512 + ?k)"
    using le mod_less_divisor [of 512 "P + L"] mult_div_mod_eq [of 512 "P + L"] by (simp add: distrib_left)
  have "P mod 512 + L < 512 * ?k" using end_k mult_div_mod_eq [of 512 P] unfolding distrib_left by linarith
  then have N: "L = min L (512 * ?k - P mod 512)" by simp
  have "\<exists>s'. rdwt_file READ d p user (int L) s = Inr (int L, s') \<and> transferred d p P L sz s s'
    \<and> (\<forall>i < L. fmem s' (user + of_nat i) = file_byte s S (P + i)) \<and> (\<forall>a. file_byte s' S a = file_byte s S a)"
    by (rule file_read_ok [OF f(1) refl f(2) _ f(3) _ _ refl _ N a]) (use f(4) sz k in simp_all)
  then obtain s' where s': "rdwt_file READ d p user (int L) s = Inr (int L, s')" "transferred d p P L sz s s'"
    "\<forall>i < L. fmem s' (user + of_nat i) = file_byte s S (P + i)" "\<forall>a. file_byte s' S a = file_byte s S a" by blast
  have "inode_table s' = inode_table s" using s'(2) f(4) sz32 by (simp add: transferred_def max_absorb1 fun_upd_idem)
  with s' show ?thesis using do_rdwt_file [OF o(1,2)] o(3,4) by (simp add: transferred_def)
qed

text \<open>
  A read inside of a file copies the bytes at the position of the descriptor to the caller, moves the position behind them and
  changes neither the file nor its size. The request may span sectors, up to the 256 that the driver can be asked for.
\<close>

theorem do_rdwt_read:
  assumes o: "opened s d p base" "m_type (fs_msg s) = READ" "m_CNT (fs_msg s) = int L" "user = vir2linear base (m_BUF (fs_msg s))"
    and f: "file_ok s sb (inode_table s p) S nr sz" "fd_pos (f_desc_table s d) = int P" "0 < L" "P + L \<le> sz"
    and k: "(P + L) div 512 - P div 512 < 256" and a: "apart s user (L + 3)"
  shows "\<exists>s'. do_rdwt s = Inr (int L, s') \<and> (\<forall>i \<in> {..<L}. fmem s' (user + of_nat i) = file_byte s S (P + i))
    \<and> fd_pos (f_desc_table s' d) = int (P + L) \<and> inode_table s' = inode_table s \<and> (\<forall>a. file_byte s' S a = file_byte s S a)"
  using read_within [OF assms] by blast

text \<open>
  A read that goes past the end of the file inside of its last sector is not cut off at the end: it returns all the bytes asked for and the
  file grows to the end of the read.
\<close>

theorem do_rdwt_read_past_end:
  assumes o: "opened s d p base" "m_type (fs_msg s) = READ" "m_CNT (fs_msg s) = int L" "user = vir2linear base (m_BUF (fs_msg s))"
    and f: "file_ok s sb (inode_table s p) S nr sz" "fd_pos (f_desc_table s d) = int P" "P \<le> sz" "sz < P + L"
    and k: "P mod 512 + L \<le> 512" and a: "apart s user (L + 3)"
  shows "\<exists>s'. do_rdwt s = Inr (int L, s') \<and> i_size (inode_table s' p) = of_nat (P + L) \<and> i_size (inode_table s p) = of_nat sz"
proof -
  have sz: "sz \<le> 2 ^ 20" "i_size (inode_table s p) = of_nat sz" using f(1) by (simp_all add: file_ok_def)
  have "sz div 512 = P div 512"
  proof (rule div_nat_eqI)
    show "512 * (P div 512) \<le> sz" using f(3) by (rule order_trans [rotated]) simp
    have "P + L \<le> 512 * (P div 512) + 512" using k by (rule within_sector)
    with f(4) show "sz < 512 * Suc (P div 512)" by simp
  qed
  then have k1: "1 = sz div 512 - P div 512 + 1" by simp
  have N: "L = min L (512 * 1 - P mod 512)" using k by simp
  have "\<exists>s'. rdwt_file READ d p user (int L) s = Inr (int L, s') \<and> transferred d p P L sz s s'
    \<and> (\<forall>i < L. fmem s' (user + of_nat i) = file_byte s S (P + i)) \<and> (\<forall>a. file_byte s' S a = file_byte s S a)"
    by (rule file_read_ok [OF f(1) refl f(2,3) _ _ _ k1 _ N a]) (use f(3,4) k sz in simp_all)
  then obtain s' where "rdwt_file READ d p user (int L) s = Inr (int L, s')" "transferred d p P L sz s s'" by blast
  then show ?thesis using do_rdwt_file [OF o(1,2)] o(3,4) f(4) sz(2) by (simp add: transferred_def max_absorb2)
qed

lemma write_within:
  assumes o: "opened s d p base" "m_type (fs_msg s) = WRITE" "m_CNT (fs_msg s) = int L" "user = vir2linear base (m_BUF (fs_msg s))"
    and f: "file_ok s sb (inode_table s p) S nr sz" "fd_pos (f_desc_table s d) = int P" "0 < L" "P + L \<le> 512 * nr"
    and k: "(P + L) div 512 - P div 512 < 256" "L mod 4 = 0" and a: "apart s user (L + 3)"
  shows "\<exists>s'. do_rdwt s = Inr (int L, s')
    \<and> (\<forall>a. file_byte s' S a = (if P \<le> a \<and> a < P + L then fmem s (user + of_nat (a - P)) else file_byte s S a))
    \<and> io_frame (advanced d p L (max sz (P + L)) s) s' \<and> (\<forall>n. unat (n_1st_sector sb) \<le> n \<and> n < S \<longrightarrow> sect s' n = sect s n)
    \<and> (sz < P + L \<longrightarrow> disk_fields s' sb (i_num (inode_table s p)) = Fs_Inode.fields (inode_table s' p))"
proof -
  let ?k = "(P + L) div 512 - P div 512 + 1"
  have nr: "nr \<le> 2048" using f(1) by (simp add: file_ok_def)
  have le: "P div 512 \<le> (P + L) div 512" by (rule div_le_mono) simp
  have end_k: "P + L < 512 * (P div 512 + ?k)"
    using le mod_less_divisor [of 512 "P + L"] mult_div_mod_eq [of 512 "P + L"] by (simp add: distrib_left)
  have "P mod 512 + L < 512 * ?k" using end_k mult_div_mod_eq [of 512 P] unfolding distrib_left by linarith
  then have N: "L = min L (512 * ?k - P mod 512)" by simp
  have c: "L = 4 * ((L + 3) div 4)" using k(2) by presburger
  have "\<exists>s'. rdwt_file WRITE d p user (int L) s = Inr (int L, s') \<and> io_frame (advanced d p L (max sz (P + L)) s) s'
    \<and> (\<forall>a. file_byte s' S a = (if P \<le> a \<and> a < P + L \<and> a < 512 * (P div 512 + ?k) then fmem s (user + of_nat (a - P)) else file_byte s S a))
    \<and> (\<forall>n. unat (n_1st_sector sb) \<le> n \<and> n < S \<longrightarrow> sect s' n = sect s n)
    \<and> (sz < P + L \<longrightarrow> disk_fields s' sb (i_num (inode_table s p)) = Fs_Inode.fields (inode_table s' p))"
    by (rule file_write_ok [OF f(1) refl f(2) _ f(3) _ _ refl _ N a c]) (use f(4) nr k in simp_all)
  then obtain s' where s': "rdwt_file WRITE d p user (int L) s = Inr (int L, s')" "io_frame (advanced d p L (max sz (P + L)) s) s'"
    "\<And>a. file_byte s' S a = (if P \<le> a \<and> a < P + L \<and> a < 512 * (P div 512 + ?k) then fmem s (user + of_nat (a - P)) else file_byte s S a)"
    "\<forall>n. unat (n_1st_sector sb) \<le> n \<and> n < S \<longrightarrow> sect s' n = sect s n"
    "sz < P + L \<longrightarrow> disk_fields s' sb (i_num (inode_table s p)) = Fs_Inode.fields (inode_table s' p)" by blast
  have "(P \<le> a \<and> a < P + L \<and> a < 512 * (P div 512 + ?k)) = (P \<le> a \<and> a < P + L)" for a using end_k by linarith
  with s' show ?thesis using do_rdwt_file [OF o(1,2)] o(3,4) by simp
qed

text \<open>
  C26: a write inside of the space of a file puts the caller's bytes at the position of the descriptor, moves the position behind them,
  extends the size when needed and leaves every other byte of the disk behind the inodes as it was. The length is
  a multiple of four, because \<open>kmemcpy\<close> rounds it up.
\<close>

theorem do_rdwt_write:
  assumes o: "opened s d p base" "m_type (fs_msg s) = WRITE" "m_CNT (fs_msg s) = int L" "user = vir2linear base (m_BUF (fs_msg s))"
    and f: "file_ok s sb (inode_table s p) S nr sz" "fd_pos (f_desc_table s d) = int P" "0 < L" "P + L \<le> 512 * nr"
    and k: "(P + L) div 512 - P div 512 < 256" "L mod 4 = 0" and a: "apart s user (L + 3)"
  shows "\<exists>s'. do_rdwt s = Inr (int L, s')
    \<and> (\<forall>a. file_byte s' S a = (if P \<le> a \<and> a < P + L then fmem s (user + of_nat (a - P)) else file_byte s S a))
    \<and> fd_pos (f_desc_table s' d) = int (P + L) \<and> i_size (inode_table s' p) = of_nat (max sz (P + L))"
proof -
  from write_within [OF assms] obtain s' where s': "do_rdwt s = Inr (int L, s')" "io_frame (advanced d p L (max sz (P + L)) s) s'"
    "\<forall>a. file_byte s' S a = (if P \<le> a \<and> a < P + L then fmem s (user + of_nat (a - P)) else file_byte s S a)" by blast
  from io_frame_simps(1,2) [OF s'(2)] f(2) s'(1,3) show ?thesis by (intro exI [of _ s']) simp
qed

text \<open>
  C27: a write that goes past the space of a file is not cut off at its end either: the bytes behind the end land in the sector behind
  the file, which is the first sector of the next file.
\<close>

theorem do_rdwt_write_overruns:
  assumes o: "opened s d p base" "m_type (fs_msg s) = WRITE" "m_CNT (fs_msg s) = int L" "user = vir2linear base (m_BUF (fs_msg s))"
    and f: "file_ok s sb (inode_table s p) S nr sz" "fd_pos (f_desc_table s d) = int P" "P \<le> 512 * nr" "512 * nr < P + L"
    and k: "P + L \<le> 512 * nr + 512" "nr - P div 512 < 256" and a: "apart s user (L + 3)"
  shows "\<exists>s'. do_rdwt s = Inr (int L, s') \<and> (\<forall>i \<in> {..<P + L - 512 * nr}. sect s' (S + nr) ! i = fmem s (user + of_nat (512 * nr - P + i)))"
proof -
  let ?k = "512 * nr div 512 - P div 512 + 1"
  have nr: "nr \<le> 2048" using f(1) by (simp add: file_ok_def)
  have le: "P div 512 \<le> nr" using div_le_mono [OF f(3), of 512] by simp
  have end_k: "512 * (P div 512 + ?k) = 512 * nr + 512" using le by (simp add: distrib_left)
  have "P mod 512 + L \<le> 512 * ?k" using end_k k(1) mult_div_mod_eq [of 512 P] unfolding distrib_left by linarith
  then have N: "L = min L (512 * ?k - P mod 512)" by simp
  from file_write_ok [OF f(1) refl f(2,3) _ _ refl _ _ N a refl] f(3,4) nr k obtain s' where s': "rdwt_file WRITE d p user (int L) s = Inr (int L, s')"
    "\<And>a. file_byte s' S a = (if P \<le> a \<and> a < P + 4 * ((L + 3) div 4) \<and> a < 512 * (P div 512 + ?k) then fmem s (user + of_nat (a - P)) else file_byte s S a)"
    by (auto simp: min_def)
  have c: "L \<le> 4 * ((L + 3) div 4)" by presburger
  have "sect s' (S + nr) ! i = fmem s (user + of_nat (512 * nr - P + i))" if i: "i < P + L - 512 * nr" for i
  proof -
    have i5: "i < 512" using i k(1) by simp
    have "file_byte s' S (512 * nr + i) = fmem s (user + of_nat (512 * nr + i - P))"
    proof -
      have "512 * nr + i < P + L" using i by simp
      also have "\<dots> \<le> P + 4 * ((L + 3) div 4)" using c by simp
      finally have "P \<le> 512 * nr + i \<and> 512 * nr + i < P + 4 * ((L + 3) div 4) \<and> 512 * nr + i < 512 * nr + 512"
        using f(3) i5 by simp
      then show ?thesis unfolding s'(2) end_k by (rule if_P)
    qed
    moreover have "file_byte s' S (512 * nr + i) = sect s' (S + nr) ! i" using i5 by (simp add: file_byte_def)
    moreover have "512 * nr + i - P = 512 * nr - P + i" using f(3) by simp
    ultimately show ?thesis by (simp only:)
  qed
  with s'(1) show ?thesis using do_rdwt_file [OF o(1,2)] o(3,4) by simp
qed

lemma ldt_base_cong:
  assumes "ldt_proc_id2base q k = Inr b" "procs k' = procs k"
  shows "ldt_proc_id2base q k' = Inr b"
proof -
  have "valid_pid q" using assms(1) by (rule ldt_base_ok)
  then have v: "\<not> \<not> valid_pid q" by simp
  show ?thesis using assms unfolding ldt_proc_id2base_def if_not_P [OF v] by (simp only:)
qed

lemma opened_after:
  assumes "transferred d p P N sz s s'" "opened (s\<lparr>fs_msg := m\<rparr>) d' p base" "d' \<noteq> d"
  shows "opened (s'\<lparr>fs_msg := m\<rparr>) d' p base" "f_desc_table s' d' = f_desc_table s d'"
  using assms ldt_base_cong [of "m_source m" "hk (hs s)" base "hk (hs s')"]
  by (simp_all add: opened_def transferred_def same_system_def caller_filp_def)

text \<open>
  What is written to a file is read back from it: after a write through one descriptor, a read of the same length at the same
  position through another one gives the reader the bytes that were in the writer's buffer.
\<close>

theorem file_write_read:
  assumes o: "opened s d p base" "m_type (fs_msg s) = WRITE" "m_CNT (fs_msg s) = int L" "user = vir2linear base (m_BUF (fs_msg s))"
    and f: "file_ok s sb (inode_table s p) S nr sz" "fd_pos (f_desc_table s d) = int P" "0 < L" "P + L \<le> 512 * nr"
    and k: "(P + L) div 512 - P div 512 < 256" "L mod 4 = 0" and a: "apart s user (L + 3)"
    and m: "opened (s\<lparr>fs_msg := m\<rparr>) d' p base'" "m_type m = READ" "m_CNT m = int L" "user' = vir2linear base' (m_BUF m)"
      "fd_pos (f_desc_table s d') = int P" "d' \<noteq> d" "apart s user' (L + 3)"
  shows "\<exists>s1 s2. do_rdwt s = Inr (int L, s1) \<and> do_rdwt (s1\<lparr>fs_msg := m\<rparr>) = Inr (int L, s2)
    \<and> (\<forall>i \<in> {..<L}. fmem s2 (user' + of_nat i) = fmem s (user + of_nat i))"
proof -
  from write_within [OF o f k a] obtain s1 where w: "do_rdwt s = Inr (int L, s1)" "io_frame (advanced d p L (max sz (P + L)) s) s1"
    "\<And>a. file_byte s1 S a = (if P \<le> a \<and> a < P + L then fmem s (user + of_nat (a - P)) else file_byte s S a)" by blast
  note s1 = w(1) transferredI [OF f(2) refl refl same_system_refl w(2)] w(3)
  let ?t = "s1\<lparr>fs_msg := m\<rparr>"
  note opn = opened_after [OF s1(2) m(1,6)]
  have same: "same_system s s1" and tab: "inode_table s1 p = (inode_table s p)\<lparr>i_size := of_nat (max sz (P + L))\<rparr>"
    using s1(2) by (simp_all add: transferred_def)
  have t: "fs_layout ?t sb = fs_layout s sb" "fsb ?t = fsb s" "file_byte ?t S a = file_byte s1 S a" for a
  proof -
    have "fs_layout ?t sb = fs_layout s1 sb" by (rule fs_layout_cong) (simp_all add: valid_sect_def rbase_def fun_eq_iff)
    then show "fs_layout ?t sb = fs_layout s sb" using same_system_layout [OF same] by simp
    show "fsb ?t = fsb s" using same by (simp add: same_system_def fsb_def)
    show "file_byte ?t S a = file_byte s1 S a" by (simp add: file_byte_def sect_def rbase_def)
  qed
  have "file_ok ?t sb (inode_table ?t p) S nr (max sz (P + L))" using f(1,4) t(1) by (simp add: file_ok_def tab)
  moreover have "apart ?t user' (L + 3)" using m(7) t(2) by (simp add: apart_def)
  ultimately have "\<exists>s2. do_rdwt ?t = Inr (int L, s2) \<and> (\<forall>i \<in> {..<L}. fmem s2 (user' + of_nat i) = file_byte ?t S (P + i))
    \<and> fd_pos (f_desc_table s2 d') = int (P + L) \<and> inode_table s2 = inode_table ?t \<and> (\<forall>a. file_byte s2 S a = file_byte ?t S a)
    \<and> transferred d' p P L (max sz (P + L)) ?t s2"
    using opn m f(3) k(1) by (intro read_within [of ?t d' p base' L user' sb S nr "max sz (P + L)" P]) simp_all
  then obtain s2 where "do_rdwt ?t = Inr (int L, s2)" "\<forall>i \<in> {..<L}. fmem s2 (user' + of_nat i) = file_byte ?t S (P + i)" by blast
  with s1(1) show ?thesis by (intro exI [of _ s1] exI [of _ s2]) (simp add: t(3) s1(3))
qed

end
