(* ===== verification/Fs_Create.thy ===== *)
theory Fs_Create
  imports Fs_Files Fs_Refs Fs_Slots
begin

text \<open>
  Creating a file: the inode map, the sector map, the table of inodes, the sector of the inode and the directory change
  together, and leave a file that the lemmas about searching, reading and writing apply to.
\<close>

section \<open>A new inode\<close>

definition new_file :: "nat \<Rightarrow> nat \<Rightarrow> inode" where
  "new_file start num = \<lparr>i_mode = I_REGULAR, i_size = 0, i_start_sector = of_nat start, i_nr_sectors = 2048,
     i_dev = ROOT_DEV, i_cnt = 1, i_num = int num\<rparr>"

lemma io_frame_upd_inode:
  assumes "length bs = 512" "length new = 512"
  shows "io_frame (upd_inode q f s) (put_sect b new (set_buf new (upd_inode q f (set_buf bs s))))"
proof -
  have "upd_inode q f (set_buf bs s) = set_buf bs (upd_inode q f s)" by (simp add: upd_inode_def set_buf_def upd_mem_def fsb_def)
  then show ?thesis using assms by (simp add: io_frame_put_set)
qed

lemma new_inode_ok:
  assumes l: "fs_layout s sb" and num: "1 \<le> num" "num \<le> 4096" and fresh: "\<forall>p. \<not> holds s ROOT_DEV (int num) p"
    and free: "\<exists>p < NR_INODE. \<not> in_use s p"
  shows "\<exists>q s'. new_inode ROOT_DEV (int num) (int start) s = Inr (q, s') \<and> q < NR_INODE \<and> \<not> in_use s q
    \<and> io_frame (upd_inode q (\<lambda>_. new_file start num) s) s'
    \<and> (\<forall>n \<in> {1..4096}. disk_fields s' sb n = (if n = int num then (I_REGULAR, 0, of_nat start, 2048) else disk_fields s sb n))
    \<and> (\<forall>k. k \<noteq> iblk sb (int num) \<longrightarrow> sect s' k = sect s k)"
proof -
  have num': "1 \<le> int num" "int num \<le> 4096" using num by simp_all
  from get_inode_new [OF l num' fresh free] obtain q bs where q: "q < NR_INODE" "\<not> in_use s q" "length bs = 512"
    and get: "get_inode ROOT_DEV (int num) s = Inr (Some q, upd_inode q (\<lambda>p. read_inode (sect s (iblk sb (int num))) (ioff (int num))
       (p\<lparr>i_dev := ROOT_DEV, i_num := int num, i_cnt := 1\<rparr>)) (set_buf bs s))" by blast
  define t where "t = upd_inode q (\<lambda>_. new_file start num) (set_buf bs s)"
  have t: "upd_inode q (\<lambda>p. p\<lparr>i_mode := I_REGULAR, i_size := 0, i_start_sector := word_of_int (int start),
              i_nr_sectors := word_of_int NR_DEFAULT_FILE_SECTS, i_dev := ROOT_DEV, i_cnt := 1, i_num := int num\<rparr>)
       (upd_inode q (\<lambda>p. read_inode (sect s (iblk sb (int num))) (ioff (int num)) (p\<lparr>i_dev := ROOT_DEV, i_num := int num, i_cnt := 1\<rparr>)) (set_buf bs s)) = t"
    by (cases "inode_table s q") (simp add: t_def upd_inode_def new_file_def NR_DEFAULT_FILE_SECTS_def read_inode_def)
  have tq: "inode_table t q = new_file start num" by (simp add: t_def)
  have lt: "fs_layout t sb" using l by (simp add: t_def)
  have p: "i_dev (inode_table t q) = ROOT_DEV" "1 \<le> i_num (inode_table t q)" "i_num (inode_table t q) \<le> 4096"
    using num' by (simp_all add: tq new_file_def)
  define new where "new = put_list (ioff (int num)) (inode_bytes (new_file start num)) (sect t (iblk sb (int num)))"
  define s' where "s' = put_sect (iblk sb (int num)) new (set_buf new t)"
  have inum: "i_num (new_file start num) = int num" by (simp add: new_file_def)
  have sync: "sync_inode q t = Inr s'"
    unfolding s'_def by (rule sync_inode_eq [OF lt p]) (simp_all add: tq inum new_def)
  have len: "length new = 512" using ioff_le [of "int num"] by (simp add: new_def)
  have "new_inode ROOT_DEV (int num) (int start) s = Inr (q, s')"
    by (simp add: new_inode_def get Let_def t [simplified] sync)
  moreover have "io_frame (upd_inode q (\<lambda>_. new_file start num) s) s'"
    unfolding s'_def t_def by (rule io_frame_upd_inode [OF q(3) len])
  moreover have "disk_fields s' sb n = (if n = int num then (I_REGULAR, 0, of_nat start, 2048) else disk_fields s sb n)" if "1 \<le> n" for n
    using disk_fields_sync(2) [OF lt p sync that] by (simp add: tq inum) (simp add: Fs_Inode.fields_def new_file_def disk_fields_def t_def)
  moreover have "sect s' k = sect s k" if "k \<noteq> iblk sb (int num)" for k
    using disk_fields_sync(3) [OF lt p sync, of k] that by (simp add: tq inum t_def)
  ultimately show ?thesis using q by (intro exI [of _ q] exI [of _ s']) simp
qed

lemma io_frame_upd: "io_frame s t \<Longrightarrow> io_frame (upd_inode q f s) (upd_inode q f t)"
  by (erule io_frame_map) (simp_all add: upd_inode_def)

text \<open>The lowest inode number that is free.\<close>

definition free_inode :: "fstate \<Rightarrow> nat \<Rightarrow> bool" where
  "free_inode s i \<longleftrightarrow> 0 < i \<and> i < 4096 \<and> \<not> bit_at (sect s 2) i \<and> (\<forall>j < i. bit_at (sect s 2) j)"

lemma alloc_free_inode:
  assumes "fs_layout s sb" "free_inode s i"
  shows "\<exists>s'. alloc_imap_bit ROOT_DEV s = Inr (int i, s') \<and> io_frame s s' \<and> (\<forall>k. k \<noteq> 2 \<longrightarrow> sect s' k = sect s k)
    \<and> (\<forall>j < 4096. bit_at (sect s' 2) j \<longleftrightarrow> bit_at (sect s 2) j \<or> j = i)"
proof -
  have nf: "\<not> (\<forall>i \<in> {..<4096}. bit_at (sect s 2) i)" using assms(2) by (auto simp: free_inode_def)
  from alloc_imap_bit_ok [OF assms(1), unfolded if_not_P [OF nf]] obtain n s' where s': "alloc_imap_bit ROOT_DEV s = Inr (int n, s')" "io_frame s s'"
    "\<forall>k. k \<noteq> 2 \<longrightarrow> sect s' k = sect s k" "\<not> bit_at (sect s 2) n" "\<forall>i \<in> {..<n}. bit_at (sect s 2) i"
    "\<forall>j \<in> {..<4096}. bit_at (sect s' 2) j \<longleftrightarrow> bit_at (sect s 2) j \<or> j = n" by blast
  have "n = i" using s'(4,5) assms(2) by (metis free_inode_def lessThan_iff linorder_neqE_nat)
  with s' show ?thesis by (intro exI [of _ s']) simp
qed

lemma mapped_fresh:
  assumes "mapped s" "\<not> bit_at (sect s 2) i"
  shows "\<not> holds s ROOT_DEV (int i) p"
  using assms by (auto simp: mapped_def holds_def)

lemma dent_cong: "(\<And>k. a \<le> k \<Longrightarrow> sect t k = sect s k) \<Longrightarrow> dent_nr t a = dent_nr s a \<and> dent_name t a = dent_name s a"
  by (simp add: dent_nr_def dent_name_def fun_eq_iff)

text \<open>The directory \<open>r\<close> has a place for one more name, and there is space for a file: slot \<open>k\<close> of the data sectors.\<close>

definition room_for :: "fstate \<Rightarrow> super_block \<Rightarrow> nat \<Rightarrow> nat \<Rightarrow> nat \<Rightarrow> nat \<Rightarrow> nat set \<Rightarrow> nat \<Rightarrow> bool" where
  "room_for s sb r n e i K k \<longleftrightarrow> root_inode s = Some r \<and> dir_ok s sb (inode_table s r) n \<and> in_use s r \<and> mapped s
    \<and> (\<exists>p < NR_INODE. \<not> in_use s p) \<and> new_slot s (dstart (inode_table s r)) n e \<and> (e = n \<longrightarrow> n mod 32 \<noteq> 0)
    \<and> n + 1 < 2 ^ 16 \<and> dstart (inode_table s r) + (n + 1) div 32 < unat (nr_sectors sb) \<and> free_inode s i
    \<and> sector_map sb s = slots K \<and> k \<notin> K \<and> {..<k} \<subseteq> K \<and> 2048 * k + 2049 \<le> 4096 * unat (nr_smap_sectors sb)"

lemma sector_map_cong:
  assumes "\<And>j. 3 \<le> j \<Longrightarrow> j < 3 + unat (nr_smap_sectors sb) \<Longrightarrow> sect t j = sect s j"
  shows "sector_map sb t = sector_map sb s"
  unfolding sector_map_def used_def
proof (rule Collect_cong)
  fix x
  show "(x < 4096 * unat (nr_smap_sectors sb) \<and> bit_at (sect t (3 + x div 4096)) (x mod 4096)) =
    (x < 4096 * unat (nr_smap_sectors sb) \<and> bit_at (sect s (3 + x div 4096)) (x mod 4096))"
    using assms [of "3 + x div 4096"] by (auto simp: less_mult_imp_div_less mult.commute)
qed

text \<open>The two maps: an inode number and a slot of sectors are taken, and nothing behind the maps changes.\<close>

lemma reserve_ok:
  assumes l: "fs_layout s sb" and i: "free_inode s i" and K: "sector_map sb s = slots K" "k \<notin> K" "{..<k} \<subseteq> K"
    "2048 * k + 2049 \<le> 4096 * unat (nr_smap_sectors sb)" and S: "S = unat (n_1st_sector sb) + 2048 * k"
  shows "\<exists>s1 s2. alloc_imap_bit ROOT_DEV s = Inr (int i, s1) \<and> alloc_smap_bit ROOT_DEV NR_DEFAULT_FILE_SECTS s1 = Inr (int S, s2)
    \<and> io_frame s s1 \<and> io_frame s s2 \<and> sector_map sb s2 = slots (insert k K)
    \<and> (\<forall>j < 4096. bit_at (sect s2 2) j \<longleftrightarrow> bit_at (sect s 2) j \<or> j = i)
    \<and> (\<forall>j. 3 + unat (nr_smap_sectors sb) \<le> j \<longrightarrow> sect s2 j = sect s j)"
proof -
  from alloc_free_inode [OF l i] obtain s1 where s1: "alloc_imap_bit ROOT_DEV s = Inr (int i, s1)" "io_frame s s1"
    "\<forall>k. k \<noteq> 2 \<longrightarrow> sect s1 k = sect s k" "\<forall>j < 4096. bit_at (sect s1 2) j \<longleftrightarrow> bit_at (sect s 2) j \<or> j = i" by blast
  have l1: "fs_layout s1 sb" using l io_frame_simps(11) [OF s1(2)] by simp
  have m1: "sector_map sb s1 = slots K" using K(1) s1(3) by (simp add: sector_map_def used_def)
  from alloc_slot [OF l1 m1 K(2-4)] obtain s2 where s2: "alloc_smap_bit ROOT_DEV NR_DEFAULT_FILE_SECTS s1 = Inr (int S, s2)"
    "sector_map sb s2 = slots (insert k K)" "io_frame s1 s2" "\<forall>j \<in> - {3..<3 + unat (nr_smap_sectors sb)}. sect s2 j = sect s1 j"
    unfolding S by blast
  have "sect s2 2 = sect s1 2" using s2(4) by simp
  moreover have "sect s2 j = sect s j" if "3 + unat (nr_smap_sectors sb) \<le> j" for j using that s1(3) s2(4) by simp
  ultimately show ?thesis using s1 s2(1,2) io_frame_trans [OF s1(2) s2(3)] by (intro exI [of _ s1] exI [of _ s2]) simp
qed

lemma create_file_ok:
  assumes room: "room_for s sb r n e i K k" and a: "a = dstart (inode_table s r)" and S: "S = unat (n_1st_sector sb) + 2048 * k"
    and name: "strip_path path = Some name" "length name < 12" "0 \<notin> set name"
  shows "\<exists>q s'. create_file path s = Inr (Some q, s') \<and> q \<noteq> r \<and> q < NR_INODE \<and> \<not> in_use s q
    \<and> io_frame (upd_inode r (\<lambda>d. d\<lparr>i_size := of_nat (16 * max n (e + 1))\<rparr>) (upd_inode q (\<lambda>_. new_file S i) s)) s'
    \<and> (\<forall>m. dent_nr s' a m = (if m = e then of_nat i else dent_nr s a m) \<and> dent_name s' a m = (if m = e then name else dent_name s a m))
    \<and> disk_fields s' sb (int i) = (I_REGULAR, 0, of_nat S, 2048)
    \<and> (\<forall>j < 4096. bit_at (sect s' 2) j \<longleftrightarrow> bit_at (sect s 2) j \<or> j = i) \<and> sector_map sb s' = slots (insert k K)
    \<and> (\<forall>num \<in> {1..4096}. num \<noteq> int i \<and> num \<noteq> i_num (inode_table s r) \<longrightarrow> disk_fields s' sb num = disk_fields s sb num)"
proof -
  let ?d = "inode_table s r" let ?n1 = "unat (n_1st_sector sb)" let ?m = "unat (nr_smap_sectors sb)"
  let ?d' = "?d\<lparr>i_size := of_nat (16 * max n (e + 1))\<rparr>"
  have r: "root_inode s = Some r" "dir_ok s sb ?d n" "in_use s r" and tab: "mapped s" "\<exists>p < NR_INODE. \<not> in_use s p"
    and e: "new_slot s a n e" "e = n \<longrightarrow> n mod 32 \<noteq> 0" and i: "free_inode s i"
    and K: "sector_map sb s = slots K" "k \<notin> K" "{..<k} \<subseteq> K" "2048 * k + 2049 \<le> 4096 * unat (nr_smap_sectors sb)"
    using room by (simp_all add: room_for_def a)
  have l: "fs_layout s sb" and dev: "i_dev ?d = ROOT_DEV" and an: "?n1 \<le> a" using r(2) by (simp_all add: dir_ok_def a)
  note n1 = first_sector [OF l]
  have i': "1 \<le> i" "i \<le> 4096" "\<not> bit_at (sect s 2) i" using i by (simp_all add: free_inode_def)
  from reserve_ok [OF l i K S] obtain s1 s2 where s2: "alloc_imap_bit ROOT_DEV s = Inr (int i, s1)"
    "alloc_smap_bit ROOT_DEV NR_DEFAULT_FILE_SECTS s1 = Inr (int S, s2)" "io_frame s s1" "io_frame s s2" "sector_map sb s2 = slots (insert k K)"
    "\<forall>j < 4096. bit_at (sect s2 2) j \<longleftrightarrow> bit_at (sect s 2) j \<or> j = i" "\<forall>j. 3 + ?m \<le> j \<longrightarrow> sect s2 j = sect s j" by blast
  have t2: "inode_table s1 = inode_table s" "inode_table s2 = inode_table s" "fs_layout s2 sb"
    using io_frame_simps(1) [OF s2(3)] io_frame_simps(1,11) [OF s2(4)] l by simp_all
  have "\<forall>p. \<not> holds s2 ROOT_DEV (int i) p" "\<exists>p < NR_INODE. \<not> in_use s2 p"
    using mapped_fresh [OF tab(1) i'(3)] tab(2) by (simp_all add: holds_def in_use_def t2)
  from new_inode_ok [OF t2(3) i'(1,2) this, of S] obtain q s3 where s3: "new_inode ROOT_DEV (int i) (int S) s2 = Inr (q, s3)" "\<not> in_use s2 q"
    "io_frame (upd_inode q (\<lambda>_. new_file S i) s2) s3" "q < NR_INODE"
    "\<forall>n \<in> {1..4096}. disk_fields s3 sb n = (if n = int i then (I_REGULAR, 0, of_nat S, 2048) else disk_fields s2 sb n)"
    "\<forall>k. k \<noteq> iblk sb (int i) \<longrightarrow> sect s3 k = sect s2 k" by blast
  have nq: "\<not> in_use s q" using s3(2) by (simp add: in_use_def t2)
  with r(3) have qr: "q \<noteq> r" by auto
  have t3: "inode_table s3 = (inode_table s)(q := new_file S i)" "fs_layout s3 sb" using io_frame_simps(1,11) [OF s3(3)] t2 by simp_all
  have d3: "inode_table s3 r = ?d" using qr by (simp add: t3)
  have ib: "3 + ?m \<le> iblk sb num" "num \<le> 4096 \<Longrightarrow> iblk sb num < ?n1" for num using iblk_below [OF l] by (simp_all add: iblk_def)
  have "sect s3 j = sect s j" if "a \<le> j" for j
    using that an n1 ib(2) [of "int i"] i'(2) s2(7) s3(6) by auto
  then have ent3: "dent_nr s3 a = dent_nr s a \<and> dent_name s3 a = dent_name s a" by (rule dent_cong)
  have dok: "dir_ok s3 sb ?d n" using r(2) t3(2) by (simp add: dir_ok_def)
  have slot: "new_slot s3 (dstart ?d) n e" using e(1) ent3 by (simp add: new_slot_def a)
  from new_dir_entry_ok [OF d3 [symmetric] dok slot e(2) name(2,3) refl, of "int i"] obtain s4 where s4: "new_dir_entry r (int i) name s3 = Inr s4"
    "io_frame (upd_inode r (\<lambda>_. ?d') s3) s4"
    "\<forall>k. dent_nr s4 a k = (if k = e then word_of_int (int i) else dent_nr s3 a k) \<and> dent_name s4 a k = (if k = e then name else dent_name s3 a k)"
    "\<forall>num \<in> {1..4096}. disk_fields s4 sb num = (if num = i_num ?d then Fs_Inode.fields ?d' else disk_fields s3 sb num)"
    "\<forall>k. k \<noteq> iblk sb (i_num ?d) \<and> k \<noteq> a + e div 32 \<longrightarrow> sect s4 k = sect s3 k" unfolding a by blast
  have "i_num (inode_table s3 q) = int i" by (simp add: t3 new_file_def)
  then have create: "create_file path s = Inr (Some q, s4)"
    using s4(1) by (simp add: create_file_def name(1) dir_inode_def r(1) dev s2(1,2) s3(1) t2)
  have "upd_inode r (\<lambda>_. ?d') s3 = upd_inode r (\<lambda>d. d\<lparr>i_size := of_nat (16 * max n (e + 1))\<rparr>) s3" by (simp add: upd_inode_def d3)
  then have frame: "io_frame (upd_inode r (\<lambda>d. d\<lparr>i_size := of_nat (16 * max n (e + 1))\<rparr>) (upd_inode q (\<lambda>_. new_file S i) s)) s4"
    using io_frame_trans [OF io_frame_upd [OF io_frame_trans [OF io_frame_upd [OF s2(4)] s3(3)]]] s4(2) by metis
  have "bit_at (sect s 2) (nat (i_num ?d))" using tab(1) r(3) by (simp add: mapped_def)
  with i'(3) have "int i \<noteq> i_num ?d" by (metis nat_int)
  with s4(4) s3(5) i'(1,2) have disk: "disk_fields s4 sb (int i) = (I_REGULAR, 0, of_nat S, 2048)" by simp
  have "disk_fields s2 sb num = disk_fields s sb num" for num using s2(7) ib(1) [of num] by (simp add: disk_fields_def)
  with s4(4) s3(5) have rest: "\<forall>num \<in> {1..4096}. num \<noteq> int i \<and> num \<noteq> i_num ?d \<longrightarrow> disk_fields s4 sb num = disk_fields s sb num" by simp
  have low: "sect s4 j = sect s2 j" if "j < 3 + ?m" for j
  proof -
    have "j \<noteq> iblk sb (i_num ?d)" "j \<noteq> iblk sb (int i)" using that ib(1) by (auto simp: not_less [symmetric])
    moreover have "j \<noteq> a + e div 32" using that an n1 by simp
    ultimately show ?thesis using s4(5) s3(6) by simp
  qed
  have "sector_map sb s4 = slots (insert k K)" using sector_map_cong [of sb s4 s2] low s2(5) by simp
  with create qr s3(4) nq frame disk rest s2(6) low [of 2] s4(3) ent3 show ?thesis by (intro exI [of _ q] exI [of _ s4]) simp
qed

text \<open>The directory after that, and the place of the new name in it.\<close>

lemma created_dir:
  assumes room: "room_for s sb r n e i K k" and a: "a = dstart (inode_table s r)" and N: "N = max n (e + 1)" and q: "q \<noteq> r"
    and fr: "io_frame (upd_inode r (\<lambda>d. d\<lparr>i_size := of_nat (16 * N)\<rparr>) (upd_inode q (\<lambda>_. new_file S i) s)) s'"
    and ent: "\<And>m. dent_name s' a m = (if m = e then name else dent_name s a m)" and new: "\<forall>m \<in> {..<e}. dent_name s a m \<noteq> name"
  shows "root_inode s' = Some r" "inode_table s' q = new_file S i" "fs_layout s' sb" "dir_ok s' sb (inode_table s' r) N"
    "dstart (inode_table s' r) = a" "List.find (\<lambda>m. dent_name s' a m = name) [0..<min (32 * ((N + 31) div 32)) (N + 1)] = Some e"
proof -
  let ?d = "inode_table s r"
  have r: "root_inode s = Some r" "dir_ok s sb ?d n" and e: "new_slot s a n e" and size: "n + 1 < 2 ^ 16" "a + (n + 1) div 32 < unat (nr_sectors sb)"
    using room by (simp_all add: room_for_def a)
  have tab: "inode_table s' r = ?d\<lparr>i_size := of_nat (16 * N)\<rparr>" using io_frame_simps(1) [OF fr] q by simp
  show "root_inode s' = Some r" "inode_table s' q = new_file S i" using io_frame_simps(1,4) [OF fr] q r(1) by simp_all
  show l: "fs_layout s' sb" using r(2) io_frame_simps(11) [OF fr] by (simp add: dir_ok_def)
  show "dstart (inode_table s' r) = a" by (simp add: tab a dstart_def)
  have n: "N \<le> n + 1" using e by (auto simp: N new_slot_def)
  have "a + N div 32 < unat (nr_sectors sb)" by (rule le_less_trans [OF add_left_mono [OF div_le_mono [OF n]] size(2)])
  then show "dir_ok s' sb (inode_table s' r) N" using r(2) l n size(1) a by (simp add: dir_ok_def tab dstart_def)
  have "e < N" by (simp add: N)
  also have "N \<le> 32 * ((N + 31) div 32)" by (rule le_sectors)
  finally show "List.find (\<lambda>m. dent_name s' a m = name) [0..<min (32 * ((N + 31) div 32)) (N + 1)] = Some e"
    unfolding find_first ent using new by (simp add: N)
qed

text \<open>
  C5: a file that is created exists: with room for one more, \<open>create_file\<close> takes the lowest free inode number and the first free
  slot of sectors, marks both in their maps, stores an empty regular file in the inode on the disk and in a free entry of
  the table, and enters the name, under which the file is then found. The new file satisfies what reading and writing require.
\<close>

theorem create_file_installs:
  assumes "room_for s sb r n e i K k" "a = dstart (inode_table s r)" "S = unat (n_1st_sector sb) + 2048 * k" "S + 2048 < unat (nr_sectors sb)"
    and "strip_path path = Some name" "length name < 12" "0 \<notin> set name" "\<forall>m \<in> {..<e}. dent_name s a m \<noteq> name"
  shows "\<exists>q s' s''. create_file path s = Inr (Some q, s') \<and> \<not> in_use s q \<and> search_file path s' = Inr (of_nat i, s'')
    \<and> inode_table s' q = new_file S i \<and> file_ok s' sb (inode_table s' q) S 2048 0 \<and> disk_fields s' sb (int i) = (I_REGULAR, 0, of_nat S, 2048)
    \<and> (\<forall>j \<in> {..<4096}. bit_at (sect s' 2) j \<longleftrightarrow> bit_at (sect s 2) j \<or> j = i) \<and> sector_map sb s' = slots (insert k K)
    \<and> (\<forall>m. m \<noteq> e \<longrightarrow> dent_nr s' a m = dent_nr s a m \<and> dent_name s' a m = dent_name s a m)"
proof -
  from create_file_ok [OF assms(1-3,5-7)] obtain q s' where q: "create_file path s = Inr (Some q, s')" "q \<noteq> r" "\<not> in_use s q"
    and fr: "io_frame (upd_inode r (\<lambda>d. d\<lparr>i_size := of_nat (16 * max n (e + 1))\<rparr>) (upd_inode q (\<lambda>_. new_file S i) s)) s'"
    and ent: "\<And>m. dent_nr s' a m = (if m = e then of_nat i else dent_nr s a m)" "\<And>m. dent_name s' a m = (if m = e then name else dent_name s a m)"
    and disk: "disk_fields s' sb (int i) = (I_REGULAR, 0, of_nat S, 2048)" "\<forall>j < 4096. bit_at (sect s' 2) j \<longleftrightarrow> bit_at (sect s 2) j \<or> j = i"
      "sector_map sb s' = slots (insert k K)" by blast
  note dir = created_dir [OF assms(1,2) refl q(2) fr ent(2) assms(8)]
  from search_file_ok [OF dir(1,4) assms(5)] dir(5,6) obtain s'' where "search_file path s' = Inr (of_nat i, s'')" by (auto simp: ent(1))
  moreover have "file_ok s' sb (inode_table s' q) S 2048 0"
    using dir(3) assms(1,3,4) by (simp add: file_ok_def dir(2) new_file_def room_for_def free_inode_def)
  ultimately show ?thesis using q disk ent dir(2) by (intro exI [of _ q] exI [of _ s'] exI [of _ s'']) simp
qed

end
