(* ===== verification/Fs_Unlink.thy ===== *)
theory Fs_Unlink
  imports Fs_Entries
begin

text \<open>
  The removal of directory entries by \<open>do_unlink\<close>.
\<close>

section \<open>Removing entries\<close>

definition live :: "(nat \<Rightarrow> u32) \<Rightarrow> nat \<Rightarrow> nat \<Rightarrow> nat" where
  "live f a b = length (filter (\<lambda>k. f k \<noteq> 0) [a..<b])"

lemma live_step: "a < b \<Longrightarrow> live f a b = (if f a \<noteq> 0 then 1 else 0) + live f (Suc a) b"
  by (simp add: live_def upt_conv_Cons)

lemma live_empty [simp]: "live f a a = 0" by (simp add: live_def)

lemma live_split: "a \<le> b \<Longrightarrow> b \<le> c \<Longrightarrow> live f a c = live f a b + live f b c"
  using upt_add_eq_append [of a b "c - b"] by (simp add: live_def)

lemma live_shift: "a \<le> b \<Longrightarrow> live f (c + a) (c + b) = live (\<lambda>k. f (c + k)) a b"
proof -
  assume "a \<le> b"
  then have "[c + a..<c + b] = map ((+) c) [a..<b]" by (induction b rule: dec_induct) auto
  then show ?thesis by (simp add: live_def filter_map o_def)
qed

lemma live_cong: "(\<And>k. a \<le> k \<Longrightarrow> k < b \<Longrightarrow> f k = g k) \<Longrightarrow> live f a b = live g a b"
  unfolding live_def by (intro arg_cong [of _ _ length] filter_cong) auto

lemma unlink_entries_full:
  assumes "j \<le> 32" "\<And>k. j \<le> k \<Longrightarrow> k < 32 \<Longrightarrow> entry_nr bs k \<noteq> nr" "32 * i + 32 \<le> n"
  shows "unlink_entries bs nr n [j..<32] (32 * i + j) c = (None, 32 * i + 32, c + 16 * live (entry_nr bs) j 32)"
  using assms
proof (induction "32 - j" arbitrary: j c)
  case (Suc d)
  then have j: "j < 32" by simp
  have "unlink_entries bs nr n [Suc j..<32] (32 * i + Suc j) c' = (None, 32 * i + 32, c' + 16 * live (entry_nr bs) (Suc j) 32)" for c'
    by (rule Suc.hyps(1)) (use Suc in auto)
  with j Suc.prems show ?case
    by (simp add: upt_conv_Cons [OF j] live_step [OF j] INVALID_INODE_def DIR_ENTRY_SIZE_def)
qed simp

lemma unlink_entries_hit:
  assumes "j \<le> k" "k < 32" "\<And>l. j \<le> l \<Longrightarrow> l < k \<Longrightarrow> entry_nr bs l \<noteq> nr" "32 * i + k < n" "entry_nr bs k = nr"
  shows "unlink_entries bs nr n [j..<32] (32 * i + j) c = (Some k, 32 * i + k + 1, c + 16 * live (entry_nr bs) j k)"
  using assms
proof (induction "k - j" arbitrary: j c)
  case 0
  then show ?case by (simp add: upt_conv_Cons [of j 32])
next
  case (Suc d)
  then have j: "j < k" "j < 32" by simp_all
  have "unlink_entries bs nr n [Suc j..<32] (32 * i + Suc j) c' = (Some k, 32 * i + k + 1, c' + 16 * live (entry_nr bs) (Suc j) k)" for c'
    by (rule Suc.hyps(1)) (use Suc in auto)
  with j Suc.prems(1,2,4,5) Suc.prems(3) [of j] show ?case
    by (simp add: upt_conv_Cons [OF j(2)] live_step [OF j(1)] INVALID_INODE_def DIR_ENTRY_SIZE_def)
qed

lemma dent_nr_block: "k < 32 \<Longrightarrow> dent_nr s a (32 * i + k) = entry_nr (sect s (a + i)) k"
  by (simp add: dent_nr_def)

lemma live_block:
  assumes "j \<le> 32"
  shows "live (entry_nr (sect s (a + i))) 0 j = live (dent_nr s a) (32 * i) (32 * i + j)"
proof -
  have "live (dent_nr s a) (32 * i + 0) (32 * i + j) = live (\<lambda>k. dent_nr s a (32 * i + k)) 0 j"
    by (rule live_shift) simp
  also have "\<dots> = live (entry_nr (sect s (a + i))) 0 j"
    using assms by (intro live_cong) (simp add: dent_nr_block)
  finally show ?thesis by simp
qed

lemma unlink_blocks_hit:
  assumes "dir_ok s sb d n" "B = (n + 31) div 32" "i \<le> e div 32" "e < n"
    and "\<forall>k. 32 * i \<le> k \<and> k < e \<longrightarrow> dent_nr s (dstart d) k \<noteq> nr" "dent_nr s (dstart d) e = nr"
    and a: "a = dstart d" and bs: "bs = put_list (16 * (e mod 32)) (replicate 16 0) (sect s (a + e div 32))"
  shows "unlink_blocks d nr [i..<B] (32 * i) c s =
      Inr (True, e + 1, c + 16 * live (dent_nr s a) (32 * i) e, put_sect (a + e div 32) bs (set_buf bs s))"
  using assms
proof (induction "e div 32 - i" arbitrary: i s c)
  case 0
  then have i: "i = e div 32" by simp
  have "e + 32 \<le> n + 31" using 0(5) by simp
  from div_le_mono [OF this, of 32] have iB: "i < B" by (simp add: i 0(3))
  have idiv: "i \<le> n div 32" using 0(5) by (simp add: i div_le_mono)
  let ?bs = "sect s (dstart d + i)" and ?r = "set_buf (sect s (dstart d + i)) s"
  have ie: "32 * i + e mod 32 = e" by (simp add: i)
  note at = dent_nr_block [of _ s "dstart d" i]
  have "unlink_entries ?bs nr n [0..<32] (32 * i + 0) c = (Some (e mod 32), 32 * i + e mod 32 + 1, c + 16 * live (entry_nr ?bs) 0 (e mod 32))"
  proof (rule unlink_entries_hit)
    fix l assume "l < e mod 32"
    then have "l < 32" "32 * i + l < e" using ie by auto
    with 0(6) at [of l] show "entry_nr ?bs l \<noteq> nr" by auto
  next
    show "entry_nr ?bs (e mod 32) = nr" using 0(7) at [of "e mod 32"] ie by simp
  qed (use 0 ie in auto)
  moreover have "live (entry_nr ?bs) 0 (e mod 32) = live (dent_nr s (dstart d)) (32 * i) e"
    using live_block [of "e mod 32" s "dstart d" i] ie by simp
  ultimately have ue: "unlink_entries ?bs nr n [0..<32] (32 * i) c = (Some (e mod 32), e + 1, c + 16 * live (dent_nr s a) (32 * i) e)"
    using ie 0(8) by simp
  have len: "length bs = 512" using 0(9) by simp
  have v: "valid_sect (set_buf bs s) (dstart d + i)" using RD_dir(2) [OF 0(2) idiv] by simp
  have "WR_SECT (i_dev d) (sint (i_start_sector d) + int i) (set_buf bs s) = Inr (put_sect (a + e div 32) bs (set_buf bs s))"
    using WR_SECT_root [OF v] 0(2,8) unfolding RD_dir(3) [OF 0(2) idiv] by (simp add: dir_ok_def len i)
  then show ?case
    unfolding upt_conv_Cons [OF iB] using ue RD_dir(1) [OF 0(2) idiv] dir_size(1) [OF 0(2)] 0(8,9) len
    by (simp add: SECTOR_SIZE_def DIR_ENTRY_SIZE_def i del: upt_rec_numeral)
next
  case (Suc x)
  then have i: "i < e div 32" by simp
  have e: "e \<le> n" using Suc.prems by simp
  have i32: "32 * i + 32 \<le> e" using i by (simp add: less_eq_div_iff_mult_less_eq [of 32, symmetric] Suc_le_eq [symmetric])
  have idiv: "i \<le> n div 32" using i e div_le_mono [OF e, of 32] by simp
  have iB: "i < B" using i32 e Suc.prems(2) by auto
  let ?bs = "sect s (dstart d + i)" and ?r = "set_buf (sect s (dstart d + i)) s"
  note at = dent_nr_block [of _ s "dstart d" i]
  have "unlink_entries ?bs nr n [0..<32] (32 * i + 0) c = (None, 32 * i + 32, c + 16 * live (entry_nr ?bs) 0 32)"
  proof (rule unlink_entries_full)
    fix k :: nat assume k: "k < 32"
    have "dent_nr s (dstart d) (32 * i + k) \<noteq> nr" using Suc.prems(5) i32 k by auto
    with at [OF k] show "entry_nr ?bs k \<noteq> nr" by simp
  qed (use i32 e in auto)
  moreover have "live (entry_nr ?bs) 0 32 = live (dent_nr s (dstart d)) (32 * i) (32 * Suc i)"
    using live_block [of 32 s "dstart d" i] by (simp add: add.commute)
  ultimately have "unlink_blocks d nr [i..<B] (32 * i) c s =
      unlink_blocks d nr [Suc i..<B] (32 * Suc i) (c + 16 * live (dent_nr s a) (32 * i) (32 * Suc i)) ?r"
    unfolding upt_conv_Cons [OF iB] using RD_dir(1) [OF Suc.prems(1) idiv] dir_size(1) [OF Suc.prems(1)] e i32 Suc.prems(7)
    by (simp add: SECTOR_SIZE_def DIR_ENTRY_SIZE_def add.commute del: upt_rec_numeral)
  also have "\<dots> = Inr (True, e + 1, c + 16 * live (dent_nr s a) (32 * i) (32 * Suc i) + 16 * live (dent_nr ?r a) (32 * Suc i) e,
      put_sect (a + e div 32) bs (set_buf bs ?r))"
    by (rule Suc.hyps(1)) (use Suc i in \<open>auto\<close>)
  also have "\<dots> = Inr (True, e + 1, c + 16 * live (dent_nr s a) (32 * i) e, put_sect (a + e div 32) bs (set_buf bs s))"
    using live_split [of "32 * i" "32 * Suc i" e "dent_nr s a"] i32 Suc.prems(8) by simp
  finally show ?case .
qed

lemma entry_clear:
  assumes "length bs = 512" "j < 32" "i < 32"
  shows "entry_nr (put_list (16 * j) (replicate 16 0) bs) i = (if i = j then 0 else entry_nr bs i)"
    "entry_name (put_list (16 * j) (replicate 16 0) bs) i = (if i = j then [] else entry_name bs i)"
proof -
  let ?new = "put_list (16 * j) (replicate 16 0) bs"
  have n: "?new ! m = (if 16 * j \<le> m \<and> m < 16 * j + 16 then 0 else bs ! m)" if "m < 512" for m
    using that assms by (auto simp: nth_put_list)
  have b0: "bytes32 0 ! k = 0" if "k < 4" for k
  proof -
    from that have "k = 0 \<or> k = 1 \<or> k = 2 \<or> k = 3" by auto
    then show ?thesis by (auto simp: bytes32_def)
  qed
  show "entry_nr ?new i = (if i = j then 0 else entry_nr bs i)"
  proof (cases "i = j")
    case True
    then show ?thesis using assms by (auto intro!: list32_bytes32 simp: entry_nr_def DIR_ENTRY_SIZE_def n b0)
  next
    case False
    then have "16 * i + 4 \<le> 16 * j \<or> 16 * j + 16 \<le> 16 * i" by auto
    then show ?thesis using assms False by (auto simp: entry_nr_def DIR_ENTRY_SIZE_def intro: list32_put_other)
  qed
  let ?f = "\<lambda>bs. take 12 (drop (16 * i + 4) bs)"
  have f: "length (?f ?new) = 12" "length (?f bs) = 12" using assms by auto
  show "entry_name ?new i = (if i = j then [] else entry_name bs i)"
  proof (cases "i = j")
    case True
    have "hd (?f ?new) = ?f ?new ! 0" using f by (intro hd_conv_nth) auto
    also have "\<dots> = 0" using assms True by (simp add: n)
    finally have "takeWhile (\<lambda>c. c \<noteq> 0) (?f ?new) = []" using f by (cases "?f ?new") auto
    with True show ?thesis by (simp add: entry_name_def MAX_FILENAME_LEN_def DIR_ENTRY_SIZE_def)
  next
    case False
    then have d: "i + 1 \<le> j \<or> j + 1 \<le> i" by auto
    have "?f ?new = ?f bs"
    proof (rule nth_equalityI)
      fix m assume "m < length (?f ?new)"
      with f have m: "m < 12" by simp
      with d assms show "?f ?new ! m = ?f bs ! m" by (auto simp: n)
    qed (use f in auto)
    with False show ?thesis by (simp add: entry_name_def MAX_FILENAME_LEN_def DIR_ENTRY_SIZE_def)
  qed
qed

lemma dent_clear:
  assumes "bs = put_list (16 * (e mod 32)) (replicate 16 0) (sect s (a + e div 32))"
  shows "dent_nr (put_sect (a + e div 32) bs s) a k = (if k = e then 0 else dent_nr s a k)"
    "dent_name (put_sect (a + e div 32) bs s) a k = (if k = e then [] else dent_name s a k)"
proof -
  have len: "length bs = 512" using assms by simp
  have eq: "k = e \<longleftrightarrow> k div 32 = e div 32 \<and> k mod 32 = e mod 32" by (metis div_mult_mod_eq)
  note put = entry_clear [of "sect s (a + e div 32)" "e mod 32" "k mod 32", folded assms]
  show "dent_nr (put_sect (a + e div 32) bs s) a k = (if k = e then 0 else dent_nr s a k)"
    using put(1) by (cases "k div 32 = e div 32") (simp_all add: dent_nr_def sect_put_sect len eq)
  show "dent_name (put_sect (a + e div 32) bs s) a k = (if k = e then [] else dent_name s a k)"
    using put(2) by (cases "k div 32 = e div 32") (simp_all add: dent_name_def sect_put_sect len eq)
qed

text \<open>The effect on the entries and on the size of the directory.\<close>

lemma unlink_entry_ok:
  assumes d: "d = inode_table s r" "dir_ok s sb d n" and e: "e < n" "dent_nr s (dstart d) e = nr"
    "\<forall>k < e. dent_nr s (dstart d) k \<noteq> nr"
    and d': "d' = (if e + 1 = n then d\<lparr>i_size := of_nat (16 * live (dent_nr s (dstart d)) 0 e)\<rparr> else d)"
  shows "\<exists>s'. unlink_entry r nr s = Inr s' \<and> io_frame (upd_inode r (\<lambda>_. d') s) s'
    \<and> (\<forall>k. dent_nr s' (dstart d) k = (if k = e then 0 else dent_nr s (dstart d) k)
         \<and> dent_name s' (dstart d) k = (if k = e then [] else dent_name s (dstart d) k))
    \<and> (\<forall>k. k \<noteq> iblk sb (i_num d) \<and> k \<noteq> dstart d + e div 32 \<longrightarrow> sect s' k = sect s k)
    \<and> (\<forall>num \<in> {1..4096}. num \<noteq> i_num d \<longrightarrow> disk_fields s' sb num = disk_fields s sb num)"
proof -
  let ?a = "dstart d" and ?c = "dstart d + e div 32" and ?b = "iblk sb (i_num d)"
  have l: "fs_layout s sb" and dev: "i_dev d = ROOT_DEV" and num: "1 \<le> i_num d" "i_num d \<le> 4096" using d(2) by (simp_all add: dir_ok_def)
  have b: "?b < ?a" using iblk_below [OF l num(2)] d(2) by (simp add: dir_ok_def)
  define bs where "bs = put_list (16 * (e mod 32)) (replicate 16 0) (sect s ?c)"
  have len: "length bs = 512" by (simp add: bs_def)
  define s1 where "s1 = put_sect ?c bs (set_buf bs s)"
  have loop: "unlink_blocks d nr [0..<dir_blks d] 0 0 s = Inr (True, e + 1, 16 * live (dent_nr s ?a) 0 e, s1)"
    using unlink_blocks_hit [OF d(2) refl _ e(1) _ e(2) refl bs_def, of 0 0] e(3) dir_size(2) [OF d(2)] by (simp add: s1_def)
  have s1: "dent_nr s1 ?a k = (if k = e then 0 else dent_nr s ?a k)" "dent_name s1 ?a k = (if k = e then [] else dent_name s ?a k)" for k
    using dent_clear [of bs e "set_buf bs s" ?a k] by (simp_all add: bs_def [symmetric] s1_def)
  have f1: "io_frame s s1" using len by (simp add: s1_def)
  have o1: "sect s1 k = sect s k" if "k \<noteq> ?c" for k using that len by (simp add: s1_def sect_put_sect)
  have "iblk sb num \<noteq> ?c" if "num \<le> 4096" for num using iblk_below [OF l that] d(2) by (simp add: dir_ok_def)
  then have g1: "disk_fields s1 sb num = disk_fields s sb num" if "num \<le> 4096" for num using that o1 by (simp add: disk_fields_def)
  show ?thesis
  proof (cases "e + 1 = n")
    case False
    then have "unlink_entry r nr s = Inr s1"
      using loop dir_size(1) [OF d(2)] by (simp add: unlink_entry_def Let_def d(1) [symmetric])
    moreover have "upd_inode r (\<lambda>_. d') s = s" using False d' by (simp add: upd_inode_def d(1))
    ultimately show ?thesis using s1 f1 o1 g1 by (intro exI [of _ s1]) simp
  next
    case True
    let ?u = "upd_inode r (\<lambda>_. d') s"
    define s2 where "s2 = upd_inode r (\<lambda>d. d\<lparr>i_size := of_nat (16 * live (dent_nr s ?a) 0 e)\<rparr>) s1"
    have s2: "s2 = put_sect ?c bs (set_buf bs ?u)"
      using True d' d(1) by (simp add: s2_def s1_def upd_inode_def put_sect_def set_buf_def upd_mem_def set_kmem_def rbase_def fsb_def lin_def)
    have tab: "inode_table s2 r = d'" by (simp add: s2)
    have d'f: "i_dev d' = ROOT_DEV" "i_num d' = i_num d" using d' dev by simp_all
    have l2: "fs_layout s2 sb" using l by (simp add: s2)
    define new where "new = put_list (ioff (i_num d)) (inode_bytes d') (sect s2 ?b)"
    define s3 where "s3 = put_sect ?b new (set_buf new s2)"
    have nl: "length new = 512" using ioff_le [of "i_num d"] by (simp add: new_def)
    have sync: "sync_inode r s2 = Inr s3"
      using sync_inode_eq [OF l2, of r ?b new] tab d'f num by (simp add: new_def s3_def)
    have "unlink_entry r nr s = Inr s3"
      using loop True dir_size(1) [OF d(2)] sync by (simp add: unlink_entry_def Let_def d(1) [symmetric] s2_def)
    moreover have "io_frame ?u s3"
      unfolding s3_def s2 by (rule io_frame_trans [OF io_frame_put_set [OF len, of ?u ?c bs]]) (rule io_frame_put_set [OF nl])
    moreover have "dent_nr s3 ?a k = dent_nr s1 ?a k" "dent_name s3 ?a k = dent_name s1 ?a k" for k
      using dent_put_other [OF b nl, of "set_buf new s2"] by (simp_all add: s3_def s2_def dent_nr_def dent_name_def)
    moreover have "sect s3 k = sect s k" if "k \<noteq> ?b" "k \<noteq> ?c" for k using that nl o1 by (simp add: s3_def s2_def sect_put_sect)
    moreover have "disk_fields s3 sb num = disk_fields s sb num" if "1 \<le> num" "num \<le> 4096" "num \<noteq> i_num d" for num
    proof -
      have "i_dev (inode_table s2 r) = ROOT_DEV" "1 \<le> i_num (inode_table s2 r)" "i_num (inode_table s2 r) \<le> 4096" using tab d'f num by simp_all
      from disk_fields_sync(2) [OF l2 this sync that(1)] that(3) tab d'f have "disk_fields s3 sb num = disk_fields s2 sb num" by simp
      also have "\<dots> = disk_fields s1 sb num" by (simp add: s2_def disk_fields_def)
      finally show ?thesis using g1 [OF that(2)] by simp
    qed
    ultimately show ?thesis using s1 by (intro exI [of _ s3]) simp
  qed
qed

lemma live_le: "live f a b \<le> b - a"
  unfolding live_def using length_filter_le [of "\<lambda>k. f k \<noteq> 0" "[a..<b]"] by simp


end
