(* ===== verification/Fs_Examples.thy ===== *)
theory Fs_Examples
  imports Boot_Examples Fs_Boot Fs_Create Fs_Unlink
begin

text \<open>
  The theorems about the disk and the file system at concrete machines: the drive has a partition of 12000 sectors from
  sector 100 on. Each example applies one theorem, either in a state that is written down or in the state that
  \<open>init_fs\<close> makes of an empty disk.
\<close>

section \<open>A drive\<close>

definition drive :: "(nat \<Rightarrow> u8) \<Rightarrow> hstate" where
  "drive p = \<lparr>hk = upd_proc 1 (\<lambda>p. p\<lparr>filp := Some\<rparr>) booted, platter = p, ready = True, ident = (\<lambda>_. 0),
     hd0 = \<lparr>open_cnt = 1, primary = (\<lambda>_. \<lparr>part_base = 0, part_size = 20000\<rparr>), logical = (\<lambda>_. \<lparr>part_base = 100, part_size = 12000\<rparr>)\<rparr>\<rparr>"

lemma drive_simps [simp]:
  "ready (drive p)" "platter (drive p) = p" "logical (hd0 (drive p)) i = \<lparr>part_base = 100, part_size = 12000\<rparr>"
  "open_cnt (hd0 (drive p)) = 1" "caller < nr_proc_table \<Longrightarrow> lin (hk (drive p)) caller a = a"
  using booted_fields(4) [of caller a] by (auto simp: drive_def lin_def upd_proc_def)

lemma pid_1 [simp]: "Suc 0 < nr_proc_table"
  using pids(1) by simp

definition request :: "int \<Rightarrow> int \<Rightarrow> message" where
  "request type count = \<lparr>m_source = 1, m_type = type, m_RETVAL = 0, m_DEVICE = 32, m_CNT = count, m_PROC_NR = 1, m_REQUEST = 0,
     m_FLAGS = 0, m_NAME_LEN = 0, m_FD = 0, m_PATHNAME = 0, m_POSITION = 1536, m_BUF = 0x10000\<rparr>"

lemma hd_rdwt_transfers_witness:
  "hd_rdwt (request DEV_READ 1024) (drive (\<lambda>i. of_nat i)) =
    Inr (set_kmem (store_bytes 0x10000 (disk_bytes (\<lambda>i. of_nat i) 103 2)) (drive (\<lambda>i. of_nat i)))"
  using hd_rdwt_transfers [of "drive (\<lambda>i. of_nat i)" "request DEV_READ 1024" "\<lparr>part_base = 100, part_size = 12000\<rparr>" 3 2 1]
  by (simp add: request_def root_dev)

lemma hd_rdwt_long_request_witness:
  "hd_rdwt (request DEV_WRITE (512 * int 257)) (drive (\<lambda>_. 0)) = Inl (Halted (ascii ''hd writing error.''))"
  using hd_rdwt_long_request [of "drive (\<lambda>_. 0)" "request DEV_WRITE (512 * int 257)" "\<lparr>part_base = 100, part_size = 12000\<rparr>" 3 257 1]
  by (simp add: request_def root_dev dev_msg_consts)

text \<open>A boot sector with one primary partition.\<close>

lemma hd_open_partitions_witness:
  "\<exists>info. hd_open 0 ((drive (\<lambda>i. if i = 0x1C2 then 0x83 else 0))\<lparr>hd0 := (hd0 (drive (\<lambda>_. 0)))\<lparr>open_cnt := 0\<rparr>\<rparr>) =
      Inr ((drive (\<lambda>i. if i = 0x1C2 then 0x83 else 0))\<lparr>hd0 := info\<rparr>) \<and> primary info 1 = \<lparr>part_base = 0, part_size = 0\<rparr>"
proof -
  let ?p = "\<lambda>i :: nat. if i = 0x1C2 then 0x83 else 0 :: u8"
  let ?s = "(drive ?p)\<lparr>hd0 := (hd0 (drive (\<lambda>_. 0)))\<lparr>open_cnt := 0\<rparr>\<rparr>"
  have t: "sys_id (table_at ?p 0 0) = 0x83" "entry_part (table_at ?p 0 0) = \<lparr>part_base = 0, part_size = 0\<rparr>"
    by (simp_all add: table_at_def entry_at_def PARTITION_TABLE_OFFSET_def entry_part_def le32_def load32_def)
  have nf: "\<not> (\<forall>i \<in> {..<4 :: nat}. sys_id (table_at ?p 0 i) = NO_PART)" using t by (auto simp: NO_PART_def intro: bexI [of _ 0])
  have "DRIVE_OF_DEV 0 = 0" by (simp add: DRIVE_OF_DEV_def part_consts)
  from hd_open_partitions [of ?s 0, OF _ this _ refl] nf
  obtain info where "hd_open 0 ?s = Inr (?s\<lparr>hd0 := info\<rparr>)"
    "\<forall>i \<in> {..<4 :: nat}. sys_id (table_at ?p 0 i) \<noteq> NO_PART \<longrightarrow> primary info (i + 1) = entry_part (table_at ?p 0 i)"
    by (auto simp: drive_def)
  with t show ?thesis by (intro exI [of _ info]) (auto simp: NO_PART_def dest: bspec [of _ _ 0])
qed

section \<open>An empty disk\<close>

definition power_on :: fstate where
  "power_on = \<lparr>hs = drive (\<lambda>_. 0), inode_table = (\<lambda>_. empty_inode), f_desc_table = (\<lambda>_. empty_desc),
     super_blocks = (\<lambda>_. new_super_block 0), root_inode = None, fs_msg = request DEV_OPEN 0, pcaller = 1\<rparr>"

definition disk_sb :: super_block where
  "disk_sb = (new_super_block (of_nat 12000))\<lparr>sb_dev := ROOT_DEV\<rparr>"

lemma disk_sb_fields:
  "unat (nr_sectors disk_sb) = 12000" "unat (nr_smap_sectors disk_sb) = 3" "unat (n_1st_sector disk_sb) = 262"
  "nr_imap_sectors disk_sb = 1" "sb_dev disk_sb = ROOT_DEV" "nr_smap_sectors disk_sb = 3" "n_1st_sector disk_sb = 262"
proof -
  have g: "(12000 :: nat) \<le> 2 ^ 22" "3 = 12000 div 4096 + (1 :: nat)" by simp_all
  note f = new_super_block_fields [OF g(1) refl g(2), unfolded of_nat_numeral]
  show "nr_smap_sectors disk_sb = 3" "n_1st_sector disk_sb = 262" "nr_imap_sectors disk_sb = 1" "sb_dev disk_sb = ROOT_DEV"
    "unat (nr_sectors disk_sb) = 12000" "unat (nr_smap_sectors disk_sb) = 3" "unat (n_1st_sector disk_sb) = 262"
    by (simp_all add: disk_sb_def f)
qed

lemma power_on_open:
  "task_hd_request (driver_msg DEV_OPEN (MINOR ROOT_DEV)) (hs power_on) =
    Inr ((drive (\<lambda>_. 0))\<lparr>hd0 := (hd0 (drive (\<lambda>_. 0)))\<lparr>primary := (primary (hd0 (drive (\<lambda>_. 0))))(0 := \<lparr>part_base = 0, part_size = 0\<rparr>), open_cnt := 2\<rparr>\<rparr>)"
  by (simp add: power_on_def task_hd_request_def driver_msg_def root_dev hd_open_def hd_identify_def hd_cmd_out_def Let_def drive_def)

lemma init_fs_establishes_witness:
  "\<exists>s sb r. init_fs 0x70000 power_on = Inr s \<and> fs_layout s sb \<and> root_inode s = Some r \<and> dir_ok s sb (inode_table s r) 4
    \<and> dent_name s (dstart (inode_table s r)) 1 = ascii ''dev_tty0'' \<and> refs_ok s"
proof -
  from init_fs_establishes [OF power_on_open, where b = 100 and g = 12000 and geo = "0x70000"] obtain s sb r where s: "init_fs 0x70000 power_on = Inr s" "fs_layout s sb"
    "root_inode s = Some r" "dir_ok s sb (inode_table s r) 4" "refs_ok s"
    "\<forall>i \<in> {..<4}. dent_nr s (dstart (inode_table s r)) i = of_nat i + 1 \<and> dent_name s (dstart (inode_table s r)) i = boot_name i"
    by auto
  have "boot_name 1 = ascii ''dev_tty0''" by (simp add: boot_name_def tty_name_def ascii_def)
  with s(6) have "dent_name s (dstart (inode_table s r)) 1 = ascii ''dev_tty0''" by auto
  with s show ?thesis by blast
qed

lemma first_boot_procs: "\<exists>s r. init_fs 0x70000 power_on = Inr s \<and> fresh_fs s disk_sb r \<and> procs (hk (hs s)) = procs (hk (drive (\<lambda>_. 0)))"
  using init_fs_ok [OF power_on_open, where b = 100 and g = 12000 and geo = "0x70000"] by (simp add: disk_sb_def)

lemma first_boot: "\<exists>s r. init_fs 0x70000 power_on = Inr s \<and> fresh_fs s disk_sb r"
  using first_boot_procs by blast

lemma fresh_facts:
  assumes "fresh_fs s disk_sb r"
  shows "fs_layout s disk_sb" "root_inode s = Some r" "dir_ok s disk_sb (inode_table s r) 4" "dstart (inode_table s r) = 262"
    "new_slot s 262 4 4" "sector_map disk_sb s = slots {0}" "inodes_ok s" "refs_ok s" "can_create s" "free_inode s 5"
    "\<And>i. i < 4 \<Longrightarrow> dent_name s 262 i = boot_name i \<and> dent_nr s 262 i = of_nat i + 1" "mapped s" "in_use s r" "\<exists>p < NR_INODE. \<not> in_use s p"
proof -
  note f = assms [unfolded fresh_fs_def disk_sb_fields]
  show "fs_layout s disk_sb" "root_inode s = Some r" "dir_ok s disk_sb (inode_table s r) 4" and d: "dstart (inode_table s r) = 262"
    and "sector_map disk_sb s = slots {0}" "inodes_ok s" "refs_ok s" "can_create s" and u: "in_use s r" using f by simp_all
  show e: "dent_name s 262 i = boot_name i \<and> dent_nr s 262 i = of_nat i + 1" if "i < 4" for i using f that d by simp
  have "(of_nat i + 1 :: u32) \<noteq> 0" if "i < 4" for i :: nat
  proof -
    from that have "i = 0 \<or> i = 1 \<or> i = 2 \<or> i = 3" by auto
    then show ?thesis by auto
  qed
  then show "new_slot s 262 4 4" using e by (auto simp: new_slot_def)
  show "free_inode s 5" using f by (auto simp: free_inode_def)
  show "mapped s" using f by (simp add: can_create_def)
  have "\<not> in_use s (if r = 0 then 1 else 0)" using f by simp
  then show "\<exists>p < NR_INODE. \<not> in_use s p" by (intro exI [of _ "if r = 0 then 1 else 0"]) (simp add: NR_INODE_def)
qed

lemma strip_foo: "strip_path (ascii ''/foo'') = Some (ascii ''foo'')" "length (ascii ''foo'') < 12" "0 \<notin> set (ascii ''foo'')"
  by (simp_all add: strip_path_def ascii_def MAX_FILENAME_LEN_def)

lemma boot_name_foo: "m < 4 \<Longrightarrow> boot_name m \<noteq> ascii ''foo''"
  by (auto simp: boot_name_def tty_name_def ascii_def)

lemma fresh_room: "fresh_fs s disk_sb r \<Longrightarrow> room_for s disk_sb r 4 4 5 {0} 1"
  using fresh_facts [of s r] by (simp add: room_for_def disk_sb_fields lessThan_Suc)

lemma create_file_installs_witness:
  "\<exists>s q s' s''. init_fs 0x70000 power_on = Inr s \<and> create_file (ascii ''/foo'') s = Inr (Some q, s')
    \<and> search_file (ascii ''/foo'') s' = Inr (5, s'') \<and> inode_table s' q = new_file 2310 5"
proof -
  obtain s r where s: "init_fs 0x70000 power_on = Inr s" "fresh_fs s disk_sb r" using first_boot by blast
  note f = fresh_facts [OF s(2)]
  have "\<forall>m \<in> {..<4}. dent_name s 262 m \<noteq> ascii ''foo''" using f(11) boot_name_foo by auto
  from create_file_installs [OF fresh_room [OF s(2)] f(4) [symmetric] _ _ strip_foo this, of 2310] s(1)
  show ?thesis by (auto simp: disk_sb_fields)
qed

lemma dir_insert_lookup_witness:
  "\<exists>s r s' s''. init_fs 0x70000 power_on = Inr s \<and> new_dir_entry r 9 (ascii ''foo'') s = Inr s'
    \<and> search_file (ascii ''/foo'') s' = Inr (9, s'')"
proof -
  obtain s r where s: "init_fs 0x70000 power_on = Inr s" "fresh_fs s disk_sb r" using first_boot by blast
  note f = fresh_facts [OF s(2)]
  have "\<forall>m \<in> {..<4}. dent_name s 262 m \<noteq> ascii ''foo''" using f(11) boot_name_foo by auto
  from dir_insert_lookup [OF f(2,3) f(4) [symmetric] f(5) _ _ _ strip_foo this, of 9] s(1)
  show ?thesis by (auto simp: disk_sb_fields)
qed

lemma search_file_linear_witness:
  "\<exists>s s'. init_fs 0x70000 power_on = Inr s \<and> search_file (ascii ''dev_tty1'') s = Inr (3, s') \<and> sect s' = sect s"
proof -
  obtain s r where s: "init_fs 0x70000 power_on = Inr s" "fresh_fs s disk_sb r" using first_boot by blast
  note f = fresh_facts [OF s(2)]
  have strip: "strip_path (ascii ''dev_tty1'') = Some (ascii ''dev_tty1'')"
    by (simp add: strip_path_def ascii_def MAX_FILENAME_LEN_def)
  have n: "boot_name 2 = ascii ''dev_tty1''" "boot_name 0 \<noteq> ascii ''dev_tty1''" "boot_name 1 \<noteq> ascii ''dev_tty1''"
    by (simp_all add: boot_name_def tty_name_def ascii_def)
  have "i < 2 \<Longrightarrow> i = 0 \<or> i = 1" for i :: nat by auto
  then have "List.find (\<lambda>e. dent_name s 262 e = ascii ''dev_tty1'') [0..<min (32 * ((4 + 31) div 32)) (4 + 1)] = Some 2"
    unfolding find_first using n f(11) by auto
  with search_file_linear [OF f(2,3) strip] s(1) f(11) [of 2] show ?thesis by (auto simp: f(4))
qed

lemma slot_alloc_free_roundtrip_witness:
  "\<exists>s s'. init_fs 0x70000 power_on = Inr s \<and> ebind (alloc_smap_bit ROOT_DEV NR_DEFAULT_FILE_SECTS s)
      (\<lambda>(start, s). free_smap_bits ROOT_DEV disk_sb (of_int start) (of_int NR_DEFAULT_FILE_SECTS) s) = Inr s' \<and> sect s' = sect s"
proof -
  obtain s r where s: "init_fs 0x70000 power_on = Inr s" "fresh_fs s disk_sb r" using first_boot by blast
  note f = fresh_facts [OF s(2)]
  from slot_alloc_free_roundtrip [OF f(1,6), of 1] s(1) show ?thesis by (auto simp: disk_sb_fields fun_eq_iff)
qed

lemma alloc_imap_bit_spec_witness:
  "\<exists>s s'. init_fs 0x70000 power_on = Inr s \<and> alloc_imap_bit ROOT_DEV s = Inr (5, s') \<and> bit_at (sect s' 2) 5"
proof -
  obtain s r where s: "init_fs 0x70000 power_on = Inr s" "fresh_fs s disk_sb r" using first_boot by blast
  note f = fresh_facts [OF s(2)]
  have b: "\<not> bit_at (sect s 2) 5" "j < 5 \<Longrightarrow> bit_at (sect s 2) j" for j using f(10) by (auto simp: free_inode_def)
  then have nf: "\<not> (\<forall>i \<in> {..<4096}. bit_at (sect s 2) i)" by auto
  from alloc_imap_bit_spec [OF f(1)] obtain n s' where n: "alloc_imap_bit ROOT_DEV s = Inr (int n, s')" "n < 4096"
    "\<not> bit_at (sect s 2) n" "\<forall>i \<in> {..<n}. bit_at (sect s 2) i" "\<forall>i \<in> {..<4096}. bit_at (sect s' 2) i \<longleftrightarrow> bit_at (sect s 2) i \<or> i = n"
    unfolding if_not_P [OF nf] by blast
  have "n = 5" using n(3,4) b by (metis lessThan_iff linorder_neqE_nat)
  with n s(1) show ?thesis by auto
qed

lemma get_inode_spec_witness:
  "\<exists>s p s'. init_fs 0x70000 power_on = Inr s \<and> get_inode ROOT_DEV 3 s = Inr (Some p, s') \<and> holds s' ROOT_DEV 3 p"
proof -
  obtain s r where s: "init_fs 0x70000 power_on = Inr s" "fresh_fs s disk_sb r" using first_boot by blast
  note f = fresh_facts [OF s(2)]
  from get_inode_spec [OF f(1,7), of 3] f(14) s(1) show ?thesis by (auto split: sum.splits)
qed

lemma sync_inode_roundtrip_witness:
  "\<exists>s r s'. init_fs 0x70000 power_on = Inr s \<and> root_inode s = Some r \<and> sync_inode r s = Inr s' \<and> inode_table s' = inode_table s"
proof -
  obtain s r where s: "init_fs 0x70000 power_on = Inr s" "fresh_fs s disk_sb r" using first_boot by blast
  note f = fresh_facts [OF s(2)]
  from sync_inode_roundtrip [OF f(1) refl, of r] f(2,3) s(1) show ?thesis by (auto simp: dir_ok_def)
qed

text \<open>A client opens \<open>/foo\<close> with \<open>O_CREAT\<close> and \<open>O_RDWR\<close>.\<close>

lemma fs_request_keeps_references_witness:
  "\<exists>s. init_fs 0x70000 power_on = Inr s \<and> (case task_fs_request ((request OPEN 0)\<lparr>m_FLAGS := 7, m_NAME_LEN := 4\<rparr>) s of
      Inl e \<Rightarrow> True | Inr (reply, s') \<Rightarrow> m_type reply = SYSCALL_RET \<and> refs_ok s')"
proof -
  obtain s r where s: "init_fs 0x70000 power_on = Inr s" "fresh_fs s disk_sb r" using first_boot by blast
  note f = fresh_facts [OF s(2)]
  from fs_request_keeps_references [of s "(request OPEN 0)\<lparr>m_FLAGS := 7, m_NAME_LEN := 4\<rparr>"] f(8,9) s(1)
  show ?thesis by (auto split: sum.splits)
qed

section \<open>A mounted file system\<close>

abbreviation zeros :: "nat \<Rightarrow> u8" where "zeros \<equiv> (\<lambda>_. 0)"

text \<open>The first entry of the table of inodes is the root directory, the second a file of ten sectors from sector 300 on.\<close>

definition mounted :: "(nat \<Rightarrow> u8) \<Rightarrow> nat \<Rightarrow> message \<Rightarrow> fstate" where
  "mounted p n msg = \<lparr>hs = drive p,
     inode_table = (\<lambda>i. if i = 0
       then \<lparr>i_mode = I_DIRECTORY, i_size = of_nat (16 * n), i_start_sector = 262, i_nr_sectors = 2048, i_dev = ROOT_DEV, i_cnt = 1, i_num = 1\<rparr>
       else \<lparr>i_mode = I_REGULAR, i_size = 100, i_start_sector = 300, i_nr_sectors = 10, i_dev = ROOT_DEV, i_cnt = 2, i_num = 5\<rparr>),
     f_desc_table = (\<lambda>_. \<lparr>fd_mode = 6, fd_pos = 50, fd_inode = Some 1\<rparr>),
     super_blocks = (\<lambda>_. disk_sb), root_inode = Some 0, fs_msg = msg, pcaller = 1\<rparr>"

lemma mounted_layout: "fs_layout (mounted p n msg) disk_sb"
proof -
  have "List.find (\<lambda>i. sb_dev (super_blocks (mounted p n msg) i) = ROOT_DEV) [0..<NR_SUPER_BLOCK] = Some 0"
    unfolding find_first by (simp add: mounted_def NR_SUPER_BLOCK_def disk_sb_fields)
  then show ?thesis
    by (simp add: fs_layout_def get_super_block_def mounted_def disk_sb_fields valid_sect_def rbase_def)
qed

lemma mounted_file: "file_ok (mounted p n msg) disk_sb (inode_table (mounted p n msg) 1) 300 10 100"
  using mounted_layout [of p n msg] by (simp add: file_ok_def disk_sb_fields) (simp add: mounted_def)

definition user_base :: u32 where
  "user_base = ldt_desc_base (ldts (procs (hk (drive (\<lambda>_. 0))) 1) 2)"

lemma user_base: "vir2linear user_base a = a"
  using drive_simps(5) [of 1 "\<lambda>_. 0" a] by (simp add: user_base_def lin_def)

lemma mounted_opened:
  assumes "m_source msg = 1" "0 \<le> m_FD msg" "m_FD msg < 10"
  shows "opened (mounted p n msg) (nat (m_FD msg)) 1 user_base"
proof -
  have "filp (procs (hk (drive p)) 1) = Some" by (simp add: drive_def upd_proc_def)
  moreover have "ldt_proc_id2base 1 (hk (drive p)) = Inr user_base"
    using ldt_proc_id2base_valid [of 1 "hk (drive p)"] by (simp add: user_base_def drive_def)
  ultimately show ?thesis using assms by (simp add: opened_def mounted_def caller_filp_def NR_FILES_def O_RDWR_def)
qed

lemma mounted_fsb: "fsb (mounted p n msg) = 0x600000"
  by (simp add: fsb_def mounted_def FSBUF_def TASK_FS_def NR_TASKS_def NR_PROCS_def)

lemma mounted_apart: "c \<le> 0x5F0000 \<Longrightarrow> apart (mounted p n msg) 0x10000 c"
  by (simp add: apart_def mounted_fsb)

lemma do_rdwt_read_witness:
  "\<exists>s'. do_rdwt (mounted zeros 4 (request READ 20)) = Inr (20, s') \<and> fmem s' 0x10000 = file_byte (mounted zeros 4 (request READ 20)) 300 50"
proof -
  let ?s = "mounted zeros 4 (request READ 20)"
  have "\<exists>s'. do_rdwt ?s = Inr (int 20, s') \<and> (\<forall>i \<in> {..<20}. fmem s' (0x10000 + of_nat i) = file_byte ?s 300 (50 + i))
    \<and> fd_pos (f_desc_table s' 0) = int (50 + 20) \<and> inode_table s' = inode_table ?s \<and> (\<forall>a. file_byte s' 300 a = file_byte ?s 300 a)"
    by (rule do_rdwt_read [OF _ _ _ _ mounted_file _ _ _ _ mounted_apart])
      (use mounted_opened [of "request READ 20" zeros 4] user_base in \<open>simp_all add: request_def mounted_def\<close>)
  then show ?thesis by (auto dest: bspec [of _ _ 0])
qed

lemma do_rdwt_write_witness:
  "\<exists>s'. do_rdwt (mounted zeros 4 (request WRITE 20)) = Inr (20, s') \<and> file_byte s' 300 50 = fmem (mounted zeros 4 (request WRITE 20)) 0x10000
    \<and> file_byte s' 300 70 = file_byte (mounted zeros 4 (request WRITE 20)) 300 70"
proof -
  let ?s = "mounted zeros 4 (request WRITE 20)"
  have "\<exists>s'. do_rdwt ?s = Inr (int 20, s')
    \<and> (\<forall>a. file_byte s' 300 a = (if 50 \<le> a \<and> a < 50 + 20 then fmem ?s (0x10000 + of_nat (a - 50)) else file_byte ?s 300 a))
    \<and> fd_pos (f_desc_table s' 0) = int (50 + 20) \<and> i_size (inode_table s' 1) = of_nat (max 100 (50 + 20))"
    by (rule do_rdwt_write [OF _ _ _ _ mounted_file _ _ _ _ _ mounted_apart])
      (use mounted_opened [of "request WRITE 20" zeros 4] user_base in \<open>simp_all add: request_def mounted_def\<close>)
  then show ?thesis by auto
qed

text \<open>The ten sectors end at byte 5120: a write of 5072 bytes at position 50 puts two bytes into the next sector.\<close>

lemma do_rdwt_write_overruns_witness:
  "\<exists>s'. do_rdwt (mounted zeros 4 (request WRITE 5072)) = Inr (5072, s') \<and> sect s' 310 ! 1 = fmem (mounted zeros 4 (request WRITE 5072)) (0x10000 + 5071)"
proof -
  let ?s = "mounted zeros 4 (request WRITE 5072)"
  have "\<exists>s'. do_rdwt ?s = Inr (int 5072, s')
    \<and> (\<forall>i \<in> {..<50 + 5072 - 512 * 10}. sect s' (300 + 10) ! i = fmem ?s (0x10000 + of_nat (512 * 10 - 50 + i)))"
    by (rule do_rdwt_write_overruns [OF _ _ _ _ mounted_file _ _ _ _ _ mounted_apart])
      (use mounted_opened [of "request WRITE 5072" zeros 4] user_base in \<open>simp_all add: request_def mounted_def\<close>)
  then show ?thesis by (auto dest: bspec [of _ _ 1])
qed

lemma file_write_read_witness:
  "\<exists>s1 s2. do_rdwt (mounted zeros 4 (request WRITE 20)) = Inr (20, s1)
    \<and> do_rdwt (s1\<lparr>fs_msg := (request READ 20)\<lparr>m_FD := 1, m_BUF := 0x20000\<rparr>\<rparr>) = Inr (20, s2)
    \<and> fmem s2 (0x20000 + 19) = fmem (mounted zeros 4 (request WRITE 20)) (0x10000 + 19)"
proof -
  let ?s = "mounted zeros 4 (request WRITE 20)" let ?m = "(request READ 20)\<lparr>m_FD := 1, m_BUF := 0x20000\<rparr>"
  have m: "?s\<lparr>fs_msg := ?m\<rparr> = mounted zeros 4 ?m" by (simp add: mounted_def)
  have a: "apart ?s 0x20000 (20 + 3)" by (simp add: apart_def mounted_fsb)
  have o: "opened (?s\<lparr>fs_msg := ?m\<rparr>) 1 1 user_base" unfolding m using mounted_opened [of ?m zeros 4] by (simp add: request_def)
  have "\<exists>s1 s2. do_rdwt ?s = Inr (int 20, s1) \<and> do_rdwt (s1\<lparr>fs_msg := ?m\<rparr>) = Inr (int 20, s2)
    \<and> (\<forall>i \<in> {..<20}. fmem s2 (0x20000 + of_nat i) = fmem ?s (0x10000 + of_nat i))"
    by (rule file_write_read [OF _ _ _ _ mounted_file, where d = 0 and P = 50 and user = "0x10000" and user' = "0x20000", OF _ _ _ _ _ _ _ _ _ mounted_apart o _ _ _ _ _ a])
      (use mounted_opened [of "request WRITE 20" zeros 4] user_base in \<open>simp_all add: request_def mounted_def\<close>)
  then show ?thesis by (auto dest: bspec [of _ _ 19])
qed

section \<open>Directories\<close>

lemma mounted_dir: "n < 2 ^ 16 \<Longrightarrow> dir_ok (mounted p n msg) disk_sb (inode_table (mounted p n msg) 0) n"
  using mounted_layout [of p n msg] unfolding dir_ok_def dstart_def disk_sb_fields
  by (simp add: mounted_def)

lemma mounted_entry:
  "dent_nr (mounted p n msg) 262 e = load32 (\<lambda>a. p (512 * (362 + e div 32) + (16 * (e mod 32) + unat a))) 0"
  unfolding dent_nr_def entry_nr_def list32_def DIR_ENTRY_SIZE_def
proof (rule load32_cong)
  fix i :: nat assume i: "i < 4"
  let ?x = "16 * (e mod 32) + unat (0 + of_nat i :: u32)"
  have "unat (0 + of_nat i :: u32) = i" unfolding add_0_left using i by (intro unat_of_nat_small) simp
  then have x: "?x < 512 * 1" using i mod_less_divisor [of 32 e] by linarith
  have "sect (mounted p n msg) (262 + e div 32) = disk_bytes p (362 + e div 32) 1"
    by (simp add: sect_def mounted_def rbase_def)
  then show "sect (mounted p n msg) (262 + e div 32) ! ?x = p (512 * (362 + e div 32) + ?x)"
    unfolding add_0_left using disk_bytes_nth [OF x, of p "362 + e div 32"] by simp
qed

lemma mounted_dstart: "dstart (inode_table (mounted p n msg) 0) = 262"
  by (simp add: dstart_def mounted_def)

text \<open>A directory of exactly one sector, with no free entry.\<close>

lemma new_dir_entry_full_sector_witness:
  "\<exists>s'. new_dir_entry 0 9 (ascii ''foo'') (mounted (\<lambda>_. 1) 32 (request OPEN 0)) = Inr s' \<and> dent_nr s' 262 32 = dent_nr s' 262 0"
proof -
  let ?s = "mounted (\<lambda>_. 1) 32 (request OPEN 0)"
  have nz: "dent_nr ?s 262 k \<noteq> 0" for k unfolding mounted_entry by (simp add: load32_def)
  have d: "dir_ok ?s disk_sb (inode_table ?s 0) (32 * 1)" using mounted_dir [of 32] by simp
  have len: "length (ascii ''foo'') < 12" by (simp add: ascii_def)
  from new_dir_entry_full_sector [OF refl d _ _ len, of 9] nz show ?thesis unfolding mounted_dstart by fastforce
qed


end
