(* ===== verification/Fs_Client.thy ===== *)
theory Fs_Client
  imports Fs_Create
begin

text \<open>
  The file system as a client sees it through \<^verbatim>\<open>kernel/api.c\<close>: what \<open>open\<close>, \<open>file_write\<close>, \<open>close\<close> and \<open>file_read\<close> do to a
  file, from the string and the buffers in the client's memory down to the sectors of the disk, and the whole life of a file.
\<close>

section \<open>The memory of a client\<close>

text \<open>Addresses of processes mean the same, and memory outside of the file system's buffer has the same content.\<close>

definition same_view :: "fstate \<Rightarrow> fstate \<Rightarrow> bool" where
  "same_view s t \<longleftrightarrow> (\<forall>p. lin (hk (hs t)) p = lin (hk (hs s)) p) \<and> (\<forall>x. 2 ^ 20 \<le> unat (x - fsb s) \<longrightarrow> fmem t x = fmem s x)"

lemma same_view_fsb: "same_view s t \<Longrightarrow> fsb t = fsb s"
  by (simp add: same_view_def fsb_def)

lemma same_view_refl [simp]: "same_view s s" by (simp add: same_view_def)

lemma same_view_trans [trans]: "same_view s t \<Longrightarrow> same_view t u \<Longrightarrow> same_view s u"
  using same_view_fsb [of s t] by (simp add: same_view_def)

lemma lin_filp [simp]: "lin (upd_proc p (\<lambda>q. q\<lparr>filp := f q\<rparr>) k) r = lin k r"
  by (simp add: lin_def upd_proc_def fun_eq_iff)

lemma same_view_simps [simp]:
  "same_view s (upd_filp fd x t) = same_view s t" "same_view s (upd_desc d f t) = same_view s t" "same_view s (upd_inode q g t) = same_view s t"
  "same_view s (t\<lparr>fs_msg := m\<rparr>) = same_view s t" "same_view s (t\<lparr>pcaller := p\<rparr>) = same_view s t" "same_view s (advanced d q N z t) = same_view s t"
  by (simp_all add: same_view_def upd_filp_def upd_desc_def)

lemma same_view_left [simp]:
  "same_view (upd_inode q g s) t = same_view s t" "same_view (advanced d q N z s) t = same_view s t"
  by (simp_all add: same_view_def)

lemma same_view_io: "io_frame s t \<Longrightarrow> same_view s t"
  using io_frame_simps(7,12) [of s t] by (simp add: same_view_def lin_def fun_eq_iff)

lemma ldt_base_lin:
  assumes "p < nr_proc_table"
  obtains base where "ldt_proc_id2base (int p) k = Inr base" "\<And>a. vir2linear base a = lin k p a"
proof
  show "ldt_proc_id2base (int p) k = Inr (ldt_desc_base (ldts (procs k p) 2))"
    using assms by (simp add: ldt_proc_id2base_def SELECTOR_KERNEL_DS_def drop_bit_eq_div unat_div)
qed (simp add: lin_def)

text \<open>\<open>bs\<close> are the bytes at address \<open>a\<close> of process \<open>p\<close>; they do not meet the buffer of the file system.\<close>

definition bytes_at :: "fstate \<Rightarrow> nat \<Rightarrow> u32 \<Rightarrow> u8 list \<Rightarrow> bool" where
  "bytes_at s p a bs \<longleftrightarrow> apart s (lin (hk (hs s)) p a) (length bs + 3) \<and> (\<forall>i < length bs. fmem s (lin (hk (hs s)) p a + of_nat i) = bs ! i)"

lemma bytes_at_view:
  assumes "bytes_at s p a bs" "same_view s t"
  shows "bytes_at t p a bs"
  using assms apart_far [of s "lin (hk (hs s)) p a" "length bs + 3"] same_view_fsb [OF assms(2)]
  by (auto simp: bytes_at_def same_view_def apart_def)

lemma apart_view: "same_view s t \<Longrightarrow> apart t (lin (hk (hs t)) p a) n = apart s (lin (hk (hs s)) p a) n"
  using same_view_fsb [of s t] by (simp add: apart_def same_view_def)

lemma cstr_nth:
  assumes "0 \<notin> set cs" "\<And>i. i < length cs \<Longrightarrow> m (a + of_nat i) = cs ! i" "m (a + of_nat (length cs)) = 0"
  shows "cstr m a cs"
  using assms
proof (induction cs arbitrary: a)
  case (Cons c cs)
  have "cstr m (a + 1) cs"
  proof (rule Cons.IH)
    fix i assume "i < length cs"
    then show "m (a + 1 + of_nat i) = cs ! i" using Cons.prems(2) [of "Suc i"] by (simp add: algebra_simps)
  qed (use Cons.prems in \<open>auto simp: algebra_simps\<close>)
  with Cons.prems(1) Cons.prems(2) [of 0] show ?case by simp
qed simp

text \<open>A path name of a client: a string of at most 63 characters.\<close>

definition path_at :: "fstate \<Rightarrow> nat \<Rightarrow> u32 \<Rightarrow> u8 list \<Rightarrow> bool" where
  "path_at s p a path \<longleftrightarrow> bytes_at s p a (path @ [0]) \<and> 0 \<notin> set path \<and> path \<noteq> [] \<and> length path < 64"

lemma lin_add: "lin k p (a + b) = lin k p a + b"
  by (simp add: lin_def vir2linear_def add.assoc)

lemma path_at_view: "path_at s p a path \<Longrightarrow> same_view s t \<Longrightarrow> path_at t p a path"
  by (auto simp: path_at_def intro: bytes_at_view)

lemma path_at_bytes:
  assumes "path_at s p a path"
  shows "strlen (\<lambda>a. fmem s (lin (hk (hs s)) p a)) a = Some (of_nat (length path))"
    "load_bytes (fmem s) (lin (hk (hs s)) p a) (length path) = path" "sint (of_nat (length path) :: u32) = int (length path)"
proof -
  have b: "fmem s (lin (hk (hs s)) p a + of_nat i) = (path @ [0]) ! i" if "i < length path + 1" for i
    using assms that by (simp add: path_at_def bytes_at_def)
  have "cstr (\<lambda>a. fmem s (lin (hk (hs s)) p a)) a path"
  proof (rule cstr_nth)
    show "0 \<notin> set path" using assms by (simp add: path_at_def)
    show "fmem s (lin (hk (hs s)) p (a + of_nat i)) = path ! i" if "i < length path" for i
      using b [of i] that by (simp add: lin_add nth_append)
    show "fmem s (lin (hk (hs s)) p (a + of_nat (length path))) = 0" using b [of "length path"] by (simp add: lin_add nth_append)
  qed
  then show "strlen (\<lambda>a. fmem s (lin (hk (hs s)) p a)) a = Some (of_nat (length path))" by (rule strlen_cstr)
  show "load_bytes (fmem s) (lin (hk (hs s)) p a) (length path) = path"
    by (rule nth_equalityI) (simp_all add: nth_load_bytes b nth_append del: load_bytes.simps)
  show "sint (of_nat (length path) :: u32) = int (length path)" using assms by (intro sint_of_nat_small) (simp add: path_at_def)
qed

lemma get_path_ok:
  assumes "path_at s p a path" "p < nr_proc_table" "m_source (fs_msg s) = int p" "m_PATHNAME (fs_msg s) = a" "m_NAME_LEN (fs_msg s) = int (length path)"
  shows "get_path src line s = Inr path"
proof -
  obtain base where base: "ldt_proc_id2base (int p) (hk (hs s)) = Inr base" "vir2linear base a = lin (hk (hs s)) p a"
    using ldt_base_lin [OF assms(2)] by metis
  have path: "path \<noteq> []" "length path < 64" "0 \<notin> set path" using assms(1) by (simp_all add: path_at_def)
  then have "takeWhile (\<lambda>c. c \<noteq> 0) path = path" by (intro takeWhile_eq_all_conv [THEN iffD2]) auto
  with path path_at_bytes(2) [OF assms(1)] show ?thesis
    by (simp add: get_path_def assms(3-5) base MAX_PATH_def Let_def del: load_bytes.simps)
qed

section \<open>Opening and closing\<close>

text \<open>
  Process \<open>p\<close> has the descriptor \<open>fd\<close> for entry \<open>d\<close> of the table, which refers to inode \<open>q\<close>; it is the only reference.
\<close>

definition file_open :: "fstate \<Rightarrow> nat \<Rightarrow> nat \<Rightarrow> nat \<Rightarrow> u32 \<Rightarrow> nat \<Rightarrow> nat \<Rightarrow> inode \<Rightarrow> bool" where
  "file_open s p fd d flags pos q ino \<longleftrightarrow> fd < NR_FILES \<and> filp (procs (hk (hs s)) p) fd = Some d
     \<and> f_desc_table s d = \<lparr>fd_mode = flags, fd_pos = int pos, fd_inode = Some q\<rparr> \<and> q < NR_INODE \<and> inode_table s q = ino
     \<and> i_mode ino = I_REGULAR \<and> i_dev ino = ROOT_DEV \<and> i_cnt ino = 1 \<and> (\<forall>q'. holds s ROOT_DEV (i_num ino) q' \<longrightarrow> q' = q)"

text \<open>
  A file named \<open>name\<close> in the root directory \<open>r\<close>: its entry is the one that a search finds, and its inode \<open>i\<close> on the disk has
  \<open>sz\<close> bytes in 2048 sectors from \<open>S\<close> on, behind the directory.
\<close>

definition stored :: "fstate \<Rightarrow> super_block \<Rightarrow> nat \<Rightarrow> nat \<Rightarrow> u8 list \<Rightarrow> nat \<Rightarrow> nat \<Rightarrow> nat \<Rightarrow> bool" where
  "stored s sb r n name i S sz \<longleftrightarrow> root_inode s = Some r \<and> in_use s r \<and> dir_ok s sb (inode_table s r) n
     \<and> (\<exists>e. List.find (\<lambda>m. dent_name s (dstart (inode_table s r)) m = name) [0..<min (32 * ((n + 31) div 32)) (n + 1)] = Some e
           \<and> dent_nr s (dstart (inode_table s r)) e = of_nat i)
     \<and> disk_fields s sb (int i) = (I_REGULAR, of_nat sz, of_nat S, 2048) \<and> 0 < i \<and> i < 4096
     \<and> dstart (inode_table s r) + n div 32 < S \<and> S + 2048 < unat (nr_sectors sb) \<and> sz \<le> 2 ^ 20"

definition file_inode :: "nat \<Rightarrow> nat \<Rightarrow> nat \<Rightarrow> inode" where
  "file_inode i S sz = \<lparr>i_mode = I_REGULAR, i_size = of_nat sz, i_start_sector = of_nat S, i_nr_sectors = 2048,
     i_dev = ROOT_DEV, i_cnt = 1, i_num = int i\<rparr>"

lemma new_file_inode: "new_file S i = file_inode i S 0"
  by (simp add: new_file_def file_inode_def)

lemma stored_file_ok:
  assumes "stored s sb r n name i S sz"
  shows "file_ok s sb (file_inode i S sz) S 2048 sz"
  using assms by (simp add: stored_def file_ok_def file_inode_def dir_ok_def)

text \<open>What \<open>do_open\<close> reserves: the first free entries of the process and of the table.\<close>

definition free_fd :: "fstate \<Rightarrow> nat \<Rightarrow> nat \<Rightarrow> nat \<Rightarrow> bool" where
  "free_fd s p fd d \<longleftrightarrow> p < nr_proc_table \<and> fd < NR_FILES \<and> filp (procs (hk (hs s)) p) fd = None \<and> (\<forall>i < fd. filp (procs (hk (hs s)) p) i \<noteq> None)
     \<and> d < NR_FILE_DESC \<and> fd_inode (f_desc_table s d) = None \<and> (\<forall>i < d. fd_inode (f_desc_table s i) \<noteq> None)"

definition opened_state :: "nat \<Rightarrow> nat \<Rightarrow> u32 \<Rightarrow> nat \<Rightarrow> fstate \<Rightarrow> fstate" where
  "opened_state fd d flags q s = upd_desc d (\<lambda>_. \<lparr>fd_mode = flags, fd_pos = 0, fd_inode = Some q\<rparr>) (upd_filp fd (Some d) s)"

lemma opened_state_simps [simp]:
  "inode_table (opened_state fd d flags q s) = inode_table s" "root_inode (opened_state fd d flags q s) = root_inode s"
  "platter (hs (opened_state fd d flags q s)) = platter (hs s)" "sect (opened_state fd d flags q s) = sect s"
  "fs_layout (opened_state fd d flags q s) sb = fs_layout s sb"
  "f_desc_table (opened_state fd d flags q s) = (f_desc_table s)(d := \<lparr>fd_mode = flags, fd_pos = 0, fd_inode = Some q\<rparr>)"
  "filp (procs (hk (hs (opened_state fd d flags q s))) (pcaller s)) = (filp (procs (hk (hs s)) (pcaller s)))(fd := Some d)"
  by (simp_all add: opened_state_def upd_desc_def upd_filp_def sect_def rbase_def fun_eq_iff fs_layout_def get_super_block_def valid_sect_def
    cong: option.case_cong)

lemma opened_state_view [simp]: "same_view u (opened_state fd d flags q s) = same_view u s"
  by (simp add: opened_state_def)

lemma stored_cong:
  assumes "root_inode t = root_inode s" "inode_table t r = inode_table s r" "sect t = sect s" "fs_layout t sb = fs_layout s sb"
  shows "stored t sb r n name i S sz = stored s sb r n name i S sz"
  using assms by (simp add: stored_def in_use_def dir_ok_def dent_nr_def dent_name_def disk_fields_def cong: conj_cong)

lemma do_open_start:
  assumes "path_at s p a path" "free_fd s p fd d" "m_source (fs_msg s) = int p" "pcaller s = p" "m_PATHNAME (fs_msg s) = a"
    and "m_NAME_LEN (fs_msg s) = int (length path)" "m_FLAGS (fs_msg s) = flags"
    and "search_file path s = Inr (nr, t)" "open_inode path flags nr t = Inr (Some q, u)" "i_mode (inode_table u q) = I_REGULAR"
  shows "do_open s = Inr (int fd, opened_state fd d flags q u)"
proof -
  have "p < nr_proc_table" using assms(2) by (simp add: free_fd_def)
  note path = get_path_ok [OF assms(1) this assms(3,5,6)]
  have f: "List.find (\<lambda>i. caller_filp s i = None) [0..<NR_FILES] = Some fd"
    "List.find (\<lambda>i. fd_inode (f_desc_table s i) = None) [0..<NR_FILE_DESC] = Some d"
    using assms(2,4) by (simp_all add: find_first free_fd_def caller_filp_def)
  have "open_check (inode_table u q) v = Inr v" for v
    by (simp add: open_check_def assms(10) I_REGULAR_def I_TYPE_MASK_def I_CHAR_SPECIAL_def I_DIRECTORY_def Let_def)
  then show ?thesis by (simp add: do_open_def path assms(7-9) f opened_state_def Let_def)
qed

text \<open>The reply of the file system to a request that is answered with the descriptor.\<close>

definition asking :: "message \<Rightarrow> nat \<Rightarrow> fstate \<Rightarrow> fstate" where
  "asking msg p s = s\<lparr>fs_msg := msg, pcaller := p\<rparr>"

lemma asking_simps [simp]:
  "fs_msg (asking msg p s) = msg" "pcaller (asking msg p s) = p" "hs (asking msg p s) = hs s" "inode_table (asking msg p s) = inode_table s"
  "f_desc_table (asking msg p s) = f_desc_table s" "super_blocks (asking msg p s) = super_blocks s" "root_inode (asking msg p s) = root_inode s" "sect (asking msg p s) = sect s"
  "same_view u (asking msg p s) = same_view u s" "same_view (asking msg p s) u = same_view s u" "fsb (asking msg p s) = fsb s"
  "fs_layout (asking msg p s) sb = fs_layout s sb" "bytes_at (asking msg p s) = bytes_at s" "path_at (asking msg p s) = path_at s" "free_fd (asking msg p s) = free_fd s"
  by (auto simp: asking_def same_view_def fsb_def sect_def rbase_def fs_layout_def get_super_block_def valid_sect_def bytes_at_def path_at_def
    free_fd_def apart_def fun_eq_iff cong: option.case_cong)

lemma stored_asking [simp]: "stored (asking msg p s) sb r n name i S sz = stored s sb r n name i S sz"
  by (rule stored_cong) simp_all

lemma holds_asking [simp]: "holds (asking msg p s) = holds s" "in_use (asking msg p s) = in_use s"
  by (simp_all add: holds_def in_use_def fun_eq_iff)

lemma file_open_asking [simp]: "file_open (asking msg r s) = file_open s"
  by (simp add: file_open_def fun_eq_iff)

lemma api_open_eq:
  assumes "path_at s p a path"
    and "do_open (asking (msg\<lparr>m_source := int p, m_type := OPEN, m_PATHNAME := a, m_FLAGS := flags, m_NAME_LEN := int (length path)\<rparr>) p s) = Inr (fd, t)"
  shows "\<exists>m. api_open msg p a flags s = Inr (fd, asking m (pcaller t) t)"
  using assms(2) path_at_bytes [OF assms(1)]
  by (intro exI [of _ "(fs_msg t)\<lparr>m_FD := fd, m_type := SYSCALL_RET\<rparr>"]) (simp add: api_open_def task_fs_request_def asking_def fs_msg_consts Let_def)

text \<open>Only the descriptor \<open>fd\<close> of process \<open>p\<close> and entry \<open>d\<close> of the table are touched.\<close>

definition same_fds :: "nat \<Rightarrow> nat \<Rightarrow> nat \<Rightarrow> fstate \<Rightarrow> fstate \<Rightarrow> bool" where
  "same_fds p fd d s t \<longleftrightarrow> (\<forall>i. i \<noteq> d \<longrightarrow> fd_inode (f_desc_table t i) = fd_inode (f_desc_table s i))
     \<and> (\<forall>i. i \<noteq> fd \<longrightarrow> filp (procs (hk (hs t)) p) i = filp (procs (hk (hs s)) p) i)"

lemma same_fds_trans [trans]: "same_fds p fd d s t \<Longrightarrow> same_fds p fd d t u \<Longrightarrow> same_fds p fd d s u"
  by (simp add: same_fds_def)

lemma same_fds_free:
  assumes "free_fd s p fd d" "same_fds p fd d s t" "filp (procs (hk (hs t)) p) fd = None" "fd_inode (f_desc_table t d) = None"
  shows "free_fd t p fd d"
  using assms by (auto simp: free_fd_def same_fds_def)

lemma room_for_cong:
  assumes "root_inode t = root_inode s" "inode_table t = inode_table s" "sect t = sect s" "fs_layout t sb = fs_layout s sb"
  shows "room_for t sb r n e i K k = room_for s sb r n e i K k"
  using assms by (simp add: room_for_def dir_ok_def in_use_def mapped_def new_slot_def dent_nr_def free_inode_def sector_map_def used_def cong: conj_cong)

lemma opened_state_fds: "pcaller s = p \<Longrightarrow> same_fds p fd d s (opened_state fd d flags q s)"
  by (auto simp: same_fds_def opened_state_def upd_desc_def upd_filp_def)

lemma same_fds_io: "io_frame s t \<Longrightarrow> same_fds p fd d s t"
  using io_frame_simps(2,7) [of s t] by (simp add: same_fds_def)

lemma same_fds_asking [simp]: "same_fds p fd d (asking m q s) t = same_fds p fd d s t" "same_fds p fd d s (asking m q t) = same_fds p fd d s t"
  by (simp_all add: same_fds_def)

lemma same_fds_upd [simp]: "same_fds p fd d (upd_inode q f s) t = same_fds p fd d s t" "same_fds p fd d s (upd_inode q f t) = same_fds p fd d s t"
  by (simp_all add: same_fds_def)

text \<open>The name is not in the directory, not even in the entry behind the last one.\<close>

definition absent :: "fstate \<Rightarrow> nat \<Rightarrow> nat \<Rightarrow> u8 list \<Rightarrow> bool" where
  "absent s a n name \<longleftrightarrow> (\<forall>m \<in> {..n}. dent_name s a m \<noteq> name)"

lemma search_absent:
  assumes "root_inode s = Some r" "dir_ok s sb (inode_table s r) n" "strip_path path = Some name" "absent s (dstart (inode_table s r)) n name"
  shows "\<exists>t. search_file path s = Inr (0, t) \<and> io_frame s t \<and> sect t = sect s"
proof -
  have "List.find (\<lambda>e. dent_name s (dstart (inode_table s r)) e = name) [0..<min (32 * ((n + 31) div 32)) (n + 1)] = None"
    using assms(4) unfolding find_none absent_def by auto
  with search_file_ok [OF assms(1-3)] show ?thesis by simp
qed

text \<open>What a new file changes on the disk: its entry \<open>e\<close>, the bit of its inode and the bits of its slot.\<close>

definition entered :: "super_block \<Rightarrow> nat \<Rightarrow> nat \<Rightarrow> u8 list \<Rightarrow> nat \<Rightarrow> nat set \<Rightarrow> nat \<Rightarrow> fstate \<Rightarrow> fstate \<Rightarrow> bool" where
  "entered sb a e name i K k s t \<longleftrightarrow> (\<forall>m. dent_nr t a m = (if m = e then of_nat i else dent_nr s a m) \<and> dent_name t a m = (if m = e then name else dent_name s a m))
     \<and> (\<forall>j < 4096. bit_at (sect t 2) j \<longleftrightarrow> bit_at (sect s 2) j \<or> j = i) \<and> sector_map sb t = slots (insert k K)"

lemma entered_cong:
  assumes "sect s' = sect s" "sect t' = sect t"
  shows "entered sb a e name i K k s' t' = entered sb a e name i K k s t"
  by (simp add: entered_def dent_nr_def dent_name_def sector_map_def used_def assms)

text \<open>The entry \<open>q\<close> of the table is used for inode \<open>i\<close>; all others and the inodes on the disk, apart from the directory's, are as before.\<close>

definition same_files :: "super_block \<Rightarrow> nat \<Rightarrow> nat \<Rightarrow> nat \<Rightarrow> fstate \<Rightarrow> fstate \<Rightarrow> bool" where
  "same_files sb r q i s t \<longleftrightarrow> (\<forall>p. p \<noteq> q \<longrightarrow> in_use t p = in_use s p) \<and> i_num (inode_table t r) = i_num (inode_table s r)
     \<and> (\<forall>num \<in> {1..4096}. num \<noteq> int i \<and> num \<noteq> i_num (inode_table s r) \<longrightarrow> disk_fields t sb num = disk_fields s sb num)"

lemma same_files_cong:
  assumes "inode_table s' = inode_table s" "sect s' = sect s" "inode_table t' = inode_table t" "sect t' = sect t"
  shows "same_files sb r q i s' t' = same_files sb r q i s t"
  using assms by (simp add: same_files_def in_use_def disk_fields_def)

text \<open>What is known of the file when it has been created.\<close>

lemma created_file:
  assumes room: "room_for s sb r n e i K k" and a: "a = dstart (inode_table s r)" and S: "S = unat (n_1st_sector sb) + 2048 * k"
    "S + 2048 < unat (nr_sectors sb)" "a + (n + 1) div 32 < S"
    and name: "strip_path path = Some name" "length name < 12" "0 \<notin> set name" "absent s a n name"
  shows "\<exists>q s'. create_file path s = Inr (Some q, s') \<and> q \<noteq> r \<and> q < NR_INODE \<and> inode_table s' q = file_inode i S 0
    \<and> stored s' sb r (max n (e + 1)) name i S 0 \<and> same_view s s' \<and> same_fds p fd d s s' \<and> pcaller s' = pcaller s
    \<and> (\<forall>q'. holds s' ROOT_DEV (int i) q' \<longrightarrow> q' = q) \<and> entered sb a e name i K k s s' \<and> dstart (inode_table s' r) = a
    \<and> same_files sb r q i s s'"
proof -
  have room': "root_inode s = Some r" "mapped s" "\<not> bit_at (sect s 2) i" "0 < i" "i < 4096" "new_slot s a n e" "in_use s r"
    using room by (simp_all add: room_for_def free_inode_def a)
  from create_file_ok [OF room a S(1) name(1-3)] obtain q s' where q: "create_file path s = Inr (Some q, s')" "q \<noteq> r" "q < NR_INODE"
    and fr: "io_frame (upd_inode r (\<lambda>d. d\<lparr>i_size := of_nat (16 * max n (e + 1))\<rparr>) (upd_inode q (\<lambda>_. new_file S i) s)) s'"
    and ent: "\<And>m. dent_nr s' a m = (if m = e then of_nat i else dent_nr s a m)" "\<And>m. dent_name s' a m = (if m = e then name else dent_name s a m)"
    and disk: "disk_fields s' sb (int i) = (I_REGULAR, 0, of_nat S, 2048)" "\<forall>j < 4096. bit_at (sect s' 2) j \<longleftrightarrow> bit_at (sect s 2) j \<or> j = i"
      "sector_map sb s' = slots (insert k K)"
      "\<forall>num \<in> {1..4096}. num \<noteq> int i \<and> num \<noteq> i_num (inode_table s r) \<longrightarrow> disk_fields s' sb num = disk_fields s sb num" by blast
  have e: "e \<le> n" "max n (e + 1) \<le> n + 1" using room'(6) by (auto simp: new_slot_def)
  have "\<forall>m \<in> {..<e}. dent_name s a m \<noteq> name" using name(4) e(1) by (auto simp: absent_def)
  note dir = created_dir [OF room a refl q(2) fr ent(2) this]
  have "a + max n (e + 1) div 32 < S" by (rule le_less_trans [OF add_left_mono [OF div_le_mono [OF e(2)]] S(3)])
  moreover have "in_use s' r" using io_frame_simps(1) [OF fr] q(2) room'(7) by (simp add: in_use_def)
  ultimately have "stored s' sb r (max n (e + 1)) name i S 0" using dir disk(1) ent(1) room' S(2) by (simp add: stored_def)
  moreover have "holds s' ROOT_DEV (int i) q' \<longrightarrow> q' = q" for q'
  proof -
    have "\<not> holds s ROOT_DEV (int i) q'" using room'(2,3) by (rule mapped_fresh)
    then show ?thesis using io_frame_simps(1) [OF fr] q(2) by (auto simp: holds_def in_use_def split: if_splits)
  qed
  moreover have "same_view s s'" using same_view_io [OF fr] by simp
  moreover have "same_fds p fd d s s'" using same_fds_io [OF fr] by simp
  moreover have "pcaller s' = pcaller s" using io_frame_simps(6) [OF fr] by simp
  moreover have "entered sb a e name i K k s s'" using ent disk(2,3) by (simp add: entered_def)
  moreover have "same_files sb r q i s s'" using disk(4) io_frame_simps(1) [OF fr] q(2) by (simp add: same_files_def in_use_def)
  ultimately show ?thesis using q dir(2,5) by (intro exI [of _ q] exI [of _ s']) (simp add: new_file_inode)
qed

lemma api_open_new:
  assumes path: "path_at s p ptr path" and room: "room_for s sb r n e i K k" and a: "a = dstart (inode_table s r)"
    and S: "S = unat (n_1st_sector sb) + 2048 * k" "S + 2048 < unat (nr_sectors sb)" "a + (n + 1) div 32 < S"
    and name: "strip_path path = Some name" "length name < 12" "0 \<notin> set name" "absent s a n name"
    and fd: "free_fd s p fd d" "flags AND O_CREAT \<noteq> 0"
  shows "\<exists>s' q. api_open msg p ptr flags s = Inr (int fd, s') \<and> q \<noteq> r \<and> stored s' sb r (max n (e + 1)) name i S 0
    \<and> file_open s' p fd d flags 0 q (file_inode i S 0) \<and> same_view s s' \<and> same_fds p fd d s s' \<and> entered sb a e name i K k s s'
    \<and> dstart (inode_table s' r) = a \<and> same_files sb r q i s s'"
proof -
  let ?m = "msg\<lparr>m_source := int p, m_type := OPEN, m_PATHNAME := ptr, m_FLAGS := flags, m_NAME_LEN := int (length path)\<rparr>"
  let ?s = "asking ?m p s"
  have r: "root_inode s = Some r" "dir_ok s sb (inode_table s r) n" using room by (simp_all add: room_for_def)
  have dok: "dir_ok ?s sb (inode_table ?s r) n" "absent ?s (dstart (inode_table ?s r)) n name" "room_for ?s sb r n e i K k"
    using r(2) name(4) room room_for_cong [of ?s s sb r n e i K k] by (simp_all add: dir_ok_def absent_def dent_name_def a)
  from search_absent [of ?s r sb n path name] r(1) dok(1,2) name(1)
  obtain t where t: "search_file path ?s = Inr (0, t)" "io_frame ?s t" "sect t = sect ?s" by auto
  note tio = io_frame_simps [OF t(2)]
  have "room_for t sb r n e i K k" "a = dstart (inode_table t r)" "absent t a n name"
    using room_for_cong [of t ?s sb r n e i K k] dok(3) tio(1,4,11) t(3) a name(4) by (simp_all add: absent_def dent_name_def)
  from created_file [OF this(1,2) S name(1-3) this(3), of p fd d] obtain q u where u: "create_file path t = Inr (Some q, u)" "q \<noteq> r" "q < NR_INODE"
    "inode_table u q = file_inode i S 0" "stored u sb r (max n (e + 1)) name i S 0" "same_view t u" "same_fds p fd d t u" "pcaller u = pcaller t"
    "\<forall>q'. holds u ROOT_DEV (int i) q' \<longrightarrow> q' = q" "entered sb a e name i K k t u" "dstart (inode_table u r) = a" "same_files sb r q i t u" by blast
  have pc: "pcaller u = p" using u(8) tio(6) by simp
  let ?v = "opened_state fd d flags q u"
  have "do_open ?s = Inr (int fd, ?v)"
    by (rule do_open_start [OF _ _ _ _ _ _ _ t(1), of p ptr]) (use path fd u in \<open>simp_all add: open_inode_def file_inode_def\<close>)
  from api_open_eq [OF path this] obtain m where m: "api_open msg p ptr flags s = Inr (int fd, asking m (pcaller ?v) ?v)" by blast
  have "stored ?v sb r (max n (e + 1)) name i S 0" using u(5) stored_cong [of ?v u r sb "max n (e + 1)" name i S 0] by simp
  moreover have "file_open ?v p fd d flags 0 q (file_inode i S 0)"
    using fd(1) u(3,4,9) pc opened_state_simps(7) [of fd d flags q u] by (simp add: file_open_def free_fd_def file_inode_def holds_def in_use_def)
  moreover have "same_view s ?v" using same_view_trans [OF same_view_io [OF t(2)] u(6)] by simp
  moreover have "same_fds p fd d s ?v" using same_fds_trans [OF same_fds_trans [OF same_fds_io [OF t(2)] u(7)] opened_state_fds [OF pc]] by simp
  moreover have "entered sb a e name i K k s (asking m (pcaller ?v) ?v)" using u(10) entered_cong [of s t _ u] t(3) by simp
  moreover have "same_files sb r q i s (asking m (pcaller ?v) ?v)" using u(12) same_files_cong [of s t "asking m (pcaller ?v) ?v" u] t(3) tio(1) by simp
  ultimately show ?thesis using m u(2,11) by (intro exI [of _ "asking m (pcaller ?v) ?v"] exI [of _ q]) simp
qed

lemma get_inode_stored:
  assumes "stored s sb r n name i S sz" "\<forall>q. \<not> holds s ROOT_DEV (int i) q" "\<exists>q < NR_INODE. \<not> in_use s q"
  shows "\<exists>q t. get_inode ROOT_DEV (int i) s = Inr (Some q, t) \<and> q \<noteq> r \<and> q < NR_INODE \<and> io_frame (upd_inode q (\<lambda>_. file_inode i S sz) s) t
    \<and> sect t = sect s"
proof -
  have st: "fs_layout s sb" "1 \<le> int i" "int i \<le> 4096" "in_use s r" "disk_fields s sb (int i) = (I_REGULAR, of_nat sz, of_nat S, 2048)"
    using assms(1) by (simp_all add: stored_def dir_ok_def)
  from get_inode_new [OF st(1-3) assms(2,3)] obtain q bs where q: "q < NR_INODE" "\<not> in_use s q" "length bs = 512"
    and get: "get_inode ROOT_DEV (int i) s = Inr (Some q, upd_inode q (\<lambda>p. read_inode (sect s (iblk sb (int i))) (ioff (int i))
      (p\<lparr>i_dev := ROOT_DEV, i_num := int i, i_cnt := 1\<rparr>)) (set_buf bs s))" by blast
  have ino: "read_inode (sect s (iblk sb (int i))) (ioff (int i)) (p\<lparr>i_dev := ROOT_DEV, i_num := int i, i_cnt := 1\<rparr>) = file_inode i S sz" for p
    using st(5) by (cases p) (simp add: read_inode_def disk_fields_def fields_at_def file_inode_def)
  have "io_frame (upd_inode q (\<lambda>_. file_inode i S sz) s) (upd_inode q (\<lambda>_. file_inode i S sz) (set_buf bs s))"
    using q(3) by (intro io_frame_upd) simp
  then show ?thesis using q st(4) get unfolding ino by (intro exI [of _ q]) (auto simp: fun_eq_iff)
qed

lemma stored_io:
  assumes "io_frame s t" "sect t = sect s"
  shows "stored t sb r n name i S sz = stored s sb r n name i S sz"
  using io_frame_simps(1,4,11) [OF assms(1)] assms(2) by (intro stored_cong) simp_all

lemma search_stored:
  assumes "stored s sb r n name i S sz" "strip_path path = Some name"
  shows "\<exists>t. search_file path s = Inr (of_nat i, t) \<and> io_frame s t \<and> sect t = sect s"
  using assms(1) search_file_ok [of s r sb n path name] assms(2) by (auto simp: stored_def)

lemma api_open_stored:
  assumes path: "path_at s p ptr path" "strip_path path = Some name" and st: "stored s sb r n name i S sz"
    and tab: "\<forall>q. \<not> holds s ROOT_DEV (int i) q" "\<exists>q < NR_INODE. \<not> in_use s q"
    and fd: "free_fd s p fd d" "flags AND O_CREAT = 0" "flags AND O_RDWR \<noteq> 0"
  shows "\<exists>s' q. api_open msg p ptr flags s = Inr (int fd, s') \<and> q \<noteq> r \<and> stored s' sb r n name i S sz
    \<and> file_open s' p fd d flags 0 q (file_inode i S sz) \<and> same_view s s' \<and> same_fds p fd d s s' \<and> sect s' = sect s"
proof -
  let ?m = "msg\<lparr>m_source := int p, m_type := OPEN, m_PATHNAME := ptr, m_FLAGS := flags, m_NAME_LEN := int (length path)\<rparr>"
  let ?s = "asking ?m p s"
  have i: "sint (of_nat i :: u32) = int i" using st by (intro sint_of_nat_small) (simp add: stored_def)
  have dev: "root_inode s = Some r" "i_dev (inode_table s r) = ROOT_DEV" using st by (simp_all add: stored_def dir_ok_def)
  from search_stored [of ?s sb r n name i S sz path] st path(2)
  obtain t where t: "search_file path ?s = Inr (of_nat i, t)" "io_frame ?s t" "sect t = sect ?s" by auto
  note tio = io_frame_simps [OF t(2)]
  have "stored t sb r n name i S sz" "\<forall>q. \<not> holds t ROOT_DEV (int i) q" "\<exists>q < NR_INODE. \<not> in_use t q"
    using st stored_io [OF t(2,3)] tab tio(1) by (simp_all add: holds_def in_use_def)
  from get_inode_stored [OF this] obtain q u where u: "get_inode ROOT_DEV (int i) t = Inr (Some q, u)" "q \<noteq> r" "q < NR_INODE"
    "io_frame (upd_inode q (\<lambda>_. file_inode i S sz) t) u" "sect u = sect t" by blast
  note uio = io_frame_simps [OF u(4)]
  have pc: "pcaller u = p" using uio(6) tio(6) by simp
  have ino: "inode_table u = (inode_table s)(q := file_inode i S sz)" using uio(1) tio(1) by simp
  let ?v = "opened_state fd d flags q u"
  have opn: "open_inode path flags (of_nat i) t = Inr (Some q, u)"
    using fd(2,3) dev tio(1,4) by (simp add: open_inode_def path(2) dir_inode_def i u(1))
  have reg: "i_mode (inode_table u q) = I_REGULAR" by (simp add: ino file_inode_def)
  have "do_open ?s = Inr (int fd, ?v)"
    by (rule do_open_start [OF _ _ _ _ _ _ _ t(1) opn reg, of p ptr fd d]) (use path fd in simp_all)
  from api_open_eq [OF path(1) this] obtain m where m: "api_open msg p ptr flags s = Inr (int fd, asking m (pcaller ?v) ?v)" by blast
  have "stored ?v sb r n name i S sz = stored s sb r n name i S sz"
    using uio(4,11) tio(4,11) u(2,5) t(3) by (intro stored_cong) (simp_all add: ino)
  moreover have "file_open ?v p fd d flags 0 q (file_inode i S sz)"
    using fd(1) u(3) pc opened_state_simps(7) [of fd d flags q u] tab(1)
    by (auto simp: file_open_def free_fd_def ino holds_def in_use_def, auto simp: file_inode_def)
  moreover have "same_view s ?v" using same_view_trans [OF same_view_io [OF t(2)], of u] same_view_io [OF u(4)] by simp
  moreover have "same_fds p fd d s ?v"
    using same_fds_trans [OF same_fds_trans [OF same_fds_io [OF t(2)], of p fd d u] opened_state_fds [OF pc]] same_fds_io [OF u(4), of p fd d] by simp
  moreover have "sect ?v = sect s" using u(5) t(3) by simp
  ultimately show ?thesis using m u(2) st by (intro exI [of _ "asking m (pcaller ?v) ?v"] exI [of _ q]) simp
qed

section \<open>Writing, closing, reading\<close>

lemma file_open_request:
  assumes "file_open s p fd d flags pos q ino" "flags AND O_RDWR \<noteq> 0" "p < nr_proc_table" "m_source msg = int p" "m_FD msg = int fd"
  obtains base where "opened (asking msg p s) d q base" "\<And>a. vir2linear base a = lin (hk (hs s)) p a"
proof -
  obtain base where "ldt_proc_id2base (int p) (hk (hs s)) = Inr base" "\<And>a. vir2linear base a = lin (hk (hs s)) p a"
    using ldt_base_lin [OF assms(3)] by metis
  with assms show thesis by (intro that [of base]) (simp_all add: opened_def caller_filp_def file_open_def)
qed

lemma file_ok_asking [simp]: "file_ok (asking msg p s) sb = file_ok s sb" "apart (asking msg p s) = apart s"
  "file_byte (asking msg p s) = file_byte s" "disk_fields (asking msg p s) = disk_fields s"
  by (simp_all add: file_ok_def apart_def file_byte_def disk_fields_def fun_eq_iff)

lemma dir_find_cong:
  assumes "n < 2 ^ 16" "\<And>e. e \<le> n \<Longrightarrow> dent_name t a e = dent_name s a e"
  shows "List.find (\<lambda>m. dent_name t a m = name) [0..<min k (n + 1)] = List.find (\<lambda>m. dent_name s a m = name) [0..<min k (n + 1)]"
  by (rule List.find_cong) (use assms(2) in auto)

lemma stored_written:
  assumes st: "stored s sb r n name i S sz" and fr: "io_frame (advanced d q L z s) t" and qr: "q \<noteq> r" and z: "z \<le> 2 ^ 20"
    and dir: "\<And>m. unat (n_1st_sector sb) \<le> m \<Longrightarrow> m < S \<Longrightarrow> sect t m = sect s m"
    and disk: "disk_fields t sb (int i) = (I_REGULAR, of_nat z, of_nat S, 2048)"
  shows "stored t sb r n name i S z"
proof -
  note io = io_frame_simps [OF fr]
  have r: "inode_table t r = inode_table s r" using io(1) qr by simp
  let ?a = "dstart (inode_table s r)"
  have a: "unat (n_1st_sector sb) \<le> ?a" "?a + n div 32 < S" "dir_ok s sb (inode_table s r) n" using st by (simp_all add: stored_def dir_ok_def)
  have ent: "dent_name t ?a e = dent_name s ?a e" "dent_nr t ?a e = dent_nr s ?a e" if "e \<le> n" for e
  proof -
    have "sect t (?a + e div 32) = sect s (?a + e div 32)" using dir a div_le_mono [OF that, of 32] by simp
    then show "dent_name t ?a e = dent_name s ?a e" "dent_nr t ?a e = dent_nr s ?a e" by (simp_all add: dent_name_def dent_nr_def)
  qed
  have "n < 2 ^ 16" using a(3) by (simp add: dir_ok_def)
  note f = dir_find_cong [OF this ent(1), of name "32 * ((n + 31) div 32)"]
  from st obtain e where e: "List.find (\<lambda>m. dent_name s ?a m = name) [0..<min (32 * ((n + 31) div 32)) (n + 1)] = Some e" "dent_nr s ?a e = of_nat i"
    by (auto simp: stored_def)
  then have "e \<le> n" by (auto simp: find_first)
  with e f ent(2) have "List.find (\<lambda>m. dent_name t ?a m = name) [0..<min (32 * ((n + 31) div 32)) (n + 1)] = Some e" "dent_nr t ?a e = of_nat i" by simp_all
  moreover have "dir_ok t sb (inode_table s r) n" using a(3) io(11) by (simp add: dir_ok_def)
  ultimately show ?thesis using st disk z io(4) r by (simp add: stored_def in_use_def)
qed

lemma api_file_write_ok:
  assumes op: "file_open s p fd d flags pos q (file_inode i S sz)" "flags AND O_RDWR \<noteq> 0" "p < nr_proc_table" "q \<noteq> r"
    and st: "stored s sb r n name i S sz" and b: "bytes_at s p b bs" "L = length bs" "0 < L" "L mod 4 = 0"
    and size: "sz < pos + L" "pos + L \<le> 2 ^ 20" "(pos + L) div 512 - pos div 512 < 256"
  shows "\<exists>s'. api_file_write msg p (int fd) b (int L) s = Inr (int L, s') \<and> stored s' sb r n name i S (pos + L)
    \<and> file_open s' p fd d flags (pos + L) q (file_inode i S (pos + L)) \<and> same_view s s' \<and> same_fds p fd d s s'
    \<and> (\<forall>a. file_byte s' S a = (if pos \<le> a \<and> a < pos + L then bs ! (a - pos) else file_byte s S a))"
proof -
  let ?m = "msg\<lparr>m_source := int p, m_type := WRITE, m_FD := int fd, m_BUF := b, m_CNT := int L\<rparr>"
  let ?s = "asking ?m p s" let ?u = "lin (hk (hs s)) p b"
  obtain base where o: "opened ?s d q base" "vir2linear base b = ?u" by (rule file_open_request [OF op(1-3), of ?m]) simp_all
  have ino: "inode_table s q = file_inode i S sz" "fd_pos (f_desc_table s d) = int pos" using op(1) by (simp_all add: file_open_def)
  have f: "file_ok ?s sb (inode_table ?s q) S 2048 sz" using stored_file_ok [OF st] ino(1) by simp
  have ap: "apart ?s ?u (L + 3)" using b(1,2) by (simp add: bytes_at_def)
  from write_within [of ?s d q base L ?u sb S 2048 sz pos] o f ino(2) b(3,4) size(2,3) ap obtain t where t: "do_rdwt ?s = Inr (int L, t)"
    "\<And>a. file_byte t S a = (if pos \<le> a \<and> a < pos + L then fmem ?s (?u + of_nat (a - pos)) else file_byte ?s S a)"
    "io_frame (advanced d q L (max sz (pos + L)) ?s) t" "\<And>m. unat (n_1st_sector sb) \<le> m \<Longrightarrow> m < S \<Longrightarrow> sect t m = sect ?s m"
    "sz < pos + L \<longrightarrow> disk_fields t sb (i_num (inode_table ?s q)) = Fs_Inode.fields (inode_table t q)" by auto
  have z: "max sz (pos + L) = pos + L" using size(1) by simp
  note io = io_frame_simps [OF t(3) [unfolded z]]
  have tq: "inode_table t = (inode_table s)(q := file_inode i S (pos + L))" using io(1) ino(1) by (simp add: file_inode_def)
  have "disk_fields t sb (int i) = (I_REGULAR, of_nat (pos + L), of_nat S, 2048)"
    using t(5) size(1) by (simp add: ino(1) tq) (simp add: file_inode_def Fs_Inode.fields_def)
  with st have st': "stored t sb r n name i S (pos + L)"
    using stored_written [of ?s sb r n name i S sz d q L "pos + L" t] t(3,4) op(4) size(2) z by simp
  have "api_file_write msg p (int fd) b (int L) s = Inr (int L, asking ((fs_msg t)\<lparr>m_CNT := int L, m_type := SYSCALL_RET\<rparr>) (pcaller t) t)"
    using t(1) by (simp add: api_file_write_def task_fs_request_def asking_def fs_msg_consts Let_def)
  moreover have "file_open t p fd d flags (pos + L) q (file_inode i S (pos + L))"
    using op(1) io(2,7) by (simp add: file_open_def tq holds_def in_use_def) (auto simp: file_inode_def)
  moreover have "same_view s t" using same_view_io [OF t(3)] by simp
  moreover have "same_fds p fd d s t" using io(2,7) by (simp add: same_fds_def)
  moreover have "file_byte t S a = (if pos \<le> a \<and> a < pos + L then bs ! (a - pos) else file_byte s S a)" for a
  proof (cases "pos \<le> a \<and> a < pos + L")
    case True
    then have "a - pos < length bs" using b(2) by (simp add: less_diff_conv2)
    with t(2) [of a] b(1) True show ?thesis by (simp add: bytes_at_def del: of_nat_diff)
  next
    case False
    show ?thesis unfolding t(2) if_not_P [OF False] by simp
  qed
  ultimately show ?thesis using st' by (intro exI [of _ "asking ((fs_msg t)\<lparr>m_CNT := int L, m_type := SYSCALL_RET\<rparr>) (pcaller t) t"]) simp
qed

lemma api_close_ok:
  assumes op: "file_open s p fd d flags pos q ino" "p < nr_proc_table" "q \<noteq> r" and st: "stored s sb r n name i S sz"
  shows "\<exists>s'. api_close msg p (int fd) s = Inr s' \<and> stored s' sb r n name i S sz \<and> same_view s s' \<and> same_fds p fd d s s' \<and> sect s' = sect s
    \<and> filp (procs (hk (hs s')) p) fd = None \<and> fd_inode (f_desc_table s' d) = None \<and> q < NR_INODE \<and> \<not> in_use s' q
    \<and> (\<forall>q'. \<not> holds s' ROOT_DEV (i_num ino) q') \<and> (\<forall>q'. q' \<noteq> q \<longrightarrow> inode_table s' q' = inode_table s q')"
proof -
  let ?m = "msg\<lparr>m_source := int p, m_type := CLOSE, m_FD := int fd\<rparr>" let ?s = "asking ?m p s"
  let ?t = "upd_filp fd None (upd_desc d (\<lambda>d. d\<lparr>fd_inode := None\<rparr>) (upd_inode q (\<lambda>p. p\<lparr>i_cnt := i_cnt p - 1\<rparr>) ?s))"
  have o: "fd < NR_FILES" "filp (procs (hk (hs s)) p) fd = Some d" "fd_inode (f_desc_table s d) = Some q" "q < NR_INODE" "inode_table s q = ino"
    "i_cnt ino = 1" "\<forall>q'. holds s ROOT_DEV (i_num ino) q' \<longrightarrow> q' = q" using op(1) by (simp_all add: file_open_def)
  have "do_close ?s = Inr (0, ?t)" using o by (simp add: do_close_def caller_filp_def put_inode_def Let_def)
  then have "\<exists>m. api_close msg p (int fd) s = Inr (asking m (pcaller ?t) ?t)"
    by (intro exI [of _ "(fs_msg ?t)\<lparr>m_RETVAL := 0, m_type := SYSCALL_RET\<rparr>"])
      (simp add: api_close_def task_fs_request_def asking_def fs_msg_consts Let_def)
  then obtain m where m: "api_close msg p (int fd) s = Inr (asking m (pcaller ?t) ?t)" ..
  have tab: "inode_table ?t = (inode_table s)(q := ino\<lparr>i_cnt := 0\<rparr>)" "root_inode ?t = root_inode s" "sect ?t = sect s"
    "fs_layout ?t sb = fs_layout s sb" "filp (procs (hk (hs ?t)) p) = (filp (procs (hk (hs s)) p))(fd := None)"
    "\<And>i. i \<noteq> d \<Longrightarrow> f_desc_table ?t i = f_desc_table s i" "fd_inode (f_desc_table ?t d) = None"
    using o(5,6) by (simp_all add: upd_filp_def upd_desc_def sect_def rbase_def fun_eq_iff fs_layout_def get_super_block_def valid_sect_def cong: option.case_cong)
  have "stored ?t sb r n name i S sz = stored s sb r n name i S sz" using tab(1-4) op(3) by (intro stored_cong) simp_all
  moreover have "same_view s ?t" by simp
  moreover have "same_fds p fd d s ?t" by (simp add: same_fds_def tab(5,6))
  moreover have "\<not> in_use ?t q" by (simp add: in_use_def tab(1))
  moreover have "\<not> holds ?t ROOT_DEV (i_num ino) q'" for q' using o(7) tab(1) by (auto simp: holds_def in_use_def split: if_splits)
  ultimately show ?thesis using m st tab(1,3,5,7) o(4) by (intro exI [of _ "asking m (pcaller ?t) ?t"]) simp
qed

lemma api_close_returns:
  assumes "file_open s p fd d flags pos q ino"
  shows "\<exists>s'. api_close msg p (int fd) s = Inr s'"
  using assms by (simp add: file_open_def api_close_def task_fs_request_def do_close_def caller_filp_def put_inode_def fs_msg_consts Let_def)

lemma api_file_read_ok:
  assumes op: "file_open s p fd d flags pos q (file_inode i S sz)" "flags AND O_RDWR \<noteq> 0" "p < nr_proc_table"
    and st: "stored s sb r n name i S sz" and b: "apart s (lin (hk (hs s)) p b) (L + 3)" "0 < L" "pos + L \<le> sz" "(pos + L) div 512 - pos div 512 < 256"
  shows "\<exists>s'. api_file_read msg p (int fd) b (int L) s = Inr (int L, s') \<and> bytes_at s' p b (map (\<lambda>j. file_byte s S (pos + j)) [0..<L])
    \<and> lin (hk (hs s')) = lin (hk (hs s)) \<and> file_open s' p fd d flags (pos + L) q (file_inode i S sz)"
proof -
  let ?m = "msg\<lparr>m_source := int p, m_type := READ, m_FD := int fd, m_BUF := b, m_CNT := int L\<rparr>"
  let ?s = "asking ?m p s" let ?u = "lin (hk (hs s)) p b"
  obtain base where o: "opened ?s d q base" "vir2linear base b = ?u" by (rule file_open_request [OF op(1-3), of ?m]) simp_all
  have ino: "inode_table s q = file_inode i S sz" "fd_pos (f_desc_table s d) = int pos" using op(1) by (simp_all add: file_open_def)
  have f: "file_ok ?s sb (inode_table ?s q) S 2048 sz" using stored_file_ok [OF st] ino(1) by simp
  from read_within [of ?s d q base L ?u sb S 2048 sz pos] o f ino(2) b obtain t where t: "do_rdwt ?s = Inr (int L, t)"
    "\<And>j. j < L \<Longrightarrow> fmem t (?u + of_nat j) = file_byte s S (pos + j)" "transferred d q pos L sz ?s t" by auto
  have "lin (hk (hs t)) = lin (hk (hs s))" "fsb t = fsb s" using t(3) by (simp_all add: transferred_def same_system_def lin_def fun_eq_iff)
  moreover have "inode_table t = inode_table s" using t(3) b(3) ino(1) by (simp add: transferred_def max_absorb1 file_inode_def fun_upd_idem)
  then have "file_open t p fd d flags (pos + L) q (file_inode i S sz)"
    using op(1) t(3) by (simp add: file_open_def transferred_def same_system_def holds_def in_use_def)
  moreover have "api_file_read msg p (int fd) b (int L) s = Inr (int L, asking ((fs_msg t)\<lparr>m_CNT := int L, m_type := SYSCALL_RET\<rparr>) (pcaller t) t)"
    using t(1) by (simp add: api_file_read_def task_fs_request_def asking_def fs_msg_consts Let_def)
  ultimately show ?thesis using t(2) b(1)
    by (intro exI [of _ "asking ((fs_msg t)\<lparr>m_CNT := int L, m_type := SYSCALL_RET\<rparr>) (pcaller t) t"]) (simp add: bytes_at_def apart_def)
qed

section \<open>The life of a file\<close>

text \<open>Creating, writing and closing: afterwards the file is on the disk alone, and the descriptor is free again.\<close>

lemma create_write_close:
  assumes path: "path_at s p ptr path" and room: "room_for s sb r n e i K k" and a: "a = dstart (inode_table s r)"
    and S: "S = unat (n_1st_sector sb) + 2048 * k" "S + 2048 < unat (nr_sectors sb)" "a + (n + 1) div 32 < S"
    and name: "strip_path path = Some name" "length name < 12" "0 \<notin> set name" "absent s a n name"
    and fd: "free_fd s p fd d" "flags AND O_CREAT \<noteq> 0" "flags AND O_RDWR \<noteq> 0"
    and b: "bytes_at s p b bs" "L = length bs" "0 < L" "L mod 4 = 0" "L div 512 < 256"
  shows "\<exists>s1 s2 s3. api_open m1 p ptr flags s = Inr (int fd, s1) \<and> api_file_write m2 p (int fd) b (int L) s1 = Inr (int L, s2)
    \<and> api_close m3 p (int fd) s2 = Inr s3 \<and> stored s3 sb r (max n (e + 1)) name i S L \<and> same_view s s1 \<and> same_view s s2 \<and> same_view s s3
    \<and> free_fd s3 p fd d \<and> (\<forall>q. \<not> holds s3 ROOT_DEV (int i) q) \<and> (\<exists>q < NR_INODE. \<not> in_use s3 q)
    \<and> (\<forall>j < L. file_byte s3 S j = bs ! j)"
proof -
  have p: "p < nr_proc_table" using fd(1) by (simp add: free_fd_def)
  from api_open_new [OF path room a S name fd(1,2), of m1] obtain s1 q where s1: "api_open m1 p ptr flags s = Inr (int fd, s1)" "q \<noteq> r"
    "stored s1 sb r (max n (e + 1)) name i S 0" "file_open s1 p fd d flags 0 q (file_inode i S 0)" "same_view s s1" "same_fds p fd d s s1" by blast
  have "L \<le> 2 ^ 20" using b(5) by simp
  with api_file_write_ok [OF s1(4) fd(3) p s1(2,3) bytes_at_view [OF b(1) s1(5)] b(2-4), of m2] b(3,5)
  obtain s2 where s2: "api_file_write m2 p (int fd) b (int L) s1 = Inr (int L, s2)" "stored s2 sb r (max n (e + 1)) name i S L"
    "file_open s2 p fd d flags L q (file_inode i S L)" "same_view s1 s2" "same_fds p fd d s1 s2" "\<And>j. j < L \<Longrightarrow> file_byte s2 S j = bs ! j" by auto
  from api_close_ok [OF s2(3) p s1(2) s2(2), of m3] obtain s3 where s3: "api_close m3 p (int fd) s2 = Inr s3"
    "stored s3 sb r (max n (e + 1)) name i S L" "same_view s2 s3" "same_fds p fd d s2 s3" "sect s3 = sect s2"
    "filp (procs (hk (hs s3)) p) fd = None" "fd_inode (f_desc_table s3 d) = None" "q < NR_INODE" "\<not> in_use s3 q"
    "\<forall>q'. \<not> holds s3 ROOT_DEV (int i) q'" by (auto simp: file_inode_def)
  have v2: "same_view s s2" using s1(5) s2(4) by (rule same_view_trans)
  have v3: "same_view s s3" using v2 s3(3) by (rule same_view_trans)
  have "same_fds p fd d s s3" using s1(6) s2(5) s3(4) by (blast intro: same_fds_trans)
  from same_fds_free [OF fd(1) this s3(6,7)] have "free_fd s3 p fd d" .
  moreover have "file_byte s3 S j = bs ! j" if "j < L" for j using s2(6) [OF that] s3(5) by (simp add: file_byte_def)
  ultimately show ?thesis using s1(1,5) s2(1) s3(1,2,8-10) v2 v3 by blast
qed

text \<open>
  C6: the life of a file, as a client sees it: a process creates a file, writes the bytes of a buffer to it and closes it; when it
  opens the file again by its name and reads, it finds the bytes that were in the buffer. Between the two the inode has
  left memory, so that name, size and content come back from the sectors of the disk.
\<close>

theorem client_file_life:
  assumes path: "path_at s p ptr path" and room: "room_for s sb r n e i K k" and a: "a = dstart (inode_table s r)"
    and S: "S = unat (n_1st_sector sb) + 2048 * k" "S + 2048 < unat (nr_sectors sb)" "a + (n + 1) div 32 < S"
    and name: "strip_path path = Some name" "length name < 12" "0 \<notin> set name" "absent s a n name"
    and fd: "free_fd s p fd d" "flags AND O_CREAT \<noteq> 0" "flags AND O_RDWR \<noteq> 0" "flags' AND O_CREAT = 0" "flags' AND O_RDWR \<noteq> 0"
    and b: "bytes_at s p b bs" "L = length bs" "0 < L" "L mod 4 = 0" "L div 512 < 256"
    and r: "apart s (lin (hk (hs s)) p b') (M + 3)" "0 < M" "M \<le> L"
  shows "\<exists>s1 s2 s3 s4 s5. api_open m1 p ptr flags s = Inr (int fd, s1) \<and> api_file_write m2 p (int fd) b (int L) s1 = Inr (int L, s2)
    \<and> api_close m3 p (int fd) s2 = Inr s3 \<and> (\<forall>q. \<not> holds s3 ROOT_DEV (int i) q) \<and> api_open m4 p ptr flags' s3 = Inr (int fd, s4)
    \<and> api_file_read m5 p (int fd) b' (int M) s4 = Inr (int M, s5) \<and> bytes_at s5 p b' (take M bs)"
proof -
  have p: "p < nr_proc_table" using fd(1) by (simp add: free_fd_def)
  from create_write_close [OF path room a S name fd(1-3) b, of m1 m2 m3] obtain s1 s2 s3 where
    s3: "api_open m1 p ptr flags s = Inr (int fd, s1)" "api_file_write m2 p (int fd) b (int L) s1 = Inr (int L, s2)"
    "api_close m3 p (int fd) s2 = Inr s3" "stored s3 sb r (max n (e + 1)) name i S L" "same_view s s3" "free_fd s3 p fd d"
    "\<forall>q. \<not> holds s3 ROOT_DEV (int i) q" "\<exists>q < NR_INODE. \<not> in_use s3 q" "\<And>j. j < L \<Longrightarrow> file_byte s3 S j = bs ! j" by blast
  from api_open_stored [OF path_at_view [OF path s3(5)] name(1) s3(4,7,8,6) fd(4,5), of m4] obtain s4 q where
    s4: "api_open m4 p ptr flags' s3 = Inr (int fd, s4)" "stored s4 sb r (max n (e + 1)) name i S L"
    "file_open s4 p fd d flags' 0 q (file_inode i S L)" "same_view s3 s4" "sect s4 = sect s3" by blast
  have "apart s4 (lin (hk (hs s4)) p b') (M + 3)" using r(1) apart_view [OF same_view_trans [OF s3(5) s4(4)]] by simp
  moreover have "M div 512 < 256" using div_le_mono [OF r(3), of 512] b(5) by simp
  ultimately obtain s5 where s5: "api_file_read m5 p (int fd) b' (int M) s4 = Inr (int M, s5)"
    "bytes_at s5 p b' (map (\<lambda>j. file_byte s4 S (0 + j)) [0..<M])"
    using api_file_read_ok [OF s4(3) fd(5) p s4(2) _ r(2), of b' m5] r(3) by auto
  have "map (\<lambda>j. file_byte s4 S (0 + j)) [0..<M] = take M bs"
    using s3(9) s4(5) r(3) b(2) by (intro nth_equalityI) (simp_all add: file_byte_def)
  with s5 s3(1-3,7) s4(1) show ?thesis by metis
qed

end
