(* ===== verification/Sys_Task.thy ===== *)
theory Sys_Task
  imports Fs_Init
begin

text \<open>
  The system task of \<^verbatim>\<open>kernel/systask.c\<close>, its clients \<open>get_ticks\<close> and \<open>get_hd_info\<close> of \<^verbatim>\<open>kernel/api.c\<close>, and the loops
  that wait with \<open>get_ticks\<close>: \<open>milli_delay\<close> of \<^verbatim>\<open>lib/time.c\<close> and \<open>waitfor\<close> of \<^verbatim>\<open>kernel/hd.c\<close>. In the loops the clock runs on
  between two calls: \<open>clk n\<close> is what call \<open>n\<close> of \<open>get_ticks\<close> returns, and \<open>st n\<close> the status register of the drive after it.
\<close>

section \<open>The system task\<close>

definition GET_TICKS :: int where "GET_TICKS = 0"

text \<open>A message after \<open>reset_msg\<close>.\<close>

definition zero_msg :: message where
  "zero_msg = \<lparr>m_source = 0, m_type = 0, m_RETVAL = 0, m_DEVICE = 0, m_CNT = 0, m_PROC_NR = 0, m_REQUEST = 0, m_FLAGS = 0,
     m_NAME_LEN = 0, m_FD = 0, m_PATHNAME = 0, m_POSITION = 0, m_BUF = 0\<rparr>"

text \<open>A pass of \<open>task_sys\<close>: the reply to a message. The task is a task, so its \<open>panic\<close> halts the machine.\<close>

definition task_sys_request :: "message \<Rightarrow> kstate \<Rightarrow> fault + message" where
  "task_sys_request msg k =
     (if m_type msg = GET_TICKS then Inr (msg\<lparr>m_RETVAL := wrap_int (ticks k)\<rparr>)
      else Inl (Halted (ascii ''unknown msg type'')))"

definition get_ticks :: "nat \<Rightarrow> kstate \<Rightarrow> fault + int" where
  "get_ticks p k = ebind (task_sys_request (zero_msg\<lparr>m_source := int p, m_type := GET_TICKS\<rparr>) k) (\<lambda>msg. Inr (m_RETVAL msg))"

definition get_hd_info :: "nat \<Rightarrow> hstate \<Rightarrow> fault + int \<times> hstate" where
  "get_hd_info p s =
     (let msg = zero_msg\<lparr>m_source := int p, m_type := DEV_OPEN\<rparr> in
      ebind (task_hd_request msg s) (\<lambda>s. Inr (m_RETVAL msg, s)))"

text \<open>
  The interrupt handler of the drive keeps the status and wakes the driver; \<open>frame\<close> is the address of the message on the
  stack of \<open>inform_int\<close>.
\<close>

definition hd_handler :: "u8 \<Rightarrow> u32 \<Rightarrow> kstate \<Rightarrow> fault + u8 \<times> kstate" where
  "hd_handler status_reg frame k = ebind (inform_int frame (int TASK_HD) k) (\<lambda>k. Inr (status_reg, k))"

section \<open>Waiting\<close>

text \<open>\<open>(get_ticks() - t) * 1000 / TIME_INT_FREQ\<close> in the type \<open>int\<close>.\<close>

definition elapsed :: "int \<Rightarrow> int \<Rightarrow> int" where
  "elapsed now t = wrap_int (wrap_int (now - t) * 1000) sdiv int TIME_INT_FREQ"

partial_function (option) delay_loop :: "(nat \<Rightarrow> int) \<Rightarrow> int \<Rightarrow> int \<Rightarrow> nat \<Rightarrow> nat option" where
  "delay_loop clk t milli_sec n =
     (if elapsed (clk n) t < milli_sec then delay_loop clk t milli_sec (n + 1) else Some n)"

text \<open>The result is the call of \<open>get_ticks\<close> that ended the loop; the first call, number 0, is the one before it.\<close>

definition milli_delay :: "(nat \<Rightarrow> int) \<Rightarrow> int \<Rightarrow> nat option" where
  "milli_delay clk milli_sec = delay_loop clk (clk 0) milli_sec 1"

definition STATUS_BUSY :: u8 where "STATUS_BUSY = 0x80"
definition STATUS_DRQ :: u8 where "STATUS_DRQ = 8"
definition HD_TIMEOUT :: int where "HD_TIMEOUT = 500"

partial_function (option) wait_loop :: "(nat \<Rightarrow> int) \<Rightarrow> (nat \<Rightarrow> u8) \<Rightarrow> u8 \<Rightarrow> u8 \<Rightarrow> int \<Rightarrow> int \<Rightarrow> nat \<Rightarrow> int option" where
  "wait_loop clk st msk val timeout t n =
     (if elapsed (clk n) t < timeout
      then if st n AND msk = val then Some 1 else wait_loop clk st msk val timeout t (n + 1)
      else Some 0)"

definition waitfor :: "(nat \<Rightarrow> int) \<Rightarrow> (nat \<Rightarrow> u8) \<Rightarrow> u8 \<Rightarrow> u8 \<Rightarrow> int \<Rightarrow> int option" where
  "waitfor clk st msk val timeout = wait_loop clk st msk val timeout (clk 0) 1"

section \<open>How long they wait\<close>

text \<open>A clock that is read often enough: no tick is missed, and it goes on.\<close>

definition ticking :: "(nat \<Rightarrow> int) \<Rightarrow> bool" where
  "ticking clk \<longleftrightarrow> (\<forall>n. clk n \<le> clk (n + 1) \<and> clk (n + 1) \<le> clk n + 1) \<and> (\<forall>b. \<exists>n. b \<le> clk n)"

lemma elapsed_ticks:
  assumes "0 \<le> d" "d \<le> 2147483"
  shows "elapsed (t + d) t = 10 * d"
proof -
  have "wrap_int d = d" "wrap_int (d * 1000) = d * 1000" using assms by (auto intro!: wrap_int_id)
  then show ?thesis using assms by (simp add: elapsed_def TIME_INT_FREQ_def signed_divide_int_def sgn_if)
qed

lemma elapsed_le: "elapsed now t \<le> 21474836"
proof -
  have "wrap_int x < 2 ^ 31" for x using pos_mod_bound [of "2 ^ 32" "x + 2 ^ 31"] by (simp add: wrap_int_def)
  moreover have "w sdiv 100 \<le> 21474836" if "w < 2 ^ 31" for w :: int
  proof (cases "0 < w")
    case True
    then have "w sdiv 100 = w div 100" by (simp add: signed_divide_int_def sgn_if)
    also have "w div 100 \<le> (2 ^ 31 - 1) div 100" using that by (intro zdiv_mono1) simp_all
    also have "\<dots> = 21474836" by simp
    finally show ?thesis .
  next
    case False
    then have "w sdiv 100 = - (- w div 100)" by (simp add: signed_divide_int_def sgn_if)
    also have "\<dots> \<le> 0" using False pos_imp_zdiv_nonneg_iff [of 100 "- w"] by simp
    finally show ?thesis by simp
  qed
  ultimately show ?thesis by (simp add: elapsed_def TIME_INT_FREQ_def)
qed

lemma ticks_below: "x < (m + 9) div 10 \<Longrightarrow> 10 * x < (m :: int)"
  by presburger

lemma ticking_mono: "ticking clk \<Longrightarrow> i \<le> j \<Longrightarrow> clk i \<le> clk j"
  by (rule lift_Suc_mono_le [of clk]) (auto simp: ticking_def)

text \<open>Every number of ticks is seen, and there is a first call that sees it.\<close>

lemma ticking_reaches:
  assumes "ticking clk" "0 < d"
  shows "\<exists>n > 0. clk n = clk 0 + d \<and> (\<forall>i < n. clk 0 \<le> clk i \<and> clk i < clk 0 + d)"
proof -
  define n where "n = (LEAST n. clk 0 + d \<le> clk n)"
  have "\<exists>n. clk 0 + d \<le> clk n" using assms(1) by (simp add: ticking_def)
  then have n: "clk 0 + d \<le> clk n" unfolding n_def by (rule LeastI_ex)
  have low: "clk i < clk 0 + d" if "i < n" for i using not_less_Least [of i "\<lambda>n. clk 0 + d \<le> clk n"] that by (simp add: n_def)
  have pos: "0 < n" using n assms(2) by (cases n) auto
  then obtain m where m: "n = Suc m" by (cases n) auto
  have "clk n \<le> clk m + 1" using assms(1) by (simp add: ticking_def m)
  with low [of m] n have "clk n = clk 0 + d" by (simp add: m)
  with pos low ticking_mono [OF assms(1), of 0] show ?thesis by (intro exI [of _ n]) simp
qed

lemma delay_loop_run:
  assumes "i \<le> n" "\<And>j. i \<le> j \<Longrightarrow> j < n \<Longrightarrow> elapsed (clk j) t < ms" "ms \<le> elapsed (clk n) t"
  shows "delay_loop clk t ms i = Some n"
  using assms
proof (induction "n - i" arbitrary: i)
  case 0
  then show ?case by (subst delay_loop.simps) auto
next
  case (Suc d)
  then have "delay_loop clk t ms (i + 1) = Some n" by (intro Suc.hyps(1)) auto
  with Suc show ?case by (subst delay_loop.simps) auto
qed

lemma delay_loop_ends: "delay_loop clk t ms i = Some n \<Longrightarrow> ms \<le> elapsed (clk n) t"
  by (erule delay_loop.raw_induct [of "\<lambda>clk t ms i n. ms \<le> elapsed (clk n) t", rotated]) (auto split: if_splits)

lemma wait_loop_run:
  assumes "i \<le> n" "\<And>j. i \<le> j \<Longrightarrow> j < n \<Longrightarrow> elapsed (clk j) t < ms \<and> st j AND msk \<noteq> val"
    and "elapsed (clk n) t < ms \<longrightarrow> st n AND msk = val"
  shows "wait_loop clk st msk val ms t i = Some (if elapsed (clk n) t < ms then 1 else 0)"
  using assms
proof (induction "n - i" arbitrary: i)
  case 0
  then show ?case by (subst wait_loop.simps) auto
next
  case (Suc d)
  then have "wait_loop clk st msk val ms t (i + 1) = Some (if elapsed (clk n) t < ms then 1 else 0)" by (intro Suc.hyps(1)) auto
  with Suc show ?case by (subst wait_loop.simps) auto
qed

text \<open>
  \<open>milli_delay\<close> returns as soon as the clock has advanced by the number of ticks of 10 ms that cover the
  time, for any delay that the \<open>int\<close> arithmetic can express; a longer one never ends, whatever the clock does.
\<close>

theorem milli_delay_duration:
  assumes "ticking clk" "0 < ms"
  shows "if ms \<le> 21474830 then \<exists>n. milli_delay clk ms = Some n \<and> clk n = clk 0 + (ms + 9) div 10 \<and> (\<forall>i \<in> {..<n}. clk i < clk n)
    else ms \<le> 21474836 \<or> milli_delay clk ms = None"
proof (cases "ms \<le> 21474830")
  case True
  define d where "d = (ms + 9) div 10"
  have d: "0 < d" "d \<le> 2147483" using assms(2) True by (auto simp: d_def)
  obtain n where n: "0 < n" "clk n = clk 0 + d" "\<forall>i < n. clk 0 \<le> clk i \<and> clk i < clk 0 + d" using ticking_reaches [OF assms(1) d(1)] by blast
  have el: "elapsed (clk 0 + x) (clk 0) = 10 * x" if "0 \<le> x" "x \<le> d" for x using elapsed_ticks that d(2) by simp
  have "delay_loop clk (clk 0) ms 1 = Some n"
  proof (rule delay_loop_run)
    fix j assume "1 \<le> j" "j < n"
    with n(3) have j: "clk 0 \<le> clk j" "clk j < clk 0 + d" by simp_all
    then have "clk j - clk 0 < (ms + 9) div 10" by (simp add: d_def)
    then have "10 * (clk j - clk 0) < ms" by (rule ticks_below)
    then show "elapsed (clk j) (clk 0) < ms" using el [of "clk j - clk 0"] j by simp
  next
    show "ms \<le> elapsed (clk n) (clk 0)" using el [of d] d(1) n(2) by (simp add: d_def)
  qed (use n(1) in simp)
  with n True show ?thesis by (simp add: milli_delay_def d_def)
next
  case False
  have "milli_delay clk ms = None" if "21474836 < ms"
  proof -
    have "delay_loop clk (clk 0) ms 1 \<noteq> Some n" for n
      using delay_loop_ends [of clk "clk 0" ms 1 n] elapsed_le [of "clk n" "clk 0"] that by auto
    then show ?thesis unfolding milli_delay_def by (cases "delay_loop clk (clk 0) ms 1") auto
  qed
  then show ?thesis unfolding if_not_P [OF False] by (cases "ms \<le> 21474836") auto
qed

text \<open>
  C37: \<open>waitfor\<close> always returns: 1 exactly when the drive shows the wanted status at one of the polls before the timeout.
\<close>

theorem waitfor_polls:
  assumes "ticking clk" "0 < timeout" "timeout \<le> 21474830"
  shows "waitfor clk st msk val timeout =
    Some (if \<exists>n. 0 < n \<and> clk n < clk 0 + (timeout + 9) div 10 \<and> st n AND msk = val then 1 else 0)"
proof -
  define d where "d = (timeout + 9) div 10"
  have d: "0 < d" "d \<le> 2147483" using assms(2,3) by (auto simp: d_def)
  obtain n where n: "0 < n" "clk n = clk 0 + d" "\<forall>i < n. clk 0 \<le> clk i \<and> clk i < clk 0 + d" using ticking_reaches [OF assms(1) d(1)] by blast
  have el: "elapsed (clk 0 + x) (clk 0) = 10 * x" if "0 \<le> x" "x \<le> d" for x using elapsed_ticks that d(2) by simp
  have before: "elapsed (clk j) (clk 0) < timeout" if "j < n" for j
  proof -
    have j: "clk 0 \<le> clk j" "clk j < clk 0 + d" using n(3) that by simp_all
    then have "clk j - clk 0 < (timeout + 9) div 10" by (simp add: d_def)
    then have "10 * (clk j - clk 0) < timeout" by (rule ticks_below)
    then show ?thesis using el [of "clk j - clk 0"] j by simp
  qed
  have after: "\<not> elapsed (clk n) (clk 0) < timeout" using el [of d] d(1) n(2) by (simp add: d_def)
  have in_time: "clk j < clk 0 + d \<longleftrightarrow> j < n" for j
    using n(2,3) ticking_mono [OF assms(1), of n j] by (cases "j < n") auto
  show ?thesis
  proof (cases "\<exists>j. 0 < j \<and> j < n \<and> st j AND msk = val")
    case True
    define m where "m = (LEAST j. 0 < j \<and> j < n \<and> st j AND msk = val)"
    have m: "0 < m \<and> m < n \<and> st m AND msk = val" unfolding m_def using True by (rule LeastI_ex)
    have "st j AND msk \<noteq> val" if "0 < j" "j < m" for j
      using not_less_Least [of j "\<lambda>j. 0 < j \<and> j < n \<and> st j AND msk = val"] that m by (auto simp: m_def)
    then have "wait_loop clk st msk val timeout (clk 0) 1 = Some (if elapsed (clk m) (clk 0) < timeout then 1 else 0)"
      using m before by (intro wait_loop_run) auto
    with True m before [of m] show ?thesis unfolding waitfor_def d_def [symmetric] in_time by auto
  next
    case False
    then have "wait_loop clk st msk val timeout (clk 0) 1 = Some (if elapsed (clk n) (clk 0) < timeout then 1 else 0)"
      using n(1) before after by (intro wait_loop_run) auto
    with False after show ?thesis unfolding waitfor_def d_def [symmetric] in_time by auto
  qed
qed

text \<open>A clock that is read once per tick; the drive is ready at the third poll.\<close>

lemma waitfor_polls_witness:
  "waitfor int (\<lambda>n. if n < 3 then STATUS_BUSY else STATUS_DRQ) STATUS_DRQ STATUS_DRQ HD_TIMEOUT = Some 1"
proof -
  have "b \<le> int (nat b)" for b by simp
  then have "ticking int" unfolding ticking_def by (intro conjI allI) (simp, simp, blast)
  moreover have "\<exists>n. 0 < n \<and> int n < int 0 + (HD_TIMEOUT + 9) div 10 \<and> (if n < 3 then STATUS_BUSY else STATUS_DRQ) AND STATUS_DRQ = STATUS_DRQ"
    by (rule exI [of _ 3]) (simp add: HD_TIMEOUT_def)
  ultimately show ?thesis using waitfor_polls [of int HD_TIMEOUT] by (simp add: HD_TIMEOUT_def)
qed

end
