(* ===== verification/Test_Programs.thy ===== *)
theory Test_Programs
  imports Fs_Client Sys_Task
begin

text \<open>
  The programs of \<^verbatim>\<open>kernel/process.c\<close> that the kernel starts as its first processes. A program is a sequence of calls of
  \<^verbatim>\<open>kernel/api.c\<close> and of \<open>printf\<close>; the result is what it printed, a list of the texts of its calls of \<open>printf\<close>, and the state of the
  system. \<open>junk n\<close> is what the stack held where call \<open>n\<close> of the API builds its message. The addresses of the arrays on the
  stack of a program are arguments. Every program ends in a loop that prints and waits, of which \<open>passes\<close> makes \<open>k\<close> passes.
\<close>

section \<open>The programs\<close>

text \<open>A string of process \<open>p\<close>, as \<open>_strlen\<close> and \<open>%s\<close> read it.\<close>

definition user_string :: "fstate \<Rightarrow> nat \<Rightarrow> u32 \<Rightarrow> fault + u8 list" where
  "user_string s p a =
     ebind (or_spin (strlen (\<lambda>x. fmem s (lin (hk (hs s)) p x)) a)) (\<lambda>len.
     Inr (load_bytes (fmem s) (lin (hk (hs s)) p a) (unat len)))"

text \<open>The two loops of \<open>TestA\<close>: files are created and closed, then files are removed.\<close>

fun create_files :: "(nat \<Rightarrow> message) \<Rightarrow> nat \<Rightarrow> u32 list \<Rightarrow> fstate \<Rightarrow> fault + u8 list list \<times> fstate" where
  "create_files junk p [] s = Inr ([], s)"
| "create_files junk p (f # fs) s =
     ebind (api_open (junk 0) p f (O_CREAT OR O_RDWR) s) (\<lambda>(fd, s).
     ebind (asserts ''process.c'' [(17, fd \<noteq> -1)]) (\<lambda>_.
     ebind (user_string s p f) (\<lambda>name.
     ebind (format_line ''File created %s (fd %d)'' [Str name, Word (word_of_int fd)]) (\<lambda>l.
     ebind (api_close (junk 1) p fd s) (\<lambda>s.
     ebind (create_files (\<lambda>n. junk (n + 2)) p fs s) (\<lambda>(ls, s). Inr (l # ls, s)))))))"

fun remove_files :: "(nat \<Rightarrow> message) \<Rightarrow> nat \<Rightarrow> u32 list \<Rightarrow> fstate \<Rightarrow> fault + u8 list list \<times> fstate" where
  "remove_files junk p [] s = Inr ([], s)"
| "remove_files junk p (f # fs) s =
     ebind (api_unlink (junk 0) p f s) (\<lambda>(r, s).
     ebind (user_string s p f) (\<lambda>name.
     ebind (if r = 0 then format_line ''File removed: %s'' [Str name] else format_line ''Failed to remove file %s'' [Str name]) (\<lambda>l.
     ebind (remove_files (\<lambda>n. junk (n + 1)) p fs s) (\<lambda>(ls, s). Inr (l # ls, s)))))"

definition TestA :: "(nat \<Rightarrow> message) \<Rightarrow> nat \<Rightarrow> u32 list \<Rightarrow> u32 list \<Rightarrow> fstate \<Rightarrow> fault + u8 list list \<times> fstate" where
  "TestA junk p filename rmfiles s =
     ebind (create_files junk p filename s) (\<lambda>(out, s).
     ebind (remove_files (\<lambda>n. junk (n + 2 * length filename)) p rmfiles s) (\<lambda>(out', s). Inr (out @ out', s)))"

text \<open>\<open>TestB\<close> writes a file and reads its beginning: \<open>bufr[n] = 0\<close> ends the string behind the \<open>n\<close> bytes that were read.\<close>

definition rd_bytes :: int where "rd_bytes = 3"

definition TestB :: "(nat \<Rightarrow> message) \<Rightarrow> nat \<Rightarrow> u32 \<Rightarrow> u32 \<Rightarrow> u32 \<Rightarrow> fstate \<Rightarrow> fault + u8 list list \<times> fstate" where
  "TestB junk p filename bufw bufr s =
     ebind (vsprintf (fmt_string ''B starting'') []) (\<lambda>l0.
     ebind (api_open (junk 0) p filename (O_CREAT OR O_RDWR) s) (\<lambda>(fd, s).
     ebind (format_line ''File created. fd = %d'' [Word (word_of_int fd)]) (\<lambda>l1.
     ebind (or_spin (strlen (\<lambda>x. fmem s (lin (hk (hs s)) p x)) bufw)) (\<lambda>len.
     ebind (api_file_write (junk 1) p fd bufw (sint len) s) (\<lambda>(n, s).
     ebind (api_close (junk 2) p fd s) (\<lambda>s.
     ebind (api_open (junk 3) p filename O_RDWR s) (\<lambda>(fd, s).
     ebind (format_line ''File opened. fd = %d'' [Word (word_of_int fd)]) (\<lambda>l2.
     ebind (api_file_read (junk 4) p fd bufr rd_bytes s) (\<lambda>(n, s).
     let s = upd_mem (\<lambda>m. m(lin (hk (hs s)) p (bufr + word_of_int n) := 0)) s in
     ebind (user_string s p bufr) (\<lambda>text.
     ebind (vsprintf (fmt_string ''Read file: %s'') [Str text]) (\<lambda>l3.
     ebind (api_close (junk 5) p fd s) (\<lambda>s. Inr ([l0, l1, l2, l3], s)))))))))))))"

text \<open>
  \<open>k\<close> passes of the loop that ends a program, which prints some texts and waits: \<open>n\<close> is the number of the last call of \<open>get_ticks\<close>,
  of which \<open>clk\<close> gives the results.
\<close>

fun print_all :: "string list \<Rightarrow> fault + u8 list list" where
  "print_all [] = Inr []"
| "print_all (t # ts) = ebind (vsprintf (fmt_string t) []) (\<lambda>l. ebind (print_all ts) (\<lambda>ls. Inr (l # ls)))"

fun passes :: "string list \<Rightarrow> int \<Rightarrow> (nat \<Rightarrow> int) \<Rightarrow> nat \<Rightarrow> nat \<Rightarrow> fault + u8 list list \<times> nat" where
  "passes texts ms clk 0 n = Inr ([], n)"
| "passes texts ms clk (Suc k) n =
     ebind (print_all texts) (\<lambda>ls.
     ebind (or_spin (milli_delay (\<lambda>j. clk (n + j)) ms)) (\<lambda>m.
     ebind (passes texts ms clk k (n + m)) (\<lambda>(ls', n). Inr (ls @ ls', n))))"

definition TestA_loop :: "(nat \<Rightarrow> int) \<Rightarrow> nat \<Rightarrow> nat \<Rightarrow> fault + u8 list list \<times> nat" where
  "TestA_loop = passes [] 350"

definition TestB_loop :: "(nat \<Rightarrow> int) \<Rightarrow> nat \<Rightarrow> nat \<Rightarrow> fault + u8 list list \<times> nat" where
  "TestB_loop = passes [''I'' @ [CHR 0x27] @ ''m B''] 400"

definition TestC :: "(nat \<Rightarrow> int) \<Rightarrow> nat \<Rightarrow> nat \<Rightarrow> fault + u8 list list \<times> nat" where
  "TestC = passes [''C.''] 500"

section \<open>The loops\<close>

lemma ticking_shift: "ticking clk \<Longrightarrow> ticking (\<lambda>j. clk (n + j))"
proof -
  assume t: "ticking clk"
  have "\<exists>j. b \<le> clk (n + j)" for b
  proof -
    obtain m where "b \<le> clk m" using t by (auto simp: ticking_def)
    also have "clk m \<le> clk (n + m)" using t by (rule ticking_mono) simp
    finally show ?thesis ..
  qed
  with t show ?thesis by (simp add: ticking_def)
qed

lemma print_all_plain: "\<forall>t \<in> set ts. plain (ascii t) \<Longrightarrow> print_all ts = Inr (map ascii ts)"
  by (induction ts) (simp_all add: fmt_string_def vsprintf_plain)

lemma passes_plain:
  assumes "ticking clk" "0 < ms" "ms \<le> 21474830" "\<forall>t \<in> set texts. plain (ascii t)"
  shows "\<exists>n'. passes texts ms clk k n = Inr (concat (replicate k (map ascii texts)), n') \<and> clk n' = clk n + int k * ((ms + 9) div 10)"
proof (induction k arbitrary: n)
  case (Suc k)
  from milli_delay_duration [OF ticking_shift [OF assms(1)] assms(2), of n] assms(3) obtain m where
    m: "milli_delay (\<lambda>j. clk (n + j)) ms = Some m" "clk (n + m) = clk n + (ms + 9) div 10" by auto
  from Suc.IH [of "n + m"] obtain n' where "passes texts ms clk k (n + m) = Inr (concat (replicate k (map ascii texts)), n')"
    "clk n' = clk (n + m) + int k * ((ms + 9) div 10)" by blast
  with m assms(4) show ?case by (simp add: print_all_plain algebra_simps)
qed simp



section \<open>What TestB prints\<close>

lemma path_at_bytes_at: "path_at s p a cs \<Longrightarrow> bytes_at s p a cs"
  by (auto simp: path_at_def bytes_at_def nth_append intro: apart_mono)

lemma user_string_ok: "path_at s p a cs \<Longrightarrow> user_string s p a = Inr cs"
proof -
  assume c: "path_at s p a cs"
  then have "unat (of_nat (length cs) :: u32) = length cs" by (intro unat_of_nat_small) (simp add: path_at_def)
  with path_at_bytes(1,2) [OF c] show ?thesis by (simp add: user_string_def del: load_bytes.simps)
qed

text \<open>A short text ends where a zero is stored behind it.\<close>

lemma end_string:
  assumes b: "bytes_at s p a bs" and bs: "0 \<notin> set bs" "bs \<noteq> []" "length bs < 64" and ap: "apart s (lin (hk (hs s)) p a) (length bs + 4)"
  shows "path_at (upd_mem (\<lambda>m. m(lin (hk (hs s)) p (a + of_nat (length bs)) := 0)) s) p a bs"
proof -
  let ?s = "upd_mem (\<lambda>m. m(lin (hk (hs s)) p (a + of_nat (length bs)) := 0)) s"
  have l: "lin (hk (hs ?s)) = lin (hk (hs s))" by (simp add: lin_def fun_eq_iff)
  have "of_nat i \<noteq> (of_nat (length bs) :: u32)" if "i < length bs" for i
  proof -
    have "unat (of_nat i :: u32) = i" "unat (of_nat (length bs) :: u32) = length bs" using that bs(3) by (intro unat_of_nat_small, simp)+
    then show ?thesis using that by (metis less_irrefl)
  qed
  then have "fmem ?s (lin (hk (hs s)) p a + of_nat i) = (bs @ [0]) ! i" if "i < length bs + 1" for i
    using that b by (auto simp: bytes_at_def nth_append lin_add less_Suc_eq)
  with ap bs show ?thesis by (simp add: path_at_def bytes_at_def l apart_def)
qed

lemma file_open_mem [simp]: "file_open (upd_mem f s) = file_open s"
  by (simp add: file_open_def holds_def in_use_def fun_eq_iff)

lemma format_fd:
  assumes "fd < NR_FILES"
  shows "\<exists>cs. dec_parse cs = int fd \<and> (\<forall>pre. plain (ascii pre) \<longrightarrow> format_line (pre @ ''%d'') [Word (word_of_int (int fd))] = Inr (ascii pre @ cs @ [0x0A]))"
proof -
  have "sint (word_of_int (int fd) :: u32) = int fd"
    using assms sint_of_nat_small [of fd] by (simp add: NR_FILES_def)
  moreover obtain cs where "integer2char (int fd) 10 = Some cs" "dec_parse cs = int fd"
    using integer2char_roundtrip [of "int fd"] assms by (auto simp: NR_FILES_def)
  moreover have "format_line (pre @ ''%d'') args = vsprintf (ascii pre @ 0x25 # 0x64 # [0x0A] @ [0]) args" for pre args
    by (simp add: format_line_def ascii_def)
  moreover have "plain [0x0A]" by (simp add: plain_def)
  ultimately show ?thesis by (intro exI [of _ cs]) (simp add: vsprintf_plain vsprintf_d del: append_Cons)
qed

lemma strip_blah: "strip_path (ascii ''blah'') = Some (ascii ''blah'')" "length (ascii ''blah'') < 12" "0 \<notin> set (ascii ''blah'')"
  by (simp_all add: strip_path_def ascii_def MAX_FILENAME_LEN_def)

lemma TestB_texts:
  assumes "fd < NR_FILES"
  shows "\<exists>cs. dec_parse cs = int fd \<and> vsprintf (fmt_string ''B starting'') [] = Inr (ascii ''B starting'')
    \<and> format_line ''File created. fd = %d'' [Word (word_of_int (int fd))] = Inr (ascii ''File created. fd = '' @ cs @ [0x0A])
    \<and> format_line ''File opened. fd = %d'' [Word (word_of_int (int fd))] = Inr (ascii ''File opened. fd = '' @ cs @ [0x0A])
    \<and> vsprintf (fmt_string ''Read file: %s'') [Str (ascii ''abc'')] = Inr (ascii ''Read file: abc'')"
proof -
  have p: "plain (ascii ''B starting'')" "plain (ascii ''File created. fd = '')" "plain (ascii ''File opened. fd = '')" "plain (ascii ''Read file: '')"
    by (simp_all add: plain_def ascii_def)
  have "vsprintf (fmt_string ''B starting'') [] = Inr (ascii ''B starting'')" by (simp add: fmt_string_def vsprintf_plain p)
  moreover have "fmt_string ''Read file: %s'' = ascii ''Read file: '' @ 0x25 # 0x73 # [0]" by (simp add: fmt_string_def ascii_def)
  then have "vsprintf (fmt_string ''Read file: %s'') [Str (ascii ''abc'')] = Inr (ascii ''Read file: '' @ ascii ''abc'')"
    by (simp add: vsprintf_plain vsprintf_s p)
  moreover have "ascii ''Read file: '' @ ascii ''abc'' = ascii ''Read file: abc''" by (simp add: ascii_def)
  moreover from format_fd [OF assms] obtain cs where cs: "dec_parse cs = int fd"
    "\<And>pre. plain (ascii pre) \<Longrightarrow> format_line (pre @ ''%d'') [Word (word_of_int (int fd))] = Inr (ascii pre @ cs @ [0x0A])" by blast
  ultimately show ?thesis using cs(2) [OF p(2)] cs(2) [OF p(3)] by (intro exI [of _ cs] conjI cs(1)) simp_all
qed

text \<open>
  C10: \<open>TestB\<close> runs through on a file system with room for one more file, whatever its stack held, and prints what it should: both times
  the descriptor that was the first free one, and \<open>abc\<close>, the first three of the bytes that it wrote, which come back from the disk
  through \<open>close\<close> and \<open>open\<close>. Afterwards the buffer holds them as a string.
\<close>

theorem TestB_prints:
  assumes mem: "path_at s p filename (ascii ''blah'')" "path_at s p bufw (ascii ''abcdefsdfsdf'')" "apart s (lin (hk (hs s)) p bufr) 7"
    and room: "room_for s sb r n e i K k" "a = dstart (inode_table s r)" "absent s a n (ascii ''blah'')"
    and S: "S = unat (n_1st_sector sb) + 2048 * k" "S + 2048 < unat (nr_sectors sb)" "a + (n + 1) div 32 < S"
    and fd: "free_fd s p fd d"
  shows "\<exists>s' cs. TestB junk p filename bufw bufr s = Inr ([ascii ''B starting'', ascii ''File created. fd = '' @ cs @ [0x0A],
      ascii ''File opened. fd = '' @ cs @ [0x0A], ascii ''Read file: abc''], s') \<and> dec_parse cs = int fd"
proof -
  let ?bs = "ascii ''abcdefsdfsdf''"
  have fl: "(O_CREAT OR O_RDWR) AND O_CREAT \<noteq> 0" "(O_CREAT OR O_RDWR) AND O_RDWR \<noteq> 0" "O_RDWR AND O_CREAT = 0" "O_RDWR AND O_RDWR \<noteq> 0"
    by (simp_all add: O_CREAT_def O_RDWR_def)
  have p: "p < nr_proc_table" "fd < NR_FILES" using fd by (simp_all add: free_fd_def)
  have len: "12 = length ?bs" "0 < (12 :: nat)" "(12 :: nat) mod 4 = 0" "(12 :: nat) div 512 < 256" by (simp_all add: ascii_def)
  from create_write_close [OF mem(1) room(1,2) S strip_blah room(3) fd fl(1,2) path_at_bytes_at [OF mem(2)] len, of "junk 0" "junk 1" "junk 2"]
  obtain s1 s2 s3 where s3: "api_open (junk 0) p filename (O_CREAT OR O_RDWR) s = Inr (int fd, s1)"
    "api_file_write (junk 1) p (int fd) bufw (int 12) s1 = Inr (int 12, s2)" "api_close (junk 2) p (int fd) s2 = Inr s3"
    "stored s3 sb r (max n (e + 1)) (ascii ''blah'') i S 12" "same_view s s1" "same_view s s3" "free_fd s3 p fd d"
    "\<forall>q. \<not> holds s3 ROOT_DEV (int i) q" "\<exists>q < NR_INODE. \<not> in_use s3 q" "\<forall>j < 12. file_byte s3 S j = ?bs ! j" by blast
  from api_open_stored [OF path_at_view [OF mem(1) s3(6)] strip_blah(1) s3(4,8,9,7) fl(3,4), of "junk 3"] obtain s4 q where
    s4: "api_open (junk 3) p filename O_RDWR s3 = Inr (int fd, s4)" "stored s4 sb r (max n (e + 1)) (ascii ''blah'') i S 12"
    "file_open s4 p fd d O_RDWR 0 q (file_inode i S 12)" "same_view s3 s4" "sect s4 = sect s3" by blast
  have ap: "apart s4 (lin (hk (hs s4)) p bufr) 7" using mem(3) apart_view [OF same_view_trans [OF s3(6) s4(4)]] by simp
  from api_file_read_ok [OF s4(3) fl(4) p(1) s4(2), of bufr 3 "junk 4"] apart_mono [OF ap] obtain s5 where
    s5: "api_file_read (junk 4) p (int fd) bufr (int 3) s4 = Inr (int 3, s5)" "bytes_at s5 p bufr (map (\<lambda>j. file_byte s4 S (0 + j)) [0..<3])"
    "lin (hk (hs s5)) = lin (hk (hs s4))" "file_open s5 p fd d O_RDWR (0 + 3) q (file_inode i S 12)" by auto
  have "map (\<lambda>j. file_byte s4 S (0 + j)) [0..<3] = ascii ''abc''"
    using s3(10) s4(5) by (simp add: file_byte_def ascii_def upt_rec)
  then have b5: "bytes_at s5 p bufr (ascii ''abc'')" using s5(2) by simp
  let ?t = "upd_mem (\<lambda>m. m(lin (hk (hs s5)) p (bufr + word_of_int (int 3)) := 0)) s5"
  have "fsb s5 = fsb s4" using s5(3) by (simp add: fsb_def)
  then have ap5: "apart s5 (lin (hk (hs s5)) p bufr) (length (ascii ''abc'') + 4)" using ap s5(3) by (simp add: apart_def ascii_def)
  have "path_at ?t p bufr (ascii ''abc'')" using end_string [OF b5 _ _ _ ap5] by (simp add: ascii_def)
  note str = user_string_ok [OF this]
  have "file_open ?t p fd d O_RDWR (0 + 3) q (file_inode i S 12)" using s5(4) by simp
  from api_close_returns [OF this] obtain s6 where s6: "api_close (junk 5) p (int fd) ?t = Inr s6" by blast
  from TestB_texts [OF p(2)] obtain cs where out: "dec_parse cs = int fd" "vsprintf (fmt_string ''B starting'') [] = Inr (ascii ''B starting'')"
    "format_line ''File created. fd = %d'' [Word (word_of_int (int fd))] = Inr (ascii ''File created. fd = '' @ cs @ [0x0A])"
    "format_line ''File opened. fd = %d'' [Word (word_of_int (int fd))] = Inr (ascii ''File opened. fd = '' @ cs @ [0x0A])"
    "vsprintf (fmt_string ''Read file: %s'') [Str (ascii ''abc'')] = Inr (ascii ''Read file: abc'')" by blast
  have w: "strlen (\<lambda>x. fmem s1 (lin (hk (hs s1)) p x)) bufw = Some (of_nat (length ?bs))" "sint (of_nat (length ?bs) :: u32) = int 12"
    using path_at_bytes(1,3) [OF path_at_view [OF mem(2) s3(5)]] len(1) by simp_all
  have "TestB junk p filename bufw bufr s = Inr ([ascii ''B starting'', ascii ''File created. fd = '' @ cs @ [0x0A],
      ascii ''File opened. fd = '' @ cs @ [0x0A], ascii ''Read file: abc''], s6)"
    unfolding TestB_def rd_bytes_def
    by (simp only: out(2-5) s3(1,3) s3(2) [simplified of_nat_numeral] s4(1) s5(1) [simplified of_nat_numeral] w or_spin_simps ebind_simps prod.case Let_def s6 [simplified of_nat_numeral] str [simplified of_nat_numeral] of_nat_numeral)
  with out(1) show ?thesis by blast
qed

end
