(* ===== verification/Fs_Remove.thy ===== *)
theory Fs_Remove
  imports Fs_Client Fs_Unlink
begin

text \<open>
  Removing a file: \<open>do_unlink\<close> gives back the bit of the inode and the sectors, erases the inode on the disk and clears the directory
  entry. For a client, a file that is created and removed leaves both maps as they were.
\<close>

section \<open>Giving back the inode and the sectors\<close>

definition erased :: "nat \<Rightarrow> inode" where
  "erased i = \<lparr>i_mode = 0, i_size = 0, i_start_sector = 0, i_nr_sectors = 0, i_dev = ROOT_DEV, i_cnt = 1, i_num = int i\<rparr>"

lemma io_frame_upd_const:
  assumes "io_frame s t" "inode_table s q = x"
  shows "io_frame (upd_inode q (\<lambda>_. f x) s) (upd_inode q f t)"
proof -
  have "upd_inode q f t = upd_inode q (\<lambda>_. f x) t" using io_frame_simps(1) [OF assms(1)] assms(2) by (simp add: upd_inode_def)
  with io_frame_upd [OF assms(1)] show ?thesis by simp
qed

lemma free_maps_ok:
  assumes l: "fs_layout t sb" and i: "0 < i" "i < 4096" "bit_at (sect t 2) i"
    and K: "sector_map sb t = slots K" "k \<in> K" "2048 * k + 2049 \<le> 4096 * unat (nr_smap_sectors sb)" and S: "S = unat (n_1st_sector sb) + 2048 * k"
  shows "\<exists>u1 u2. free_imap_bit ROOT_DEV (int i) t = Inr u1 \<and> free_smap_bits ROOT_DEV sb (of_nat S) 2048 u1 = Inr u2 \<and> io_frame t u2
    \<and> sector_map sb u2 = slots (K - {k}) \<and> (\<forall>j < 4096. bit_at (sect u2 2) j \<longleftrightarrow> bit_at (sect t 2) j \<and> j \<noteq> i)
    \<and> (\<forall>j. 3 + unat (nr_smap_sectors sb) \<le> j \<longrightarrow> sect u2 j = sect t j)"
proof -
  from free_imap_bit_ok [OF l i(2,3)] obtain u1 where u1: "free_imap_bit ROOT_DEV (int i) t = Inr u1" "io_frame t u1"
    "\<forall>k. k \<noteq> 2 \<longrightarrow> sect u1 k = sect t k" "\<forall>j < 4096. bit_at (sect u1 2) j \<longleftrightarrow> bit_at (sect t 2) j \<and> j \<noteq> i" by blast
  have l1: "fs_layout u1 sb" using l io_frame_simps(11) [OF u1(2)] by simp
  have m1: "sector_map sb u1 = slots K" using sector_map_cong [of sb u1 t] u1(3) K(1) by simp
  have "unat (nr_smap_sectors sb) \<le> 2 ^ 16" using l by (simp add: fs_layout_def)
  then have S32: "unat (of_nat S :: u32) = unat (n_1st_sector sb) + 2048 * k"
    unfolding S using K(3) first_sector [OF l] by (intro unat_of_nat_small) simp
  from free_slot [OF l1 m1 K(2,3) S32] obtain u2 where u2: "free_smap_bits ROOT_DEV sb (of_nat S) 2048 u1 = Inr u2"
    "sector_map sb u2 = slots (K - {k})" "io_frame u1 u2" "\<forall>j \<in> - {3..<3 + unat (nr_smap_sectors sb)}. sect u2 j = sect u1 j"
    by (auto simp: NR_DEFAULT_FILE_SECTS_def)
  have "sect u2 2 = sect u1 2" using u2(4) by simp
  moreover have "sect u2 j = sect t j" if "3 + unat (nr_smap_sectors sb) \<le> j" for j using that u1(3) u2(4) by simp
  ultimately show ?thesis using u1(1,4) u2(1,2) io_frame_trans [OF u1(2) u2(3)] by (intro exI [of _ u1] exI [of _ u2]) simp
qed

lemma free_file_ok:
  assumes l: "fs_layout t sb" and q: "inode_table t q = file_inode i S sz" and i: "0 < i" "i < 4096" "bit_at (sect t 2) i"
    and K: "sector_map sb t = slots K" "k \<in> K" "2048 * k + 2049 \<le> 4096 * unat (nr_smap_sectors sb)" and S: "S = unat (n_1st_sector sb) + 2048 * k"
  shows "\<exists>u1 u2 u3. free_imap_bit ROOT_DEV (int i) t = Inr u1 \<and> free_smap_bits ROOT_DEV sb (of_nat S) 2048 u1 = Inr u2
    \<and> sync_inode q (upd_inode q (\<lambda>p. p\<lparr>i_mode := 0, i_size := 0, i_start_sector := 0, i_nr_sectors := 0\<rparr>) u2) = Inr u3
    \<and> io_frame (upd_inode q (\<lambda>_. erased i) t) u3 \<and> sector_map sb u3 = slots (K - {k})
    \<and> (\<forall>j < 4096. bit_at (sect u3 2) j \<longleftrightarrow> bit_at (sect t 2) j \<and> j \<noteq> i)
    \<and> disk_fields u3 sb (int i) = (0, 0, 0, 0) \<and> (\<forall>num \<ge> 1. num \<noteq> int i \<longrightarrow> disk_fields u3 sb num = disk_fields t sb num)
    \<and> (\<forall>j. unat (n_1st_sector sb) \<le> j \<longrightarrow> sect u3 j = sect t j)"
proof -
  let ?m = "unat (nr_smap_sectors sb)"
  from free_maps_ok [OF l i K S] obtain u1 u2 where u: "free_imap_bit ROOT_DEV (int i) t = Inr u1" "free_smap_bits ROOT_DEV sb (of_nat S) 2048 u1 = Inr u2"
    "io_frame t u2" "sector_map sb u2 = slots (K - {k})" "\<forall>j < 4096. bit_at (sect u2 2) j \<longleftrightarrow> bit_at (sect t 2) j \<and> j \<noteq> i"
    "\<forall>j. 3 + ?m \<le> j \<longrightarrow> sect u2 j = sect t j" by blast
  let ?f = "\<lambda>p :: inode. p\<lparr>i_mode := 0, i_size := 0, i_start_sector := 0, i_nr_sectors := 0\<rparr>"
  have e: "?f (file_inode i S sz) = erased i" by (simp add: file_inode_def erased_def)
  have fr: "io_frame (upd_inode q (\<lambda>_. erased i) t) (upd_inode q ?f u2)" using io_frame_upd_const [OF u(3) q, of ?f] unfolding e .
  define v where "v = upd_inode q ?f u2"
  have v: "inode_table v q = erased i" "fs_layout v sb" "sect v = sect u2"
    using io_frame_simps(1,11) [OF u(3)] q e l by (simp_all add: v_def fun_eq_iff)
  let ?b = "iblk sb (int i)"
  define new where "new = put_list (ioff (int i)) (inode_bytes (erased i)) (sect v ?b)"
  let ?w = "put_sect ?b new (set_buf new v)"
  have len: "length new = 512" using ioff_le [of "int i"] by (simp add: new_def)
  have p: "i_dev (inode_table v q) = ROOT_DEV" "1 \<le> i_num (inode_table v q)" "i_num (inode_table v q) \<le> 4096"
    using i by (simp_all add: v(1) erased_def)
  have sync: "sync_inode q v = Inr ?w"
    by (rule sync_inode_eq [OF v(2) p]) (simp_all add: v(1) erased_def new_def)
  have b: "3 + ?m \<le> ?b" "?b < unat (n_1st_sector sb)" using iblk_below [OF l, of "int i"] i(2) by (simp_all add: iblk_def)
  have w: "sect ?w j = sect u2 j" if "j \<noteq> ?b" for j using that len by (simp add: sect_put_sect v(3))
  have "disk_fields ?w sb (int i) = (0, 0, 0, 0)"
    using disk_fields_sync(2) [OF v(2) p sync, of "int i"] i(1) by (simp add: v(1) erased_def Fs_Inode.fields_def)
  moreover have "disk_fields ?w sb num = disk_fields t sb num" if "1 \<le> num" "num \<noteq> int i" for num
    using disk_fields_sync(2) [OF v(2) p sync that(1)] that(2) u(6) by (simp add: v(1,3) erased_def disk_fields_def iblk_def)
  moreover have "io_frame (upd_inode q (\<lambda>_. erased i) t) ?w" using io_frame_trans [OF fr] io_frame_put_set [OF len, of v] by (simp add: v_def)
  moreover have "sector_map sb ?w = slots (K - {k})" using sector_map_cong [of sb ?w u2] w b(1) u(4) by simp
  moreover have "sect ?w 2 = sect u2 2" using w [of 2] b(1) by simp
  moreover have "sect ?w j = sect t j" if "unat (n_1st_sector sb) \<le> j" for j
    using w [of j] that b(2) u(6) first_sector [OF l] by simp
  ultimately show ?thesis using u(1,2,5) sync by (intro exI [of _ u1] exI [of _ u2] exI [of _ ?w]) (simp add: v_def)
qed

section \<open>The request\<close>

lemma do_unlink_steps:
  assumes "get_path ''link.c'' 21 s = Inr path" "path \<noteq> [0x2F]" "search_file path s = Inr (of_nat i, t0)" "0 < i" "i < 4096" "strip_path path = Some name"
    and "root_inode t0 = Some r" "i_dev (inode_table t0 r) = ROOT_DEV" "get_inode ROOT_DEV (int i) t0 = Inr (Some q, t)"
    and "inode_table t q = file_inode i S sz" "fs_layout t sb" "free_imap_bit ROOT_DEV (int i) t = Inr u1"
    and "free_smap_bits ROOT_DEV sb (of_nat S) 2048 u1 = Inr u2"
    and "sync_inode q (upd_inode q (\<lambda>p. p\<lparr>i_mode := 0, i_size := 0, i_start_sector := 0, i_nr_sectors := 0\<rparr>) u2) = Inr u3"
    and "i_cnt (inode_table u3 q) = 1"
  shows "do_unlink s = ebind (unlink_entry r (of_nat i) (upd_inode q (\<lambda>p. p\<lparr>i_cnt := i_cnt p - 1\<rparr>) u3)) (\<lambda>s. Inr (0, s))"
proof -
  have i: "sint (of_nat i :: u32) = int i" "(of_nat i :: u32) \<noteq> 0"
  proof -
    show "sint (of_nat i :: u32) = int i" using assms(5) by (intro sint_of_nat_small) simp
    then show "(of_nat i :: u32) \<noteq> 0" using assms(4) by (metis of_nat_0_less_iff less_irrefl signed_0)
  qed
  have "get_super_block ROOT_DEV t = Inr sb" using assms(11) by (simp add: fs_layout_def)
  then show ?thesis using assms
    by (simp add: do_unlink_def INVALID_INODE_def i dir_inode_def put_inode_def file_inode_def)
qed

text \<open>
  The state of a file that can be removed: \<open>e\<close> is its entry, the only one with its inode number up to there, both
  maps know it, and nobody has it open.
\<close>

definition removable :: "fstate \<Rightarrow> super_block \<Rightarrow> nat \<Rightarrow> nat \<Rightarrow> nat \<Rightarrow> u8 list \<Rightarrow> nat \<Rightarrow> nat set \<Rightarrow> nat \<Rightarrow> nat \<Rightarrow> nat \<Rightarrow> bool" where
  "removable s sb r n e name i K k S sz \<longleftrightarrow> stored s sb r n name i S sz \<and> e < n
     \<and> List.find (\<lambda>m. dent_name s (dstart (inode_table s r)) m = name) [0..<min (32 * ((n + 31) div 32)) (n + 1)] = Some e
     \<and> dent_nr s (dstart (inode_table s r)) e = of_nat i \<and> (\<forall>m < e. dent_nr s (dstart (inode_table s r)) m \<noteq> of_nat i)
     \<and> bit_at (sect s 2) i \<and> sector_map sb s = slots K \<and> k \<in> K \<and> 2048 * k + 2049 \<le> 4096 * unat (nr_smap_sectors sb)
     \<and> S = unat (n_1st_sector sb) + 2048 * k \<and> (\<forall>q. \<not> holds s ROOT_DEV (int i) q) \<and> (\<exists>q < NR_INODE. \<not> in_use s q)"

text \<open>What is left when it has been removed.\<close>

definition removed :: "super_block \<Rightarrow> nat \<Rightarrow> nat \<Rightarrow> nat \<Rightarrow> nat set \<Rightarrow> nat \<Rightarrow> fstate \<Rightarrow> fstate \<Rightarrow> bool" where
  "removed sb a e i K k s t \<longleftrightarrow> (\<forall>m. dent_nr t a m = (if m = e then 0 else dent_nr s a m) \<and> dent_name t a m = (if m = e then [] else dent_name s a m))
     \<and> (\<forall>j < 4096. bit_at (sect t 2) j \<longleftrightarrow> bit_at (sect s 2) j \<and> j \<noteq> i) \<and> sector_map sb t = slots (K - {k})
     \<and> disk_fields t sb (int i) = (0, 0, 0, 0)"

lemma removed_cong: "sect s' = sect s \<Longrightarrow> removed sb a e i K k s' t = removed sb a e i K k s t"
  by (simp add: removed_def dent_nr_def dent_name_def)

text \<open>The directory is still there, shorter when its last entry went, and the entry of the table that the inode had is free again.\<close>

definition dir_left :: "super_block \<Rightarrow> nat \<Rightarrow> nat \<Rightarrow> nat \<Rightarrow> nat \<Rightarrow> nat \<Rightarrow> fstate \<Rightarrow> fstate \<Rightarrow> bool" where
  "dir_left sb r n e a i s t \<longleftrightarrow> root_inode t = Some r \<and> dstart (inode_table t r) = a
     \<and> dir_ok t sb (inode_table t r) (if e + 1 = n then live (dent_nr s a) 0 e else n)
     \<and> (\<exists>q. q \<noteq> r \<and> same_files sb r q i s t \<and> \<not> in_use t q) \<and> (\<forall>p fd d. same_fds p fd d s t)"

lemma dir_left_cong:
  assumes "inode_table s' = inode_table s" "sect s' = sect s" "\<And>p fd d. same_fds p fd d s s'"
  shows "dir_left sb r n e a i s' t = dir_left sb r n e a i s t"
proof -
  have "same_fds p fd d s' t = same_fds p fd d s t" for p fd d using assms(3) [of p fd d] by (simp add: same_fds_def)
  moreover have "dent_nr s' a = dent_nr s a" by (simp add: dent_nr_def fun_eq_iff assms(2))
  ultimately show ?thesis using assms(1,2) same_files_cong [of s' s t t] by (simp add: dir_left_def)
qed

lemma dir_left_ok:
  assumes d: "dir_ok s sb (inode_table s r) n" "e < n" "a = dstart (inode_table s r)" and q: "q \<noteq> r" "i_cnt x = 0"
    and t: "root_inode t = Some r" "fs_layout t sb" "\<And>p fd d. same_fds p fd d s t" "inode_table t = (inode_table s)(q := x, r :=
      (if e + 1 = n then (inode_table s r)\<lparr>i_size := of_nat (16 * live (dent_nr s a) 0 e)\<rparr> else inode_table s r))"
    and disk: "\<And>num. 1 \<le> num \<Longrightarrow> num \<le> 4096 \<Longrightarrow> num \<noteq> int i \<Longrightarrow> num \<noteq> i_num (inode_table s r) \<Longrightarrow> disk_fields t sb num = disk_fields s sb num"
  shows "dir_left sb r n e a i s t"
proof -
  let ?n = "if e + 1 = n then live (dent_nr s a) 0 e else n"
  have n: "?n \<le> n" using live_le [of "dent_nr s a" 0 e] d(2) by simp
  have start: "dstart (inode_table t r) = a" by (simp add: t(4) d(3) dstart_def)
  have "a + ?n div 32 \<le> a + n div 32" using n by (simp add: div_le_mono)
  also have "\<dots> < unat (nr_sectors sb)" using d(1) by (simp add: dir_ok_def d(3))
  finally have "dir_ok t sb (inode_table t r) ?n" unfolding dir_ok_def start using d(1,3) n t(2) by (simp add: dir_ok_def t(4))
  moreover have "same_files sb r q i s t" using disk by (simp add: same_files_def in_use_def t(4))
  moreover have "\<not> in_use t q" using q by (simp add: in_use_def t(4))
  ultimately show ?thesis unfolding dir_left_def using t(1,3) q(1) start by blast
qed

text \<open>The steps from the loaded inode on.\<close>

lemma remove_loaded:
  assumes rem: "removable s sb r n e name i K k S sz" and a: "a = dstart (inode_table s r)" and qr: "q \<noteq> r"
    and fr: "io_frame (upd_inode q (\<lambda>_. file_inode i S sz) s) t" and sec: "sect t = sect s"
  shows "\<exists>u1 u2 u3 u4. free_imap_bit ROOT_DEV (int i) t = Inr u1 \<and> free_smap_bits ROOT_DEV sb (of_nat S) 2048 u1 = Inr u2
    \<and> sync_inode q (upd_inode q (\<lambda>p. p\<lparr>i_mode := 0, i_size := 0, i_start_sector := 0, i_nr_sectors := 0\<rparr>) u2) = Inr u3
    \<and> i_cnt (inode_table u3 q) = 1 \<and> unlink_entry r (of_nat i) (upd_inode q (\<lambda>p. p\<lparr>i_cnt := i_cnt p - 1\<rparr>) u3) = Inr u4
    \<and> removed sb a e i K k s u4 \<and> same_view s u4 \<and> dir_left sb r n e a i s u4"
proof -
  have st: "stored s sb r n name i S sz" "dir_ok s sb (inode_table s r) n" and e: "e < n" "dent_nr s a e = of_nat i" "\<forall>m < e. dent_nr s a m \<noteq> of_nat i"
    and K: "bit_at (sect s 2) i" "sector_map sb s = slots K" "k \<in> K" "2048 * k + 2049 \<le> 4096 * unat (nr_smap_sectors sb)" "S = unat (n_1st_sector sb) + 2048 * k"
    and i: "0 < i" "i < 4096" and free: "\<forall>q. \<not> holds s ROOT_DEV (int i) q"
    using rem by (simp_all add: removable_def a stored_def)
  let ?d = "inode_table s r"
  have l: "fs_layout s sb" "i_dev ?d = ROOT_DEV" "unat (n_1st_sector sb) \<le> a" "1 \<le> i_num ?d" "i_num ?d \<le> 4096" using st(2) by (simp_all add: dir_ok_def a)
  have ir: "int i \<noteq> i_num ?d" using free [rule_format, of r] st(1) l(2) by (auto simp: holds_def stored_def)
  have t: "fs_layout t sb" "inode_table t q = file_inode i S sz" "sector_map sb t = slots K" "bit_at (sect t 2) i"
    using io_frame_simps(1,11) [OF fr] l(1) K(1,2) sec by (simp_all add: sector_map_def used_def)
  from free_file_ok [OF t(1,2) i t(4,3) K(3-5)] obtain u1 u2 u3 where u: "free_imap_bit ROOT_DEV (int i) t = Inr u1"
    "free_smap_bits ROOT_DEV sb (of_nat S) 2048 u1 = Inr u2"
    "sync_inode q (upd_inode q (\<lambda>p. p\<lparr>i_mode := 0, i_size := 0, i_start_sector := 0, i_nr_sectors := 0\<rparr>) u2) = Inr u3"
    "io_frame (upd_inode q (\<lambda>_. erased i) t) u3" "sector_map sb u3 = slots (K - {k})" "\<forall>j < 4096. bit_at (sect u3 2) j \<longleftrightarrow> bit_at (sect t 2) j \<and> j \<noteq> i"
    "disk_fields u3 sb (int i) = (0, 0, 0, 0)" "\<forall>j. unat (n_1st_sector sb) \<le> j \<longrightarrow> sect u3 j = sect t j"
    "\<forall>num \<ge> 1. num \<noteq> int i \<longrightarrow> disk_fields u3 sb num = disk_fields t sb num" by blast
  have tab: "inode_table u3 = (inode_table s)(q := erased i)" using io_frame_simps(1) [OF u(4)] io_frame_simps(1) [OF fr] by simp
  define v where "v = upd_inode q (\<lambda>p. p\<lparr>i_cnt := i_cnt p - 1\<rparr>) u3"
  have v: "inode_table v r = ?d" "fs_layout v sb" "sect v = sect u3"
    using tab qr t(1) io_frame_simps(11) [OF u(4)] by (simp_all add: v_def fun_eq_iff)
  have ent: "dent_nr v a = dent_nr s a \<and> dent_name v a = dent_name s a" using u(8) l(3) sec v(3) by (intro dent_cong) simp
  have "dir_ok v sb ?d n" using st(2) v(2) by (simp add: dir_ok_def)
  note un = unlink_entry_ok [OF v(1) [symmetric] this e(1) _ _ refl, of "of_nat i", folded a, unfolded ent [THEN conjunct1] ent [THEN conjunct2], OF e(2,3)]
  define d' where "d' = (if e + 1 = n then ?d\<lparr>i_size := of_nat (16 * live (dent_nr s a) 0 e)\<rparr> else ?d)"
  from un obtain u4 where u4: "unlink_entry r (of_nat i) v = Inr u4" "io_frame (upd_inode r (\<lambda>_. d') v) u4"
    "\<forall>m. dent_nr u4 a m = (if m = e then 0 else dent_nr s a m) \<and> dent_name u4 a m = (if m = e then [] else dent_name s a m)"
    "\<forall>j. j \<noteq> iblk sb (i_num ?d) \<and> j \<noteq> a + e div 32 \<longrightarrow> sect u4 j = sect v j" "\<forall>num \<in> {1..4096}. num \<noteq> i_num ?d \<longrightarrow> disk_fields u4 sb num = disk_fields v sb num"
    unfolding d'_def by blast
  have low: "sect u4 j = sect u3 j" if "j < 3 + unat (nr_smap_sectors sb)" for j
    using u4(4) that v(3) l(3) first_sector [OF l(1)] by (simp add: iblk_def)
  have "sector_map sb u4 = slots (K - {k})" using sector_map_cong [of sb u4 u3] low u(5) by simp
  moreover have "disk_fields u4 sb (int i) = (0, 0, 0, 0)" using u4(5) ir i u(7) v(3) by (simp add: disk_fields_def)
  ultimately have "removed sb a e i K k s u4" using u4(3) low [of 2] u(6) sec by (simp add: removed_def)
  moreover have "same_view s t" "same_view t u3" "same_view u3 u4"
    using same_view_io [OF fr] same_view_io [OF u(4)] same_view_io [OF u4(2)] by (simp_all add: v_def)
  then have "same_view s u4" by (blast intro: same_view_trans)
  moreover have "i_cnt (inode_table u3 q) = 1" by (simp add: tab erased_def)
  moreover have "dir_left sb r n e a i s u4"
  proof (rule dir_left_ok [OF st(2) e(1) a qr])
    show "inode_table u4 = (inode_table s)(q := (erased i)\<lparr>i_cnt := 0\<rparr>, r := (if e + 1 = n then ?d\<lparr>i_size := of_nat (16 * live (dent_nr s a) 0 e)\<rparr> else ?d))"
      using io_frame_simps(1) [OF u4(2)] tab by (simp add: v_def d'_def erased_def)
    show "root_inode u4 = Some r" using io_frame_simps(4) [OF u4(2)] io_frame_simps(4) [OF u(4)] io_frame_simps(4) [OF fr] st(1) by (simp add: v_def stored_def)
    show "fs_layout u4 sb" using io_frame_simps(11) [OF u4(2)] v(2) by simp
    show "same_fds p fd d s u4" for p fd d
      using same_fds_trans [OF same_fds_io [OF fr] same_fds_trans [OF _ same_fds_io [OF u4(2)]], of p fd d] same_fds_io [OF u(4), of p fd d] by (simp add: v_def)
    fix num assume num: "1 \<le> num" "num \<le> 4096" "num \<noteq> int i" "num \<noteq> i_num ?d"
    then have "disk_fields u4 sb num = disk_fields u3 sb num" using u4(5) v(3) by (simp add: disk_fields_def)
    also have "\<dots> = disk_fields s sb num" using u(9) num sec by (simp add: disk_fields_def)
    finally show "disk_fields u4 sb num = disk_fields s sb num" .
  qed simp
  ultimately show ?thesis using u(1-3) u4(1) unfolding v_def by blast
qed

lemma api_unlink_eq:
  assumes "path_at s p a path"
    and "do_unlink (asking (msg\<lparr>m_source := int p, m_type := UNLINK, m_PATHNAME := a, m_NAME_LEN := int (length path)\<rparr>) p s) = Inr (r, t)"
  shows "\<exists>m. api_unlink msg p a s = Inr (r, asking m (pcaller t) t)"
  using path_at_bytes(1,3) [OF assms(1)] assms(2)
  by (intro exI [of _ "(fs_msg t)\<lparr>m_RETVAL := r, m_type := SYSCALL_RET\<rparr>"]) (simp add: api_unlink_def task_fs_request_def asking_def fs_msg_consts Let_def)

lemma api_unlink_ok:
  assumes path: "path_at s p ptr path" "strip_path path = Some name" "path \<noteq> [0x2F]" "p < nr_proc_table"
    and rem: "removable s sb r n e name i K k S sz" and a: "a = dstart (inode_table s r)"
  shows "\<exists>s'. api_unlink msg p ptr s = Inr (0, s') \<and> removed sb a e i K k s s' \<and> same_view s s' \<and> dir_left sb r n e a i s s'"
proof -
  let ?m = "msg\<lparr>m_source := int p, m_type := UNLINK, m_PATHNAME := ptr, m_NAME_LEN := int (length path)\<rparr>"
  let ?s = "asking ?m p s"
  have st: "stored s sb r n name i S sz" "0 < i" "i < 4096" and free: "\<forall>q. \<not> holds s ROOT_DEV (int i) q" "\<exists>q < NR_INODE. \<not> in_use s q"
    using rem by (simp_all add: removable_def stored_def)
  from search_stored [of ?s sb r n name i S sz path] st path(2)
  obtain t0 where t0: "search_file path ?s = Inr (of_nat i, t0)" "io_frame ?s t0" "sect t0 = sect ?s" by auto
  note io = io_frame_simps [OF t0(2)]
  have st0: "stored t0 sb r n name i S sz" using st(1) stored_io [OF t0(2,3)] by simp
  have "\<forall>q. \<not> holds t0 ROOT_DEV (int i) q" "\<exists>q < NR_INODE. \<not> in_use t0 q" using free io(1) by (simp_all add: holds_def in_use_def)
  from get_inode_stored [OF st0 this] obtain q t where t: "get_inode ROOT_DEV (int i) t0 = Inr (Some q, t)" "q \<noteq> r"
    "io_frame (upd_inode q (\<lambda>_. file_inode i S sz) t0) t" "sect t = sect t0" by blast
  have rem0: "removable t0 sb r n e name i K k S sz"
    using rem st0 io(1) t0(3) by (simp add: removable_def holds_def in_use_def dent_nr_def dent_name_def sector_map_def used_def)
  have "a = dstart (inode_table t0 r)" using a io(1) by simp
  from remove_loaded [OF rem0 this t(2-4)] obtain u1 u2 u3 u4 where u: "free_imap_bit ROOT_DEV (int i) t = Inr u1"
    "free_smap_bits ROOT_DEV sb (of_nat S) 2048 u1 = Inr u2"
    "sync_inode q (upd_inode q (\<lambda>p. p\<lparr>i_mode := 0, i_size := 0, i_start_sector := 0, i_nr_sectors := 0\<rparr>) u2) = Inr u3" "i_cnt (inode_table u3 q) = 1"
    "unlink_entry r (of_nat i) (upd_inode q (\<lambda>p. p\<lparr>i_cnt := i_cnt p - 1\<rparr>) u3) = Inr u4" "removed sb a e i K k t0 u4" "same_view t0 u4" "dir_left sb r n e a i t0 u4" by blast
  have r: "root_inode t0 = Some r" "i_dev (inode_table t0 r) = ROOT_DEV" "fs_layout t sb" "inode_table t q = file_inode i S sz"
    using st0 io_frame_simps(1,11) [OF t(3)] by (simp_all add: stored_def dir_ok_def)
  have "get_path ''link.c'' 21 ?s = Inr path" by (rule get_path_ok [of _ p ptr]) (use path in simp_all)
  from do_unlink_steps [OF this path(3) t0(1) st(2,3) path(2) r(1,2) t(1) r(4,3) u(1-4)] u(5) have "do_unlink ?s = Inr (0, u4)" by simp
  from api_unlink_eq [OF path(1) this] obtain m where "api_unlink msg p ptr s = Inr (0, asking m (pcaller u4) u4)" by blast
  moreover have "removed sb a e i K k s (asking m c u4)" for m c using u(6) removed_cong [of t0 s] t0(3) by (simp add: removed_def dent_nr_def dent_name_def sector_map_def used_def)
  moreover have "same_view s u4" using same_view_trans [OF same_view_io [OF t0(2)], of u4] u(7) by simp
  moreover have "dir_left sb r n e a i s (asking m c u4)" for m c
    using u(8) dir_left_cong [of t0 s] io(1) t0(3) same_fds_io [OF t0(2)] same_files_cong [of s s "asking m c u4" u4] by (simp add: dir_left_def dir_ok_def)
  ultimately show ?thesis by (intro exI [of _ "asking m (pcaller u4) u4"]) simp
qed

section \<open>Creating and removing\<close>


end
