(* ===== verification/Fs_Listing.thy ===== *)
theory Fs_Listing
  imports Fs_Remove Fs_Boot
begin

text \<open>
  The file system of a client that creates and removes empty files: \<open>listing\<close> says that the disk holds the names of the map \<open>D\<close>, the
  number of an entry of the directory to its name. Through the API a file is created by \<open>D(e \<mapsto> name)\<close> for the first free entry \<open>e\<close> and
  removed by \<open>D(e := None)\<close>; inode numbers, both maps and the inodes on the disk follow.
\<close>

section \<open>The names on the disk\<close>

text \<open>The first sector of the file of entry \<open>m\<close>: the first four entries are the directory itself and the terminals.\<close>

definition place :: "super_block \<Rightarrow> nat \<Rightarrow> nat" where
  "place sb m = unat (n_1st_sector sb) + 2048 * (m - 3)"

definition space_for :: "super_block \<Rightarrow> nat \<Rightarrow> bool" where
  "space_for sb m \<longleftrightarrow> place sb m + 2048 < unat (nr_sectors sb) \<and> 2048 * (m - 3) + 2049 \<le> 4096 * unat (nr_smap_sectors sb)"

text \<open>Only the root directory is loaded; \<open>n\<close> is the number of its entries, which fit into one sector.\<close>

definition listing :: "fstate \<Rightarrow> super_block \<Rightarrow> nat \<Rightarrow> nat \<Rightarrow> (nat \<rightharpoonup> u8 list) \<Rightarrow> bool" where
  "listing s sb r n D \<longleftrightarrow> root_inode s = Some r \<and> dir_ok s sb (inode_table s r) n \<and> dstart (inode_table s r) = unat (n_1st_sector sb)
     \<and> i_num (inode_table s r) = 1 \<and> (\<forall>q. in_use s q \<longleftrightarrow> q = r) \<and> n < 32 \<and> {..<4} \<subseteq> dom D \<and> dom D \<subseteq> {..<n}
     \<and> (\<forall>m < 32. dent_nr s (unat (n_1st_sector sb)) m = (if D m = None then 0 else of_nat (m + 1))
          \<and> dent_name s (unat (n_1st_sector sb)) m = (case D m of None \<Rightarrow> [] | Some name \<Rightarrow> name))
     \<and> (\<forall>j < 4096. bit_at (sect s 2) j \<longleftrightarrow> j = 0 \<or> D (j - 1) \<noteq> None) \<and> sector_map sb s = slots {k. D (k + 3) \<noteq> None}
     \<and> (\<forall>m \<in> {1..<4}. fst (disk_fields s sb (int m + 1)) = I_CHAR_SPECIAL)
     \<and> (\<forall>m \<in> dom D - {..<4}. disk_fields s sb (int m + 1) = (I_REGULAR, 0, of_nat (place sb m), 2048))"

lemma listingD:
  assumes "listing s sb r n D"
  shows "root_inode s = Some r" "dir_ok s sb (inode_table s r) n" "dstart (inode_table s r) = unat (n_1st_sector sb)"
    "i_num (inode_table s r) = 1" "in_use s q \<longleftrightarrow> q = r" "n < 32" "m < 4 \<Longrightarrow> D m \<noteq> None" "D m = Some x \<Longrightarrow> m < n"
    "m < 32 \<Longrightarrow> dent_nr s (unat (n_1st_sector sb)) m = (if D m = None then 0 else of_nat (m + 1))"
    "m < 32 \<Longrightarrow> dent_name s (unat (n_1st_sector sb)) m = (case D m of None \<Rightarrow> [] | Some name \<Rightarrow> name)"
    "j < 4096 \<Longrightarrow> bit_at (sect s 2) j \<longleftrightarrow> j = 0 \<or> D (j - 1) \<noteq> None" "sector_map sb s = slots {k. D (k + 3) \<noteq> None}"
    "1 \<le> m \<Longrightarrow> m < 4 \<Longrightarrow> fst (disk_fields s sb (int m + 1)) = I_CHAR_SPECIAL"
    "4 \<le> m \<Longrightarrow> D m = Some x \<Longrightarrow> disk_fields s sb (int m + 1) = (I_REGULAR, 0, of_nat (place sb m), 2048)"
proof -
  note l = assms [unfolded listing_def]
  have "{..<4} \<subseteq> dom D" "dom D \<subseteq> {..<n}" using l by simp_all
  then show "m < 4 \<Longrightarrow> D m \<noteq> None" "D m = Some x \<Longrightarrow> m < n" by (blast, blast)
  show "4 \<le> m \<Longrightarrow> D m = Some x \<Longrightarrow> disk_fields s sb (int m + 1) = (I_REGULAR, 0, of_nat (place sb m), 2048)"
    using l by (simp add: domIff)
qed (use assms in \<open>simp_all add: listing_def\<close>)

lemma listing_free:
  assumes "listing s sb r n D"
  shows "\<exists>q < NR_INODE. \<not> in_use s q" "num \<noteq> 1 \<Longrightarrow> \<not> holds s ROOT_DEV num q"
proof -
  have u: "in_use s q \<longleftrightarrow> q = r" "i_num (inode_table s r) = 1" for q using assms by (simp_all add: listing_def)
  then show "num \<noteq> 1 \<Longrightarrow> \<not> holds s ROOT_DEV num q" by (auto simp: holds_def)
  have "\<not> in_use s (if r = 0 then 1 else 0)" using u(1) by simp
  then show "\<exists>q < NR_INODE. \<not> in_use s q" by (intro exI [of _ "if r = 0 then 1 else 0"]) (simp add: NR_INODE_def)
qed

text \<open>After \<open>init_fs\<close> there are the four names that \<open>mkfs\<close> writes.\<close>

definition boot_names :: "nat \<rightharpoonup> u8 list" where
  "boot_names m = (if m < 4 then Some (boot_name m) else None)"

lemma entry_number: "m < 32 \<Longrightarrow> (of_nat (m + 1) :: u32) \<noteq> 0" "m < 32 \<Longrightarrow> m' < 32 \<Longrightarrow> (of_nat (m + 1) :: u32) = of_nat (m' + 1) \<longleftrightarrow> m = m'"
proof -
  have u: "unat (of_nat (m + 1) :: u32) = m + 1" if "m < 32" for m :: nat using that by (intro unat_of_nat_small) simp
  show "(of_nat (m + 1) :: u32) \<noteq> 0" if "m < 32" using u [OF that] by (metis add_is_0 unat_0 zero_neq_one)
  show "(of_nat (m + 1) :: u32) = of_nat (m' + 1) \<longleftrightarrow> m = m'" if "m < 32" "m' < 32" using u [OF that(1)] u [OF that(2)] by (metis add_right_cancel)
qed

lemma fresh_listing: "fresh_fs s sb r \<Longrightarrow> listing s sb r 4 boot_names"
proof -
  assume "fresh_fs s sb r"
  note f = this [unfolded fresh_fs_def]
  let ?a = "unat (n_1st_sector sb)"
  have d: "dstart (inode_table s r) = ?a" using f by simp
  have "dent_nr s ?a m = (if boot_names m = None then 0 else of_nat (m + 1)) \<and> dent_name s ?a m = (case boot_names m of None \<Rightarrow> [] | Some name \<Rightarrow> name)"
    if "m < 32" for m using f that unfolding d by (cases "m < 4") (simp_all add: boot_names_def add.commute)
  moreover have "bit_at (sect s 2) j \<longleftrightarrow> j = 0 \<or> boot_names (j - 1) \<noteq> None" if "j < 4096" for j using f that by (auto simp: boot_names_def)
  moreover have "{k. boot_names (k + 3) \<noteq> None} = {0}" by (auto simp: boot_names_def)
  moreover have "dom boot_names = {..<4}" by (auto simp: boot_names_def dom_def)
  moreover have "fst (disk_fields s sb (int m + 1)) = I_CHAR_SPECIAL" if "m \<in> {1..<4}" for m using f that by simp
  ultimately show ?thesis unfolding listing_def using f d by simp
qed

section \<open>Creating a file\<close>

text \<open>The first free entry, which may be the one behind the last.\<close>

definition next_free :: "(nat \<rightharpoonup> u8 list) \<Rightarrow> nat \<Rightarrow> nat \<Rightarrow> bool" where
  "next_free D n e \<longleftrightarrow> D e = None \<and> (\<forall>m < e. D m \<noteq> None) \<and> e \<le> n \<and> e < 31"

lemma listing_room:
  assumes L: "listing s sb r n D" and e: "next_free D n e" and sp: "space_for sb e"
  shows "room_for s sb r n e (e + 1) {k. D (k + 3) \<noteq> None} (e - 3)" "4 \<le> e"
proof -
  let ?a = "unat (n_1st_sector sb)"
  note l = listingD [OF L]
  show e4: "4 \<le> e" using l(7) [of e] e by (auto simp: next_free_def not_less [symmetric])
  have ent: "dent_nr s ?a m \<noteq> 0 \<longleftrightarrow> D m \<noteq> None" if "m < 32" for m using l(9) [OF that] entry_number(1) [OF that] by simp
  have "dent_nr s ?a e = 0" using l(9) [of e] e by (simp add: next_free_def)
  with e ent have slot: "new_slot s ?a n e" by (auto simp: new_slot_def next_free_def)
  have "bit_at (sect s 2) j" if "j < e + 1" for j
    using l(11) [of j] that e by (cases j) (auto simp: next_free_def)
  moreover have "\<not> bit_at (sect s 2) (e + 1)" using l(11) [of "e + 1"] e by (auto simp: next_free_def)
  ultimately have fi: "free_inode s (e + 1)" using e by (simp add: free_inode_def next_free_def)
  have "bit_at (sect s 2) 1" using l(11) [of 1] l(7) [of 0] by simp
  then have mp: "mapped s" using l(2,4,5) by (simp add: mapped_def dir_ok_def)
  have "(n + 1) div 32 \<le> 1" using l(6) div_le_mono [of "n + 1" 32 32] by simp
  then have "?a + (n + 1) div 32 < unat (nr_sectors sb)" using sp e4 by (simp add: space_for_def place_def)
  moreover have "{..<e - 3} \<subseteq> {k. D (k + 3) \<noteq> None}" "e - 3 \<notin> {k. D (k + 3) \<noteq> None}" using e e4 by (auto simp: next_free_def)
  moreover have "e = n \<longrightarrow> n mod 32 \<noteq> 0" using l(6) e4 by auto
  ultimately show "room_for s sb r n e (e + 1) {k. D (k + 3) \<noteq> None} (e - 3)"
    unfolding room_for_def using l(1-3,5,6,12) slot fi mp listing_free(1) [OF L] sp by (simp add: space_for_def)
qed

text \<open>The effects of a creation on the disk give the new list of names.\<close>

lemma listing_entered:
  assumes L: "listing s sb r n D" and e: "next_free D n e" "4 \<le> e" and en: "entered sb (unat (n_1st_sector sb)) e name (e + 1) {k. D (k + 3) \<noteq> None} (e - 3) s t"
    and f: "same_files sb r q (e + 1) s t" "q \<noteq> r" "\<not> in_use t q" and d: "root_inode t = Some r" "dir_ok t sb (inode_table t r) (max n (e + 1))"
      "dstart (inode_table t r) = unat (n_1st_sector sb)" and disk: "disk_fields t sb (int e + 1) = (I_REGULAR, 0, of_nat (place sb e), 2048)"
  shows "listing t sb r (max n (e + 1)) (D(e \<mapsto> name))"
proof -
  let ?D = "D(e \<mapsto> name)" let ?a = "unat (n_1st_sector sb)"
  note l = listingD [OF L]
  have num: "i_num (inode_table t r) = 1" using f(1) l(4) by (simp add: same_files_def)
  have "in_use t p \<longleftrightarrow> p = r" for p using f l(5) by (cases "p = q") (auto simp: same_files_def)
  moreover have "dent_nr t ?a m = (if ?D m = None then 0 else of_nat (m + 1)) \<and> dent_name t ?a m = (case ?D m of None \<Rightarrow> [] | Some name \<Rightarrow> name)"
    if "m < 32" for m using l(9,10) [OF that] en by (simp add: entered_def)
  moreover have "bit_at (sect t 2) j \<longleftrightarrow> j = 0 \<or> ?D (j - 1) \<noteq> None" if "j < 4096" for j using l(11) [OF that] en that by (cases j) (auto simp: entered_def)
  moreover have "insert (e - 3) {k. D (k + 3) \<noteq> None} = {k. ?D (k + 3) \<noteq> None}" using e(2) by auto
  then have "sector_map sb t = slots {k. ?D (k + 3) \<noteq> None}" using en by (simp add: entered_def)
  moreover have o: "disk_fields t sb (int m + 1) = disk_fields s sb (int m + 1)" if "1 \<le> m" "m < 32" "m \<noteq> e" for m
    using f(1) l(4) that by (auto simp: same_files_def)
  then have "fst (disk_fields t sb (int m + 1)) = I_CHAR_SPECIAL" if "m \<in> {1..<4}" for m using l(13) [of m] o [of m] that e(2) by simp
  moreover have "disk_fields t sb (int m + 1) = (I_REGULAR, 0, of_nat (place sb m), 2048)" if "m \<in> dom ?D - {..<4}" for m
  proof (cases "m = e")
    case False
    from that False obtain x where x: "D m = Some x" "4 \<le> m" by auto
    then have "m < 32" using l(6) l(8) [OF x(1)] by simp
    with o [of m] x l(14) [OF x(2,1)] False show ?thesis by simp
  qed (use disk in simp)
  moreover have "{..<4} \<subseteq> dom ?D" "dom ?D \<subseteq> {..<max n (e + 1)}" using l(7,8) by (auto simp: less_max_iff_disj)
  moreover have "max n (e + 1) < 32" using l(6) e(1) by (simp add: next_free_def)
  ultimately show ?thesis unfolding listing_def using d num by blast
qed

text \<open>A path of a client and the name that it stands for.\<close>

definition names :: "fstate \<Rightarrow> nat \<Rightarrow> u32 \<Rightarrow> u8 list \<Rightarrow> u8 list \<Rightarrow> bool" where
  "names s p ptr path name \<longleftrightarrow> path_at s p ptr path \<and> path \<noteq> [0x2F] \<and> strip_path path = Some name \<and> name \<noteq> [] \<and> length name < 12 \<and> 0 \<notin> set name"

lemma names_view: "names s p ptr path name \<Longrightarrow> same_view s t \<Longrightarrow> names t p ptr path name"
  by (auto simp: names_def intro: path_at_view)

lemma api_create:
  assumes L: "listing s sb r n D" and e: "next_free D n e" and sp: "space_for sb e" and nm: "names s p ptr path name" "name \<notin> ran D"
    and fd: "free_fd s p fd d" "flags AND O_CREAT \<noteq> 0"
  shows "\<exists>s1 s2. api_open m1 p ptr flags s = Inr (int fd, s1) \<and> api_close m2 p (int fd) s1 = Inr s2 \<and> same_view s s1 \<and> same_view s s2
    \<and> listing s2 sb r (max n (e + 1)) (D(e \<mapsto> name)) \<and> free_fd s2 p fd d"
proof -
  let ?a = "unat (n_1st_sector sb)" let ?K = "{k. D (k + 3) \<noteq> None}" let ?N = "max n (e + 1)"
  note l = listingD [OF L] and nm' = nm(1) [unfolded names_def] and room = listing_room [OF L e sp]
  have p: "p < nr_proc_table" using fd(1) by (simp add: free_fd_def)
  have a: "?a = dstart (inode_table s r)" using l(3) by simp
  have "(n + 1) div 32 \<le> 1" using l(6) div_le_mono [of "n + 1" 32 32] by simp
  then have S: "place sb e = ?a + 2048 * (e - 3)" "place sb e + 2048 < unat (nr_sectors sb)" "?a + (n + 1) div 32 < place sb e"
    using sp room(2) by (simp_all add: place_def space_for_def)
  have "dent_name s ?a m \<noteq> name" if "m \<le> n" for m
    using l(6) l(10) [of m] that nm(2) nm' by (cases "D m") (auto simp: ran_def)
  then have "absent s ?a n name" by (simp add: absent_def)
  with nm' obtain s1 q where s1: "api_open m1 p ptr flags s = Inr (int fd, s1)" "q \<noteq> r" "stored s1 sb r ?N name (e + 1) (place sb e) 0"
    "file_open s1 p fd d flags 0 q (file_inode (e + 1) (place sb e) 0)" "same_view s s1" "same_fds p fd d s s1"
    "entered sb ?a e name (e + 1) ?K (e - 3) s s1" "dstart (inode_table s1 r) = ?a" "same_files sb r q (e + 1) s s1"
    using api_open_new [OF _ room(1) a S _ _ _ _ fd, where path = path and ptr = ptr and name = name and msg = m1] by blast
  from api_close_ok [OF s1(4) p s1(2,3), of m2] obtain s2 where s2: "api_close m2 p (int fd) s1 = Inr s2" "stored s2 sb r ?N name (e + 1) (place sb e) 0"
    "same_view s1 s2" "same_fds p fd d s1 s2" "sect s2 = sect s1" "filp (procs (hk (hs s2)) p) fd = None" "fd_inode (f_desc_table s2 d) = None"
    "\<not> in_use s2 q" "\<forall>q'. q' \<noteq> q \<longrightarrow> inode_table s2 q' = inode_table s1 q'" by blast
  have tab: "inode_table s2 r = inode_table s1 r" using s2(9) s1(2) by simp
  have "entered sb ?a e name (e + 1) ?K (e - 3) s s2" using s1(7) entered_cong [of s s s2 s1] s2(5) by simp
  moreover have "same_files sb r q (e + 1) s s2" using s1(9) s2(5,9) tab by (simp add: same_files_def in_use_def disk_fields_def)
  moreover have "disk_fields s2 sb (int e + 1) = (I_REGULAR, 0, of_nat (place sb e), 2048)" using s2(2) by (simp add: stored_def add.commute)
  moreover have "root_inode s2 = Some r" "dir_ok s2 sb (inode_table s2 r) ?N" using s2(2) by (simp_all add: stored_def)
  ultimately have "listing s2 sb r ?N (D(e \<mapsto> name))" using listing_entered [OF L e room(2) _ _ s1(2) s2(8)] s1(8) tab by simp
  moreover have "free_fd s2 p fd d" using same_fds_free [OF fd(1) same_fds_trans [OF s1(6) s2(4)] s2(6,7)] .
  ultimately show ?thesis using s1(1,5) s2(1) same_view_trans [OF s1(5) s2(3)] by blast
qed

section \<open>Removing a file\<close>

lemma live_count:
  assumes "\<And>m. m < e \<Longrightarrow> f m \<noteq> 0 \<longleftrightarrow> m < c" "c \<le> e"
  shows "live f 0 e = c"
proof -
  have "filter (\<lambda>k. f k \<noteq> 0) [0..<c] = [0..<c]" "filter (\<lambda>k. f k \<noteq> 0) [c..<e] = []"
    using assms by (auto simp: filter_empty_conv intro!: filter_True)
  then show ?thesis using live_split [of 0 c e f] assms(2) by (simp add: live_def)
qed

text \<open>
  When the last entry goes, the directory is cut down to the number \<open>c\<close> of the names that are left: they must be its first entries
  (a name behind a gap would be lost, as \<open>unlink_last_loses_entry\<close> shows).
\<close>

lemma listing_removed:
  assumes L: "listing s sb r n D" and e: "D e = Some name" "4 \<le> e" "e + 1 = n \<longrightarrow> dom D - {e} = {..<c}"
    and rm: "removed sb (unat (n_1st_sector sb)) e (e + 1) {k. D (k + 3) \<noteq> None} (e - 3) s t" and dl: "dir_left sb r n e (unat (n_1st_sector sb)) (e + 1) s t"
  shows "listing t sb r (if e + 1 = n then c else n) (D(e := None))"
proof -
  let ?D = "D(e := None)" let ?a = "unat (n_1st_sector sb)" let ?n = "if e + 1 = n then c else n"
  note l = listingD [OF L]
  have en: "e < n" "e < 32" using l(8) [OF e(1)] l(6) by simp_all
  have ent: "dent_nr s ?a m \<noteq> 0 \<longleftrightarrow> D m \<noteq> None" if "m < 32" for m using l(9) [OF that] entry_number(1) [OF that] by simp
  have c: "c \<le> e \<and> live (dent_nr s ?a) 0 e = c" if "e + 1 = n"
  proof
    have dc: "dom D - {e} = {..<c}" using e(3) that by simp
    then show ce: "c \<le> e" by (metis Diff_iff insertI1 lessThan_iff not_le)
    have "dent_nr s ?a m \<noteq> 0 \<longleftrightarrow> m < c" if "m < e" for m using ent [of m] that en(2) dc by auto
    then show "live (dent_nr s ?a) 0 e = c" using ce by (rule live_count)
  qed
  then have dir: "dir_ok t sb (inode_table t r) ?n" "root_inode t = Some r" "dstart (inode_table t r) = ?a"
    using dl by (auto simp: dir_left_def split: if_splits)
  from dl obtain q where q: "q \<noteq> r" "same_files sb r q (e + 1) s t" "\<not> in_use t q" by (auto simp: dir_left_def)
  have num: "i_num (inode_table t r) = 1" using q(2) l(4) by (simp add: same_files_def)
  have "in_use t p \<longleftrightarrow> p = r" for p using q l(5) by (cases "p = q") (auto simp: same_files_def)
  moreover have "dent_nr t ?a m = (if ?D m = None then 0 else of_nat (m + 1)) \<and> dent_name t ?a m = (case ?D m of None \<Rightarrow> [] | Some name \<Rightarrow> name)"
    if "m < 32" for m using l(9,10) [OF that] rm by (simp add: removed_def)
  moreover have "bit_at (sect t 2) j \<longleftrightarrow> j = 0 \<or> ?D (j - 1) \<noteq> None" if "j < 4096" for j using l(11) [OF that] rm that by (cases j) (auto simp: removed_def)
  moreover have "{k. D (k + 3) \<noteq> None} - {e - 3} = {k. ?D (k + 3) \<noteq> None}" using e(2) by auto
  then have "sector_map sb t = slots {k. ?D (k + 3) \<noteq> None}" using rm by (simp add: removed_def)
  moreover have o: "disk_fields t sb (int m + 1) = disk_fields s sb (int m + 1)" if "1 \<le> m" "m < 32" "m \<noteq> e" for m
    using q(2) l(4) that by (auto simp: same_files_def)
  then have "fst (disk_fields t sb (int m + 1)) = I_CHAR_SPECIAL" if "m \<in> {1..<4}" for m using l(13) [of m] o [of m] that e(2) by simp
  moreover have "disk_fields t sb (int m + 1) = (I_REGULAR, 0, of_nat (place sb m), 2048)" if "m \<in> dom ?D - {..<4}" for m
  proof -
    from that obtain x where x: "D m = Some x" "4 \<le> m" "m \<noteq> e" by (auto split: if_splits)
    then have "m < 32" using l(6) l(8) [OF x(1)] by simp
    with o [of m] x l(14) [OF x(2,1)] show ?thesis by simp
  qed
  moreover have "{..<4} \<subseteq> dom ?D" using l(7) e(2) by auto
  moreover have "dom ?D \<subseteq> {..<?n}" using l(8) e(3) by auto
  moreover have "?n < 32" using l(6) c en by auto
  ultimately show ?thesis unfolding listing_def using dir num by blast
qed

text \<open>A search finds a name that occurs once, and the entry has the number of its inode.\<close>

lemma listing_find:
  assumes L: "listing s sb r n D" and e: "D e = Some name" "\<And>m. D m = Some name \<Longrightarrow> m = e" "name \<noteq> []"
  shows "List.find (\<lambda>m. dent_name s (unat (n_1st_sector sb)) m = name) [0..<min (32 * ((n + 31) div 32)) (n + 1)] = Some e"
    "e < n" "n < 32" "dent_nr s (unat (n_1st_sector sb)) e = of_nat (e + 1)" "\<forall>m < e. dent_nr s (unat (n_1st_sector sb)) m \<noteq> of_nat (e + 1)"
proof -
  let ?a = "unat (n_1st_sector sb)"
  note l = listingD [OF L]
  have ent: "dent_nr s ?a m = (if D m = None then 0 else of_nat (m + 1))" "dent_name s ?a m = (case D m of None \<Rightarrow> [] | Some name \<Rightarrow> name)"
    if "m < 32" for m using l(9,10) [OF that] by simp_all
  have en: "e < n" and n: "n < 32" using l(6) l(8) [OF e(1)] by simp_all
  show "e < n" "n < 32" by (rule en) (rule n)
  have name: "dent_name s ?a m = name \<longleftrightarrow> m = e" if "m < 32" for m
  proof (cases "D m")
    case None
    with ent(2) [OF that] e(1,3) show ?thesis by auto
  next
    case (Some x)
    with ent(2) [OF that] e(1) e(2) [of m] show ?thesis by auto
  qed
  have "e < min (32 * ((n + 31) div 32)) (n + 1)" using en le_sectors [of n] by simp
  then show "List.find (\<lambda>m. dent_name s ?a m = name) [0..<min (32 * ((n + 31) div 32)) (n + 1)] = Some e"
    unfolding find_first using name en n by auto
  show "dent_nr s ?a e = of_nat (e + 1)" using ent(1) [of e] e(1) en n by simp
  show "\<forall>m < e. dent_nr s ?a m \<noteq> of_nat (e + 1)"
  proof (intro allI impI)
    fix m assume m: "m < e"
    then have "dent_nr s ?a m = 0 \<or> dent_nr s ?a m = of_nat (m + 1)" using ent(1) [of m] en n by simp
    then show "dent_nr s ?a m \<noteq> of_nat (e + 1)" using entry_number(1) [of e] entry_number(2) [of m e] m en n by (elim disjE) simp_all
  qed
qed

lemma listing_removable:
  assumes L: "listing s sb r n D" and e: "D e = Some name" "4 \<le> e" "\<And>m. D m = Some name \<Longrightarrow> m = e" and sp: "space_for sb e" and nm: "name \<noteq> []"
  shows "removable s sb r n e name (e + 1) {k. D (k + 3) \<noteq> None} (e - 3) (place sb e) 0"
proof -
  let ?a = "unat (n_1st_sector sb)"
  note l = listingD [OF L]
  note fd = listing_find [OF L e(1,3) nm]
  have "disk_fields s sb (int e + 1) = (I_REGULAR, 0, of_nat (place sb e), 2048)" using l(14) [OF e(2,1)] .
  moreover have "n div 32 \<le> 1" using l(6) div_le_mono [of n 32 32] by simp
  then have "?a + n div 32 < place sb e" using e(2) by (simp add: place_def)
  ultimately have "stored s sb r n name (e + 1) (place sb e) 0"
    using l(1-3,5) sp fd by (simp add: stored_def space_for_def add.commute)
  moreover have "\<not> holds s ROOT_DEV (int (e + 1)) q" for q using listing_free(2) [OF L, of "int (e + 1)"] e(2) by simp
  moreover have "bit_at (sect s 2) (e + 1)" using l(11) [of "e + 1"] fd(2,3) e(1) by simp
  ultimately show ?thesis
    unfolding removable_def using l(3,12) fd listing_free(1) [OF L] sp e(1,2) by (simp add: space_for_def place_def)
qed

lemma api_remove:
  assumes L: "listing s sb r n D" and e: "D e = Some name" "4 \<le> e" "\<And>m. D m = Some name \<Longrightarrow> m = e" "e + 1 = n \<longrightarrow> dom D - {e} = {..<c}"
    and sp: "space_for sb e" and nm: "names s p ptr path name" and p: "p < nr_proc_table"
  shows "\<exists>t. api_unlink m p ptr s = Inr (0, t) \<and> same_view s t \<and> listing t sb r (if e + 1 = n then c else n) (D(e := None))
    \<and> (\<forall>fd d. free_fd s p fd d \<longrightarrow> free_fd t p fd d)"
proof -
  note nm' = nm [unfolded names_def]
  have a: "unat (n_1st_sector sb) = dstart (inode_table s r)" using L by (simp add: listing_def)
  from api_unlink_ok [OF _ _ _ p listing_removable [OF L e(1-3) sp] a] nm' obtain t where t: "api_unlink m p ptr s = Inr (0, t)"
    "removed sb (unat (n_1st_sector sb)) e (e + 1) {k. D (k + 3) \<noteq> None} (e - 3) s t" "same_view s t" "dir_left sb r n e (unat (n_1st_sector sb)) (e + 1) s t" by blast
  have fds: "same_fds p fd d s t" for p fd d using t(4) by (simp add: dir_left_def)
  have "free_fd t p fd d" if f: "free_fd s p fd d" for fd d
  proof -
    have "fd_inode (f_desc_table t i) = fd_inode (f_desc_table s i)" "filp (procs (hk (hs t)) p) i = filp (procs (hk (hs s)) p) i" for i
      using fds [of p "Suc i" "Suc i"] by (auto simp: same_fds_def)
    with f show ?thesis by (simp add: free_fd_def)
  qed
  with t listing_removed [OF L e(1,2,4) t(2,4)] show ?thesis by blast
qed

text \<open>A terminal is not removed.\<close>

lemma api_unlink_tty:
  assumes L: "listing s sb r n D" and e: "D e = Some name" "1 \<le> e" "e < 4" "\<And>m. D m = Some name \<Longrightarrow> m = e" and nm: "names s p ptr path name"
    and p: "p < nr_proc_table"
  shows "\<exists>t. api_unlink m p ptr s = Inr (-1, t) \<and> same_view s t \<and> sect t = sect s"
proof -
  let ?m = "m\<lparr>m_source := int p, m_type := UNLINK, m_PATHNAME := ptr, m_NAME_LEN := int (length path)\<rparr>"
  let ?s = "asking ?m p s" let ?a = "unat (n_1st_sector sb)"
  note l = listingD [OF L] and nm' = nm [unfolded names_def]
  note fd = listing_find [OF L e(1,4), OF _ nm' [THEN conjunct2, THEN conjunct2, THEN conjunct2, THEN conjunct1]]
  have dok: "dir_ok ?s sb (inode_table ?s r) n" using l(2) by (simp add: dir_ok_def)
  from search_file_ok [OF _ dok, of path name] l(1,3) nm' fd(1,4) obtain t0 where t0: "search_file path ?s = Inr (of_nat (e + 1), t0)" "io_frame ?s t0" "sect t0 = sect ?s"
    by (auto simp: dent_nr_def dent_name_def)
  note io = io_frame_simps [OF t0(2)]
  have lay: "fs_layout t0 sb" using l(2) io(11) by (simp add: dir_ok_def)
  have "\<not> holds t0 ROOT_DEV (int e + 1) q" for q using listing_free(2) [OF L, of "int e + 1" q] e(2) io(1) by (simp add: holds_def in_use_def)
  moreover have "\<exists>q < NR_INODE. \<not> in_use t0 q" using listing_free(1) [OF L] io(1) by (simp add: in_use_def)
  ultimately obtain q bs where q: "length bs = 512" "get_inode ROOT_DEV (int e + 1) t0 =
    Inr (Some q, upd_inode q (\<lambda>p. read_inode (sect t0 (iblk sb (int e + 1))) (ioff (int e + 1)) (p\<lparr>i_dev := ROOT_DEV, i_num := int e + 1, i_cnt := 1\<rparr>)) (set_buf bs t0))"
    using get_inode_new [OF lay, of "int e + 1"] e(3) by auto
  let ?u = "upd_inode q (\<lambda>p. read_inode (sect t0 (iblk sb (int e + 1))) (ioff (int e + 1)) (p\<lparr>i_dev := ROOT_DEV, i_num := int e + 1, i_cnt := 1\<rparr>)) (set_buf bs t0)"
  have mode: "i_mode (inode_table ?u q) = I_CHAR_SPECIAL"
    using l(13) [OF e(2,3)] t0(3) by (simp add: read_inode_def disk_fields_def fields_at_def)
  have i: "sint (of_nat (e + 1) :: u32) = int e + 1" using sint_of_nat_small [of "e + 1"] e(3) by simp
  have r: "root_inode t0 = Some r" "i_dev (inode_table t0 r) = ROOT_DEV" using l(1,2) io(1,4) by (simp_all add: dir_ok_def)
  have "get_path ''link.c'' 21 ?s = Inr path" by (rule get_path_ok [of _ p ptr]) (use nm' p in simp_all)
  moreover have "(of_nat (e + 1) :: u32) \<noteq> INVALID_INODE" using entry_number(1) [of e] fd(2,3) by (simp add: INVALID_INODE_def)
  moreover have "I_CHAR_SPECIAL \<noteq> I_REGULAR" by (simp add: I_CHAR_SPECIAL_def I_REGULAR_def)
  ultimately have "do_unlink ?s = Inr (-1, ?u)"
    unfolding do_unlink_def using nm' t0(1) r q(2) mode i by (simp add: dir_inode_def del: of_nat_add of_nat_Suc)
  with api_unlink_eq nm' obtain m' where "api_unlink m p ptr s = Inr (-1, asking m' (pcaller ?u) ?u)" by blast
  moreover have "same_view s ?u" using same_view_trans [OF same_view_io [OF t0(2)] same_view_io [OF io_frame_set_buf [of bs t0]]] q(1) by simp
  moreover have "sect ?u = sect s" using t0(3) q(1) by (simp add: fun_eq_iff)
  ultimately show ?thesis by (intro exI [of _ "asking m' (pcaller ?u) ?u"]) simp
qed

section \<open>The contract of create and unlink\<close>

text \<open>
  C8: creating and removing implement the update of a map. On a file system that lists the names of \<open>D\<close>, opening a new path with \<open>O_CREAT\<close>
  and closing it enters the name at the first free place, and unlinking a path deletes its name, whichever it is; the answers
  of the API are the descriptor and 0, and everything that the map determines (directory, inode map, sector map, inodes on the
  disk, table of inodes) is again as the new map says. The place that a removal frees at the end of the directory needs the other names to be in front of it.
\<close>

theorem names_refine:
  assumes L: "listing s sb r n D" and p: "names s p ptr path name" and fd: "free_fd s p fd d" and sp: "space_for sb e"
  shows "(next_free D n e \<and> name \<notin> ran D \<and> flags AND O_CREAT \<noteq> 0 \<longrightarrow> (\<exists>s1 s2. api_open m1 p ptr flags s = Inr (int fd, s1)
      \<and> api_close m2 p (int fd) s1 = Inr s2 \<and> listing s2 sb r (max n (e + 1)) (D(e \<mapsto> name)) \<and> free_fd s2 p fd d))
    \<and> (4 \<le> e \<and> (\<forall>m. D m = Some name \<longleftrightarrow> m = e) \<and> (e + 1 = n \<longrightarrow> dom D - {e} = {..<c}) \<longrightarrow> (\<exists>t. api_unlink m3 p ptr s = Inr (0, t)
      \<and> listing t sb r (if e + 1 = n then c else n) (D(e := None)) \<and> free_fd t p fd d))"
proof (intro conjI impI)
  assume "next_free D n e \<and> name \<notin> ran D \<and> flags AND O_CREAT \<noteq> 0"
  then show "\<exists>s1 s2. api_open m1 p ptr flags s = Inr (int fd, s1) \<and> api_close m2 p (int fd) s1 = Inr s2
      \<and> listing s2 sb r (max n (e + 1)) (D(e \<mapsto> name)) \<and> free_fd s2 p fd d"
    using api_create [OF L _ sp p _ fd, of flags m1 m2] by blast
next
  assume e: "4 \<le> e \<and> (\<forall>m. D m = Some name \<longleftrightarrow> m = e) \<and> (e + 1 = n \<longrightarrow> dom D - {e} = {..<c})"
  have "p < nr_proc_table" using fd by (simp add: free_fd_def)
  from api_remove [OF L _ _ _ _ sp p this, of c m3] e fd show "\<exists>t. api_unlink m3 p ptr s = Inr (0, t)
      \<and> listing t sb r (if e + 1 = n then c else n) (D(e := None)) \<and> free_fd t p fd d" by blast
qed

end
