(* ===== verification/TestA_Run.thy ===== *)
theory TestA_Run
  imports Test_Programs Fs_Listing
begin

text \<open>
  What \<open>TestA\<close> does on a new file system: it creates three files one after the other, removes them again and fails to remove a
  terminal. The lists of names of Fs\_Listing carry the state from one call to the next.
\<close>

section \<open>One pass of a loop\<close>

definition created_line :: "u8 list \<Rightarrow> u8 list \<Rightarrow> u8 list" where
  "created_line path digits = ascii ''File created '' @ path @ ascii '' (fd '' @ digits @ ascii '')'' @ [0x0A]"

lemma format_created:
  assumes "fd < NR_FILES"
  shows "\<exists>cs. dec_parse cs = int fd \<and> (\<forall>path. format_line ''File created %s (fd %d)'' [Str path, Word (word_of_int (int fd))] = Inr (created_line path cs))"
proof -
  have "sint (word_of_int (int fd) :: u32) = int fd" using assms sint_of_nat_small [of fd] by (simp add: NR_FILES_def)
  moreover obtain cs where cs: "integer2char (int fd) 10 = Some cs" "dec_parse cs = int fd"
    using integer2char_roundtrip [of "int fd"] assms by (auto simp: NR_FILES_def)
  moreover have f: "format_line ''File created %s (fd %d)'' args =
      vsprintf (ascii ''File created '' @ 0x25 # 0x73 # ascii '' (fd '' @ 0x25 # 0x64 # (ascii '')'' @ [0x0A]) @ [0]) args" for args
    by (simp add: format_line_def ascii_def)
  have p: "plain (ascii ''File created '')" "plain (ascii '' (fd '')" "plain (ascii '')'' @ [0x0A])" by (simp_all add: plain_def ascii_def)
  ultimately show ?thesis unfolding f
    by (intro exI [of _ cs]) (simp add: created_line_def vsprintf_plain [OF p(1)] vsprintf_plain [OF p(2)] vsprintf_plain [OF p(3)] vsprintf_s vsprintf_d
      del: append_Cons append_assoc)
qed

lemma format_unlink:
  "format_line ''File removed: %s'' [Str path] = Inr (ascii ''File removed: '' @ path @ [0x0A])"
  "format_line ''Failed to remove file %s'' [Str path] = Inr (ascii ''Failed to remove file '' @ path @ [0x0A])"
proof -
  have f: "format_line ''File removed: %s'' args = vsprintf (ascii ''File removed: '' @ 0x25 # 0x73 # [0x0A] @ [0]) args"
    "format_line ''Failed to remove file %s'' args = vsprintf (ascii ''Failed to remove file '' @ 0x25 # 0x73 # [0x0A] @ [0]) args" for args
    by (simp_all add: format_line_def ascii_def)
  have p: "plain (ascii ''File removed: '')" "plain (ascii ''Failed to remove file '')" "plain [0x0A]" by (simp_all add: plain_def ascii_def)
  show "format_line ''File removed: %s'' [Str path] = Inr (ascii ''File removed: '' @ path @ [0x0A])"
    "format_line ''Failed to remove file %s'' [Str path] = Inr (ascii ''Failed to remove file '' @ path @ [0x0A])"
    unfolding f by (simp_all add: vsprintf_plain p vsprintf_s del: append_Cons)
qed

lemma create_files_step:
  assumes L: "listing s sb r n D" and e: "next_free D n e" "space_for sb e" and nm: "names s p f path name" "name \<notin> ran D" and fd: "free_fd s p fd d"
    and line: "format_line ''File created %s (fd %d)'' [Str path, Word (word_of_int (int fd))] = Inr (created_line path cs)"
  shows "\<exists>t. create_files junk p (f # fs) s = ebind (create_files (\<lambda>n. junk (n + 2)) p fs t) (\<lambda>(ls, s). Inr (created_line path cs # ls, s))
    \<and> listing t sb r (max n (e + 1)) (D(e \<mapsto> name)) \<and> same_view s t \<and> free_fd t p fd d"
proof -
  have fl: "(O_CREAT OR O_RDWR) AND O_CREAT \<noteq> 0" by (simp add: O_CREAT_def O_RDWR_def)
  from api_create [OF L e nm fd fl, of "junk 0" "junk 1"] obtain s1 s2 where s: "api_open (junk 0) p f (O_CREAT OR O_RDWR) s = Inr (int fd, s1)"
    "api_close (junk 1) p (int fd) s1 = Inr s2" "same_view s s1" "same_view s s2" "listing s2 sb r (max n (e + 1)) (D(e \<mapsto> name))" "free_fd s2 p fd d" by blast
  have "user_string s1 p f = Inr path" using user_string_ok path_at_view [OF _ s(3)] nm(1) by (simp add: names_def)
  then show ?thesis using s line by (intro exI [of _ s2]) simp
qed

lemma remove_files_step:
  assumes L: "listing s sb r n D" and e: "D e = Some name" "4 \<le> e" "\<And>m. D m = Some name \<Longrightarrow> m = e" "e + 1 = n \<longrightarrow> dom D - {e} = {..<c}"
    and sp: "space_for sb e" and nm: "names s p f path name" and p: "p < nr_proc_table"
  shows "\<exists>t. remove_files junk p (f # fs) s = ebind (remove_files (\<lambda>n. junk (n + 1)) p fs t) (\<lambda>(ls, s). Inr ((ascii ''File removed: '' @ path @ [0x0A]) # ls, s))
    \<and> listing t sb r (if e + 1 = n then c else n) (D(e := None)) \<and> same_view s t"
proof -
  from api_remove [OF assms, of "junk 0"] obtain t where t: "api_unlink (junk 0) p f s = Inr (0, t)" "same_view s t"
    "listing t sb r (if e + 1 = n then c else n) (D(e := None))" by blast
  have "user_string t p f = Inr path" using user_string_ok path_at_view [OF _ t(2)] nm by (simp add: names_def)
  then show ?thesis using t format_unlink(1) by (intro exI [of _ t]) simp
qed

lemma remove_tty_step:
  assumes L: "listing s sb r n D" and e: "D e = Some name" "1 \<le> e" "e < 4" "\<And>m. D m = Some name \<Longrightarrow> m = e" and nm: "names s p f path name"
    and p: "p < nr_proc_table"
  shows "\<exists>t. remove_files junk p [f] s = Inr ([ascii ''Failed to remove file '' @ path @ [0x0A]], t) \<and> sect t = sect s"
proof -
  from api_unlink_tty [OF assms, of "junk 0"] obtain t where t: "api_unlink (junk 0) p f s = Inr (-1, t)" "same_view s t" "sect t = sect s" by blast
  have "user_string t p f = Inr path" using user_string_ok path_at_view [OF _ t(2)] nm by (simp add: names_def)
  then show ?thesis using t format_unlink(2) by (intro exI [of _ t]) simp
qed

section \<open>The whole program\<close>

abbreviation foo :: "u8 list" where "foo \<equiv> ascii ''foo''"
abbreviation bar :: "u8 list" where "bar \<equiv> ascii ''bar''"
abbreviation baz :: "u8 list" where "baz \<equiv> ascii ''baz''"

lemma test_names:
  assumes "path_at s p f path" "path \<in> {ascii ''/foo'', ascii ''/bar'', ascii ''bar'', ascii ''/baz'', ascii ''/dev_tty0''}"
  shows "names s p f path (dropWhile (\<lambda>c. c = 0x2F) path)"
  using assms by (auto simp: names_def strip_path_def ascii_def MAX_FILENAME_LEN_def)

lemma boot_names_simps [simp]:
  "boot_names 4 = None" "boot_names 5 = None" "boot_names 6 = None" "m < 4 \<Longrightarrow> boot_names m = Some (boot_name m)" "dom boot_names = {..<4}"
  by (auto simp: boot_names_def dom_def)

lemma boot_names_ran: "ran boot_names = {ascii ''.'', ascii ''dev_tty0'', ascii ''dev_tty1'', ascii ''dev_tty2''}"
proof -
  have "ran boot_names = boot_name ` {..<4}" by (auto simp: ran_def boot_names_def split: if_splits)
  also have "{..<4 :: nat} = {0, 1, 2, 3}" by auto
  finally show ?thesis by (auto simp: boot_name_def tty_name_def ascii_def)
qed

lemma new_names: "foo \<notin> ran boot_names" "bar \<notin> ran boot_names" "baz \<notin> ran boot_names" "foo \<noteq> bar" "foo \<noteq> baz" "bar \<noteq> baz"
  by (simp_all add: boot_names_ran ascii_def)

lemma less_5_7: "(m :: nat) < 5 \<longleftrightarrow> m < 4 \<or> m = 4" "(m :: nat) < 6 \<longleftrightarrow> m < 4 \<or> m = 4 \<or> m = 5"
  by auto

lemma free_entries:
  "next_free boot_names 4 4" "next_free (boot_names(4 \<mapsto> a)) 5 5" "next_free (boot_names(4 \<mapsto> a, 5 \<mapsto> b)) 6 6"
  by (auto simp: next_free_def less_5_7)

lemma TestA_creates:
  assumes L: "listing s sb r 4 boot_names" and sp: "space_for sb 4" "space_for sb 5" "space_for sb 6"
    and mem: "names s p f1 p1 foo" "names s p f2 p2 bar" "names s p f3 p3 baz" and fd: "free_fd s p fd d"
  shows "\<exists>t cs. create_files junk p [f1, f2, f3] s = Inr ([created_line p1 cs, created_line p2 cs, created_line p3 cs], t) \<and> dec_parse cs = int fd
    \<and> listing t sb r 7 (boot_names(4 \<mapsto> foo, 5 \<mapsto> bar, 6 \<mapsto> baz)) \<and> same_view s t"
proof -
  have "fd < NR_FILES" using fd by (simp add: free_fd_def)
  from format_created [OF this] obtain cs where cs: "dec_parse cs = int fd"
    "\<And>path. format_line ''File created %s (fd %d)'' [Str path, Word (word_of_int (int fd))] = Inr (created_line path cs)" by blast
  from create_files_step [OF L free_entries(1) sp(1) mem(1) new_names(1) fd cs(2), of junk "[f2, f3]"] obtain s1 where
    s1: "create_files junk p [f1, f2, f3] s = ebind (create_files (\<lambda>n. junk (n + 2)) p [f2, f3] s1) (\<lambda>(ls, s). Inr (created_line p1 cs # ls, s))"
    "listing s1 sb r 5 (boot_names(4 \<mapsto> foo))" "same_view s s1" "free_fd s1 p fd d" by auto
  have "bar \<notin> ran (boot_names(4 \<mapsto> foo))" using new_names by simp
  from create_files_step [OF s1(2) free_entries(2) sp(2) names_view [OF mem(2) s1(3)] this s1(4) cs(2), of "\<lambda>n. junk (n + 2)" "[f3]"] obtain s2 where
    s2: "create_files (\<lambda>n. junk (n + 2)) p [f2, f3] s1 = ebind (create_files (\<lambda>n. junk (n + 2 + 2)) p [f3] s2) (\<lambda>(ls, s). Inr (created_line p2 cs # ls, s))"
    "listing s2 sb r 6 (boot_names(4 \<mapsto> foo, 5 \<mapsto> bar))" "same_view s1 s2" "free_fd s2 p fd d" by auto
  have v2: "same_view s s2" using same_view_trans [OF s1(3) s2(3)] .
  have "baz \<notin> ran (boot_names(4 \<mapsto> foo, 5 \<mapsto> bar))" using new_names by simp
  from create_files_step [OF s2(2) free_entries(3) sp(3) names_view [OF mem(3) v2] this s2(4) cs(2), of "\<lambda>n. junk (n + 2 + 2)" "[]"] obtain s3 where
    s3: "create_files (\<lambda>n. junk (n + 2 + 2)) p [f3] s2 = Inr ([created_line p3 cs], s3)"
    "listing s3 sb r 7 (boot_names(4 \<mapsto> foo, 5 \<mapsto> bar, 6 \<mapsto> baz))" "same_view s2 s3" by auto
  from s1(1) s2(1) s3(1) have "create_files junk p [f1, f2, f3] s = Inr ([created_line p1 cs, created_line p2 cs, created_line p3 cs], s3)" by simp
  with cs(1) s3(2) same_view_trans [OF v2 s3(3)] show ?thesis by blast
qed

lemma TestA_removes:
  assumes L: "listing s sb r 7 (boot_names(4 \<mapsto> foo, 5 \<mapsto> bar, 6 \<mapsto> baz))" and sp: "space_for sb 4" "space_for sb 5" "space_for sb 6"
    and mem: "names s p g1 p1 foo" "names s p g2 p2 bar" "names s p g3 p3 baz" "names s p g4 p4 (ascii ''dev_tty0'')" and p: "p < nr_proc_table"
  shows "\<exists>t u. remove_files junk p [g1, g2, g3, g4] s = Inr ([ascii ''File removed: '' @ p1 @ [0x0A], ascii ''File removed: '' @ p2 @ [0x0A],
      ascii ''File removed: '' @ p3 @ [0x0A], ascii ''Failed to remove file '' @ p4 @ [0x0A]], t) \<and> listing u sb r 4 boot_names \<and> sect t = sect u"
proof -
  let ?ok = "\<lambda>path. ascii ''File removed: '' @ path @ [0x0A]"
  have boot: "boot_names m \<noteq> Some x" if "x \<in> {foo, bar, baz}" for m x using that new_names by (auto simp: ran_def)
  let ?D = "boot_names(4 \<mapsto> foo, 5 \<mapsto> bar, 6 \<mapsto> baz)"
  have "?D m = Some foo \<Longrightarrow> m = 4" for m using boot new_names(4-6) by (auto split: if_splits)
  from remove_files_step [OF L _ _ this _ sp(1) mem(1) p, where junk = junk and fs = "[g2, g3, g4]"] obtain s1 where
    s1: "remove_files junk p [g1, g2, g3, g4] s = ebind (remove_files (\<lambda>n. junk (n + 1)) p [g2, g3, g4] s1) (\<lambda>(ls, s). Inr (?ok p1 # ls, s))"
    "listing s1 sb r 7 (boot_names(5 \<mapsto> bar, 6 \<mapsto> baz))" "same_view s s1" by (auto simp: fun_upd_twist fun_upd_idem)
  have "(boot_names(5 \<mapsto> bar, 6 \<mapsto> baz)) m = Some bar \<Longrightarrow> m = 5" for m using boot new_names(4-6) by (auto split: if_splits)
  from remove_files_step [OF s1(2) _ _ this _ sp(2) names_view [OF mem(2) s1(3)] p, where junk = "\<lambda>n. junk (n + 1)" and fs = "[g3, g4]"] obtain s2 where
    s2: "remove_files (\<lambda>n. junk (n + 1)) p [g2, g3, g4] s1 = ebind (remove_files (\<lambda>n. junk (n + 1 + 1)) p [g3, g4] s2) (\<lambda>(ls, s). Inr (?ok p2 # ls, s))"
    "listing s2 sb r 7 (boot_names(6 \<mapsto> baz))" "same_view s1 s2" by (auto simp: fun_upd_twist fun_upd_idem)
  have v2: "same_view s s2" using same_view_trans [OF s1(3) s2(3)] .
  have "(boot_names(6 \<mapsto> baz)) m = Some baz \<Longrightarrow> m = 6" for m using boot by (auto split: if_splits)
  from remove_files_step [OF s2(2) _ _ this _ sp(3) names_view [OF mem(3) v2] p, where c = 4 and junk = "\<lambda>n. junk (n + 1 + 1)" and fs = "[g4]"] obtain s3 where
    s3: "remove_files (\<lambda>n. junk (n + 1 + 1)) p [g3, g4] s2 = ebind (remove_files (\<lambda>n. junk (n + 1 + 1 + 1)) p [g4] s3) (\<lambda>(ls, s). Inr (?ok p3 # ls, s))"
    "listing s3 sb r 4 boot_names" "same_view s2 s3" by (auto simp: fun_upd_idem)
  have tty: "boot_names 1 = Some (ascii ''dev_tty0'')" by (simp add: boot_name_def tty_name_def ascii_def)
  have "boot_names m = Some (ascii ''dev_tty0'') \<Longrightarrow> m = 1" for m
    by (auto simp: boot_names_def boot_name_def tty_name_def ascii_def less_Suc_eq numeral_eq_Suc split: if_splits)
  from remove_tty_step [OF s3(2) tty _ _ this names_view [OF mem(4) same_view_trans [OF v2 s3(3)]] p, of "\<lambda>n. junk (n + 1 + 1 + 1)"] obtain s4 where
    s4: "remove_files (\<lambda>n. junk (n + 1 + 1 + 1)) p [g4] s3 = Inr ([ascii ''Failed to remove file '' @ p4 @ [0x0A]], s4)" "sect s4 = sect s3" by auto
  from s1(1) s2(1) s3(1) s4(1) have "remove_files junk p [g1, g2, g3, g4] s = Inr ([?ok p1, ?ok p2, ?ok p3, ascii ''Failed to remove file '' @ p4 @ [0x0A]], s4)"
    by (simp del: remove_files.simps)
  with s3(2) s4(2) show ?thesis by blast
qed


end
