(* ===== verification/Client_Examples.thy ===== *)
theory Client_Examples
  imports Fs_Examples TestA_Run
begin

text \<open>
  The theorems about client programs at a concrete machine: \<open>init_fs\<close> has run on the empty disk of \<open>power_on\<close>, and process 2 has put
  its strings into its memory.
\<close>

section \<open>The memory of the client\<close>

text \<open>One string in each 256 bytes from \<open>a\<close> on.\<close>

fun put_strings :: "u32 \<Rightarrow> string list \<Rightarrow> mem \<Rightarrow> mem" where
  "put_strings a [] m = m"
| "put_strings a (x # xs) m = store_bytes a (ascii x @ [0]) (put_strings (a + 0x100) xs m)"

lemma store_bytes_nth: "i < length bs \<Longrightarrow> length bs < 2 ^ 32 \<Longrightarrow> store_bytes a bs m (a + of_nat i) = bs ! i"
  by (simp add: store_bytes_apply unat_of_nat take_bit_nat_eq_self)

lemma put_strings_nth:
  assumes "i < length xs" "length xs \<le> 1000" "\<And>x. x \<in> set xs \<Longrightarrow> length x < 64" "k \<le> length (xs ! i)"
  shows "put_strings a xs m (a + of_nat (256 * i + k)) = (ascii (xs ! i) @ [0]) ! k"
  using assms
proof (induction xs arbitrary: a i)
  case (Cons x xs)
  have len: "length x < 64" using Cons.prems(3) [of x] by simp
  show ?case
  proof (cases i)
    case 0
    with store_bytes_nth [of k "ascii x @ [0]" a] Cons.prems(4) len show ?thesis by (simp add: ascii_def)
  next
    case (Suc j)
    have "length (xs ! j) < 64" using Cons.prems(1,3) Suc by simp
    then have "256 * i + k < 2 ^ 20" using Cons.prems(1,2,4) Suc by simp
    then have "unat (a + of_nat (256 * i + k) - a) = 256 * i + k" unfolding add_diff_cancel_left' by (intro unat_of_nat_small) simp
    then have "length (ascii x @ [0]) \<le> unat (a + of_nat (256 * i + k) - a)" using len Suc by (simp add: ascii_def)
    then have "put_strings a (x # xs) m (a + of_nat (256 * i + k)) = put_strings (a + 0x100) xs m (a + of_nat (256 * i + k))"
      unfolding put_strings.simps using len by (intro store_bytes_outside) (simp_all add: ascii_def)
    also have "a + of_nat (256 * i + k) = (a + 0x100) + of_nat (256 * j + k)" by (simp add: Suc)
    also have "put_strings (a + 0x100) xs m \<dots> = (ascii (xs ! j) @ [0]) ! k" using Cons.prems Suc by (intro Cons.IH) auto
    finally show ?thesis by (simp add: Suc add.assoc)
  qed
qed simp

definition strings :: "string list" where
  "strings = [''blah'', ''abcdefsdfsdf'', ''/foo'', ''/bar'', ''/baz'', ''bar'', ''/dev_tty0'']"

definition client :: "fstate \<Rightarrow> fstate" where
  "client s = upd_mem (put_strings 0x10000 strings) s"

lemma first_client:
  obtains s r where "init_fs 0x70000 power_on = Inr s" "fresh_fs s disk_sb r" "\<forall>a. lin (hk (hs (client s))) 2 a = a" "fsb (client s) = 0x600000"
    "free_fd (client s) 2 0 0"
proof -
  obtain s r where s: "init_fs 0x70000 power_on = Inr s" "fresh_fs s disk_sb r" "procs (hk (hs s)) = procs (hk (drive (\<lambda>_. 0)))"
    using first_boot_procs by blast
  have pr: "procs (hk (hs (client s))) = procs (hk (drive (\<lambda>_. 0)))" using s(3) by (simp add: client_def)
  have lin: "lin (hk (hs (client s))) p a = a" if "p < nr_proc_table" for p a
    using drive_simps(5) [OF that, of "\<lambda>_. 0" a] by (simp add: lin_def pr)
  have "filp (procs booted 2) = (\<lambda>_. None)" by (simp add: booted_def kernel_main_state loaded_def init_process_def zero_process_def Let_def)
  then have "filp (procs (hk (hs (client s))) 2) = (\<lambda>_. None)" by (simp add: pr drive_def upd_proc_def)
  moreover have "f_desc_table (client s) = (\<lambda>_. empty_desc)" using s(2) by (simp add: client_def fresh_fs_def)
  ultimately have "free_fd (client s) 2 0 0" by (simp add: free_fd_def NR_FILES_def NR_FILE_DESC_def)
  moreover have "fsb (client s) = 0x600000" by (simp add: fsb_def lin FSBUF_def TASK_FS_def NR_TASKS_def NR_PROCS_def nr_proc_table_7)
  ultimately show thesis using s(1,2) lin [OF pids(2)] that by simp
qed

text \<open>The file system does not depend on the memory of the client.\<close>

lemma fresh_client: "fresh_fs (client s) sb r = fresh_fs s sb r"
proof -
  have c: "fs_layout (client s) = fs_layout s" "sect (client s) = sect s" "inode_table (client s) = inode_table s"
    "f_desc_table (client s) = f_desc_table s" "root_inode (client s) = root_inode s" by (simp_all add: client_def fun_eq_iff)
  show ?thesis by (simp add: c fresh_fs_def dir_ok_def dent_nr_def dent_name_def disk_fields_def sector_map_def used_def inodes_ok_def holds_def in_use_def
    refs_ok_def holders_def can_create_def mapped_def cong: option.case_cong)
qed

lemma client_strings:
  assumes "\<forall>a. lin (hk (hs (client s))) 2 a = a" "fsb (client s) = 0x600000" "i < 7"
  shows "path_at (client s) 2 (0x10000 + of_nat (256 * i)) (ascii (strings ! i))"
proof -
  have short: "x \<in> set strings \<Longrightarrow> length x < 64 \<and> x \<noteq> [] \<and> 0 \<notin> set (ascii x)" for x by (auto simp: strings_def ascii_def)
  have i: "i < length strings" "length strings \<le> 1000" using assms(3) by (simp_all add: strings_def)
  then have x: "length (strings ! i) < 64" "strings ! i \<noteq> []" "0 \<notin> set (ascii (strings ! i))" using short [OF nth_mem] by simp_all
  have "fmem (client s) (0x10000 + of_nat (256 * i) + of_nat k) = (ascii (strings ! i) @ [0]) ! k" if "k \<le> length (strings ! i)" for k
    using put_strings_nth [where i = i and xs = strings and k = k and a = "0x10000" and m = "fmem s"] i short that by (simp add: client_def add.assoc)
  moreover have "apart (client s) (0x10000 + of_nat (256 * i)) (length (strings ! i) + 4)"
  proof -
    have "i = 0 \<or> i = 1 \<or> i = 2 \<or> i = 3 \<or> i = 4 \<or> i = 5 \<or> i = 6" using assms(3) by linarith
    then show ?thesis using x(1) by (elim disjE) (simp_all add: apart_def assms(2))
  qed
  ultimately show ?thesis using x by (simp add: path_at_def bytes_at_def assms(1) less_Suc_eq_le ascii_def add.commute)
qed

lemma client_string:
  assumes "\<forall>a. lin (hk (hs (client s))) 2 a = a" "fsb (client s) = 0x600000"
  shows "path_at (client s) 2 0x10000 (ascii ''blah'')" "path_at (client s) 2 0x10100 (ascii ''abcdefsdfsdf'')" "path_at (client s) 2 0x10200 (ascii ''/foo'')"
    "path_at (client s) 2 0x10300 (ascii ''/bar'')" "path_at (client s) 2 0x10400 (ascii ''/baz'')" "path_at (client s) 2 0x10500 (ascii ''bar'')"
    "path_at (client s) 2 0x10600 (ascii ''/dev_tty0'')"
  using client_strings [OF assms, of 0] client_strings [OF assms, of 1] client_strings [OF assms, of 2] client_strings [OF assms, of 3]
    client_strings [OF assms, of 4] client_strings [OF assms, of 5] client_strings [OF assms, of 6] by (simp_all add: strings_def)

lemma client_buffer: "fsb (client s) = 0x600000 \<Longrightarrow> c \<le> 0x5EE000 \<Longrightarrow> apart (client s) 0x12000 c"
  by (simp add: apart_def)

lemma client_room:
  assumes "fresh_fs s disk_sb r"
  shows "room_for (client s) disk_sb r 4 4 5 {0} 1" "262 = dstart (inode_table (client s) r)" "absent (client s) 262 4 (ascii ''blah'')"
    "2310 = unat (n_1st_sector disk_sb) + 2048 * 1" "2310 + 2048 < unat (nr_sectors disk_sb)" "262 + (4 + 1) div 32 < (2310 :: nat)"
proof -
  have fr: "fresh_fs (client s) disk_sb r" using assms by (simp add: fresh_client)
  note f = fresh_facts [OF fr]
  show "room_for (client s) disk_sb r 4 4 5 {0} 1" by (rule fresh_room [OF fr])
  show "262 = dstart (inode_table (client s) r)" by (simp add: f(4))
  have "dent_name (client s) 262 4 = []" using fr f(4) by (simp add: fresh_fs_def)
  moreover have "boot_name m \<noteq> ascii ''blah''" if "m < 4" for m using that by (auto simp: boot_name_def tty_name_def ascii_def)
  ultimately have "dent_name (client s) 262 m \<noteq> ascii ''blah''" if "m \<le> 4" for m
    using that f(11) [of m] by (cases "m = 4") (auto simp: ascii_def)
  then show "absent (client s) 262 4 (ascii ''blah'')" by (simp add: absent_def)
qed (simp_all add: disk_sb_fields)

section \<open>The programs\<close>

lemma TestB_prints_witness:
  "\<exists>s s' cs. init_fs 0x70000 power_on = Inr s \<and> TestB (\<lambda>_. request DEV_OPEN 0) 2 0x10000 0x10100 0x12000 (client s) =
    Inr ([ascii ''B starting'', ascii ''File created. fd = '' @ cs @ [0x0A], ascii ''File opened. fd = '' @ cs @ [0x0A], ascii ''Read file: abc''], s')
    \<and> dec_parse cs = 0"
proof -
  obtain s r where s: "init_fs 0x70000 power_on = Inr s" "fresh_fs s disk_sb r" "\<forall>a. lin (hk (hs (client s))) 2 a = a" "fsb (client s) = 0x600000"
    "free_fd (client s) 2 0 0" using first_client by blast
  have ap: "apart (client s) (lin (hk (hs (client s))) 2 0x12000) 7" unfolding s(3) [rule_format] by (rule client_buffer [OF s(4)]) simp
  from TestB_prints [OF client_string(1,2) [OF s(3,4)] ap client_room [OF s(2)] s(5), of "\<lambda>_. request DEV_OPEN 0"] s(1)
  show ?thesis by auto
qed

lemma client_file_life_witness:
  "\<exists>s s1 s2 s3 s4 s5. init_fs 0x70000 power_on = Inr s \<and> api_open (request DEV_OPEN 0) 2 0x10000 (O_CREAT OR O_RDWR) (client s) = Inr (0, s1)
    \<and> api_file_write (request DEV_OPEN 0) 2 0 0x10100 12 s1 = Inr (12, s2) \<and> api_close (request DEV_OPEN 0) 2 0 s2 = Inr s3
    \<and> api_open (request DEV_OPEN 0) 2 0x10000 O_RDWR s3 = Inr (0, s4) \<and> api_file_read (request DEV_OPEN 0) 2 0 0x12000 5 s4 = Inr (5, s5)
    \<and> bytes_at s5 2 0x12000 (ascii ''abcde'')"
proof -
  obtain s r where s: "init_fs 0x70000 power_on = Inr s" "fresh_fs s disk_sb r" "\<forall>a. lin (hk (hs (client s))) 2 a = a" "fsb (client s) = 0x600000"
    "free_fd (client s) 2 0 0" using first_client by blast
  note c = client_string [OF s(3,4)] and room = client_room [OF s(2)]
  have ap: "apart (client s) (lin (hk (hs (client s))) 2 0x12000) (5 + 3)" unfolding s(3) [rule_format] by (rule client_buffer [OF s(4)]) simp
  have fl: "(O_CREAT OR O_RDWR) AND O_CREAT \<noteq> 0" "(O_CREAT OR O_RDWR) AND O_RDWR \<noteq> 0" "O_RDWR AND O_CREAT = 0" "O_RDWR AND O_RDWR \<noteq> 0"
    by (simp_all add: O_CREAT_def O_RDWR_def)
  have len: "12 = length (ascii ''abcdefsdfsdf'')" "take 5 (ascii ''abcdefsdfsdf'') = ascii ''abcde''" by (simp_all add: ascii_def)
  from client_file_life [OF c(1) room(1,2,4-6) strip_blah room(3) s(5) fl path_at_bytes_at [OF c(2)] len(1) _ _ _ ap, of "request DEV_OPEN 0" "request DEV_OPEN 0"
      "request DEV_OPEN 0" "request DEV_OPEN 0" "request DEV_OPEN 0"] len(2)
  have "\<exists>s1 s2 s3 s4 s5. api_open (request DEV_OPEN 0) 2 0x10000 (O_CREAT OR O_RDWR) (client s) = Inr (0, s1)
    \<and> api_file_write (request DEV_OPEN 0) 2 0 0x10100 12 s1 = Inr (12, s2) \<and> api_close (request DEV_OPEN 0) 2 0 s2 = Inr s3
    \<and> api_open (request DEV_OPEN 0) 2 0x10000 O_RDWR s3 = Inr (0, s4) \<and> api_file_read (request DEV_OPEN 0) 2 0 0x12000 5 s4 = Inr (5, s5)
    \<and> bytes_at s5 2 0x12000 (ascii ''abcde'')" by simp blast
  with s(1) show ?thesis by blast
qed

lemma client_refs:
  assumes "fresh_fs s disk_sb r"
  shows "\<forall>m \<in> {..<4}. dent_nr (client s) 262 m \<noteq> of_nat 5"
proof
  fix m :: nat assume "m \<in> {..<4}"
  then have m: "m < 4" by simp
  note f = fresh_facts [OF fresh_client [THEN iffD2, OF assms]]
  have "dent_nr (client s) 262 m = of_nat m + 1" using f(11) [OF m] by simp
  moreover have "m = 0 \<or> m = 1 \<or> m = 2 \<or> m = 3" using m by linarith
  then have "of_nat m + 1 \<noteq> (of_nat 5 :: u32)" by (elim disjE) simp_all
  ultimately show "dent_nr (client s) 262 m \<noteq> of_nat 5" by simp
qed



lemma names_refine_witness:
  "\<exists>s s1 s2 r. init_fs 0x70000 power_on = Inr s \<and> api_open (request DEV_OPEN 0) 2 0x10300 O_CREAT (client s) = Inr (0, s1)
    \<and> api_close (request DEV_OPEN 0) 2 0 s1 = Inr s2 \<and> listing s2 disk_sb r 5 (boot_names(4 \<mapsto> ascii ''bar''))"
proof -
  obtain s r where s: "init_fs 0x70000 power_on = Inr s" "fresh_fs s disk_sb r" "\<forall>a. lin (hk (hs (client s))) 2 a = a" "fsb (client s) = 0x600000"
    "free_fd (client s) 2 0 0" using first_client by blast
  have L: "listing (client s) disk_sb r 4 boot_names" using fresh_listing s(2) by (simp add: fresh_client)
  have nm: "names (client s) 2 0x10300 (ascii ''/bar'') (ascii ''bar'')"
    using test_names [OF client_string(4) [OF s(3,4)]] by (simp add: ascii_def)
  have sp: "space_for disk_sb 4" by (simp add: space_for_def place_def disk_sb_fields)
  have fl: "O_CREAT AND O_CREAT \<noteq> 0" by (simp add: O_CREAT_def)
  from names_refine [OF L nm s(5) sp, THEN conjunct1, rule_format, OF conjI [OF free_entries(1) conjI [OF new_names(2) fl]]]
  show ?thesis using s(1) by fastforce
qed

end
