(* ===== verification/Fs_Allocator.thy ===== *)
theory Fs_Allocator
  imports Fs_Slots
begin

text \<open>
  The two bit maps as one interface: a pool of numbered units of which the lowest free one is allocated. The locale
  \<open>allocator\<close> is what the operations on files rely on; inodes and slots of sectors both provide it.
\<close>

section \<open>The interface\<close>

locale allocator =
  fixes alloc :: "'s \<Rightarrow> fault + int \<times> 's"
    and free :: "int \<Rightarrow> 's \<Rightarrow> fault + 's"
    and taken :: "'s \<Rightarrow> nat set"
    and name :: "nat \<Rightarrow> int"
    and cap :: nat
    and valid :: "'s \<Rightarrow> bool"
  assumes alloc_ok: "valid s \<Longrightarrow> k \<notin> taken s \<Longrightarrow> {..<k} \<subseteq> taken s \<Longrightarrow> k < cap \<Longrightarrow>
      \<exists>s'. alloc s = Inr (name k, s') \<and> taken s' = insert k (taken s) \<and> valid s'"
    and free_ok: "valid s \<Longrightarrow> k \<in> taken s \<Longrightarrow> k < cap \<Longrightarrow> \<exists>s'. free (name k) s = Inr s' \<and> taken s' = taken s - {k} \<and> valid s'"
begin

lemma lowest_free:
  assumes "\<not> {..<cap} \<subseteq> taken s"
  shows "\<exists>k < cap. k \<notin> taken s \<and> {..<k} \<subseteq> taken s"
proof -
  define k where "k = (LEAST k. k \<notin> taken s)"
  from assms obtain j where j: "j < cap" "j \<notin> taken s" by auto
  then have "k \<notin> taken s" unfolding k_def by (intro LeastI)
  moreover have "k \<le> j" unfolding k_def by (rule Least_le) (rule j(2))
  moreover have "i \<in> taken s" if "i < k" for i using not_less_Least that unfolding k_def by blast
  ultimately show ?thesis using j(1) by (intro exI [of _ k]) auto
qed

text \<open>A unit that is allocated was free, and freeing it gives the pool back.\<close>

lemma alloc_free:
  assumes "valid s" "\<not> {..<cap} \<subseteq> taken s"
  shows "\<exists>k s' s''. alloc s = Inr (name k, s') \<and> k \<notin> taken s \<and> free (name k) s' = Inr s'' \<and> taken s'' = taken s \<and> valid s''"
proof -
  from lowest_free [OF assms(2)] obtain k where k: "k < cap" "k \<notin> taken s" "{..<k} \<subseteq> taken s" by blast
  from alloc_ok [OF assms(1) k(2,3,1)] obtain s' where s': "alloc s = Inr (name k, s')" "taken s' = insert k (taken s)" "valid s'" by blast
  from free_ok [OF s'(3) _ k(1)] s'(2) k(2) obtain s'' where "free (name k) s' = Inr s''" "taken s'' = taken s" "valid s''" by auto
  with s' k show ?thesis by blast
qed

text \<open>Two allocations in a row never give the same unit.\<close>

lemma alloc_distinct:
  assumes "valid s" "alloc s = Inr (name j, s')" "\<not> {..<cap} \<subseteq> taken s" "\<not> {..<cap} \<subseteq> taken s'" "inj name"
  shows "\<exists>k s''. alloc s' = Inr (name k, s'') \<and> k \<noteq> j \<and> {j, k} \<subseteq> taken s''"
proof -
  from lowest_free [OF assms(3)] obtain i where i: "i < cap" "i \<notin> taken s" "{..<i} \<subseteq> taken s" by blast
  from alloc_ok [OF assms(1) i(2,3,1)] assms(2,5) have s': "taken s' = insert j (taken s)" "valid s'" by (auto dest: injD)
  from lowest_free [OF assms(4)] obtain k where k: "k < cap" "k \<notin> taken s'" "{..<k} \<subseteq> taken s'" by blast
  from alloc_ok [OF s'(2) k(2,3,1)] s'(1) k(2) show ?thesis by auto
qed

text \<open>After a unit was freed an allocation succeeds, even if the pool was full.\<close>

lemma free_alloc:
  assumes "valid s" "k \<in> taken s" "k < cap"
  shows "\<exists>s' j s''. free (name k) s = Inr s' \<and> alloc s' = Inr (name j, s'') \<and> j \<le> k"
proof -
  from free_ok [OF assms] obtain s' where s': "free (name k) s = Inr s'" "taken s' = taken s - {k}" "valid s'" by blast
  define j where "j = (LEAST j. j \<notin> taken s')"
  have "k \<notin> taken s'" using s'(2) by simp
  then have j: "j \<notin> taken s'" "j \<le> k" unfolding j_def by (rule LeastI, rule Least_le)
  have "{..<j} \<subseteq> taken s'" using not_less_Least unfolding j_def by blast
  from alloc_ok [OF s'(3) j(1) this] j(2) assms(3) obtain s'' where "alloc s' = Inr (name j, s'')" by auto
  with s'(1) j(2) show ?thesis by blast
qed

end

section \<open>Inodes\<close>

definition inodes_taken :: "fstate \<Rightarrow> nat set" where
  "inodes_taken s = {i. i < 4096 \<and> bit_at (sect s 2) i}"

interpretation imap: allocator "alloc_imap_bit ROOT_DEV" "free_imap_bit ROOT_DEV" inodes_taken int 4096 "\<lambda>s. \<exists>sb. fs_layout s sb"
proof
  fix s :: fstate and k
  assume v: "\<exists>sb. fs_layout s sb" and k: "k \<notin> inodes_taken s" "{..<k} \<subseteq> inodes_taken s" "k < 4096"
  then obtain sb where l: "fs_layout s sb" by blast
  have nk: "\<not> bit_at (sect s 2) k" "\<And>j. j < k \<Longrightarrow> bit_at (sect s 2) j" using k by (auto simp: inodes_taken_def)
  then have nf: "\<not> (\<forall>i \<in> {..<4096}. bit_at (sect s 2) i)" using k(3) by auto
  from alloc_imap_bit_ok [OF l, unfolded if_not_P [OF nf]] obtain n s' where s': "alloc_imap_bit ROOT_DEV s = Inr (int n, s')" "io_frame s s'"
    "\<not> bit_at (sect s 2) n" "\<forall>i \<in> {..<n}. bit_at (sect s 2) i" "\<forall>i \<in> {..<4096}. bit_at (sect s' 2) i \<longleftrightarrow> bit_at (sect s 2) i \<or> i = n" by blast
  have "n = k" using s'(3,4) nk by (metis lessThan_iff linorder_neqE_nat)
  moreover have "fs_layout s' sb" using l io_frame_simps(11) [OF s'(2)] by simp
  ultimately show "\<exists>s'. alloc_imap_bit ROOT_DEV s = Inr (int k, s') \<and> inodes_taken s' = insert k (inodes_taken s) \<and> (\<exists>sb. fs_layout s' sb)"
    using s'(1,5) k(3) by (intro exI [of _ s']) (auto simp: inodes_taken_def)
next
  fix s :: fstate and k
  assume v: "\<exists>sb. fs_layout s sb" and k: "k \<in> inodes_taken s" "k < 4096"
  then obtain sb where l: "fs_layout s sb" by blast
  from free_imap_bit_ok [OF l k(2)] k(1) obtain s' where s': "free_imap_bit ROOT_DEV (int k) s = Inr s'" "io_frame s s'"
    "\<forall>i < 4096. bit_at (sect s' 2) i \<longleftrightarrow> bit_at (sect s 2) i \<and> i \<noteq> k" by (auto simp: inodes_taken_def)
  moreover have "fs_layout s' sb" using l io_frame_simps(11) [OF s'(2)] by simp
  ultimately show "\<exists>s'. free_imap_bit ROOT_DEV (int k) s = Inr s' \<and> inodes_taken s' = inodes_taken s - {k} \<and> (\<exists>sb. fs_layout s' sb)"
    by (intro exI [of _ s']) (auto simp: inodes_taken_def)
qed

section \<open>Slots of sectors\<close>

text \<open>The map of the file system \<open>sb\<close> is a union of slots; the number of a slot is the sector it begins with.\<close>

definition slots_taken :: "super_block \<Rightarrow> fstate \<Rightarrow> nat set" where
  "slots_taken sb s = {k. 2048 * k + 1 \<in> sector_map sb s}"

definition whole_slots :: "super_block \<Rightarrow> fstate \<Rightarrow> bool" where
  "whole_slots sb s \<longleftrightarrow> fs_layout s sb \<and> sector_map sb s = slots (slots_taken sb s)"

definition slot_cap :: "super_block \<Rightarrow> nat" where
  "slot_cap sb = (4096 * unat (nr_smap_sectors sb) - 1) div 2048"

lemma slots_taken_slots: "sector_map sb s = slots K \<Longrightarrow> slots_taken sb s = K"
  by (auto simp: slots_taken_def slots_def)

lemma slot_cap_fits: "k < slot_cap sb \<Longrightarrow> 2048 * k + 2049 \<le> 4096 * unat (nr_smap_sectors sb)"
proof -
  assume "k < slot_cap sb"
  then have "Suc k * 2048 \<le> 4096 * unat (nr_smap_sectors sb) - 1" unfolding slot_cap_def by (simp add: less_eq_div_iff_mult_less_eq Suc_le_eq [symmetric])
  then show ?thesis by simp
qed

text \<open>The number of a slot fits into an \<open>int\<close>, as the sectors of the map are at most 65536.\<close>

interpretation smap: allocator "alloc_smap_bit ROOT_DEV NR_DEFAULT_FILE_SECTS"
    "\<lambda>start. free_smap_bits ROOT_DEV sb (of_int start) (of_int NR_DEFAULT_FILE_SECTS)" "slots_taken sb"
    "\<lambda>k. int (unat (n_1st_sector sb) + 2048 * k)" "slot_cap sb" "whole_slots sb" for sb
proof
  fix s :: fstate and k
  assume v: "whole_slots sb s" and k: "k \<notin> slots_taken sb s" "{..<k} \<subseteq> slots_taken sb s" "k < slot_cap sb"
  then have l: "fs_layout s sb" and m: "sector_map sb s = slots (slots_taken sb s)" by (simp_all add: whole_slots_def)
  from alloc_slot [OF l m k(1,2) slot_cap_fits [OF k(3)]] obtain s' where s': "alloc_smap_bit ROOT_DEV NR_DEFAULT_FILE_SECTS s = Inr (int (unat (n_1st_sector sb) + 2048 * k), s')"
    "sector_map sb s' = slots (insert k (slots_taken sb s))" "io_frame s s'" by blast
  moreover have "fs_layout s' sb" using l io_frame_simps(11) [OF s'(3)] by simp
  ultimately show "\<exists>s'. alloc_smap_bit ROOT_DEV NR_DEFAULT_FILE_SECTS s = Inr (int (unat (n_1st_sector sb) + 2048 * k), s')
      \<and> slots_taken sb s' = insert k (slots_taken sb s) \<and> whole_slots sb s'"
    using slots_taken_slots [OF s'(2)] by (intro exI [of _ s']) (simp add: whole_slots_def)
next
  fix s :: fstate and k
  assume v: "whole_slots sb s" and k: "k \<in> slots_taken sb s" "k < slot_cap sb"
  then have l: "fs_layout s sb" and m: "sector_map sb s = slots (slots_taken sb s)" by (simp_all add: whole_slots_def)
  note fits = slot_cap_fits [OF k(2)]
  have "unat (nr_smap_sectors sb) \<le> 2 ^ 16" using l by (simp add: fs_layout_def)
  with fits first_sector [OF l] have "unat (n_1st_sector sb) + 2048 * k < 2 ^ 32" by simp
  then have st: "unat (of_int (int (unat (n_1st_sector sb) + 2048 * k)) :: u32) = unat (n_1st_sector sb) + 2048 * k"
    unfolding of_int_of_nat_eq by (intro unat_of_nat_small) simp
  from free_slot [OF l m k(1) fits st] obtain s' where s': "free_smap_bits ROOT_DEV sb (of_int (int (unat (n_1st_sector sb) + 2048 * k))) (of_int NR_DEFAULT_FILE_SECTS) s = Inr s'"
    "sector_map sb s' = slots (slots_taken sb s - {k})" "io_frame s s'" by blast
  moreover have "fs_layout s' sb" using l io_frame_simps(11) [OF s'(3)] by simp
  ultimately show "\<exists>s'. free_smap_bits ROOT_DEV sb (of_int (int (unat (n_1st_sector sb) + 2048 * k))) (of_int NR_DEFAULT_FILE_SECTS) s = Inr s'
      \<and> slots_taken sb s' = slots_taken sb s - {k} \<and> whole_slots sb s'"
    using slots_taken_slots [OF s'(2)] by (intro exI [of _ s']) (simp add: whole_slots_def)
qed

text \<open>Both maps give back what they took, and never give the same unit twice.\<close>

lemma inode_alloc_free:
  assumes "fs_layout s sb" "\<not> {..<4096} \<subseteq> inodes_taken s"
  shows "\<exists>k s' s''. alloc_imap_bit ROOT_DEV s = Inr (int k, s') \<and> k \<notin> inodes_taken s \<and> free_imap_bit ROOT_DEV (int k) s' = Inr s''
    \<and> inodes_taken s'' = inodes_taken s"
  using imap.alloc_free [of s] assms by blast

lemma slots_distinct:
  assumes "whole_slots sb s" "alloc_smap_bit ROOT_DEV NR_DEFAULT_FILE_SECTS s = Inr (int (unat (n_1st_sector sb) + 2048 * j), s')"
    and "\<not> {..<slot_cap sb} \<subseteq> slots_taken sb s" "\<not> {..<slot_cap sb} \<subseteq> slots_taken sb s'"
  shows "\<exists>k s''. alloc_smap_bit ROOT_DEV NR_DEFAULT_FILE_SECTS s' = Inr (int (unat (n_1st_sector sb) + 2048 * k), s'') \<and> k \<noteq> j
    \<and> {j, k} \<subseteq> slots_taken sb s''"
  by (rule smap.alloc_distinct [OF assms]) (simp add: inj_def)

end
