(* ===== verification/Hd_Report.thy ===== *)
theory Hd_Report
  imports Disk
begin

text \<open>
  What the hard disk driver prints about the drive: \<open>print_identify_info\<close> and \<open>print_hdinfo\<close> of \<^verbatim>\<open>kernel/hd.c\<close>, as the
  lists of the texts that their calls of \<open>printf\<close> produce.
\<close>

section \<open>The identification\<close>

text \<open>The loop over the characters of a text: the two bytes of a word are swapped. \<open>%s\<close> stops at a zero byte.\<close>

definition id_string :: "(nat \<Rightarrow> u16) \<Rightarrow> nat \<Rightarrow> nat \<Rightarrow> u8 list" where
  "id_string hdinfo idx len = takeWhile (\<lambda>c. c \<noteq> 0)
     (concat (map (\<lambda>i. [ucast (drop_bit 8 (hdinfo (idx + i))), ucast (hdinfo (idx + i))]) [0..<len div 2]))"

definition hd_sectors :: "(nat \<Rightarrow> u16) \<Rightarrow> int" where
  "hd_sectors hdinfo = wrap_int (wrap_int (uint (hdinfo 61) * 2 ^ 16) + uint (hdinfo 60))"

definition hd_size_mb :: "(nat \<Rightarrow> u16) \<Rightarrow> int" where
  "hd_size_mb hdinfo = wrap_int (hd_sectors hdinfo * 512) sdiv (1024 * 1024)"

definition print_identify_info :: "(nat \<Rightarrow> u16) \<Rightarrow> fault + u8 list list" where
  "print_identify_info hdinfo = format_lines
     [(''%s: %s'', [Str (ascii ''HD SN''), Str (id_string hdinfo 10 20)]),
      (''%s: %s'', [Str (ascii ''HD Model''), Str (id_string hdinfo 27 40)]),
      (''LBA supported: %s'', [Str (ascii (if hdinfo 49 AND 0x200 \<noteq> 0 then ''Yes'' else ''No''))]),
      (''LBA48 supported: %s'', [Str (ascii (if hdinfo 83 AND 0x400 \<noteq> 0 then ''Yes'' else ''No''))]),
      (''HD size: %dMB'', [Word (word_of_int (hd_size_mb hdinfo))])]"

section \<open>The partitions\<close>

definition part_args :: "part_info \<Rightarrow> fmt_arg list" where
  "part_args p = [Word (part_base p), Word (part_base p), Word (part_size p), Word (part_size p)]"

definition print_hdinfo :: "hd_info \<Rightarrow> fault + u8 list list" where
  "print_hdinfo p = format_lines
     (map (\<lambda>i. (''%sPART_%d: base %d(%x), size %d(%x) (in sector)'',
         Str (ascii (if i = 0 then '' '' else ''     '')) # Word (of_nat i) # part_args (primary p i))) [0..<nat NR_PART_PER_DRIVE + 1]
      @ map (\<lambda>i. (''       %d: base %d(%x), size %d(%x) (in sector)'', Word (of_nat i) # part_args (logical p i)))
          (filter (\<lambda>i. part_size (logical p i) \<noteq> 0) [0..<nat NR_SUB_PER_DRIVE]))"

text \<open>
  The size is right below 2 GB. From there on the number of bytes does not fit into an \<open>int\<close>: a disk of 2 to 4 GB is
  reported with a negative size.
\<close>

lemma hd_size_mb_small:
  assumes "hd_sectors hdinfo = n" "0 \<le> n" "n < 2 ^ 22"
  shows "hd_size_mb hdinfo = n div 2048"
proof -
  have "wrap_int (n * 512) = n * 512" using assms(2,3) by (intro wrap_int_id) auto
  moreover have "n * 512 div (2048 * 512) = n div 2048" by (rule div_mult_mult2) simp
  ultimately show ?thesis using assms(2) by (simp add: hd_size_mb_def assms(1) signed_divide_int_def sgn_if)
qed

lemma hd_size_mb_negative:
  assumes "hd_sectors hdinfo = n" "2 ^ 22 \<le> n" "n < 2 ^ 23"
  shows "hd_size_mb hdinfo \<le> 0"
proof -
  have "n * 512 + 2 ^ 31 = (n * 512 - 2 ^ 31) + 2 ^ 32" by simp
  then have "(n * 512 + 2 ^ 31) mod 2 ^ 32 = (n * 512 - 2 ^ 31) mod 2 ^ 32" by (simp only: mod_add_self2)
  also have "\<dots> = n * 512 - 2 ^ 31" using assms(2,3) by (intro mod_pos_pos_trivial) simp_all
  finally have w: "wrap_int (n * 512) = n * 512 - 2 ^ 32" by (simp add: wrap_int_def)
  have "n * 512 - 2 ^ 32 < 0" using assms(3) by simp
  then have "(n * 512 - 2 ^ 32) sdiv (1024 * 1024) = - ((2 ^ 32 - n * 512) div (1024 * 1024))"
    by (simp add: signed_divide_int_def sgn_if)
  also have "\<dots> \<le> 0" using assms(3) pos_imp_zdiv_nonneg_iff [of "1024 * 1024" "2 ^ 32 - n * 512"] by simp
  finally show ?thesis by (simp add: hd_size_mb_def assms(1) w)
qed

end
