(* ===== verification/Spec2Isabelle.thy ===== *)
theory Spec2Isabelle
  imports Term_Examples Client_Examples Fs_Allocator Hd_Report Early_Display
begin

text \<open>
  A verification library of a small i386 operating system: a kernel with a clock, message passing, a keyboard and
  consoles, and the tasks that serve the processes: terminals, system information, hard disk and file system.

  \<^bold>\<open>How the program is put together.\<close> \<open>cstart\<close> and \<open>kernel_main\<close> build the tables and enter the first process. From then on
  the kernel runs in interrupts: the clock schedules, the keyboard and the drive record input, and the system call gate gives
  processes five services, of which \<open>sendrec\<close> is the one that everything else is built on: a client sends a message to a
  task and receives the reply. The file system task is a client of the hard disk task, and that one of the system task.

  \<^bold>\<open>State.\<close> A C \<open>struct\<close> is a record with the source's field names; a pointer into a table is an index, null is
  \<open>None\<close>; addresses are 32-bit words and memory maps them to bytes. \<open>kstate\<close> (Process) is the kernel's state, \<open>terminals\<close>
  (Tty) adds the consoles and the keyboard, \<open>hstate\<close> (Disk) the disk and the partition table, and \<open>fstate\<close> (Fs\_Base) the
  tables of the file system. Unsigned and bitwise values are words, an \<open>int\<close> is an integer that is wrapped to 32 bits
  (\<open>wrap_int\<close>) where it may overflow. A computation that may fail has the type \<open>fault + 'a\<close> (Prelude): a failed assertion
  with its line, a halt, an access outside of an array or through a null pointer, a loop that never ends, a wait that
  never ends. The loops without a bound are \<open>partial_function (option)\<close> (\<open>schedule_loop\<close>, \<open>deadlock_loop\<close>, \<open>queue_tail\<close>,
  \<open>scroll_loop\<close>, \<open>delay_loop\<close>, \<open>wait_loop\<close>), where \<open>None\<close> is "does not return"; there is no fuel.

  \<^bold>\<open>The parts, in the order of the imports.\<close>

  \<^item> Prelude: types, faults and their simplification rules. Ring: the locale \<open>bounded_fifo\<close>, interpreted by
    the scan code buffer (Keyboard) and the input buffers of the terminals (Tty).
  \<^item> Memory (\<^verbatim>\<open>lib/memory.asm\<close>), CString (\<^verbatim>\<open>lib/string.c\<close>), Format (\<^verbatim>\<open>lib/vsprintf.c\<close>): block operations, strings, formatted
    output; what \<open>kmemcpy\<close> copies (it rounds up to double words), digits that read back.
  \<^item> Protect (\<^verbatim>\<open>kernel/protect.c\<close>, \<^verbatim>\<open>kernel/i8259A.c\<close>): descriptors and gates; every vector leads to its handler.
  \<^item> Process, Clock (\<^verbatim>\<open>kernel/clock.c\<close>): the process table; the scheduler picks a process with the most ticks, returns exactly
    when one can run, and starves nobody.
  \<^item> Ipc (\<^verbatim>\<open>kernel/ipc.c\<close>) holds the operations, Ipc\_Queue the queues of senders as linked lists, Ipc\_Correct the invariant
    with the locale \<open>scheduler\<close>, Ipc\_Refine the abstract machine that they implement: a status and a list of waiting
    senders for each process.
  \<^item> System\_Calls (\<^verbatim>\<open>kernel/system_calls.c\<close>): the system calls, interrupt messages, and the step relation \<open>kernel_step\<close> of clock
    interrupts and system calls with its reachable states.
  \<^item> Kernel\_Main (\<^verbatim>\<open>kernel/main.c\<close>, \<^verbatim>\<open>kernel/global.c\<close>): the boot code establishes the invariant. Start (\<^verbatim>\<open>kernel/start.c\<close>):
    \<open>cstart\<close> takes over the loader's descriptors, and they reach the processes.
  \<^item> Console, Keyboard, Tty (\<^verbatim>\<open>kernel/console.c\<close>, \<^verbatim>\<open>kernel/keyboard.c\<close>, \<^verbatim>\<open>kernel/tty.c\<close>): printing stays inside of its console
    and ends; scan codes are translated; a pass of the terminal task keeps buffers and consoles consistent.
    Early\_Display: output before there are terminals (\<^verbatim>\<open>lib/kliba.asm\<close>) and the report of an exception (\<^verbatim>\<open>kernel/protect.c\<close>).
  \<^item> Disk (\<^verbatim>\<open>kernel/hd.c\<close>): registers, transfer, partitions, requests. Disk\_Correct: a request moves exactly its sectors,
    and opening the drive reads the partition table. Hd\_Report: what the driver prints.
    Sys\_Task (\<^verbatim>\<open>kernel/systask.c\<close>, \<^verbatim>\<open>lib/time.c\<close>): \<open>get_ticks\<close> and the two loops that wait with it.
  \<^item> Fs\_Base to Fs\_Init (\<^verbatim>\<open>fs/fs.c\<close>, \<^verbatim>\<open>fs/open.c\<close>, \<^verbatim>\<open>fs/link.c\<close>): data and requests to the driver (Fs\_Base), inodes
    (Fs\_Inode), bit maps (Fs\_Alloc), the directory (Fs\_Dir), the requests of the clients (Fs\_Ops), \<open>mkfs\<close>, \<open>init_fs\<close> and the
    client functions of \<^verbatim>\<open>kernel/api.c\<close> (Fs\_Init).
  \<^item> Their correctness: Fs\_Device (the root device is a \<open>block_device\<close>, a locale), Fs\_Inode (the cache of inodes and
    their places on the disk), Fs\_Map and Fs\_Slots (the maps as sets of bits; files take slots of 2048 sectors),
    Fs\_Allocator (both maps implement the locale \<open>allocator\<close>), Fs\_Search, Fs\_Entries and Fs\_Unlink (the directory as a list of
    entries), Fs\_Files (a file as a sequence of bytes), Fs\_Refs (references to inodes under every request), Fs\_Boot (\<open>init_fs\<close>
    makes an empty file system that satisfies all of this) and Fs\_Create (creating a file).
  \<^item> The view of a process: Fs\_Client (the functions of the API on a file: what is created, written, closed and opened again is
    read back), Fs\_Remove (\<open>do_unlink\<close>; creating and removing leaves nothing behind), Fs\_Listing (the abstract file system, a map of
    names: \<open>listing\<close> relates it to the disk, and creating and removing implement the update of the map), Test\_Programs
    (\<^verbatim>\<open>kernel/process.c\<close>: what \<open>TestB\<close> prints when it runs through driver, file system and API, and the pace of the
    loops) and TestA\_Run (what \<open>TestA\<close> prints).
  \<^item> Boot\_Examples, Term\_Examples, Fs\_Examples, Client\_Examples: the theorems at concrete states.

  \<^bold>\<open>What the file system theorems need.\<close> \<open>fs_layout\<close> says that the super block in memory is one that \<open>mkfs\<close> writes and that
  its sectors can be addressed: the partition has at most \<open>2 ^ 22\<close> sectors, since a byte offset is an \<open>int\<close>, and ends
  below sector \<open>2 ^ 28\<close>. A transfer of a file fits into one request of 256 sectors, the most that the driver completes. The
  caller's buffer lies outside of the 1 MB buffer of the file system (\<open>apart\<close>). \<open>init_fs_ok\<close> shows that booting on a
  partition of at least 261 sectors establishes the rest.

  \<^bold>\<open>Parameters.\<close> The hardware is not part of the program. The disk is an array of bytes with the behaviour of an ATA
  controller as the driver relies on it (Disk); the clock that a waiting process sees is any function of the call number, of
  which the theorems require that it misses no tick and goes on (\<open>ticking\<close>); addresses of stack variables and
  of tables are arguments.

  \<^bold>\<open>Not modelled.\<close> The boot loader and the entry code that saves registers and switches stacks (\<^verbatim>\<open>kernel/kernel.asm\<close>,
  \<^verbatim>\<open>kernel/syscall.asm\<close>): privileged instructions, whose effect is an input of the operations
  here. The 256-byte buffer of \<open>printf\<close>: texts are lists. \<^verbatim>\<open>obsolete/\<close>: not part of the kernel. The exchange
  of messages between two tasks inside of a request is a call of the server's request function, as the theorems on \<open>sys_sendrec\<close>
  describe the exchange itself. What the file system task and the open of the drive print is not part of their state
  changes (Hd\_Report has the texts of the driver).
\<close>

end
